(* ===== verification/Prelude.thy ===== *)
theory Prelude
  imports Main "HOL-Library.Word"
begin

text \<open>
  The vocabulary every component of the development shares: the exceptions the client raises as
  values of a datatype, results as \<open>py_error + 'a\<close> with one sequencing operation, Python's
  dynamically typed values, \<open>bytes\<close> as lists of 8-bit words, \<open>struct\<close>'s big-endian packing,
  strict UTF-8, and the generic lemmas on lists and results the component proofs rest on.
\<close>

named_theorems wire_simps \<open>facts that evaluate wire primitives at a known offset\<close>
named_theorems size_simps \<open>facts that compute encoded sizes\<close>

section \<open>Exceptions and results\<close>

text \<open>
  One constructor per exception class the modelled code raises or catches. The constructors
  that correspond to subclasses of \<open>FerricStoreError\<close> are collected by
  \<open>is_ferricstore_error\<close>, which is what \<open>except FerricStoreError\<close> matches. The string is the
  constant part of the message.
\<close>

datatype py_error =
    FerricStoreError string
  | DecodedCollectionLimitError string
  | EncodedValueLimitError string
  | DuplicateProtocolMapKeyError string
  | InvalidCommandError string
  | OverloadedError string
  | PendingRequestCapacityError string
  | RuntimeError string
  | ValueError string
  | TypeErr string
  | KeyError
  | IndexError
  | StructError
  | OverflowError
  | ZlibError
  | UnicodeEncodeError
  | UnicodeDecodeError
  | TimeoutError string
  | ConnectionError string
  | AttributeError string

fun is_ferricstore_error :: "py_error \<Rightarrow> bool" where
  "is_ferricstore_error (FerricStoreError _) = True"
| "is_ferricstore_error (DecodedCollectionLimitError _) = True"
| "is_ferricstore_error (EncodedValueLimitError _) = True"
| "is_ferricstore_error (DuplicateProtocolMapKeyError _) = True"
| "is_ferricstore_error (InvalidCommandError _) = True"
| "is_ferricstore_error (OverloadedError _) = True"
| "is_ferricstore_error _ = False"

type_synonym 'a result = "py_error + 'a"

definition and_then :: "'a result \<Rightarrow> ('a \<Rightarrow> 'b result) \<Rightarrow> 'b result" where
  "and_then m f = (case m of Inl e \<Rightarrow> Inl e | Inr x \<Rightarrow> f x)"

definition guard :: "bool \<Rightarrow> py_error \<Rightarrow> unit result" where
  "guard ok e = (if ok then Inr () else Inl e)"

lemma and_then_simps [simp]:
  "and_then (Inl e) f = Inl e"
  "and_then (Inr x) f = f x"
  by (simp_all add: and_then_def)

lemma and_then_cong [fundef_cong]:
  assumes "m = m'" and "\<And>x. m' = Inr x \<Longrightarrow> f x = g x"
  shows "and_then m f = and_then m' g"
  using assms by (simp add: and_then_def split: sum.split)

lemma and_then_eq_Inr [simp]:
  "and_then m f = Inr y \<longleftrightarrow> (\<exists>x. m = Inr x \<and> f x = Inr y)"
  by (cases m) auto

lemma and_then_eq_Inl:
  "and_then m f = Inl e \<longleftrightarrow> m = Inl e \<or> (\<exists>x. m = Inr x \<and> f x = Inl e)"
  by (cases m) auto

lemma and_then_assoc:
  "and_then (and_then m f) g = and_then m (\<lambda>x. and_then (f x) g)"
  by (cases m) auto

lemma guard_eq_Inr [simp]: "guard ok e = Inr u \<longleftrightarrow> ok"
  by (simp add: guard_def)

lemma guard_eq_Inl [simp]: "guard ok e = Inl e' \<longleftrightarrow> \<not> ok \<and> e' = e"
  by (auto simp: guard_def)

lemma guard_holds: "ok \<Longrightarrow> guard ok e = Inr ()"
  by (simp add: guard_def)

section \<open>Bytes and big-endian integers\<close>

type_synonym byte = "8 word"
type_synonym bytes = "byte list"
type_synonym ustr = "nat list"

definition bytes_lit :: "string \<Rightarrow> bytes" where
  "bytes_lit s = map of_char s"

definition text_lit :: "string \<Rightarrow> ustr" where
  "text_lit s = map of_char s"

primrec be_encode :: "nat \<Rightarrow> nat \<Rightarrow> bytes" where
  "be_encode 0 n = []"
| "be_encode (Suc k) n = be_encode k (n div 256) @ [of_nat n]"

definition be_decode :: "bytes \<Rightarrow> nat" where
  "be_decode bs = foldl (\<lambda>acc b. acc * 256 + unat b) 0 bs"

lemma be_decode_Nil [simp]: "be_decode [] = 0"
  by (simp add: be_decode_def)

lemma be_decode_snoc [simp]: "be_decode (bs @ [b]) = be_decode bs * 256 + unat b"
  by (simp add: be_decode_def)

lemma length_be_encode [simp]: "length (be_encode k n) = k"
  by (induction k arbitrary: n) auto

lemma unat_byte_of_nat: "unat (of_nat n :: byte) = n mod 256"
  by (simp add: unat_of_nat)

lemma be_decode_encode: "be_decode (be_encode k n) = n mod 256 ^ k"
proof (induction k arbitrary: n)
  case (Suc k)
  have "n mod (256 * 256 ^ k) = 256 * (n div 256 mod 256 ^ k) + n mod 256"
    by (rule mod_mult2_eq)
  with Suc show ?case
    by (simp add: unat_byte_of_nat mult.commute)
qed simp

lemma be_decode_bound: "be_decode bs < 256 ^ length bs"
proof (induction bs rule: rev_induct)
  case (snoc b bs)
  have "unat b < 256" using unsigned_less [of b, where ?'a = nat] by simp
  with snoc show ?case by simp
qed simp

lemma byte_of_nat_low: "(of_nat (n * 256 + unat b) :: byte) = b"
proof (rule word_unat_eq_iff [THEN iffD2])
  have "unat b < 256" using unsigned_less [of b, where ?'a = nat] by simp
  then show "unat (of_nat (n * 256 + unat b) :: byte) = unat b"
    by (simp only: unat_byte_of_nat) simp
qed

lemma be_encode_decode: "be_encode (length bs) (be_decode bs) = bs"
proof (induction bs rule: rev_induct)
  case (snoc b bs)
  have "unat b < 256" using unsigned_less [of b, where ?'a = nat] by simp
  with snoc show ?case
    by (simp add: byte_of_nat_low del: of_nat_add of_nat_mult)
qed simp

section \<open>\<open>struct\<close> codecs\<close>

definition U16_MAX :: int where "U16_MAX = 2 ^ 16 - 1"
definition U32_MAX :: int where "U32_MAX = 2 ^ 32 - 1"
definition I64_MIN :: int where "I64_MIN = - (2 ^ 63)"
definition I64_MAX :: int where "I64_MAX = 2 ^ 63 - 1"
definition U64_MAX :: int where "U64_MAX = 2 ^ 64 - 1"

lemmas int_limits = U16_MAX_def U32_MAX_def I64_MIN_def I64_MAX_def U64_MAX_def

definition pack_uint :: "nat \<Rightarrow> int \<Rightarrow> bytes result" where
  "pack_uint k n = (if 0 \<le> n \<and> n < 256 ^ k then Inr (be_encode k (nat n)) else Inl StructError)"

definition pack_u32 :: "int \<Rightarrow> bytes result" where
  "pack_u32 = pack_uint 4"

definition pack_u64 :: "int \<Rightarrow> bytes result" where
  "pack_u64 = pack_uint 8"

definition pack_i64 :: "int \<Rightarrow> bytes result" where
  "pack_i64 n = (if I64_MIN \<le> n \<and> n \<le> I64_MAX then Inr (be_encode 8 (nat (n mod 2 ^ 64)))
                 else Inl StructError)"

definition unpack_i64 :: "bytes \<Rightarrow> int" where
  "unpack_i64 bs = (let n = int (be_decode bs) in if n < 2 ^ 63 then n else n - 2 ^ 64)"

definition pack_f64 :: "64 word \<Rightarrow> bytes" where
  "pack_f64 x = be_encode 8 (unat x)"

definition unpack_f64 :: "bytes \<Rightarrow> 64 word" where
  "unpack_f64 bs = of_nat (be_decode bs)"

definition u32_bytes :: "nat \<Rightarrow> bytes" where
  "u32_bytes n = be_encode 4 n"

definition u64_bytes :: "nat \<Rightarrow> bytes" where
  "u64_bytes n = be_encode 8 n"

definition i64_bytes :: "int \<Rightarrow> bytes" where
  "i64_bytes n = be_encode 8 (nat (n mod 2 ^ 64))"

lemma length_fixed_bytes [simp]:
  "length (u32_bytes n) = 4" "length (u64_bytes n) = 8" "length (i64_bytes i) = 8"
  "length (pack_f64 x) = 8"
  by (simp_all add: u32_bytes_def u64_bytes_def i64_bytes_def pack_f64_def)

lemma fixed_bytes_nonempty [simp]:
  "u32_bytes n \<noteq> []" "u64_bytes n \<noteq> []" "i64_bytes i \<noteq> []" "pack_f64 x \<noteq> []"
  by (metis length_fixed_bytes list.size(3) zero_neq_numeral)+

lemma pack_u32_of_nat [simp]:
  "pack_u32 (int n) = (if n < 2 ^ 32 then Inr (u32_bytes n) else Inl StructError)"
proof -
  have "int n < 2 ^ 32 \<longleftrightarrow> n < 2 ^ 32"
    by (metis of_nat_less_numeral_power_cancel_iff)
  then show ?thesis
    by (simp add: pack_u32_def pack_uint_def u32_bytes_def)
qed

lemma unpack_u32 [simp]: "n < 2 ^ 32 \<Longrightarrow> be_decode (u32_bytes n) = n"
  by (simp add: u32_bytes_def be_decode_encode)

lemma unpack_u64 [simp]: "n < 2 ^ 64 \<Longrightarrow> be_decode (u64_bytes n) = n"
  by (simp add: u64_bytes_def be_decode_encode)

lemma unpack_i64_bytes [simp]:
  assumes "I64_MIN \<le> n" and "n \<le> I64_MAX"
  shows "unpack_i64 (i64_bytes n) = n"
proof -
  have "int (be_decode (i64_bytes n)) = n mod 2 ^ 64"
    by (simp add: i64_bytes_def be_decode_encode nat_mod_as_int)
  moreover have "n mod 2 ^ 64 = (if 0 \<le> n then n else n + 2 ^ 64)"
  proof (cases "0 \<le> n")
    case True
    with assms show ?thesis by (simp add: I64_MAX_def)
  next
    case False
    with assms have "(n + 2 ^ 64) mod 2 ^ 64 = n + 2 ^ 64"
      by (intro mod_pos_pos_trivial) (simp_all add: I64_MIN_def)
    with False show ?thesis by simp
  qed
  ultimately show ?thesis
    using assms by (simp add: unpack_i64_def Let_def I64_MIN_def I64_MAX_def)
qed

lemma unpack_i64_range:
  assumes "length bs = 8"
  shows "I64_MIN \<le> unpack_i64 bs \<and> unpack_i64 bs \<le> I64_MAX"
proof -
  have "be_decode bs < 2 ^ 64"
    using be_decode_bound [of bs] assms by simp
  then have "int (be_decode bs) < 2 ^ 64"
    by (metis of_nat_less_numeral_power_cancel_iff)
  then show ?thesis
    by (simp add: unpack_i64_def Let_def I64_MIN_def I64_MAX_def)
qed

lemma unpack_f64_pack [simp]: "unpack_f64 (pack_f64 x) = x"
proof -
  have "unat x < 2 ^ 64" using unsigned_less [of x, where ?'a = nat] by simp
  then show ?thesis
    by (simp add: unpack_f64_def pack_f64_def be_decode_encode)
qed

section \<open>Reading at an offset\<close>

definition bytes_slice :: "bytes \<Rightarrow> nat \<Rightarrow> nat \<Rightarrow> bytes" where
  "bytes_slice d at n = take n (drop at d)"

definition byte_at :: "bytes \<Rightarrow> nat \<Rightarrow> byte result" where
  "byte_at d i = (if i < length d then Inr (d ! i) else Inl IndexError)"

lemma bytes_slice_exact [simp]:
  "length m = n \<Longrightarrow> bytes_slice (p @ m @ s) (length p) n = m"
  by (simp add: bytes_slice_def)

lemma length_bytes_slice: "at + n \<le> length d \<Longrightarrow> length (bytes_slice d at n) = n"
  by (simp add: bytes_slice_def)

lemma bytes_slice_append [simp]:
  "at + n \<le> length d \<Longrightarrow> bytes_slice (d @ s) at n = bytes_slice d at n"
  by (simp add: bytes_slice_def)

lemma byte_at_append [simp]: "i < length d \<Longrightarrow> byte_at (d @ s) i = byte_at d i"
  by (simp add: byte_at_def nth_append)

lemma byte_at_exact [simp]: "byte_at (p @ b # s) (length p) = Inr b"
  by (simp add: byte_at_def)

section \<open>Invariants of event sequences\<close>

text \<open>
  The contract of a component that reacts to events: every reaction keeps the invariant. Then it holds
  after every sequence of events from a state that has it.
\<close>

locale preserved =
  fixes react :: "'s \<Rightarrow> 'e \<Rightarrow> 's"
    and inv :: "'s \<Rightarrow> bool"
  assumes keeps: "inv s \<Longrightarrow> inv (react s e)"
begin

lemma after_events: "inv s \<Longrightarrow> inv (foldl react s es)"
  by (induction es arbitrary: s) (simp_all add: keeps)

end

end
