(* ===== verification/Python_Values.thy ===== *)
theory Python_Values
  imports Prelude
begin

text \<open>
  Python's dynamically typed values as the client sees them, strict UTF-8 (\<open>str.encode\<close> and
  \<open>bytes.decode\<close>), and the dictionary lookup the protocol code shares
  (\<open>_map_get\<close> of \<open>protocol_common.py\<close>). A \<open>str\<close> is its list of code points, so lone
  surrogates are representable and are rejected by the encoder, as in Python. A \<open>float\<close> is its
  IEEE-754 bit pattern, which is all that \<open>struct\<close>'s \<open>>d\<close> reads or writes. A \<open>dict\<close> is its list
  of items in insertion order. \<open>PObject\<close> is any other object, by the name of its type, except for the
  one private dataclass that travels in argument lists, \<open>_FlowQueryCommandOptions\<close>, whose deadline
  and routing key \<open>PQueryOptions\<close> holds.
\<close>

datatype pyval =
    PNone
  | PBool bool
  | PInt int
  | PFloat "64 word"
  | PStr ustr
  | PBytes bytes
  | PByteArray bytes
  | PList "pyval list"
  | PTuple "pyval list"
  | PDict "(pyval \<times> pyval) list"
  | PObject string
  | PQueryOptions "int option" pyval

section \<open>UTF-8\<close>

definition is_surrogate :: "nat \<Rightarrow> bool" where
  "is_surrogate c \<longleftrightarrow> 0xD800 \<le> c \<and> c \<le> 0xDFFF"

definition is_scalar :: "nat \<Rightarrow> bool" where
  "is_scalar c \<longleftrightarrow> c \<le> 0x10FFFF \<and> \<not> is_surrogate c"

definition utf8_width :: "nat \<Rightarrow> nat" where
  "utf8_width c = (if c \<le> 0x7F then 1 else if c \<le> 0x7FF then 2 else if c \<le> 0xFFFF then 3 else 4)"

definition utf8_char :: "nat \<Rightarrow> bytes" where
  "utf8_char c =
     (if c \<le> 0x7F then [of_nat c]
      else if c \<le> 0x7FF then [of_nat (0xC0 + c div 64), of_nat (0x80 + c mod 64)]
      else if c \<le> 0xFFFF then
        [of_nat (0xE0 + c div 4096), of_nat (0x80 + c div 64 mod 64), of_nat (0x80 + c mod 64)]
      else
        [of_nat (0xF0 + c div 262144), of_nat (0x80 + c div 4096 mod 64),
         of_nat (0x80 + c div 64 mod 64), of_nat (0x80 + c mod 64)])"

fun utf8_encode :: "ustr \<Rightarrow> bytes result" where
  "utf8_encode [] = Inr []"
| "utf8_encode (c # cs) =
     (if is_surrogate c then Inl UnicodeEncodeError
      else and_then (utf8_encode cs) (\<lambda>bs. Inr (utf8_char c @ bs)))"

definition continuation :: "byte \<Rightarrow> bool" where
  "continuation b \<longleftrightarrow> 0x80 \<le> unat b \<and> unat b \<le> 0xBF"

fun utf8_decode :: "bytes \<Rightarrow> ustr result" where
  "utf8_decode [] = Inr []"
| "utf8_decode (a # r) =
     (let n = unat a in
      if n \<le> 0x7F then and_then (utf8_decode r) (\<lambda>cs. Inr (n # cs))
      else if 0xC2 \<le> n \<and> n \<le> 0xDF then
        (case r of
           b # r' \<Rightarrow>
             if continuation b
             then and_then (utf8_decode r') (\<lambda>cs. Inr (((n - 0xC0) * 64 + (unat b - 0x80)) # cs))
             else Inl UnicodeDecodeError
         | _ \<Rightarrow> Inl UnicodeDecodeError)
      else if 0xE0 \<le> n \<and> n \<le> 0xEF then
        (case r of
           b # c # r' \<Rightarrow>
             let v = (n - 0xE0) * 4096 + (unat b - 0x80) * 64 + (unat c - 0x80) in
             if continuation b \<and> continuation c \<and> 0x800 \<le> v \<and> \<not> is_surrogate v
             then and_then (utf8_decode r') (\<lambda>cs. Inr (v # cs))
             else Inl UnicodeDecodeError
         | _ \<Rightarrow> Inl UnicodeDecodeError)
      else if 0xF0 \<le> n \<and> n \<le> 0xF4 then
        (case r of
           b # c # d # r' \<Rightarrow>
             let v = (n - 0xF0) * 262144 + (unat b - 0x80) * 4096 + (unat c - 0x80) * 64
                     + (unat d - 0x80) in
             if continuation b \<and> continuation c \<and> continuation d \<and> 0x10000 \<le> v \<and> v \<le> 0x10FFFF
             then and_then (utf8_decode r') (\<lambda>cs. Inr (v # cs))
             else Inl UnicodeDecodeError
         | _ \<Rightarrow> Inl UnicodeDecodeError)
      else Inl UnicodeDecodeError)"

declare utf8_decode.simps(2) [simp del]

lemma length_utf8_char [simp]: "length (utf8_char c) = utf8_width c"
  by (simp add: utf8_char_def utf8_width_def)

lemma utf8_width_pos [simp]: "1 \<le> utf8_width c" "utf8_width c \<le> 4"
  by (simp_all add: utf8_width_def)

lemma length_utf8_encode:
  "utf8_encode s = Inr bs \<Longrightarrow> length bs = sum_list (map utf8_width s)"
  by (induction s arbitrary: bs) (auto split: if_splits)

lemma mod_64_le [simp]: "(n :: nat) mod 64 \<le> 63"
  by presburger

lemma radix_64_3: "c div 4096 * 4096 + c div 64 mod 64 * 64 + c mod 64 = (c :: nat)"
proof -
  have "c div 4096 = c div 64 div 64" by (simp add: div_mult2_eq [symmetric])
  moreover have "c div 64 div 64 * 64 + c div 64 mod 64 = c div 64" by (rule div_mult_mod_eq)
  moreover have "c div 64 * 64 + c mod 64 = c" by (rule div_mult_mod_eq)
  ultimately show ?thesis by linarith
qed

lemma radix_64_4:
  "c div 262144 * 262144 + c div 4096 mod 64 * 4096 + c div 64 mod 64 * 64 + c mod 64
    = (c :: nat)"
proof -
  have "c div 262144 = c div 4096 div 64" by (simp add: div_mult2_eq [symmetric])
  moreover have "c div 4096 div 64 * 64 + c div 4096 mod 64 = c div 4096" by (rule div_mult_mod_eq)
  ultimately show ?thesis using radix_64_3 [of c] by linarith
qed

lemma utf8_decode_4:
  assumes "q \<le> 4" "x \<le> 63" "y \<le> 63" "z \<le> 63"
    and "q * 262144 + x * 4096 + y * 64 + z = v" "0x10000 \<le> v" "v \<le> 0x10FFFF"
  shows "utf8_decode (of_nat (0xF0 + q) # of_nat (0x80 + x) # of_nat (0x80 + y) # of_nat (0x80 + z) # r) =
     and_then (utf8_decode r) (\<lambda>cs. Inr (v # cs))"
  using assms
  by (simp add: utf8_decode.simps(2) Let_def unat_byte_of_nat continuation_def del: of_nat_add)

lemma utf8_decode_char:
  assumes "is_scalar c"
  shows "utf8_decode (utf8_char c @ r) = and_then (utf8_decode r) (\<lambda>cs. Inr (c # cs))"
proof -
  have bound: "c \<le> 0x10FFFF" "\<not> is_surrogate c"
    using assms by (simp_all add: is_scalar_def)
  consider "c \<le> 0x7F" | "0x80 \<le> c" "c \<le> 0x7FF" | "0x800 \<le> c" "c \<le> 0xFFFF" | "0x10000 \<le> c"
    by linarith
  then show ?thesis
  proof cases
    case 1
    then show ?thesis
      by (simp add: utf8_char_def utf8_decode.simps(2) Let_def unat_byte_of_nat)
  next
    case 2
    then have "c div 64 \<le> 31" "2 \<le> c div 64" by simp_all
    with 2 show ?thesis
      by (simp add: utf8_char_def utf8_decode.simps(2) Let_def unat_byte_of_nat continuation_def
          del: of_nat_add)
  next
    case 3
    then have small: "c div 4096 \<le> 15" by simp
    from 3 bound small radix_64_3 [of c] show ?thesis
      by (simp add: utf8_char_def utf8_decode.simps(2) Let_def unat_byte_of_nat continuation_def
          del: of_nat_add)
  next
    case 4
    then have small: "c div 262144 \<le> 4" using bound by simp
    have shape: "utf8_char c = [of_nat (0xF0 + c div 262144), of_nat (0x80 + c div 4096 mod 64),
        of_nat (0x80 + c div 64 mod 64), of_nat (0x80 + c mod 64)]"
      using 4 unfolding utf8_char_def by simp
    from utf8_decode_4 [OF small mod_64_le mod_64_le mod_64_le radix_64_4 4 bound(1), of r]
    show ?thesis by (simp only: shape append.simps)
  qed
qed

definition is_text :: "ustr \<Rightarrow> bool" where
  "is_text s \<longleftrightarrow> (\<forall>c \<in> set s. c \<le> 0x10FFFF)"

lemma is_text_simps [simp]:
  "is_text []" "is_text (c # s) \<longleftrightarrow> c \<le> 0x10FFFF \<and> is_text s"
  by (simp_all add: is_text_def)

lemma utf8_roundtrip: "is_text s \<Longrightarrow> utf8_encode s = Inr bs \<Longrightarrow> utf8_decode bs = Inr s"
proof (induction s arbitrary: bs)
  case (Cons c s)
  then show ?case
    by (auto simp: utf8_decode_char is_scalar_def split: if_splits)
qed simp

lemma utf8_encode_inj:
  "is_text s \<Longrightarrow> is_text t \<Longrightarrow> utf8_encode s = Inr bs \<Longrightarrow> utf8_encode t = Inr bs \<Longrightarrow> s = t"
  by (metis utf8_roundtrip sum.inject(2))

lemma utf8_encode_error: "utf8_encode s = Inl e \<Longrightarrow> e = UnicodeEncodeError"
  by (induction s) (auto split: if_splits simp: and_then_eq_Inl)

section \<open>Dictionaries\<close>

fun dict_get :: "('k \<times> 'v) list \<Rightarrow> 'k \<Rightarrow> 'v option" where
  "dict_get [] k = None"
| "dict_get ((k', v) # d) k = (if k' = k then Some v else dict_get d k)"

fun dict_set :: "('k \<times> 'v) list \<Rightarrow> 'k \<Rightarrow> 'v \<Rightarrow> ('k \<times> 'v) list" where
  "dict_set [] k v = [(k, v)]"
| "dict_set ((k', v') # d) k v = (if k' = k then (k, v) # d else (k', v') # dict_set d k v)"

fun dict_pop :: "('k \<times> 'v) list \<Rightarrow> 'k \<Rightarrow> ('k \<times> 'v) list" where
  "dict_pop [] k = []"
| "dict_pop ((k', v') # d) k = (if k' = k then d else (k', v') # dict_pop d k)"

lemma dict_get_map_of: "dict_get d k = map_of d k"
  by (induction d) auto

lemma dict_get_None [simp]: "dict_get d k = None \<longleftrightarrow> k \<notin> fst ` set d"
  by (simp add: dict_get_map_of map_of_eq_None_iff)

lemma dict_get_SomeD: "dict_get d k = Some v \<Longrightarrow> (k, v) \<in> set d"
  by (simp add: dict_get_map_of map_of_SomeD)

lemma dict_get_set: "dict_get (dict_set d k v) k' = (if k' = k then Some v else dict_get d k')"
  by (induction d) auto

lemma dict_get_pop:
  "distinct (map fst d) \<Longrightarrow> dict_get (dict_pop d k) k' = (if k' = k then None else dict_get d k')"
  by (induction d) (auto simp del: dict_get_None simp: dict_get_None [THEN iffD2])

lemma dict_set_keys:
  "map fst (dict_set d k v) = (if k \<in> fst ` set d then map fst d else map fst d @ [k])"
  by (induction d) (simp_all add: image_iff, force)

lemma distinct_dict_set [simp]:
  "distinct (map fst d) \<Longrightarrow> distinct (map fst (dict_set d k v))"
  by (simp add: dict_set_keys)

lemma set_dict_pop: "distinct (map fst d) \<Longrightarrow> set (dict_pop d k) = {p \<in> set d. fst p \<noteq> k}"
proof (induction d)
  case (Cons p d)
  obtain a b where p: "p = (a, b)" by fastforce
  show ?case
  proof (cases "a = k")
    case True
    with Cons.prems p show ?thesis by force
  next
    case False
    with Cons p show ?thesis by auto
  qed
qed simp

lemma set_dict_set_subset: "set (dict_set d k v) \<subseteq> insert (k, v) (set d)"
proof (induction d)
  case (Cons p d)
  then show ?case by (cases p) auto
qed simp

lemma set_dict_pop_subset: "set (dict_pop d k) \<subseteq> set d"
proof (induction d)
  case (Cons p d)
  then show ?case by (cases p) auto
qed simp

lemma distinct_dict_pop [simp]:
  "distinct (map fst d) \<Longrightarrow> distinct (map fst (dict_pop d k))"
proof (induction d)
  case (Cons p d)
  then have "fst p \<notin> fst ` set (dict_pop d k)"
    by (auto simp: set_dict_pop)
  with Cons show ?case by (cases p) auto
qed simp

text \<open>
  \<open>_map_get(mapping, *keys)\<close>: the first of the given names that is present, each tried as a
  \<open>str\<close> key and then as the same name in bytes; anything that is not a \<open>dict\<close> has no entries.
\<close>

fun map_get :: "pyval \<Rightarrow> string list \<Rightarrow> pyval" where
  "map_get (PDict d) [] = PNone"
| "map_get (PDict d) (k # ks) =
     (case dict_get d (PStr (text_lit k)) of
        Some v \<Rightarrow> v
      | None \<Rightarrow>
          (case dict_get d (PBytes (bytes_lit k)) of
             Some v \<Rightarrow> v
           | None \<Rightarrow> map_get (PDict d) ks))"
| "map_get _ _ = PNone"

end
