(* ===== verification/Config_Validation.thy ===== *)
theory Config_Validation
  imports Python_Values
begin

text \<open>
  The argument validators of \<open>config_validation.py\<close> that guard every limit and option of the
  modelled components. They take an arbitrary Python value: \<open>bool\<close> is a subclass of \<open>int\<close> in
  Python and is rejected first, as the code does.
\<close>

definition MAX_FLOW_ACTIVE_MS :: int where "MAX_FLOW_ACTIVE_MS = 31536000000"
definition MAX_POLICY_GENERATION :: int where "MAX_POLICY_GENERATION = 9007199254740991"

definition validate_positive_int :: "pyval \<Rightarrow> string \<Rightarrow> int result" where
  "validate_positive_int value name =
     (case value of
        PInt n \<Rightarrow> if n \<le> 0 then Inl (ValueError (name @ '' must be positive'')) else Inr n
      | _ \<Rightarrow> Inl (ValueError (name @ '' must be a positive integer'')))"

definition validate_nonnegative_int :: "pyval \<Rightarrow> string \<Rightarrow> int result" where
  "validate_nonnegative_int value name =
     (case value of
        PInt n \<Rightarrow> if n < 0 then Inl (ValueError (name @ '' must be non-negative'')) else Inr n
      | _ \<Rightarrow> Inl (ValueError (name @ '' must be a non-negative integer'')))"

definition validate_optional_positive_int :: "pyval \<Rightarrow> string \<Rightarrow> int option result" where
  "validate_optional_positive_int value name =
     (if value = PNone then Inr None
      else and_then (validate_positive_int value name) (\<lambda>n. Inr (Some n)))"

definition validate_optional_nonnegative_int :: "pyval \<Rightarrow> string \<Rightarrow> int option result" where
  "validate_optional_nonnegative_int value name =
     (if value = PNone then Inr None
      else and_then (validate_nonnegative_int value name) (\<lambda>n. Inr (Some n)))"

definition validate_bounded_positive_int :: "pyval \<Rightarrow> string \<Rightarrow> int \<Rightarrow> int result" where
  "validate_bounded_positive_int value name maximum =
     and_then (validate_positive_int value name) (\<lambda>n.
       if n > maximum then Inl (ValueError (name @ '' cannot exceed'')) else Inr n)"

definition validate_bounded_nonnegative_int :: "pyval \<Rightarrow> string \<Rightarrow> int \<Rightarrow> int result" where
  "validate_bounded_nonnegative_int value name maximum =
     and_then (validate_nonnegative_int value name) (\<lambda>n.
       if n > maximum then Inl (ValueError (name @ '' cannot exceed'')) else Inr n)"

definition validate_optional_policy_generation :: "pyval \<Rightarrow> int option result" where
  "validate_optional_policy_generation value =
     (if value = PNone then Inr None
      else and_then
             (validate_bounded_nonnegative_int value ''expected_generation'' MAX_POLICY_GENERATION)
             (\<lambda>n. Inr (Some n)))"

definition validate_optional_flow_priority :: "pyval \<Rightarrow> string \<Rightarrow> int option result" where
  "validate_optional_flow_priority value name =
     (if value = PNone then Inr None
      else and_then (validate_bounded_nonnegative_int value name 2) (\<lambda>n. Inr (Some n)))"

definition validate_optional_bool :: "pyval \<Rightarrow> string \<Rightarrow> bool option result" where
  "validate_optional_bool value name =
     (case value of
        PNone \<Rightarrow> Inr None
      | PBool b \<Rightarrow> Inr (Some b)
      | _ \<Rightarrow> Inl (ValueError (name @ '' must be a boolean'')))"

definition validate_bool :: "pyval \<Rightarrow> string \<Rightarrow> bool result" where
  "validate_bool value name =
     (case value of
        PBool b \<Rightarrow> Inr b
      | _ \<Rightarrow> Inl (ValueError (name @ '' must be a boolean'')))"

definition validate_port :: "pyval \<Rightarrow> int result" where
  "validate_port value =
     (case value of
        PInt n \<Rightarrow> if 1 \<le> n \<and> n \<le> 65535 then Inr n
                  else Inl (ValueError ''port must be between 1 and 65535'')
      | _ \<Rightarrow> Inl (ValueError ''port must be between 1 and 65535''))"

text \<open>
  \<open>isinstance(value, Sequence)\<close> without the scalar sequences holds of lists and tuples.
\<close>

definition sequence_items :: "pyval \<Rightarrow> pyval list option" where
  "sequence_items value = (case value of PList xs \<Rightarrow> Some xs | PTuple xs \<Rightarrow> Some xs | _ \<Rightarrow> None)"

definition nonempty_string :: "pyval \<Rightarrow> bool" where
  "nonempty_string item = (case item of PStr s \<Rightarrow> s \<noteq> [] | _ \<Rightarrow> False)"

definition validate_string_sequence :: "pyval \<Rightarrow> string \<Rightarrow> bool \<Rightarrow> pyval list result" where
  "validate_string_sequence value name allow_empty =
     (case sequence_items value of
        None \<Rightarrow> Inl (ValueError (name @ '' must be a sequence of strings''))
      | Some items \<Rightarrow>
          if \<not> allow_empty \<and> items = [] then Inl (ValueError (name @ '' must be non-empty''))
          else if \<not> list_all nonempty_string items
          then Inl (ValueError (name @ '' must contain only non-empty strings''))
          else Inr items)"

fun normalize_partition_key :: "pyval \<Rightarrow> string \<Rightarrow> pyval result" where
  "normalize_partition_key (PStr s) name =
     (if s = [] then Inl (ValueError (name @ '' must contain only non-empty strings or bytes''))
      else Inr (PStr s))"
| "normalize_partition_key (PBytes b) name =
     (if b = [] then Inl (ValueError (name @ '' must contain only non-empty strings or bytes''))
      else Inr (PBytes b))"
| "normalize_partition_key (PByteArray b) name =
     (if b = [] then Inl (ValueError (name @ '' must contain only non-empty strings or bytes''))
      else Inr (PBytes b))"
| "normalize_partition_key _ name =
     Inl (ValueError (name @ '' must contain only non-empty strings or bytes''))"

fun normalize_partition_keys :: "pyval list \<Rightarrow> string \<Rightarrow> pyval list result" where
  "normalize_partition_keys [] name = Inr []"
| "normalize_partition_keys (x # xs) name =
     and_then (normalize_partition_key x name) (\<lambda>y.
     and_then (normalize_partition_keys xs name) (\<lambda>ys. Inr (y # ys)))"

definition validate_partition_key_sequence :: "pyval \<Rightarrow> string \<Rightarrow> bool \<Rightarrow> pyval list result" where
  "validate_partition_key_sequence value name allow_empty =
     (case sequence_items value of
        None \<Rightarrow> Inl (ValueError (name @ '' must be a sequence of strings or bytes''))
      | Some items \<Rightarrow>
          if \<not> allow_empty \<and> items = [] then Inl (ValueError (name @ '' must be non-empty''))
          else normalize_partition_keys items name)"

section \<open>What the validators accept\<close>

lemma validate_positive_int_iff [simp]:
  "validate_positive_int v name = Inr n \<longleftrightarrow> v = PInt n \<and> 0 < n"
  by (auto simp: validate_positive_int_def split: pyval.split)

lemma validate_nonnegative_int_iff [simp]:
  "validate_nonnegative_int v name = Inr n \<longleftrightarrow> v = PInt n \<and> 0 \<le> n"
  by (auto simp: validate_nonnegative_int_def split: pyval.split)

lemma validate_optional_positive_int_iff [simp]:
  "validate_optional_positive_int v name = Inr r \<longleftrightarrow>
     (v = PNone \<and> r = None) \<or> (\<exists>n. v = PInt n \<and> 0 < n \<and> r = Some n)"
  by (auto simp: validate_optional_positive_int_def)

lemma validate_optional_nonnegative_int_iff [simp]:
  "validate_optional_nonnegative_int v name = Inr r \<longleftrightarrow>
     (v = PNone \<and> r = None) \<or> (\<exists>n. v = PInt n \<and> 0 \<le> n \<and> r = Some n)"
  by (auto simp: validate_optional_nonnegative_int_def)

definition limit_arg :: "int option \<Rightarrow> pyval" where
  "limit_arg m = (case m of None \<Rightarrow> PNone | Some n \<Rightarrow> PInt n)"

lemma limit_arg_valid:
  "(\<forall>n. m = Some n \<longrightarrow> 0 \<le> n) \<Longrightarrow> validate_optional_nonnegative_int (limit_arg m) name = Inr m"
  by (cases m) (auto simp: limit_arg_def)

lemma validate_optional_flow_priority_iff:
  "validate_optional_flow_priority v name = Inr r \<longleftrightarrow>
     (v = PNone \<and> r = None) \<or> (\<exists>n. v = PInt n \<and> 0 \<le> n \<and> n \<le> 2 \<and> r = Some n)"
  by (cases v)
     (auto simp: validate_optional_flow_priority_def validate_bounded_nonnegative_int_def
      validate_nonnegative_int_def)

lemma normalize_partition_keys_length:
  "normalize_partition_keys xs name = Inr ys \<Longrightarrow> length ys = length xs"
  by (induction xs arbitrary: ys) auto

end
