(* ===== verification/Codec.thy ===== *)
theory Codec
  imports Config_Validation
begin

text \<open>
  The typed value codec of \<open>protocol_codec.py\<close>: \<open>_ValueWriter\<close>, \<open>DecodeBudget\<close>, the encoder
  \<open>_write_value\<close> and the decoder \<open>_decode_value_at\<close> with their helpers. The encoder writes through
  an arbitrary sink (the \<open>write\<close> callable of \<open>encode_value_into\<close>), which is a parameter
  \<open>sink\<close> of every writing function.
\<close>

definition MAX_VALUE_NESTING :: nat where "MAX_VALUE_NESTING = 128"

type_synonym 's sink = "'s \<Rightarrow> bytes \<Rightarrow> 's result"

section \<open>\<open>_ValueWriter\<close>\<close>

record 's value_writer =
  vw_sink :: 's
  vw_max_bytes :: "int option"
  vw_size :: int

definition ensure_capacity :: "'s value_writer \<Rightarrow> int \<Rightarrow> unit result" where
  "ensure_capacity w n =
     (case vw_max_bytes w of
        Some m \<Rightarrow> if n > m - vw_size w
                  then Inl (EncodedValueLimitError ''encoded protocol value exceeds max_bytes'')
                  else Inr ()
      | None \<Rightarrow> Inr ())"

definition vw_write :: "'s sink \<Rightarrow> 's value_writer \<Rightarrow> bytes \<Rightarrow> 's value_writer result" where
  "vw_write sink w b =
     and_then (ensure_capacity w (int (length b))) (\<lambda>_.
     and_then (sink (vw_sink w) b) (\<lambda>s.
       Inr (w\<lparr>vw_sink := s, vw_size := vw_size w + int (length b)\<rparr>)))"

definition remaining_capacity :: "'s value_writer \<Rightarrow> int option" where
  "remaining_capacity w = map_option (\<lambda>m. m - vw_size w) (vw_max_bytes w)"

section \<open>\<open>DecodeBudget\<close>\<close>

type_synonym budget = "int option"

definition make_budget :: "pyval \<Rightarrow> budget result" where
  "make_budget max_collection_items =
     validate_optional_nonnegative_int max_collection_items ''max_collection_items''"

definition budget_consume :: "budget \<Rightarrow> nat \<Rightarrow> budget result" where
  "budget_consume b n =
     (case b of
        None \<Rightarrow> Inr None
      | Some r \<Rightarrow>
          if int n > r
          then Inl (DecodedCollectionLimitError
                 ''protocol response collection exceeds max_decoded_collection_items'')
          else Inr (Some (r - int n)))"

section \<open>Encoder\<close>

fun utf8_scan :: "int \<Rightarrow> int \<Rightarrow> ustr \<Rightarrow> unit result" where
  "utf8_scan sz limit [] = Inr ()"
| "utf8_scan sz limit (c # cs) =
     (let sz' = sz + (if c \<le> 0x7F then 1 else if c \<le> 0x7FF then 2 else if c \<le> 0xFFFF then 3 else 4)
      in if sz' > limit
         then Inl (EncodedValueLimitError ''encoded protocol value exceeds max_bytes'')
         else utf8_scan sz' limit cs)"

definition str_isascii :: "ustr \<Rightarrow> bool" where
  "str_isascii s = list_all (\<lambda>c. c \<le> 0x7F) s"

definition require_utf8_within :: "ustr \<Rightarrow> int \<Rightarrow> unit result" where
  "require_utf8_within value limit =
     (if int (length value) > limit
      then Inl (EncodedValueLimitError ''encoded protocol value exceeds max_bytes'')
      else if str_isascii value then Inr ()
      else utf8_scan 0 limit value)"

definition write_binary_length :: "'s sink \<Rightarrow> 's value_writer \<Rightarrow> nat \<Rightarrow> 's value_writer result" where
  "write_binary_length sink w n =
     (if int n > U32_MAX
      then Inl (FerricStoreError ''protocol binary must fit in an unsigned 32-bit length'')
      else and_then (pack_u32 (int n)) (vw_write sink w))"

definition write_binary :: "'s sink \<Rightarrow> 's value_writer \<Rightarrow> bytes \<Rightarrow> 's value_writer result" where
  "write_binary sink w b =
     and_then (vw_write sink w [0x04]) (\<lambda>w.
     and_then (write_binary_length sink w (length b)) (\<lambda>w.
       vw_write sink w b))"

definition write_collection_header ::
    "'s sink \<Rightarrow> 's value_writer \<Rightarrow> byte \<Rightarrow> nat \<Rightarrow> 's value_writer result" where
  "write_collection_header sink w tag n =
     (if int n > U32_MAX
      then Inl (FerricStoreError ''protocol collection must fit in an unsigned 32-bit count'')
      else and_then (vw_write sink w [tag]) (\<lambda>w.
           and_then (pack_u32 (int n)) (vw_write sink w)))"

definition key_bytes :: "pyval \<Rightarrow> bytes result" where
  "key_bytes k =
     (case k of
        PBytes b \<Rightarrow> Inr b
      | PStr s \<Rightarrow>
          (case utf8_encode s of
             Inr b \<Rightarrow> Inr b
           | Inl _ \<Rightarrow> Inl (FerricStoreError ''protocol map keys must contain valid UTF-8''))
      | _ \<Rightarrow> Inl (FerricStoreError ''protocol map keys must be str or bytes''))"

definition check_nesting :: "nat \<Rightarrow> unit result" where
  "check_nesting depth =
     guard (depth \<le> MAX_VALUE_NESTING)
       (FerricStoreError ''protocol value nesting exceeds maximum depth'')"

definition write_int :: "'s sink \<Rightarrow> 's value_writer \<Rightarrow> int \<Rightarrow> 's value_writer result" where
  "write_int sink w n =
     (if I64_MIN \<le> n \<and> n \<le> I64_MAX then
        and_then (vw_write sink w [0x03]) (\<lambda>w. and_then (pack_i64 n) (vw_write sink w))
      else if I64_MAX < n \<and> n \<le> U64_MAX then
        and_then (vw_write sink w [0x08]) (\<lambda>w. and_then (pack_u64 n) (vw_write sink w))
      else Inl (FerricStoreError
             ''protocol integer must fit in a signed or unsigned 64-bit value''))"

definition write_str :: "'s sink \<Rightarrow> 's value_writer \<Rightarrow> ustr \<Rightarrow> 's value_writer result" where
  "write_str sink w s =
     and_then
       (case remaining_capacity w of
          None \<Rightarrow> Inr ()
        | Some r \<Rightarrow> and_then (ensure_capacity w 5) (\<lambda>_. require_utf8_within s (r - 5)))
       (\<lambda>_. case utf8_encode s of
              Inl _ \<Rightarrow> Inl (FerricStoreError ''protocol strings must contain valid UTF-8'')
            | Inr b \<Rightarrow> write_binary sink w b)"

fun write_value :: "'s sink \<Rightarrow> 's value_writer \<Rightarrow> pyval \<Rightarrow> nat \<Rightarrow> 's value_writer result"
  and write_items :: "'s sink \<Rightarrow> 's value_writer \<Rightarrow> pyval list \<Rightarrow> nat \<Rightarrow> 's value_writer result"
  and write_entries ::
    "'s sink \<Rightarrow> 's value_writer \<Rightarrow> (pyval \<times> pyval) list \<Rightarrow> bytes list \<Rightarrow> nat \<Rightarrow>
      's value_writer result"
where
  "write_value sink w PNone depth =
     and_then (check_nesting depth) (\<lambda>_. vw_write sink w [0x00])"
| "write_value sink w (PBool b) depth =
     and_then (check_nesting depth) (\<lambda>_. vw_write sink w [if b then 0x01 else 0x02])"
| "write_value sink w (PInt n) depth =
     and_then (check_nesting depth) (\<lambda>_. write_int sink w n)"
| "write_value sink w (PStr s) depth =
     and_then (check_nesting depth) (\<lambda>_. write_str sink w s)"
| "write_value sink w (PBytes b) depth =
     and_then (check_nesting depth) (\<lambda>_. write_binary sink w b)"
| "write_value sink w (PByteArray b) depth =
     and_then (check_nesting depth) (\<lambda>_. write_binary sink w b)"
| "write_value sink w (PList xs) depth =
     and_then (check_nesting depth) (\<lambda>_.
     and_then (write_collection_header sink w 0x05 (length xs)) (\<lambda>w.
       write_items sink w xs (depth + 1)))"
| "write_value sink w (PTuple xs) depth =
     and_then (check_nesting depth) (\<lambda>_.
     and_then (write_collection_header sink w 0x05 (length xs)) (\<lambda>w.
       write_items sink w xs (depth + 1)))"
| "write_value sink w (PDict d) depth =
     and_then (check_nesting depth) (\<lambda>_.
     and_then (write_collection_header sink w 0x06 (length d)) (\<lambda>w.
       write_entries sink w d [] (depth + 1)))"
| "write_value sink w (PFloat x) depth =
     and_then (check_nesting depth) (\<lambda>_.
     and_then (vw_write sink w [0x07]) (\<lambda>w. vw_write sink w (pack_f64 x)))"
| "write_value sink w (PObject _) depth =
     and_then (check_nesting depth) (\<lambda>_. Inl (FerricStoreError ''unsupported protocol value type''))"
| "write_value sink w (PQueryOptions _ _) depth =
     and_then (check_nesting depth) (\<lambda>_. Inl (FerricStoreError ''unsupported protocol value type''))"
| "write_items sink w [] depth = Inr w"
| "write_items sink w (x # xs) depth =
     and_then (write_value sink w x depth) (\<lambda>w. write_items sink w xs depth)"
| "write_entries sink w [] keys depth = Inr w"
| "write_entries sink w ((k, x) # d) keys depth =
     and_then (key_bytes k) (\<lambda>kb.
     if kb \<in> set keys
     then Inl (DuplicateProtocolMapKeyError ''duplicate protocol map key after wire encoding'')
     else
       and_then (write_binary_length sink w (length kb)) (\<lambda>w.
       and_then (vw_write sink w kb) (\<lambda>w.
       and_then (write_value sink w x depth) (\<lambda>w.
         write_entries sink w d (kb # keys) depth))))"

definition bytesio_write :: "bytes sink" where
  "bytesio_write buf b = Inr (buf @ b)"

definition encode_value_into :: "pyval \<Rightarrow> 's sink \<Rightarrow> 's \<Rightarrow> pyval \<Rightarrow> 's result" where
  "encode_value_into value sink s max_bytes =
     and_then (validate_optional_nonnegative_int max_bytes ''max_bytes'') (\<lambda>mb.
     and_then (write_value sink \<lparr>vw_sink = s, vw_max_bytes = mb, vw_size = 0\<rparr> value 0) (\<lambda>w.
       Inr (vw_sink w)))"

definition encode_value :: "pyval \<Rightarrow> pyval \<Rightarrow> bytes result" where
  "encode_value value max_bytes = encode_value_into value bytesio_write [] max_bytes"

section \<open>Decoder\<close>

definition require_available :: "bytes \<Rightarrow> int \<Rightarrow> int \<Rightarrow> unit result" where
  "require_available data off n =
     (if off < 0 \<or> n < 0 \<or> off > int (length data) - n
      then Inl (FerricStoreError ''protocol value is truncated'') else Inr ())"

definition read_u32 :: "bytes \<Rightarrow> nat \<Rightarrow> nat result" where
  "read_u32 data off =
     and_then (require_available data (int off) 4) (\<lambda>_. Inr (be_decode (bytes_slice data off 4)))"

definition read_binary :: "bytes \<Rightarrow> nat \<Rightarrow> (bytes \<times> nat) result" where
  "read_binary data off =
     and_then (read_u32 data off) (\<lambda>n.
     and_then (require_available data (int (off + 4)) (int n)) (\<lambda>_.
       Inr (bytes_slice data (off + 4) n, off + 4 + n)))"

type_synonym 'a decoded = "('a \<times> nat \<times> budget) result"

function (sequential) decode_at :: "bytes \<Rightarrow> nat \<Rightarrow> nat \<Rightarrow> budget \<Rightarrow> pyval decoded"
  and decode_items :: "nat \<Rightarrow> bytes \<Rightarrow> nat \<Rightarrow> nat \<Rightarrow> budget \<Rightarrow> pyval list decoded"
  and decode_entries ::
    "nat \<Rightarrow> bytes \<Rightarrow> nat \<Rightarrow> nat \<Rightarrow> budget \<Rightarrow> (pyval \<times> pyval) list \<Rightarrow> (pyval \<times> pyval) list decoded"
where
  "decode_at data off depth bud =
     and_then (check_nesting depth) (\<lambda>_.
     and_then (require_available data (int off) 1) (\<lambda>_.
     let tag = data ! off; off = off + 1 in
     if tag = 0 then Inr (PNone, off, bud)
     else if tag = 1 then Inr (PBool True, off, bud)
     else if tag = 2 then Inr (PBool False, off, bud)
     else if tag = 3 then
       and_then (require_available data (int off) 8) (\<lambda>_.
         Inr (PInt (unpack_i64 (bytes_slice data off 8)), off + 8, bud))
     else if tag = 4 then
       and_then (read_binary data off) (\<lambda>(b, off). Inr (PBytes b, off, bud))
     else if tag = 5 then
       and_then (read_u32 data off) (\<lambda>n.
       and_then (budget_consume bud n) (\<lambda>bud.
       if n = 3 then
         and_then (decode_at data (off + 4) (depth + 1) bud) (\<lambda>(x, off, bud).
         and_then (decode_at data off (depth + 1) bud) (\<lambda>(y, off, bud).
         and_then (decode_at data off (depth + 1) bud) (\<lambda>(z, off, bud).
           Inr (PList [x, y, z], off, bud))))
       else
         and_then (decode_items n data (off + 4) (depth + 1) bud) (\<lambda>(xs, off, bud).
           Inr (PList xs, off, bud))))
     else if tag = 6 then
       and_then (read_u32 data off) (\<lambda>n.
       and_then (budget_consume bud n) (\<lambda>bud.
       and_then (decode_entries n data (off + 4) (depth + 1) bud []) (\<lambda>(d, off, bud).
         Inr (PDict d, off, bud))))
     else if tag = 7 then
       and_then (require_available data (int off) 8) (\<lambda>_.
         Inr (PFloat (unpack_f64 (bytes_slice data off 8)), off + 8, bud))
     else if tag = 8 then
       and_then (require_available data (int off) 8) (\<lambda>_.
         Inr (PInt (int (be_decode (bytes_slice data off 8))), off + 8, bud))
     else Inl (FerricStoreError ''protocol value has unknown tag'')))"
| "decode_items 0 data off depth bud = Inr ([], off, bud)"
| "decode_items (Suc n) data off depth bud =
     and_then (decode_at data off depth bud) (\<lambda>(x, off, bud).
     and_then (decode_items n data off depth bud) (\<lambda>(xs, off, bud).
       Inr (x # xs, off, bud)))"
| "decode_entries 0 data off depth bud acc = Inr (acc, off, bud)"
| "decode_entries (Suc n) data off depth bud acc =
     and_then (read_binary data off) (\<lambda>(k, off).
     if PBytes k \<in> fst ` set acc
     then Inl (DuplicateProtocolMapKeyError ''duplicate protocol map key while decoding'')
     else
       and_then (decode_at data off depth bud) (\<lambda>(x, off, bud).
         decode_entries n data off depth bud (acc @ [(PBytes k, x)])))"
  by pat_completeness auto

termination
  by (relation "measures
       [\<lambda>x. case x of Inl (_, _, depth, _) \<Rightarrow> MAX_VALUE_NESTING + 1 - depth
              | Inr (Inl (_, _, _, depth, _)) \<Rightarrow> MAX_VALUE_NESTING + 1 - depth
              | Inr (Inr (_, _, _, depth, _)) \<Rightarrow> MAX_VALUE_NESTING + 1 - depth,
        \<lambda>x. case x of Inl _ \<Rightarrow> 0
              | Inr (Inl (n, _)) \<Rightarrow> Suc n
              | Inr (Inr (n, _)) \<Rightarrow> Suc n]")
     (auto simp: check_nesting_def)

declare decode_at.simps [simp del]

definition decode_value_at :: "bytes \<Rightarrow> int \<Rightarrow> pyval \<Rightarrow> budget option \<Rightarrow> pyval decoded" where
  "decode_value_at data off max_collection_items bud =
     (if bud \<noteq> None \<and> max_collection_items \<noteq> PNone
      then Inl (ValueError ''budget and max_collection_items are mutually exclusive'')
      else and_then (case bud of Some b \<Rightarrow> Inr b | None \<Rightarrow> make_budget max_collection_items) (\<lambda>b.
        if off < 0 then and_then (require_available data off 1) (\<lambda>_. Inl IndexError)
        else decode_at data (nat off) 0 b))"

definition decode_value :: "bytes \<Rightarrow> pyval \<Rightarrow> (pyval \<times> bytes) result" where
  "decode_value data max_collection_items =
     (if data = [] then Inl (FerricStoreError ''protocol value is empty'')
      else and_then (decode_value_at data 0 max_collection_items None) (\<lambda>(v, off, _).
        Inr (v, drop off data)))"

end
