(* ===== verification/Codec_Correct.thy ===== *)
theory Codec_Correct
  imports Codec
begin

text \<open>
  Correctness of the typed value codec. The reference definitions \<open>wire\<close> (the byte string of a
  value), \<open>encodable\<close> (which values the protocol carries at a nesting depth), \<open>norm\<close> (what a
  value becomes after one trip over the wire) and \<open>item_count\<close> (collection items of a value)
  specify the codec. The encoder is verified once for every sink that satisfies the interface
  \<open>byte_sink\<close>; the decoder is verified against the same specification.
\<close>

section \<open>Reference specification\<close>

definition str_wire :: "ustr \<Rightarrow> bytes" where
  "str_wire s = (case utf8_encode s of Inr b \<Rightarrow> b | Inl _ \<Rightarrow> [])"

definition key_wire :: "pyval \<Rightarrow> bytes" where
  "key_wire k = (case key_bytes k of Inr b \<Rightarrow> b | Inl _ \<Rightarrow> [])"

definition key_ok :: "pyval \<Rightarrow> bool" where
  "key_ok k \<longleftrightarrow> (\<exists>b. key_bytes k = Inr b)"

definition binary_wire :: "bytes \<Rightarrow> bytes" where
  "binary_wire b = 0x04 # u32_bytes (length b) @ b"

definition small :: "nat \<Rightarrow> bool" where
  "small n \<longleftrightarrow> n < 2 ^ 32"

definition int_wire :: "int \<Rightarrow> bytes" where
  "int_wire n = (if n \<le> I64_MAX then 0x03 # i64_bytes n else 0x08 # u64_bytes (nat n))"

fun wire :: "pyval \<Rightarrow> bytes"
  and wire_items :: "pyval list \<Rightarrow> bytes"
  and wire_entries :: "(pyval \<times> pyval) list \<Rightarrow> bytes"
where
  "wire PNone = [0x00]"
| "wire (PBool b) = [if b then 0x01 else 0x02]"
| "wire (PInt n) = int_wire n"
| "wire (PStr s) = binary_wire (str_wire s)"
| "wire (PBytes b) = binary_wire b"
| "wire (PByteArray b) = binary_wire b"
| "wire (PList xs) = 0x05 # u32_bytes (length xs) @ wire_items xs"
| "wire (PTuple xs) = 0x05 # u32_bytes (length xs) @ wire_items xs"
| "wire (PDict d) = 0x06 # u32_bytes (length d) @ wire_entries d"
| "wire (PFloat x) = 0x07 # pack_f64 x"
| "wire (PObject _) = []"
| "wire (PQueryOptions _ _) = []"
| "wire_items [] = []"
| "wire_items (x # xs) = wire x @ wire_items xs"
| "wire_entries [] = []"
| "wire_entries ((k, x) # d) = u32_bytes (length (key_wire k)) @ key_wire k @ wire x @ wire_entries d"

fun encodable :: "pyval \<Rightarrow> nat \<Rightarrow> bool"
  and encodable_items :: "pyval list \<Rightarrow> nat \<Rightarrow> bool"
  and encodable_entries :: "(pyval \<times> pyval) list \<Rightarrow> bytes list \<Rightarrow> nat \<Rightarrow> bool"
where
  "encodable PNone d = (d \<le> MAX_VALUE_NESTING)"
| "encodable (PBool b) d = (d \<le> MAX_VALUE_NESTING)"
| "encodable (PInt n) d = (d \<le> MAX_VALUE_NESTING \<and> I64_MIN \<le> n \<and> n \<le> U64_MAX)"
| "encodable (PStr s) d =
     (d \<le> MAX_VALUE_NESTING \<and> list_all (\<lambda>c. \<not> is_surrogate c) s \<and> small (length (str_wire s)))"
| "encodable (PBytes b) d = (d \<le> MAX_VALUE_NESTING \<and> small (length b))"
| "encodable (PByteArray b) d = (d \<le> MAX_VALUE_NESTING \<and> small (length b))"
| "encodable (PList xs) d =
     (d \<le> MAX_VALUE_NESTING \<and> small (length xs) \<and> encodable_items xs (d + 1))"
| "encodable (PTuple xs) d =
     (d \<le> MAX_VALUE_NESTING \<and> small (length xs) \<and> encodable_items xs (d + 1))"
| "encodable (PDict kvs) d =
     (d \<le> MAX_VALUE_NESTING \<and> small (length kvs) \<and> encodable_entries kvs [] (d + 1))"
| "encodable (PFloat x) d = (d \<le> MAX_VALUE_NESTING)"
| "encodable (PObject _) d = False"
| "encodable (PQueryOptions _ _) d = False"
| "encodable_items [] d = True"
| "encodable_items (x # xs) d = (encodable x d \<and> encodable_items xs d)"
| "encodable_entries [] keys d = True"
| "encodable_entries ((k, x) # kvs) keys d =
     (key_ok k \<and> key_wire k \<notin> set keys \<and> small (length (key_wire k)) \<and> encodable x d \<and>
      encodable_entries kvs (key_wire k # keys) d)"

fun norm :: "pyval \<Rightarrow> pyval"
  and norm_items :: "pyval list \<Rightarrow> pyval list"
  and norm_entries :: "(pyval \<times> pyval) list \<Rightarrow> (pyval \<times> pyval) list"
where
  "norm (PStr s) = PBytes (str_wire s)"
| "norm (PByteArray b) = PBytes b"
| "norm (PList xs) = PList (norm_items xs)"
| "norm (PTuple xs) = PList (norm_items xs)"
| "norm (PDict d) = PDict (norm_entries d)"
| "norm v = v"
| "norm_items [] = []"
| "norm_items (x # xs) = norm x # norm_items xs"
| "norm_entries [] = []"
| "norm_entries ((k, x) # d) = (PBytes (key_wire k), norm x) # norm_entries d"

fun item_count :: "pyval \<Rightarrow> nat"
  and items_count :: "pyval list \<Rightarrow> nat"
  and entries_count :: "(pyval \<times> pyval) list \<Rightarrow> nat"
where
  "item_count (PList xs) = length xs + items_count xs"
| "item_count (PTuple xs) = length xs + items_count xs"
| "item_count (PDict d) = length d + entries_count d"
| "item_count v = 0"
| "items_count [] = 0"
| "items_count (x # xs) = item_count x + items_count xs"
| "entries_count [] = 0"
| "entries_count ((k, x) # d) = item_count x + entries_count d"

lemma norm_items_map: "norm_items xs = map norm xs"
  by (induction xs) auto

lemma entries_count_append: "entries_count (a @ b) = entries_count a + entries_count b"
  by (induction a) auto

lemma small_U32: "small n \<longleftrightarrow> int n \<le> U32_MAX"
  by (auto simp: small_def U32_MAX_def)

section \<open>The sink interface\<close>

text \<open>
  What the encoder relies on from the callable it writes to: writing two chunks in a row is
  writing their concatenation (same success, same final state, same error). A sink state is
  \<open>live\<close> when an empty write succeeds and leaves it alone; the law makes every state reached by a
  successful write live.
\<close>

locale byte_sink =
  fixes sink :: "'s \<Rightarrow> bytes \<Rightarrow> 's result"
  assumes sink_append: "and_then (sink s a) (\<lambda>s'. sink s' b) = sink s (a @ b)"

definition fits :: "'s value_writer \<Rightarrow> nat \<Rightarrow> bool" where
  "fits w n = (case vw_max_bytes w of None \<Rightarrow> True | Some m \<Rightarrow> int n \<le> m - vw_size w)"

definition writes :: "'s sink \<Rightarrow> 's value_writer \<Rightarrow> bytes \<Rightarrow> 's value_writer \<Rightarrow> bool" where
  "writes sink w b w' \<longleftrightarrow>
     fits w (length b) \<and>
     (\<exists>s. sink (vw_sink w) b = Inr s \<and>
          w' = w\<lparr>vw_sink := s, vw_size := vw_size w + int (length b)\<rparr>)"

lemma vw_write_iff [simp]: "vw_write sink w b = Inr w' \<longleftrightarrow> writes sink w b w'"
  by (auto simp: vw_write_def writes_def fits_def ensure_capacity_def split: option.splits)

lemma write_binary_length_iff [simp]:
  "write_binary_length sink w n = Inr w' \<longleftrightarrow> small n \<and> writes sink w (u32_bytes n) w'"
  by (auto simp: write_binary_length_def small_U32 small_def U32_MAX_def)

lemma utf8_scan_iff:
  "utf8_scan sz limit s = Inr () \<longleftrightarrow> (s = [] \<or> sz + int (sum_list (map utf8_width s)) \<le> limit)"
proof (induction s arbitrary: sz)
  case (Cons c s)
  have "0 \<le> int (sum_list (map utf8_width s))" by simp
  then show ?case
    using Cons [of "sz + int (utf8_width c)"]
    by (cases s) (auto simp: utf8_width_def Let_def)
qed simp

lemma sum_utf8_width_ge: "length s \<le> sum_list (map utf8_width s)"
proof (induction s)
  case (Cons c s)
  then show ?case using utf8_width_pos(1) [of c] by simp
qed simp

lemma sum_utf8_width_ascii: "str_isascii s \<Longrightarrow> sum_list (map utf8_width s) = length s"
  by (induction s) (auto simp: str_isascii_def utf8_width_def)

lemma require_utf8_within_iff:
  assumes "0 \<le> limit"
  shows "require_utf8_within s limit = Inr () \<longleftrightarrow> int (sum_list (map utf8_width s)) \<le> limit"
  using assms sum_utf8_width_ge [of s] sum_utf8_width_ascii [of s]
  by (auto simp: require_utf8_within_def utf8_scan_iff)

lemma utf8_encode_str_wire:
  "utf8_encode s = Inr b \<longleftrightarrow> list_all (\<lambda>c. \<not> is_surrogate c) s \<and> b = str_wire s"
proof -
  have "(\<exists>b. utf8_encode s = Inr b) \<longleftrightarrow> list_all (\<lambda>c. \<not> is_surrogate c) s"
    by (induction s) auto
  then show ?thesis
    by (auto simp: str_wire_def split: sum.splits)
qed

lemma key_bytes_iff: "key_bytes k = Inr b \<longleftrightarrow> key_ok k \<and> b = key_wire k"
  by (auto simp: key_ok_def key_wire_def)

context byte_sink
begin

lemma writes_append:
  "writes sink w (a @ b) w' \<longleftrightarrow> (\<exists>v. writes sink w a v \<and> writes sink v b w')"
  using sink_append [of "vw_sink w" a b]
  by (cases "vw_max_bytes w"; cases "sink (vw_sink w) a") (auto simp: writes_def fits_def)

lemma writes_live: "writes sink w b w' \<Longrightarrow> writes sink w' [] w'"
  using sink_append [of "vw_sink w" b "[]"]
  by (auto simp: writes_def fits_def split: option.splits)

lemma writes_Nil: "writes sink w [] w \<Longrightarrow> writes sink w [] w' \<longleftrightarrow> w' = w"
  by (auto simp: writes_def)

lemma writes_Cons:
  "b \<noteq> [] \<Longrightarrow> writes sink w (a # b) w' \<longleftrightarrow> (\<exists>v. writes sink w [a] v \<and> writes sink v b w')"
  using writes_append [of w "[a]" b] by simp

lemma writes_header:
  "writes sink w (a # b @ c) w' \<longleftrightarrow> (\<exists>v. writes sink w (a # b) v \<and> writes sink v c w')"
  using writes_append [of w "a # b" c] by simp

lemma ex_writes_cong:
  "(\<And>v. writes sink w a v \<Longrightarrow> writes sink v [] v \<Longrightarrow> P v = Q v) \<Longrightarrow>
     (\<exists>v. writes sink w a v \<and> P v) = (\<exists>v. writes sink w a v \<and> Q v)"
  using writes_live by blast

lemma write_binary_iff:
  "write_binary sink w b = Inr w' \<longleftrightarrow> small (length b) \<and> writes sink w (binary_wire b) w'"
  by (auto simp: write_binary_def binary_wire_def writes_Cons writes_append)

lemma write_collection_header_iff:
  "write_collection_header sink w tag n = Inr w' \<longleftrightarrow>
     small n \<and> writes sink w (tag # u32_bytes n) w'"
  by (auto simp: write_collection_header_def writes_Cons small_def U32_MAX_def)

lemma write_int_iff:
  "write_int sink w n = Inr w' \<longleftrightarrow>
     I64_MIN \<le> n \<and> n \<le> U64_MAX \<and> writes sink w (int_wire n) w'"
proof -
  have u: "pack_u64 n = Inr (u64_bytes (nat n))" if "I64_MAX < n" "n \<le> U64_MAX"
    using that by (simp add: pack_u64_def pack_uint_def u64_bytes_def int_limits)
  have i: "pack_i64 n = Inr (i64_bytes n)" if "I64_MIN \<le> n" "n \<le> I64_MAX"
    using that by (simp add: pack_i64_def i64_bytes_def)
  have order: "I64_MIN \<le> I64_MAX" "I64_MAX \<le> U64_MAX" by (simp_all add: int_limits)
  show ?thesis
  proof (cases "n \<le> I64_MAX")
    case True
    with order i show ?thesis
      by (cases "I64_MIN \<le> n") (simp_all add: write_int_def int_wire_def writes_Cons)
  next
    case False
    with order u show ?thesis
      by (cases "n \<le> U64_MAX") (simp_all add: write_int_def int_wire_def writes_Cons)
  qed
qed

lemma write_str_iff:
  "write_str sink w s = Inr w' \<longleftrightarrow>
     list_all (\<lambda>c. \<not> is_surrogate c) s \<and> small (length (str_wire s)) \<and>
     writes sink w (binary_wire (str_wire s)) w'"
proof -
  have len: "length (str_wire s) = sum_list (map utf8_width s)"
    if "list_all (\<lambda>c. \<not> is_surrogate c) s"
    using that length_utf8_encode utf8_encode_str_wire by blast
  have room: "ensure_capacity w 5 = Inr () \<and> require_utf8_within s (r - 5) = Inr ()"
    if "writes sink w (binary_wire (str_wire s)) w'" "remaining_capacity w = Some r"
      "list_all (\<lambda>c. \<not> is_surrogate c) s" for r
    using that len
    by (auto simp: writes_def fits_def binary_wire_def remaining_capacity_def
        ensure_capacity_def require_utf8_within_iff split: option.splits)
  show ?thesis
  proof (cases "list_all (\<lambda>c. \<not> is_surrogate c) s")
    case True
    then have enc: "utf8_encode s = Inr (str_wire s)" by (simp add: utf8_encode_str_wire)
    with True room show ?thesis
      by (auto simp: write_str_def write_binary_iff split: option.splits)
  next
    case False
    then show ?thesis
      by (auto simp: write_str_def utf8_encode_str_wire split: sum.splits)
  qed
qed

lemmas write_iffs = write_int_iff write_str_iff write_binary_iff write_collection_header_iff

lemma write_value_iff:
  "writes sink w [] w \<Longrightarrow>
     write_value sink w v d = Inr w' \<longleftrightarrow> encodable v d \<and> writes sink w (wire v) w'"
  and write_items_iff:
  "writes sink w [] w \<Longrightarrow>
     write_items sink w xs d = Inr w' \<longleftrightarrow> encodable_items xs d \<and> writes sink w (wire_items xs) w'"
  and write_entries_iff:
  "writes sink w [] w \<Longrightarrow>
     write_entries sink w kvs keys d = Inr w' \<longleftrightarrow>
       encodable_entries kvs keys d \<and> writes sink w (wire_entries kvs) w'"
proof (induction v d and xs d and kvs keys d arbitrary: w w' and w w' and w w'
    rule: encodable_encodable_items_encodable_entries.induct)
  case (7 xs d)
  then show ?case
    by (auto simp: check_nesting_def write_iffs writes_header cong: ex_writes_cong)
next
  case (8 xs d)
  then show ?case
    by (auto simp: check_nesting_def write_iffs writes_header cong: ex_writes_cong)
next
  case (9 kvs d)
  then show ?case
    by (auto simp: check_nesting_def write_iffs writes_header cong: ex_writes_cong)
next
  case (13 d)
  then show ?case using writes_Nil by auto
next
  case (14 x xs d)
  then show ?case
    by (cases "encodable x d"; simp add: writes_append; auto cong: ex_writes_cong)
next
  case (15 keys d)
  then show ?case using writes_Nil by auto
next
  case (16 k x kvs keys d)
  then show ?case
    by (cases "encodable x d"; simp add: writes_append key_bytes_iff cong: ex_writes_cong;
        simp cong: ex_writes_cong; auto)
qed (auto simp: check_nesting_def write_iffs writes_Cons)

end

interpretation bytesio: byte_sink bytesio_write
  by unfold_locales (simp add: bytesio_write_def)

lemma bytesio_writes [simp]:
  "writes bytesio_write w b w' \<longleftrightarrow>
     fits w (length b) \<and> w' = w\<lparr>vw_sink := vw_sink w @ b, vw_size := vw_size w + int (length b)\<rparr>"
  by (auto simp: writes_def bytesio_write_def)

lemma encode_value_iff:
  "encode_value v (limit_arg m) = Inr bs \<longleftrightarrow>
     encodable v 0 \<and> bs = wire v \<and> (\<forall>k. m = Some k \<longrightarrow> int (length (wire v)) \<le> k)"
proof -
  have neg: "\<not> int (length (wire v)) \<le> k" if "k < 0" for k
    using that by linarith
  have nonneg: "0 \<le> k" if "m = Some k" "int (length (wire v)) \<le> k" for k
    using that by linarith
  show ?thesis
    using neg nonneg
    by (cases m) (auto simp: encode_value_def encode_value_into_def limit_arg_def
        bytesio.write_value_iff fits_def)
qed

section \<open>Reading what stands at an offset\<close>

definition stands_at :: "bytes \<Rightarrow> nat \<Rightarrow> bytes \<Rightarrow> bool" where
  "stands_at data off r \<longleftrightarrow> (\<exists>p. data = p @ r \<and> length p = off)"

lemma stands_at_avail [wire_simps]:
  "stands_at data off r \<Longrightarrow> n \<le> length r \<Longrightarrow> require_available data (int off) (int n) = Inr ()"
  by (auto simp: stands_at_def require_available_def)

lemma stands_at_avail_numeral [wire_simps]:
  "stands_at data off r \<Longrightarrow> numeral k \<le> length r \<Longrightarrow>
     require_available data (int off) (numeral k) = Inr ()"
  "stands_at data off r \<Longrightarrow> 1 \<le> length r \<Longrightarrow> require_available data (int off) 1 = Inr ()"
  by (auto simp: stands_at_def require_available_def)

lemma stands_at_nth [wire_simps]: "stands_at data off (b # r) \<Longrightarrow> data ! off = b"
  by (auto simp: stands_at_def)

lemma stands_at_slice [wire_simps]:
  "stands_at data off (a @ r) \<Longrightarrow> length a = n \<Longrightarrow> bytes_slice data off n = a"
  by (auto simp: stands_at_def bytes_slice_def)

lemma stands_at_append:
  "stands_at data off (a @ r) \<Longrightarrow> stands_at data (off + length a) r"
  by (force simp: stands_at_def)

lemma stands_at_Cons: "stands_at data off (a # r) \<Longrightarrow> stands_at data (off + 1) r"
  using stands_at_append [of data off "[a]" r] by simp

lemma stands_at_read_u32 [wire_simps]:
  "stands_at data off (u32_bytes n @ r) \<Longrightarrow> small n \<Longrightarrow> read_u32 data off = Inr n"
  by (simp add: read_u32_def wire_simps small_def)

lemma stands_at_u32:
  "stands_at data off (u32_bytes n @ r) \<Longrightarrow> stands_at data (off + 4) r"
  using stands_at_append [of data off "u32_bytes n" r] by simp

lemma stands_at_read_binary [wire_simps]:
  assumes "stands_at data off (u32_bytes (length b) @ b @ r)" and "small (length b)"
  shows "read_binary data off = Inr (b, off + 4 + length b)"
  using assms stands_at_u32 [OF assms(1)]
  by (simp add: read_binary_def wire_simps del: of_nat_add)

section \<open>The decoder inverts the encoder\<close>

lemma decode_three:
  "and_then (decode_items 3 data off depth bud) (\<lambda>(xs, off, bud). Inr (PList xs, off, bud)) =
     and_then (decode_at data off depth bud) (\<lambda>(x, off, bud).
     and_then (decode_at data off depth bud) (\<lambda>(y, off, bud).
     and_then (decode_at data off depth bud) (\<lambda>(z, off, bud).
       Inr (PList [x, y, z], off, bud))))"
  by (simp add: numeral_3_eq_3 and_then_assoc split_def)

text \<open>The unrolled three-element branch of the decoder is the loop.\<close>

lemma decode_at_unfold:
  "decode_at data off depth bud =
     and_then (check_nesting depth) (\<lambda>_.
     and_then (require_available data (int off) 1) (\<lambda>_.
     let tag = data ! off; off = off + 1 in
     if tag = 0 then Inr (PNone, off, bud)
     else if tag = 1 then Inr (PBool True, off, bud)
     else if tag = 2 then Inr (PBool False, off, bud)
     else if tag = 3 then
       and_then (require_available data (int off) 8) (\<lambda>_.
         Inr (PInt (unpack_i64 (bytes_slice data off 8)), off + 8, bud))
     else if tag = 4 then
       and_then (read_binary data off) (\<lambda>(b, off). Inr (PBytes b, off, bud))
     else if tag = 5 then
       and_then (read_u32 data off) (\<lambda>n.
       and_then (budget_consume bud n) (\<lambda>bud.
       and_then (decode_items n data (off + 4) (depth + 1) bud) (\<lambda>(xs, off, bud).
         Inr (PList xs, off, bud))))
     else if tag = 6 then
       and_then (read_u32 data off) (\<lambda>n.
       and_then (budget_consume bud n) (\<lambda>bud.
       and_then (decode_entries n data (off + 4) (depth + 1) bud []) (\<lambda>(d, off, bud).
         Inr (PDict d, off, bud))))
     else if tag = 7 then
       and_then (require_available data (int off) 8) (\<lambda>_.
         Inr (PFloat (unpack_f64 (bytes_slice data off 8)), off + 8, bud))
     else if tag = 8 then
       and_then (require_available data (int off) 8) (\<lambda>_.
         Inr (PInt (int (be_decode (bytes_slice data off 8))), off + 8, bud))
     else Inl (FerricStoreError ''protocol value has unknown tag'')))"
proof -
  have branch: "(if n = 3 then
         and_then (decode_at data off (depth + 1) bud) (\<lambda>(x, off, bud).
         and_then (decode_at data off (depth + 1) bud) (\<lambda>(y, off, bud).
         and_then (decode_at data off (depth + 1) bud) (\<lambda>(z, off, bud).
           Inr (PList [x, y, z], off, bud))))
       else
         and_then (decode_items n data off (depth + 1) bud) (\<lambda>(xs, off, bud).
           Inr (PList xs, off, bud)))
     = and_then (decode_items n data off (depth + 1) bud) (\<lambda>(xs, off, bud).
         Inr (PList xs, off, bud))" for n off bud
    using decode_three by simp
  show ?thesis
    by (subst decode_at.simps) (simp only: branch)
qed


lemma decode_wire_leaf:
  assumes "d \<le> MAX_VALUE_NESTING" and "stands_at data off (tag # b)"
  shows "decode_at data off d bud =
     (let off = off + 1 in
     if tag = 0 then Inr (PNone, off, bud)
     else if tag = 1 then Inr (PBool True, off, bud)
     else if tag = 2 then Inr (PBool False, off, bud)
     else if tag = 3 then
       and_then (require_available data (int off) 8) (\<lambda>_.
         Inr (PInt (unpack_i64 (bytes_slice data off 8)), off + 8, bud))
     else if tag = 4 then
       and_then (read_binary data off) (\<lambda>(b, off). Inr (PBytes b, off, bud))
     else if tag = 5 then
       and_then (read_u32 data off) (\<lambda>n.
       and_then (budget_consume bud n) (\<lambda>bud.
       and_then (decode_items n data (off + 4) (d + 1) bud) (\<lambda>(xs, off, bud).
         Inr (PList xs, off, bud))))
     else if tag = 6 then
       and_then (read_u32 data off) (\<lambda>n.
       and_then (budget_consume bud n) (\<lambda>bud.
       and_then (decode_entries n data (off + 4) (d + 1) bud []) (\<lambda>(d, off, bud).
         Inr (PDict d, off, bud))))
     else if tag = 7 then
       and_then (require_available data (int off) 8) (\<lambda>_.
         Inr (PFloat (unpack_f64 (bytes_slice data off 8)), off + 8, bud))
     else if tag = 8 then
       and_then (require_available data (int off) 8) (\<lambda>_.
         Inr (PInt (int (be_decode (bytes_slice data off 8))), off + 8, bud))
     else Inl (FerricStoreError ''protocol value has unknown tag''))"
  using assms by (subst decode_at_unfold) (simp add: check_nesting_def guard_def wire_simps Let_def)

lemma decode_at_int:
  assumes "d \<le> MAX_VALUE_NESTING" "I64_MIN \<le> n" "n \<le> U64_MAX"
    and at: "stands_at data off (int_wire n @ r)"
  shows "decode_at data off d bud = Inr (PInt n, off + 9, bud)"
proof (cases "n \<le> I64_MAX")
  case True
  with at have at': "stands_at data off (3 # i64_bytes n @ r)" by (simp add: int_wire_def)
  from stands_at_Cons [OF this] have "stands_at data (off + 1) (i64_bytes n @ r)" .
  with at' True assms show ?thesis
    by (simp add: decode_wire_leaf wire_simps Let_def del: of_nat_add of_nat_Suc)
next
  case False
  with at have at': "stands_at data off (8 # u64_bytes (nat n) @ r)" by (simp add: int_wire_def)
  from stands_at_Cons [OF this] have 1: "stands_at data (off + 1) (u64_bytes (nat n) @ r)" .
  from False assms have "0 \<le> n" "nat n < 2 ^ 64" by (auto simp: int_limits)
  with 1 at' assms show ?thesis
    by (simp add: decode_wire_leaf wire_simps Let_def del: of_nat_add of_nat_Suc)
qed

lemma decode_at_binary:
  assumes "d \<le> MAX_VALUE_NESTING" "small (length b)"
    and at: "stands_at data off (binary_wire b @ r)"
  shows "decode_at data off d bud = Inr (PBytes b, off + length (binary_wire b), bud)"
proof -
  from at have at': "stands_at data off (4 # u32_bytes (length b) @ b @ r)"
    by (simp add: binary_wire_def)
  from stands_at_Cons [OF this] have "stands_at data (off + 1) (u32_bytes (length b) @ b @ r)" .
  with at' assms show ?thesis
    by (simp add: decode_wire_leaf wire_simps Let_def binary_wire_def)
qed

lemma decode_at_float:
  assumes "d \<le> MAX_VALUE_NESTING" and at: "stands_at data off (7 # pack_f64 x @ r)"
  shows "decode_at data off d bud = Inr (PFloat x, off + 9, bud)"
  using assms stands_at_Cons [OF at]
  by (simp add: decode_wire_leaf wire_simps Let_def del: of_nat_add of_nat_Suc)


lemma length_int_wire [simp]: "length (int_wire n) = 9"
  by (simp add: int_wire_def)

lemma decode_wire:
  "encodable v d \<Longrightarrow> stands_at data off (wire v @ r) \<Longrightarrow>
     decode_at data off d None = Inr (norm v, off + length (wire v), None)"
  and decode_wire_items:
  "encodable_items xs d \<Longrightarrow> stands_at data off (wire_items xs @ r) \<Longrightarrow>
     decode_items (length xs) data off d None =
       Inr (norm_items xs, off + length (wire_items xs), None)"
  and decode_wire_entries:
  "encodable_entries kvs keys d \<Longrightarrow> stands_at data off (wire_entries kvs @ r) \<Longrightarrow>
     fst ` set acc = PBytes ` set keys \<Longrightarrow>
     decode_entries (length kvs) data off d None acc =
       Inr (acc @ norm_entries kvs, off + length (wire_entries kvs), None)"
proof (induction v d and xs d and kvs keys d
    arbitrary: data off r and data off r and data off r acc
    rule: encodable_encodable_items_encodable_entries.induct)
  case (7 xs d)
  then have at: "stands_at data off (5 # u32_bytes (length xs) @ wire_items xs @ r)" by simp
  note at1 = stands_at_Cons [OF this]
  from stands_at_u32 [OF at1] 7
  have "decode_items (length xs) data (off + 1 + 4) (d + 1) None =
      Inr (norm_items xs, off + 1 + 4 + length (wire_items xs), None)"
    by (simp only: encodable.simps)
  with at at1 7 show ?case
    by (simp add: decode_wire_leaf wire_simps Let_def budget_consume_def)
next
  case (8 xs d)
  then have at: "stands_at data off (5 # u32_bytes (length xs) @ wire_items xs @ r)" by simp
  note at1 = stands_at_Cons [OF this]
  from stands_at_u32 [OF at1] 8
  have "decode_items (length xs) data (off + 1 + 4) (d + 1) None =
      Inr (norm_items xs, off + 1 + 4 + length (wire_items xs), None)"
    by (simp only: encodable.simps)
  with at at1 8 show ?case
    by (simp add: decode_wire_leaf wire_simps Let_def budget_consume_def)
next
  case (9 kvs d)
  then have at: "stands_at data off (6 # u32_bytes (length kvs) @ wire_entries kvs @ r)" by simp
  note at1 = stands_at_Cons [OF this]
  from stands_at_u32 [OF at1] 9
  have "decode_entries (length kvs) data (off + 1 + 4) (d + 1) None [] =
      Inr (norm_entries kvs, off + 1 + 4 + length (wire_entries kvs), None)"
    by simp
  with at at1 9 show ?case
    by (simp add: decode_wire_leaf wire_simps Let_def budget_consume_def)
next
  case (14 x xs d)
  then have at: "stands_at data off (wire x @ wire_items xs @ r)" by simp
  from stands_at_append [OF this] 14 at show ?case by simp
next
  case (16 k x kvs keys d)
  then have at: "stands_at data off
      (u32_bytes (length (key_wire k)) @ key_wire k @ wire x @ wire_entries kvs @ r)" by simp
  note at1 = stands_at_append [OF stands_at_u32 [OF this]]
  note at2 = stands_at_append [OF this]
  from 16 have "PBytes (key_wire k) \<notin> fst ` set acc" by auto
  with 16 at at1 at2 show ?case
    by (simp add: wire_simps add.assoc)
qed (simp_all add: decode_at_int decode_at_binary decode_at_float decode_wire_leaf Let_def)

section \<open>Bounds, prefix stability and the item budget\<close>

lemma nesting_induct [case_names too_deep nested]:
  assumes "\<And>d. MAX_VALUE_NESTING < d \<Longrightarrow> P d"
    and "\<And>d. d \<le> MAX_VALUE_NESTING \<Longrightarrow> P (d + 1) \<Longrightarrow> P d"
  shows "P d"
proof (induction "MAX_VALUE_NESTING + 1 - d" arbitrary: d)
  case 0
  then have "MAX_VALUE_NESTING < d" by linarith
  then show ?case by (rule assms(1))
next
  case (Suc k)
  then have "d \<le> MAX_VALUE_NESTING" "k = MAX_VALUE_NESTING + 1 - (d + 1)" by linarith+
  from this(1) Suc.hyps(1) [OF this(2)] show ?case by (rule assms(2))
qed

lemma decode_at_too_deep: "MAX_VALUE_NESTING < d \<Longrightarrow> decode_at data off d bud \<noteq> Inr r"
  by (subst decode_at.simps) (simp add: check_nesting_def guard_def)

lemma require_available_nat [simp]:
  "require_available data (int off) (int n) = Inr u \<longleftrightarrow> off + n \<le> length data"
  by (auto simp: require_available_def)

lemma require_available_numeral [simp]:
  "require_available data (int off) (numeral k) = Inr u \<longleftrightarrow> off + numeral k \<le> length data"
  "require_available data (int off) 1 = Inr u \<longleftrightarrow> off + 1 \<le> length data"
  using require_available_nat [of data off "numeral k"] require_available_nat [of data off 1]
  by simp_all

lemma read_u32_iff:
  "read_u32 data off = Inr n \<longleftrightarrow> off + 4 \<le> length data \<and> n = be_decode (bytes_slice data off 4)"
  by (auto simp: read_u32_def)

lemma read_binary_iff:
  "read_binary data off = Inr (b, off') \<longleftrightarrow>
     off' \<le> length data \<and> off' = off + 4 + length b \<and>
     length b = be_decode (bytes_slice data off 4) \<and> b = bytes_slice data (off + 4) (length b)"
  by (auto simp: read_binary_def read_u32_iff length_bytes_slice simp del: of_nat_add)

text \<open>Two inputs that agree on their first \<open>k\<close> bytes.\<close>

definition agree :: "nat \<Rightarrow> bytes \<Rightarrow> bytes \<Rightarrow> bool" where
  "agree k d e \<longleftrightarrow> k \<le> length d \<and> k \<le> length e \<and> take k d = take k e"

lemma agree_mono: "agree k d e \<Longrightarrow> j \<le> k \<Longrightarrow> agree j d e"
  unfolding agree_def by (metis le_trans min.absorb1 take_take)

lemma agree_slice:
  assumes "agree k d e" and "at + n \<le> k"
  shows "bytes_slice e at n = bytes_slice d at n"
proof -
  have "take n (drop at d) = drop at (take (at + n) d)" "take n (drop at e) = drop at (take (at + n) e)"
    by (simp_all add: drop_take)
  with agree_mono [OF assms] show ?thesis by (simp add: agree_def bytes_slice_def)
qed

lemma agree_nth: "agree k d e \<Longrightarrow> i < k \<Longrightarrow> e ! i = d ! i"
  unfolding agree_def by (metis nth_take)

lemma agree_length: "agree k d e \<Longrightarrow> k \<le> length e"
  by (simp add: agree_def)

definition stable_value :: "bytes \<Rightarrow> nat \<Rightarrow> bool" where
  "stable_value data d \<longleftrightarrow> (\<forall>off bud v off' bud'. decode_at data off d bud = Inr (v, off', bud') \<longrightarrow>
     off < off' \<and> off' \<le> length data \<and>
     (\<forall>e. agree off' data e \<longrightarrow> decode_at e off d bud = Inr (v, off', bud')))"

lemma stable_valueD:
  assumes "stable_value data d" and "decode_at data off d bud = Inr (v, off', bud')"
  shows "off < off'" "off' \<le> length data"
    "agree off' data e \<Longrightarrow> decode_at e off d bud = Inr (v, off', bud')"
  using assms unfolding stable_value_def by blast+

lemma stable_items:
  assumes "stable_value data d"
  shows "decode_items n data off d bud = Inr (xs, off', bud') \<Longrightarrow> off \<le> length data \<Longrightarrow>
     off \<le> off' \<and> off' \<le> length data \<and>
     (agree off' data e \<longrightarrow> decode_items n e off d bud = Inr (xs, off', bud'))"
proof (induction n arbitrary: off bud xs)
  case (Suc n)
  then obtain x o1 b1 ys where
      x: "decode_at data off d bud = Inr (x, o1, b1)"
    and ys: "decode_items n data o1 d b1 = Inr (ys, off', bud')" and xs: "xs = x # ys"
    by (auto simp: split_def)
  note x' = stable_valueD [OF assms x]
  from Suc.IH [OF ys x'(2)] x'(1,2) x'(3) [of e] agree_mono [of off' data e o1] xs show ?case
    by auto
qed simp

lemma read_binary_stable:
  "read_binary data off = Inr (b, off') \<Longrightarrow>
     off < off' \<and> off' \<le> length data \<and> (agree off' data e \<longrightarrow> read_binary e off = Inr (b, off'))"
  using agree_slice [of off' data e off 4] agree_slice [of off' data e "off + 4" "length b"]
  by (auto simp: read_binary_iff dest: agree_length)

lemma stable_entries:
  assumes "stable_value data d"
  shows "decode_entries n data off d bud acc = Inr (kvs, off', bud') \<Longrightarrow> off \<le> length data \<Longrightarrow>
     off \<le> off' \<and> off' \<le> length data \<and>
     (agree off' data e \<longrightarrow> decode_entries n e off d bud acc = Inr (kvs, off', bud'))"
proof (induction n arbitrary: off bud acc)
  case (Suc n)
  then obtain k o0 x o1 b1 where
      k: "read_binary data off = Inr (k, o0)" "PBytes k \<notin> fst ` set acc"
    and x: "decode_at data o0 d bud = Inr (x, o1, b1)"
    and r: "decode_entries n data o1 d b1 (acc @ [(PBytes k, x)]) = Inr (kvs, off', bud')"
    by (auto simp: split_def split: if_splits)
  note x' = stable_valueD [OF assms x] and k' = read_binary_stable [OF k(1), of e]
  from Suc.IH [OF r x'(2)] x'(1,2) x'(3) [of e] k' k(2)
    agree_mono [of off' data e o1] agree_mono [of off' data e o0] show ?case
    by auto
qed simp

definition decode_body :: "byte \<Rightarrow> bytes \<Rightarrow> nat \<Rightarrow> nat \<Rightarrow> budget \<Rightarrow> pyval decoded" where
  "decode_body tag data off d bud =
     (if tag = 0 then Inr (PNone, off, bud)
     else if tag = 1 then Inr (PBool True, off, bud)
     else if tag = 2 then Inr (PBool False, off, bud)
     else if tag = 3 then
       and_then (require_available data (int off) 8) (\<lambda>_.
         Inr (PInt (unpack_i64 (bytes_slice data off 8)), off + 8, bud))
     else if tag = 4 then
       and_then (read_binary data off) (\<lambda>(b, off). Inr (PBytes b, off, bud))
     else if tag = 5 then
       and_then (read_u32 data off) (\<lambda>n.
       and_then (budget_consume bud n) (\<lambda>bud.
       and_then (decode_items n data (off + 4) (d + 1) bud) (\<lambda>(xs, off, bud).
         Inr (PList xs, off, bud))))
     else if tag = 6 then
       and_then (read_u32 data off) (\<lambda>n.
       and_then (budget_consume bud n) (\<lambda>bud.
       and_then (decode_entries n data (off + 4) (d + 1) bud []) (\<lambda>(d, off, bud).
         Inr (PDict d, off, bud))))
     else if tag = 7 then
       and_then (require_available data (int off) 8) (\<lambda>_.
         Inr (PFloat (unpack_f64 (bytes_slice data off 8)), off + 8, bud))
     else if tag = 8 then
       and_then (require_available data (int off) 8) (\<lambda>_.
         Inr (PInt (int (be_decode (bytes_slice data off 8))), off + 8, bud))
     else Inl (FerricStoreError ''protocol value has unknown tag''))"

lemma decode_at_Inr:
  "decode_at data off d bud = Inr r \<longleftrightarrow>
     d \<le> MAX_VALUE_NESTING \<and> off < length data \<and> decode_body (data ! off) data (off + 1) d bud = Inr r"
  by (subst decode_at_unfold) (auto simp: check_nesting_def Let_def decode_body_def)

lemma decode_body_tags:
  "decode_body 5 data off d bud = Inr (v, off', bud') \<longleftrightarrow>
     off + 4 \<le> length data \<and>
     (\<exists>bud1 xs. budget_consume bud (be_decode (bytes_slice data off 4)) = Inr bud1 \<and>
        decode_items (be_decode (bytes_slice data off 4)) data (off + 4) (d + 1) bud1 =
          Inr (xs, off', bud') \<and> v = PList xs)"
  "decode_body 6 data off d bud = Inr (v, off', bud') \<longleftrightarrow>
     off + 4 \<le> length data \<and>
     (\<exists>bud1 kvs. budget_consume bud (be_decode (bytes_slice data off 4)) = Inr bud1 \<and>
        decode_entries (be_decode (bytes_slice data off 4)) data (off + 4) (d + 1) bud1 [] =
          Inr (kvs, off', bud') \<and> v = PDict kvs)"
  "decode_body 4 data off d bud = Inr (v, off', bud') \<longleftrightarrow>
     (\<exists>b. read_binary data off = Inr (b, off') \<and> v = PBytes b \<and> bud' = bud)"
  by (auto simp: decode_body_def read_u32_iff split_def)

lemma decode_body_scalar:
  assumes "tag \<notin> {4, 5, 6}" and "decode_body tag data off d bud = Inr (v, off', bud')"
    and "off \<le> length data"
  shows "off \<le> off' \<and> off' \<le> length data \<and> bud' = bud \<and> item_count v = 0"
    and "agree off' data e \<Longrightarrow> decode_body tag e off d b = Inr (v, off', b)"
  using assms agree_slice [of off' data e off 8] agree_length [of off' data e]
  by (auto simp: decode_body_def split: if_splits)

lemma decode_stable: "stable_value data d"
proof (induction d rule: nesting_induct)
  case (too_deep d)
  then show ?case by (simp add: stable_value_def decode_at_too_deep)
next
  case (nested d)
  note items = stable_items [OF nested(2)] and entries = stable_entries [OF nested(2)]
  have body: "off \<le> off' \<and> off' \<le> length data \<and>
      (agree off' data e \<longrightarrow> decode_body tag e off d bud = Inr (v, off', bud'))"
    if "decode_body tag data off d bud = Inr (v, off', bud')" "off \<le> length data"
    for tag off bud v off' bud' e
  proof -
    consider "tag = 4" | "tag = 5" | "tag = 6" | "tag \<notin> {4, 5, 6}" by blast
    then show ?thesis
    proof cases
      case 1
      with that read_binary_stable [of data off _ off' e] show ?thesis
        by (auto simp: decode_body_tags)
    next
      case 2
      with that obtain bud1 xs where
          "budget_consume bud (be_decode (bytes_slice data off 4)) = Inr bud1" "v = PList xs"
        and off: "off + 4 \<le> length data"
        and xs: "decode_items (be_decode (bytes_slice data off 4)) data (off + 4) (d + 1) bud1 =
          Inr (xs, off', bud')"
        by (auto simp: decode_body_tags)
      with items [OF xs off, of e] agree_slice [of off' data e off 4] 2 show ?thesis
        by (auto simp: decode_body_tags dest: agree_length)
    next
      case 3
      with that obtain bud1 kvs where
          "budget_consume bud (be_decode (bytes_slice data off 4)) = Inr bud1" "v = PDict kvs"
        and off: "off + 4 \<le> length data"
        and kvs: "decode_entries (be_decode (bytes_slice data off 4)) data (off + 4) (d + 1) bud1 [] =
          Inr (kvs, off', bud')"
        by (auto simp: decode_body_tags)
      with entries [OF kvs off, of e] agree_slice [of off' data e off 4] 3 show ?thesis
        by (auto simp: decode_body_tags dest: agree_length)
    next
      case 4
      with that decode_body_scalar show ?thesis by blast
    qed
  qed
  have "off < off' \<and> off' \<le> length data \<and>
      (\<forall>e. agree off' data e \<longrightarrow> decode_at e off d bud = Inr (v, off', bud'))"
    if run: "decode_at data off d bud = Inr (v, off', bud')" for off bud v off' bud'
  proof -
    from run have d: "off < length data" "d \<le> MAX_VALUE_NESTING"
      "decode_body (data ! off) data (off + 1) d bud = Inr (v, off', bud')"
      by (auto simp: decode_at_Inr)
    then have "off + 1 \<le> length data" by simp
    note b = body [OF d(3) this]
    have "decode_at e off d bud = Inr (v, off', bud')" if ag: "agree off' data e" for e
      using b [of e] d agree_nth [OF ag, of off] agree_length [OF ag] ag
      by (auto simp: decode_at_Inr)
    with b [of data] show ?thesis by auto
  qed
  then show ?case unfolding stable_value_def by blast
qed

definition charge :: "budget \<Rightarrow> nat \<Rightarrow> budget \<Rightarrow> bool" where
  "charge b n b' \<longleftrightarrow>
     (case b of None \<Rightarrow> b' = None | Some r \<Rightarrow> int n \<le> r \<and> b' = Some (r - int n))"

lemma budget_consume_charge: "budget_consume b n = Inr b' \<longleftrightarrow> charge b n b'"
  by (auto simp: budget_consume_def charge_def split: option.splits)

lemma charge_add: "charge b (m + n) b' \<longleftrightarrow> (\<exists>c. charge b m c \<and> charge c n b')"
  by (auto simp: charge_def split: option.splits)

lemma charge_None [simp]: "charge None n b' \<longleftrightarrow> b' = None"
  by (simp add: charge_def)

definition nonneg_budget :: "budget \<Rightarrow> bool" where
  "nonneg_budget b \<longleftrightarrow> (\<forall>r. b = Some r \<longrightarrow> 0 \<le> r)"

lemma charge_nonneg: "charge b n b' \<Longrightarrow> nonneg_budget b'"
  by (auto simp: charge_def nonneg_budget_def split: option.splits)

lemma charge_0: "nonneg_budget b \<Longrightarrow> charge b 0 b' \<longleftrightarrow> b' = b"
  by (auto simp: charge_def nonneg_budget_def split: option.splits)

lemma nonneg_None [simp]: "nonneg_budget None"
  by (simp add: nonneg_budget_def)

definition metered_value :: "bytes \<Rightarrow> nat \<Rightarrow> bool" where
  "metered_value data d \<longleftrightarrow> (\<forall>off bud v off' bud'. nonneg_budget bud \<longrightarrow>
     (decode_at data off d bud = Inr (v, off', bud') \<longleftrightarrow>
      decode_at data off d None = Inr (v, off', None) \<and> charge bud (item_count v) bud'))"

lemma metered_valueD:
  "metered_value data d \<Longrightarrow> nonneg_budget b \<Longrightarrow> decode_at data off d b = Inr (x, o1, b1) \<longleftrightarrow>
     decode_at data off d None = Inr (x, o1, None) \<and> charge b (item_count x) b1"
  unfolding metered_value_def by blast

lemma metered_value_None:
  "metered_value data d \<Longrightarrow> decode_at data off d None = Inr (x, o1, b1) \<Longrightarrow> b1 = None"
  by (metis charge_None metered_valueD nonneg_None)

lemma metered_items:
  assumes "metered_value data d"
  shows "nonneg_budget bud \<Longrightarrow>
     decode_items n data off d bud = Inr (xs, off', bud') \<longleftrightarrow>
     decode_items n data off d None = Inr (xs, off', None) \<and> charge bud (items_count xs) bud'"
proof (induction n arbitrary: off bud xs)
  case 0
  then show ?case by (auto simp: charge_0)
next
  case (Suc n)
  have unfold: "decode_items (Suc n) data off d b = Inr (xs, off', b') \<longleftrightarrow>
      (\<exists>x o1 b1 ys. decode_at data off d b = Inr (x, o1, b1) \<and>
         decode_items n data o1 d b1 = Inr (ys, off', b') \<and> xs = x # ys)" for b b'
    by (auto simp: split_def)
  have "decode_items (Suc n) data off d bud = Inr (xs, off', bud') \<longleftrightarrow>
      (\<exists>x o1 b1 ys. decode_at data off d None = Inr (x, o1, None) \<and>
         charge bud (item_count x) b1 \<and>
         decode_items n data o1 d None = Inr (ys, off', None) \<and>
         charge b1 (items_count ys) bud' \<and> xs = x # ys)"
    unfolding unfold metered_valueD [OF assms Suc.prems]
    using Suc.IH charge_nonneg by blast
  also have "\<dots> \<longleftrightarrow> decode_items (Suc n) data off d None = Inr (xs, off', None) \<and>
      charge bud (items_count xs) bud'"
    unfolding unfold using metered_value_None [OF assms] by (auto simp: charge_add; blast)
  finally show ?case .
qed

lemma metered_entries_sound:
  assumes "metered_value data d"
  shows "nonneg_budget bud \<Longrightarrow> decode_entries n data off d bud acc = Inr (kvs, off', bud') \<Longrightarrow>
     \<exists>new. kvs = acc @ new \<and> length new = n \<and>
       decode_entries n data off d None acc = Inr (kvs, off', None) \<and>
       charge bud (entries_count new) bud'"
proof (induction n arbitrary: off bud acc)
  case 0
  then show ?case by (auto simp: charge_0)
next
  case (Suc n)
  then obtain k o0 x o1 b1 where
      k: "read_binary data off = Inr (k, o0)" "PBytes k \<notin> fst ` set acc"
    and x: "decode_at data o0 d bud = Inr (x, o1, b1)"
    and r: "decode_entries n data o1 d b1 (acc @ [(PBytes k, x)]) = Inr (kvs, off', bud')"
    by (auto simp: split_def split: if_splits)
  from x have x': "decode_at data o0 d None = Inr (x, o1, None)" "charge bud (item_count x) b1"
    using metered_valueD [OF assms Suc.prems(1)] by blast+
  from Suc.IH [OF charge_nonneg [OF x'(2)] r] obtain new where
      "kvs = (acc @ [(PBytes k, x)]) @ new" "length new = n"
      "decode_entries n data o1 d None (acc @ [(PBytes k, x)]) = Inr (kvs, off', None)"
      "charge b1 (entries_count new) bud'"
    by blast
  with k x' show ?case
    by (intro exI [of _ "(PBytes k, x) # new"]) (auto simp: charge_add)
qed

lemma metered_entries_complete:
  assumes "metered_value data d"
  shows "nonneg_budget bud \<Longrightarrow> decode_entries n data off d None acc = Inr (acc @ new, off', None) \<Longrightarrow>
     charge bud (entries_count new) bud' \<Longrightarrow>
     decode_entries n data off d bud acc = Inr (acc @ new, off', bud')"
proof (induction n arbitrary: off bud acc new)
  case 0
  then show ?case by (auto simp: charge_0)
next
  case (Suc n)
  from Suc.prems(2) obtain k o0 x o1 b1 where
      k: "read_binary data off = Inr (k, o0)" "PBytes k \<notin> fst ` set acc"
    and x: "decode_at data o0 d None = Inr (x, o1, b1)"
    and r: "decode_entries n data o1 d b1 (acc @ [(PBytes k, x)]) = Inr (acc @ new, off', None)"
    by (auto simp: split_def split: if_splits)
  have b1: "b1 = None" using x metered_value_None [OF assms] by blast
  with metered_entries_sound [OF assms _ r] obtain new' where new: "new = (PBytes k, x) # new'"
    by auto
  with Suc.prems(3) obtain c where c: "charge bud (item_count x) c" "charge c (entries_count new') bud'"
    by (auto simp: charge_add)
  have "decode_at data o0 d bud = Inr (x, o1, c)"
    using x b1 c(1) metered_valueD [OF assms Suc.prems(1)] by blast
  moreover have "decode_entries n data o1 d c (acc @ [(PBytes k, x)]) = Inr (acc @ new, off', bud')"
    using Suc.IH [OF charge_nonneg [OF c(1)], of o1 "acc @ [(PBytes k, x)]" new'] r b1 new c(2)
    by simp
  ultimately show ?case using k by simp
qed

lemma decode_items_length: "decode_items n data off d b = Inr (xs, off', b') \<Longrightarrow> length xs = n"
  by (induction n arbitrary: off b xs) (auto simp: split_def)

lemma decode_metered: "metered_value data d"
proof (induction d rule: nesting_induct)
  case (too_deep d)
  then show ?case by (simp add: metered_value_def decode_at_too_deep)
next
  case (nested d)
  note items = metered_items [OF nested(2)]
  have body: "decode_body tag data off d bud = Inr (v, off', bud') \<longleftrightarrow>
      decode_body tag data off d None = Inr (v, off', None) \<and> charge bud (item_count v) bud'"
    if "nonneg_budget bud" "off \<le> length data" for tag off bud v off' bud'
  proof -
    let ?n = "be_decode (bytes_slice data off 4)"
    consider "tag = 4" | "tag = 5" | "tag = 6" | "tag \<notin> {4, 5, 6}" by blast
    then show ?thesis
    proof cases
      case 1
      with that show ?thesis by (auto simp: decode_body_tags charge_0)
    next
      case 2
      have "(\<exists>b1. charge bud ?n b1 \<and> decode_items ?n data (off + 4) (d + 1) b1 = Inr (xs, off', bud'))
          \<longleftrightarrow> decode_items ?n data (off + 4) (d + 1) None = Inr (xs, off', None) \<and>
            charge bud (length xs + items_count xs) bud'" for xs
        unfolding charge_add using items charge_nonneg decode_items_length by metis
      with 2 show ?thesis
        by (auto simp: decode_body_tags budget_consume_charge; blast)
    next
      case 3
      have "(\<exists>b1. charge bud ?n b1 \<and>
             decode_entries ?n data (off + 4) (d + 1) b1 [] = Inr (kvs, off', bud'))
          \<longleftrightarrow> decode_entries ?n data (off + 4) (d + 1) None [] = Inr (kvs, off', None) \<and>
            charge bud (length kvs + entries_count kvs) bud'" for kvs
        unfolding charge_add
        using metered_entries_sound [OF nested(2), of _ ?n "off + 4" "[]" kvs off']
          metered_entries_complete [OF nested(2), of _ ?n "off + 4" "[]" kvs off']
          charge_nonneg nonneg_None
        by (metis append_Nil)
      with 3 show ?thesis
        by (auto simp: decode_body_tags budget_consume_charge; blast)
    next
      case 4
      then have eq: "decode_body tag data off d bud = Inr (v, off', bud') \<longleftrightarrow>
          bud' = bud \<and> decode_body tag data off d None = Inr (v, off', None)"
        by (auto simp: decode_body_def)
      have zero: "item_count v = 0" if "decode_body tag data off d None = Inr (v, off', None)"
        using decode_body_scalar(1) [OF 4 that \<open>off \<le> length data\<close>] by simp
      show ?thesis
        by (cases "decode_body tag data off d None = Inr (v, off', None)")
           (simp_all only: eq zero charge_0 [OF that(1)] simp_thms)
    qed
  qed
  show ?case
    unfolding metered_value_def decode_at_Inr
    using body by (metis Suc_leI Suc_eq_plus1)
qed

section \<open>What the decoder returns can be sent again\<close>

definition canonical :: "pyval \<Rightarrow> nat \<Rightarrow> bool" where
  "canonical v d \<longleftrightarrow> encodable v d \<and> norm v = v"

definition closed_value :: "bytes \<Rightarrow> nat \<Rightarrow> bool" where
  "closed_value data d \<longleftrightarrow>
     (\<forall>off bud v r. decode_at data off d bud = Inr (v, r) \<longrightarrow> canonical v d)"

lemma closed_valueD: "closed_value data d \<Longrightarrow> decode_at data off d bud = Inr (v, r) \<Longrightarrow> canonical v d"
  unfolding closed_value_def by blast

lemma be_decode_small: "length bs = 4 \<Longrightarrow> small (be_decode bs)"
  using be_decode_bound [of bs] by (simp add: small_def)

lemma read_binary_small: "read_binary data off = Inr (b, off') \<Longrightarrow> small (length b)"
  by (auto simp: read_binary_iff intro!: be_decode_small length_bytes_slice)

lemma closed_items:
  assumes "closed_value data d"
  shows "decode_items n data off d bud = Inr (xs, r) \<Longrightarrow> encodable_items xs d \<and> norm_items xs = xs"
proof (induction n arbitrary: off bud xs)
  case (Suc n)
  then obtain x o1 b1 ys where
      x: "decode_at data off d bud = Inr (x, o1, b1)"
    and ys: "decode_items n data o1 d b1 = Inr (ys, r)" and xs: "xs = x # ys"
    by (auto simp: split_def)
  from closed_valueD [OF assms x] have "canonical x d" .
  with Suc.IH [OF ys] xs show ?case by (simp add: canonical_def)
qed simp

lemma key_wire_PBytes [simp]: "key_wire (PBytes b) = b" "key_ok (PBytes b)"
  by (simp_all add: key_wire_def key_ok_def key_bytes_def)

lemma closed_entries:
  assumes "closed_value data d"
  shows "decode_entries n data off d bud acc = Inr (kvs, r) \<Longrightarrow> fst ` set acc = PBytes ` set keys \<Longrightarrow>
     \<exists>new. kvs = acc @ new \<and> encodable_entries new keys d \<and> norm_entries new = new \<and> length new = n"
proof (induction n arbitrary: off bud acc keys)
  case (Suc n)
  then obtain k o0 x o1 b1 where
      k: "read_binary data off = Inr (k, o0)" "PBytes k \<notin> fst ` set acc"
    and x: "decode_at data o0 d bud = Inr (x, o1, b1)"
    and more: "decode_entries n data o1 d b1 (acc @ [(PBytes k, x)]) = Inr (kvs, r)"
    by (auto simp: split_def split: if_splits)
  from closed_valueD [OF assms x] have x': "canonical x d" .
  from Suc.prems(2) have "fst ` set (acc @ [(PBytes k, x)]) = PBytes ` set (k # keys)" by simp
  from Suc.IH [OF more this] obtain new where
      "kvs = (acc @ [(PBytes k, x)]) @ new" "encodable_entries new (k # keys) d"
      "norm_entries new = new" "length new = n"
    by blast
  with k x' read_binary_small Suc.prems(2) show ?case
    by (intro exI [of _ "(PBytes k, x) # new"]) (auto simp: canonical_def)
qed simp

lemma decode_closed: "closed_value data d"
proof (induction d rule: nesting_induct)
  case (too_deep d)
  then show ?case by (simp add: closed_value_def decode_at_too_deep)
next
  case (nested d)
  note items = closed_items [OF nested(2)] and entries = closed_entries [OF nested(2)]
  have body: "canonical v d"
    if run: "decode_body tag data off d bud = Inr (v, off', bud')" for tag off bud v off' bud'
  proof -
    have small: "small (be_decode (bytes_slice data off 4))" if "off + 4 \<le> length data"
      by (intro be_decode_small length_bytes_slice that)
    consider "tag = 4" | "tag = 5" | "tag = 6" | "tag = 3" | "tag = 8" | "tag \<notin> {3, 4, 5, 6, 8}"
      by blast
    then show ?thesis
    proof cases
      case 1
      with run nested(1) read_binary_small show ?thesis
        by (auto simp: decode_body_tags canonical_def)
    next
      case 2
      with run nested(1) small items decode_items_length show ?thesis
        by (fastforce simp: decode_body_tags canonical_def)
    next
      case 3
      with run obtain bud1 kvs where off: "off + 4 \<le> length data" and v: "v = PDict kvs"
        and kvs: "decode_entries (be_decode (bytes_slice data off 4)) data (off + 4) (d + 1) bud1 [] =
          Inr (kvs, off', bud')"
        by (auto simp: decode_body_tags)
      from entries [OF kvs, of "[]"] off v small nested(1) show ?thesis
        by (auto simp: canonical_def)
    next
      case 4
      with run nested(1) unpack_i64_range [OF length_bytes_slice] show ?thesis
        by (fastforce simp: decode_body_def canonical_def int_limits)
    next
      case 5
      have "be_decode (bytes_slice data off 8) < 2 ^ 64" if "off + 8 \<le> length data"
        using be_decode_bound [of "bytes_slice data off 8"] length_bytes_slice [OF that] by simp
      with 5 run nested(1) show ?thesis
        by (auto simp: decode_body_def canonical_def int_limits)
    next
      case 6
      with run nested(1) show ?thesis
        by (auto simp: decode_body_def canonical_def split: if_splits)
    qed
  qed
  show ?case
    unfolding closed_value_def using body by (auto simp: decode_at_Inr)
qed

section \<open>Properties of the public codec functions\<close>

lemma decode_value_budget:
  assumes "make_budget m = Inr b"
  shows "decode_value data m = Inr (v, rest) \<longleftrightarrow>
     (\<exists>off b'. decode_at data 0 0 b = Inr (v, off, b') \<and> rest = drop off data)"
proof (cases "data = []")
  case True
  then show ?thesis by (simp add: decode_value_def decode_at_Inr)
next
  case False
  with assms show ?thesis
    by (auto simp: decode_value_def decode_value_at_def split_def)
qed

lemma make_budget_simps:
  "make_budget PNone = Inr None" "0 \<le> n \<Longrightarrow> make_budget (PInt n) = Inr (Some n)"
  "n < 0 \<Longrightarrow> \<exists>e. make_budget (PInt n) = Inl e"
  by (simp_all add: make_budget_def validate_optional_nonnegative_int_def
      validate_nonnegative_int_def)

lemma decode_value_invalid_limit: "make_budget m = Inl e \<Longrightarrow> decode_value data m \<noteq> Inr r"
  by (auto simp: decode_value_def decode_value_at_def)

lemma make_budget_nonneg: "make_budget m = Inr b \<Longrightarrow> nonneg_budget b"
  by (auto simp: make_budget_def nonneg_budget_def)

lemma encoded_decodes:
  assumes "encode_value v (limit_arg m) = Inr bs"
  shows "decode_value (bs @ rest) PNone = Inr (norm v, rest)"
proof -
  from assms have enc: "encodable v 0" "bs = wire v" by (simp_all add: encode_value_iff)
  have "stands_at (bs @ rest) 0 (wire v @ rest)" by (simp add: stands_at_def enc(2))
  from decode_wire [OF enc(1) this] enc(2) show ?thesis
    by (simp add: decode_value_budget [OF make_budget_simps(1)])
qed

lemma decode_value_consumes:
  assumes "decode_value data m = Inr (v, rest)"
  shows "\<exists>used. data = used @ rest \<and> used \<noteq> [] \<and> (\<forall>s. decode_value (used @ s) m = Inr (v, s))"
proof -
  from assms obtain b where b: "make_budget m = Inr b"
    using decode_value_invalid_limit by (cases "make_budget m") auto
  from assms obtain off b' where off: "decode_at data 0 0 b = Inr (v, off, b')" "rest = drop off data"
    by (auto simp: decode_value_budget [OF b])
  note st = stable_valueD [OF decode_stable off(1)]
  have "decode_at (take off data @ s) 0 0 b = Inr (v, off, b')" for s
    using st(2) by (intro st(3)) (simp add: agree_def)
  with st(1,2) off(2) show ?thesis
    by (intro exI [of _ "take off data"]) (auto simp: decode_value_budget [OF b])
qed

text \<open>
  C1. Round trip: whatever \<open>encode_value\<close> produces, under any byte limit, \<open>decode_value\<close> reads back
  as the normalised value (strings and byte arrays as bytes, tuples as lists, dictionary keys as
  bytes) and returns exactly the bytes that follow it.
\<close>

theorem codec_roundtrip:
  assumes "encode_value v (limit_arg m) = Inr bs"
  shows "decode_value (bs @ rest) PNone = Inr (norm v, rest)"
  using assms by (rule encoded_decodes)

theorem codec_roundtrip_witness:
  "decode_value (0x06 # u32_bytes 1 @ u32_bytes 1 @ [0x6B] @ 0x05 # u32_bytes 1 @ [0x01] @ [0x09]) PNone
     = Inr (PDict [(PBytes [0x6B], PList [PBool True])], [0x09])"
  using codec_roundtrip [of "PDict [(PStr [0x6B], PTuple [PBool True])]" None
      "0x06 # u32_bytes 1 @ u32_bytes 1 @ [0x6B] @ 0x05 # u32_bytes 1 @ [0x01]" "[0x09]"]
  by (simp add: encode_value_iff MAX_VALUE_NESTING_def small_def key_ok_def key_wire_def key_bytes_def
      utf8_char_def is_surrogate_def)

text \<open>
  C2. The byte limit is exact: encoding under \<open>max_bytes = k\<close> succeeds precisely when unlimited
  encoding succeeds with at most \<open>k\<close> bytes, and yields the same bytes. In particular the
  allocation-free UTF-8 size scan never rejects a string that would fit.
\<close>

theorem encode_limit_exact:
  "encode_value v (PInt k) = Inr bs \<longleftrightarrow> encode_value v PNone = Inr bs \<and> int (length bs) \<le> k"
  using encode_value_iff [of v "Some k" bs] encode_value_iff [of v None bs]
  by (auto simp: limit_arg_def)

text \<open>
  C3. The item budget is exact and cumulative: decoding with a budget of \<open>n\<close> collection items
  succeeds precisely when unbudgeted decoding succeeds and the value, at every nesting level taken
  together, holds at most \<open>n\<close> items.
\<close>

theorem decode_budget_exact:
  assumes "0 \<le> n"
  shows "decode_value data (PInt n) = Inr (v, rest) \<longleftrightarrow>
     decode_value data PNone = Inr (v, rest) \<and> int (item_count v) \<le> n"
proof -
  have "nonneg_budget (Some n)" using assms by (simp add: nonneg_budget_def)
  note m = metered_valueD [OF decode_metered this, of data 0 0]
  have "(\<exists>b'. decode_at data 0 0 (Some n) = Inr (v, off, b')) \<longleftrightarrow>
      (\<exists>b'. decode_at data 0 0 None = Inr (v, off, b')) \<and> int (item_count v) \<le> n" for off
    unfolding m using metered_value_None [OF decode_metered] by (auto simp: charge_def)
  then show ?thesis
    unfolding decode_value_budget [OF make_budget_simps(1)]
      decode_value_budget [OF make_budget_simps(2) [OF assms]] by metis
qed

theorem decode_budget_exact_witness:
  "(0 :: int) \<le> 1 \<and>
   (decode_value [0x05, 0, 0, 0, 1, 0x00] (PInt 1) = Inr (PList [PNone], []) \<longleftrightarrow>
     decode_value [0x05, 0, 0, 0, 1, 0x00] PNone = Inr (PList [PNone], []))"
  using decode_budget_exact [of 1 "[0x05, 0, 0, 0, 1, 0x00]" "PList [PNone]" "[]"] by simp

text \<open>
  Decoding consumes a non-empty prefix and its result depends on that prefix alone: with any
  other continuation of the same bytes the decoder returns the same value and leaves exactly the
  continuation.
\<close>

theorem decode_self_delimiting:
  assumes "decode_value data m = Inr (v, rest)"
  shows "\<exists>used. data = used @ rest \<and> used \<noteq> [] \<and> (\<forall>s. decode_value (used @ s) m = Inr (v, s))"
  using assms by (rule decode_value_consumes)

theorem decode_self_delimiting_witness:
  "\<exists>used. [0x02, 0x07] = used @ [0x07] \<and> used \<noteq> [] \<and>
     (\<forall>s. decode_value (used @ s) PNone = Inr (PBool False, s))"
proof -
  have "decode_value [0x02, 0x07] PNone = Inr (PBool False, [0x07])"
    by (simp add: decode_value_budget [OF make_budget_simps(1)] decode_at_Inr decode_body_def
        MAX_VALUE_NESTING_def)
  then show ?thesis by (rule decode_self_delimiting)
qed

text \<open>
  Truncation is always detected: no proper prefix of an encoded value decodes.
\<close>

theorem truncated_value_rejected:
  assumes "encode_value v (limit_arg m) = Inr bs" and "k < length bs"
  shows "\<exists>e. decode_value (take k bs) PNone = Inl e"
proof (rule ccontr)
  assume "\<nexists>e. decode_value (take k bs) PNone = Inl e"
  then obtain w r where "decode_value (take k bs) PNone = Inr (w, r)"
    by (cases "decode_value (take k bs) PNone") auto
  then obtain used where used: "take k bs = used @ r"
      "\<And>s. decode_value (used @ s) PNone = Inr (w, s)"
    using decode_value_consumes by blast
  then have "decode_value bs PNone = Inr (w, r @ drop k bs)"
    by (metis append.assoc append_take_drop_id)
  moreover have "decode_value bs PNone = Inr (norm v, [])"
    using encoded_decodes [OF assms(1), of "[]"] by simp
  ultimately show False using assms(2) by simp
qed


theorem truncated_value_rejected_witness:
  "\<exists>e. decode_value (take 8 (0x03 # i64_bytes 77)) PNone = Inl e"
  using truncated_value_rejected [of "PInt 77" None "0x03 # i64_bytes 77" 8]
  by (simp add: encode_value_iff MAX_VALUE_NESTING_def int_wire_def int_limits)

text \<open>
  Closure: every value the decoder returns is a fixed point of normalisation and lies within
  the protocol's own limits, so it can be encoded again, and the re-encoding decodes to it.
\<close>

theorem decoded_value_reencodable:
  assumes "decode_value data m = Inr (v, rest)"
  shows "norm v = v \<and> (\<exists>bs. encode_value v PNone = Inr bs \<and> decode_value bs PNone = Inr (v, []))"
proof -
  from assms obtain b where b: "make_budget m = Inr b"
    using decode_value_invalid_limit by (cases "make_budget m") auto
  from assms have "canonical v 0"
    using closed_valueD [OF decode_closed] by (auto simp: decode_value_budget [OF b])
  then have "encode_value v (limit_arg None) = Inr (wire v)" "norm v = v"
    by (simp_all add: encode_value_iff canonical_def)
  with encoded_decodes [OF this(1), of "[]"] show ?thesis
    by (auto simp: limit_arg_def)
qed

theorem decoded_value_reencodable_witness:
  "norm (PBool True) = PBool True \<and>
   (\<exists>bs. encode_value (PBool True) PNone = Inr bs \<and> decode_value bs PNone = Inr (PBool True, []))"
proof -
  have "decode_value [0x01] PNone = Inr (PBool True, [])"
    by (simp add: decode_value_budget [OF make_budget_simps(1)] decode_at_Inr decode_body_def
        MAX_VALUE_NESTING_def)
  then show ?thesis by (rule decoded_value_reencodable)
qed

end
