(* ===== verification/Compact_Responses.thy ===== *)
theory Compact_Responses
  imports Codec_Correct
begin

text \<open>
  The compact response collections: the read primitives of \<open>protocol_response_primitives.py\<close>, the
  cardinality contracts of \<open>protocol_response_contracts.py\<close> and the fixed-shape decoders of
  \<open>protocol_response_collections.py\<close>, with the OK list and the integer list of
  \<open>protocol_responses.py\<close>. A decoder that declines returns None in the source; here it returns
  \<open>Inr None\<close>, and an exception that leaves it is \<open>Inl\<close>. A \<open>for _ in range(n)\<close> loop that reads one
  item per round is \<open>for_each\<close>, which stops at the first \<open>return None\<close> or exception.

  The interface \<open>exact_reader\<close> states what a reader of one item promises: it succeeds exactly where
  the item's wire form stands, moves past it and charges the budget with the item's cost. The loop law
  and the whole-collection laws are proved once from it; every reader below interprets it.
\<close>

section \<open>Results that may be None\<close>

definition opt_then :: "'a option result \<Rightarrow> ('a \<Rightarrow> 'b option result) \<Rightarrow> 'b option result" where
  "opt_then m f = and_then m (\<lambda>x. case x of None \<Rightarrow> Inr None | Some y \<Rightarrow> f y)"

definition none_on :: "(py_error \<Rightarrow> bool) \<Rightarrow> 'a option result \<Rightarrow> 'a option result" where
  "none_on caught r = (case r of Inl e \<Rightarrow> if caught e then Inr None else Inl e | Inr x \<Rightarrow> Inr x)"

definition returns :: "'a result \<Rightarrow> 'a option result" where
  "returns r = and_then r (\<lambda>x. Inr (Some x))"

lemma opt_then_Some [simp]:
  "opt_then m f = Inr (Some y) \<longleftrightarrow> (\<exists>x. m = Inr (Some x) \<and> f x = Inr (Some y))"
  by (auto simp: opt_then_def split: option.splits)

lemma opt_then_Inl:
  "opt_then m f = Inl e \<longleftrightarrow> m = Inl e \<or> (\<exists>x. m = Inr (Some x) \<and> f x = Inl e)"
  by (auto simp: opt_then_def and_then_eq_Inl split: option.splits)

lemma opt_then_simps [simp]:
  "opt_then (Inl e) f = Inl e" "opt_then (Inr None) f = Inr None" "opt_then (Inr (Some x)) f = f x"
  by (simp_all add: opt_then_def)

lemma none_on_Some [simp]: "none_on c r = Inr (Some x) \<longleftrightarrow> r = Inr (Some x)"
  by (auto simp: none_on_def split: sum.splits)

lemma none_on_Inl: "none_on c r = Inl e \<longleftrightarrow> r = Inl e \<and> \<not> c e"
  by (auto simp: none_on_def split: sum.splits)

lemma returns_Some [simp]: "returns r = Inr (Some x) \<longleftrightarrow> r = Inr x"
  by (auto simp: returns_def)

lemma returns_Inl: "returns r = Inl e \<longleftrightarrow> r = Inl e"
  by (auto simp: returns_def and_then_eq_Inl)

fun for_each ::
    "(nat \<Rightarrow> budget \<Rightarrow> ('a \<times> nat \<times> budget) option result) \<Rightarrow> nat \<Rightarrow> nat \<Rightarrow> budget \<Rightarrow>
      ('a list \<times> nat \<times> budget) option result" where
  "for_each rd 0 off b = Inr (Some ([], off, b))"
| "for_each rd (Suc n) off b =
     opt_then (rd off b) (\<lambda>(x, off, b).
     opt_then (for_each rd n off b) (\<lambda>(xs, off, b). Inr (Some (x # xs, off, b))))"

section \<open>Primitives\<close>

definition NULL_U32 :: nat where "NULL_U32 = 0xFFFFFFFF"

definition rp_require_available :: "bytes \<Rightarrow> nat \<Rightarrow> nat \<Rightarrow> unit result" where
  "rp_require_available data off n =
     (if int (length data) - int off < int n
      then Inl (FerricStoreError ''protocol value is truncated'') else Inr ())"

definition rp_read_u32 :: "bytes \<Rightarrow> nat \<Rightarrow> nat result" where
  "rp_read_u32 data off =
     and_then (rp_require_available data off 4) (\<lambda>_. Inr (be_decode (bytes_slice data off 4)))"

definition read_tagged_binary :: "bytes \<Rightarrow> nat \<Rightarrow> (bytes \<times> nat) result" where
  "read_tagged_binary data off =
     and_then (byte_at data off) (\<lambda>tag.
     if tag \<noteq> 4 then Inl (FerricStoreError ''protocol fast path expected binary'')
     else let off = off + 1 in
       and_then (rp_read_u32 data off) (\<lambda>n.
       let off = off + 4 in
       and_then (rp_require_available data off n) (\<lambda>_.
         Inr (bytes_slice data off n, off + n))))"

definition read_tagged_i64 :: "bytes \<Rightarrow> nat \<Rightarrow> (int \<times> nat) result" where
  "read_tagged_i64 data off =
     and_then (byte_at data off) (\<lambda>tag.
     if tag \<noteq> 3 then Inl (FerricStoreError ''protocol fast path expected integer'')
     else let off = off + 1 in
       and_then (rp_require_available data off 8) (\<lambda>_.
         Inr (unpack_i64 (bytes_slice data off 8), off + 8)))"

definition read_compact_binary :: "bytes \<Rightarrow> nat \<Rightarrow> (bytes \<times> nat) result" where
  "read_compact_binary data off =
     and_then (rp_read_u32 data off) (\<lambda>n.
     let off = off + 4 in
     if n = NULL_U32 then Inl (FerricStoreError ''protocol compact value expected binary'')
     else and_then (rp_require_available data off n) (\<lambda>_. Inr (bytes_slice data off n, off + n)))"

definition read_compact_optional_binary :: "bytes \<Rightarrow> nat \<Rightarrow> (bytes option \<times> nat) result" where
  "read_compact_optional_binary data off =
     and_then (rp_read_u32 data off) (\<lambda>n.
     let off = off + 4 in
     if n = NULL_U32 then Inr (None, off)
     else and_then (rp_require_available data off n) (\<lambda>_.
       Inr (Some (bytes_slice data off n), off + n)))"

section \<open>Fixed-shape collections\<close>

definition caught_errors :: "py_error \<Rightarrow> bool" where
  "caught_errors e \<longleftrightarrow> e = IndexError \<or> e = StructError \<or> is_ferricstore_error e"

fun reraised :: "py_error \<Rightarrow> bool" where
  "reraised (DecodedCollectionLimitError _) = True"
| "reraised (DuplicateProtocolMapKeyError _) = True"
| "reraised _ = False"

definition declined_errors :: "py_error \<Rightarrow> bool" where
  "declined_errors e \<longleftrightarrow> \<not> reraised e \<and> caught_errors e"

definition caught_index_struct :: "py_error \<Rightarrow> bool" where
  "caught_index_struct e \<longleftrightarrow> e = IndexError \<or> e = StructError"

definition try_decode_custom_kv_get :: "bytes \<Rightarrow> nat \<Rightarrow> bytes option result" where
  "try_decode_custom_kv_get data off = none_on caught_errors
     (let off = off + 1 in
      and_then (byte_at data off) (\<lambda>present.
      let off = off + 1 in
      if present = 0 then Inr None
      else if present \<noteq> 1 then Inr None
      else and_then (read_compact_binary data off) (\<lambda>(value, off).
        if off \<noteq> length data then Inr None else Inr (Some value))))"

definition take_u32 :: "bytes \<Rightarrow> nat \<Rightarrow> (nat \<times> nat) option" where
  "take_u32 data off =
     (if off + 4 > length data then None
      else Some (be_decode (bytes_slice data off 4), off + 4))"

definition take_binary :: "bytes \<Rightarrow> nat \<Rightarrow> budget \<Rightarrow> (bytes \<times> nat \<times> budget) option result" where
  "take_binary data off b =
     (case take_u32 data off of
        None \<Rightarrow> Inr None
      | Some (n, off) \<Rightarrow>
          if n = NULL_U32 \<or> off + n > length data then Inr None
          else Inr (Some (bytes_slice data off n, off + n, b)))"

definition kv_mget_item :: "bytes \<Rightarrow> nat \<Rightarrow> budget \<Rightarrow> (bytes option \<times> nat \<times> budget) option result" where
  "kv_mget_item data off b =
     (if off \<ge> length data then Inr None
      else
        let present = data ! off; off = off + 1 in
        if present = 1 then
          opt_then (take_binary data off b) (\<lambda>(value, off, b). Inr (Some (Some value, off, b)))
        else if present = 0 then Inr (Some (None, off, b))
        else Inr None)"

definition counted ::
    "bytes \<Rightarrow> nat \<Rightarrow> budget \<Rightarrow> (nat \<Rightarrow> nat \<Rightarrow> budget \<Rightarrow> 'a option result) \<Rightarrow> 'a option result" where
  "counted data off b f =
     (case take_u32 data off of
        None \<Rightarrow> Inr None
      | Some (n, off) \<Rightarrow> and_then (budget_consume b n) (\<lambda>b. f n off b))"

definition at_end :: "bytes \<Rightarrow> ('a \<times> nat \<times> budget) option result \<Rightarrow> 'a option result" where
  "at_end data r =
     opt_then r (\<lambda>(x, off, _). if off \<noteq> length data then Inr None else Inr (Some x))"

definition try_decode_custom_kv_mget :: "bytes \<Rightarrow> nat \<Rightarrow> budget \<Rightarrow> bytes option list option result" where
  "try_decode_custom_kv_mget data off b =
     counted data (off + 1) b (\<lambda>n off b. at_end data (for_each (kv_mget_item data) n off b))"

definition fixed_items :: "bytes \<Rightarrow> nat \<Rightarrow> nat \<Rightarrow> nat \<Rightarrow> bytes option list" where
  "fixed_items data off n sz = map (\<lambda>i. Some (bytes_slice data (off + i * sz) sz)) [0..<n]"

definition try_decode_custom_kv_mget_fixed ::
    "bytes \<Rightarrow> nat \<Rightarrow> budget \<Rightarrow> bytes option list option result" where
  "try_decode_custom_kv_mget_fixed data off b =
     (let off = off + 1 in
      if off + 8 > length data then Inr None
      else
        let n = be_decode (bytes_slice data off 4); off = off + 4 in
        and_then (budget_consume b n) (\<lambda>_.
        let sz = be_decode (bytes_slice data off 4); off = off + 4;
            payload_len = length data - off in
        if sz = NULL_U32 \<or> payload_len \<noteq> n * sz then Inr None
        else if n = 0 then (if off = length data then Inr (Some []) else Inr None)
        else if sz = 0 then Inr (Some (replicate n (Some [])))
        else Inr (Some (fixed_items data off n sz))))"

definition inner_binary_list :: "bytes \<Rightarrow> nat \<Rightarrow> budget \<Rightarrow> (bytes list \<times> nat \<times> budget) option result" where
  "inner_binary_list data off b =
     counted data off b (\<lambda>n off b.
       if n = 0 then Inr (Some ([], off, b))
       else if n = 1 then
         opt_then (take_binary data off b) (\<lambda>(x, off, b). Inr (Some ([x], off, b)))
       else if n > (length data - off) div 4 then Inr None
       else for_each (take_binary data) n off b)"

definition try_decode_custom_binary_list_list ::
    "bytes \<Rightarrow> nat \<Rightarrow> budget \<Rightarrow> bytes list list option result" where
  "try_decode_custom_binary_list_list data off b = none_on caught_index_struct
     (counted data (off + 1) b (\<lambda>n off b. at_end data (for_each (inner_binary_list data) n off b)))"

fun inner_map_items ::
    "bytes \<Rightarrow> nat \<Rightarrow> nat \<Rightarrow> budget \<Rightarrow> (bytes \<times> bytes) list \<Rightarrow>
      ((bytes \<times> bytes) list \<times> nat \<times> budget) option result" where
  "inner_map_items data 0 off b items = Inr (Some (items, off, b))"
| "inner_map_items data (Suc n) off b items =
     opt_then (take_binary data off b) (\<lambda>(k, off, b).
     if k \<in> fst ` set items
     then Inl (DuplicateProtocolMapKeyError ''duplicate protocol map key while decoding'')
     else opt_then (take_binary data off b) (\<lambda>(v, off, b).
       inner_map_items data n off b (items @ [(k, v)])))"

definition inner_binary_map ::
    "bytes \<Rightarrow> nat \<Rightarrow> budget \<Rightarrow> ((bytes \<times> bytes) list \<times> nat \<times> budget) option result" where
  "inner_binary_map data off b =
     counted data off b (\<lambda>n off b.
       if n = 0 then Inr (Some ([], off, b)) else inner_map_items data n off b [])"

definition try_decode_custom_binary_map_list ::
    "bytes \<Rightarrow> nat \<Rightarrow> budget \<Rightarrow> (bytes \<times> bytes) list list option result" where
  "try_decode_custom_binary_map_list data off b = none_on caught_index_struct
     (counted data (off + 1) b (\<lambda>n off b. at_end data (for_each (inner_binary_map data) n off b)))"

fun binary_list_items :: "bytes \<Rightarrow> nat \<Rightarrow> nat \<Rightarrow> (bytes list \<times> nat) result" where
  "binary_list_items data 0 off = Inr ([], off)"
| "binary_list_items data (Suc n) off =
     and_then (read_compact_binary data off) (\<lambda>(x, off).
     and_then (binary_list_items data n off) (\<lambda>(xs, off). Inr (x # xs, off)))"

definition read_custom_binary_list :: "bytes \<Rightarrow> nat \<Rightarrow> budget \<Rightarrow> (bytes list \<times> nat \<times> budget) result" where
  "read_custom_binary_list data off b =
     and_then (rp_read_u32 data off) (\<lambda>n.
     and_then (budget_consume b n) (\<lambda>b.
     and_then (binary_list_items data n (off + 4)) (\<lambda>(xs, off). Inr (xs, off, b))))"

fun binary_map_items ::
    "bytes \<Rightarrow> nat \<Rightarrow> nat \<Rightarrow> (bytes \<times> bytes) list \<Rightarrow> ((bytes \<times> bytes) list \<times> nat) result" where
  "binary_map_items data 0 off values = Inr (values, off)"
| "binary_map_items data (Suc n) off values =
     and_then (read_compact_binary data off) (\<lambda>(k, off).
     if k \<in> fst ` set values
     then Inl (DuplicateProtocolMapKeyError ''duplicate protocol map key while decoding'')
     else and_then (read_compact_binary data off) (\<lambda>(v, off).
       binary_map_items data n off (values @ [(k, v)])))"

definition read_custom_binary_map ::
    "bytes \<Rightarrow> nat \<Rightarrow> budget \<Rightarrow> ((bytes \<times> bytes) list \<times> nat \<times> budget) result" where
  "read_custom_binary_map data off b =
     and_then (rp_read_u32 data off) (\<lambda>n.
     and_then (budget_consume b n) (\<lambda>b.
     and_then (binary_map_items data n (off + 4) []) (\<lambda>(d, off). Inr (d, off, b))))"

definition try_decode_custom_ok_list :: "bytes \<Rightarrow> nat \<Rightarrow> budget \<Rightarrow> bytes list option result" where
  "try_decode_custom_ok_list data off b = none_on declined_errors
     (if int (length data) - int off \<noteq> 5 then Inr None
      else and_then (rp_read_u32 data (off + 1)) (\<lambda>n.
           and_then (budget_consume b n) (\<lambda>_. Inr (Some (replicate n (bytes_lit ''OK''))))))"

definition take_i64 :: "bytes \<Rightarrow> nat \<Rightarrow> budget \<Rightarrow> (int \<times> nat \<times> budget) option result" where
  "take_i64 data off b =
     (if off + 8 > length data then Inl StructError
      else Inr (Some (unpack_i64 (bytes_slice data off 8), off + 8, b)))"

definition try_decode_custom_integer_list :: "bytes \<Rightarrow> nat \<Rightarrow> budget \<Rightarrow> int list option result" where
  "try_decode_custom_integer_list data off b = none_on declined_errors
     (and_then (byte_at data off) (\<lambda>marker.
      if marker \<noteq> 0x88 then Inr None
      else counted data (off + 1) b (\<lambda>n off b.
        if off + n * 8 \<noteq> length data then Inr None
        else opt_then (for_each (take_i64 data) n off b) (\<lambda>(xs, _, _). Inr (Some xs)))))"

section \<open>Response cardinality\<close>

datatype cardinality_policy = EXACT_COLLECTION | OK_OR_EXACT_COLLECTION

definition RESPONSE_CARDINALITY_POLICIES :: "(int \<times> cardinality_policy) list" where
  "RESPONSE_CARDINALITY_POLICIES =
     [(0x000E, EXACT_COLLECTION), (0x0104, EXACT_COLLECTION), (0x020C, EXACT_COLLECTION),
      (0x0105, OK_OR_EXACT_COLLECTION), (0x020F, OK_OR_EXACT_COLLECTION),
      (0x0210, OK_OR_EXACT_COLLECTION), (0x0212, OK_OR_EXACT_COLLECTION),
      (0x0211, OK_OR_EXACT_COLLECTION), (0x0213, OK_OR_EXACT_COLLECTION),
      (0x0214, OK_OR_EXACT_COLLECTION)]"

definition require_compact_collection_count :: "nat \<Rightarrow> int option \<Rightarrow> nat option \<Rightarrow> unit result" where
  "require_compact_collection_count n max_collection_items expected_collection_items =
     (if (case max_collection_items of None \<Rightarrow> False | Some m \<Rightarrow> int n > m)
      then Inl (FerricStoreError
             ''protocol response collection exceeds max_decoded_collection_items'')
      else if (case expected_collection_items of None \<Rightarrow> False | Some k \<Rightarrow> n \<noteq> k)
      then Inl (FerricStoreError ''protocol response collection returned an unexpected item count'')
      else Inr ())"

definition byte_lower :: "byte \<Rightarrow> byte" where
  "byte_lower c = (if 0x41 \<le> c \<and> c \<le> 0x5A then c + 0x20 else c)"

definition is_ok_scalar :: "(ustr \<Rightarrow> ustr) \<Rightarrow> pyval \<Rightarrow> bool" where
  "is_ok_scalar str_lower value =
     (case value of
        PBytes b \<Rightarrow> map byte_lower b = bytes_lit ''ok''
      | PStr s \<Rightarrow> str_lower s = text_lit ''ok''
      | _ \<Rightarrow> False)"

definition validate_response_cardinality ::
    "(ustr \<Rightarrow> ustr) \<Rightarrow> int \<Rightarrow> pyval \<Rightarrow> nat option \<Rightarrow> unit result" where
  "validate_response_cardinality str_lower opcode value expected_collection_items =
     (case expected_collection_items of
        None \<Rightarrow> Inr ()
      | Some k \<Rightarrow>
          (case map_of RESPONSE_CARDINALITY_POLICIES opcode of
             None \<Rightarrow> Inr ()
           | Some policy \<Rightarrow>
               if policy = OK_OR_EXACT_COLLECTION \<and> is_ok_scalar str_lower value then Inr ()
               else (case value of
                   PList xs \<Rightarrow> require_compact_collection_count (length xs) None (Some k)
                 | _ \<Rightarrow> Inl (FerricStoreError ''protocol response returned a scalar''))))"

section \<open>Readers that are exact\<close>

definition occurs :: "bytes \<Rightarrow> nat \<Rightarrow> bytes \<Rightarrow> bool" where
  "occurs data off w \<longleftrightarrow> off + length w \<le> length data \<and> bytes_slice data off (length w) = w"

lemma occurs_append:
  "occurs data off (a @ c) \<longleftrightarrow> occurs data off a \<and> occurs data (off + length a) c"
proof -
  have "take (length a + length c) (drop off data) =
      take (length a) (drop off data) @ take (length c) (drop (off + length a) data)"
    by (simp add: take_add add.commute)
  then show ?thesis
    by (auto simp: occurs_def bytes_slice_def append_eq_append_conv)
qed

lemma occurs_Nil [simp]: "occurs data off [] \<longleftrightarrow> off \<le> length data"
  by (simp add: occurs_def bytes_slice_def)

lemma occurs_Cons:
  "occurs data off (x # w) \<longleftrightarrow> off < length data \<and> data ! off = x \<and> occurs data (off + 1) w"
proof -
  have "occurs data off [x] \<longleftrightarrow> off < length data \<and> data ! off = x"
    by (auto simp: occurs_def bytes_slice_def take_Suc hd_drop_conv_nth)
  then show ?thesis
    using occurs_append [of data off "[x]" w] by simp
qed

lemma occurs_to_end:
  "occurs data off w \<and> off + length w = length data \<longleftrightarrow> off \<le> length data \<and> drop off data = w"
  by (auto simp: occurs_def bytes_slice_def)

lemma occurs_le: "occurs data off w \<Longrightarrow> off + length w \<le> length data"
  by (simp add: occurs_def)

lemma occurs_u32:
  "off + 4 \<le> length data \<and> be_decode (bytes_slice data off 4) = n \<longleftrightarrow>
     n < 2 ^ 32 \<and> occurs data off (u32_bytes n)"
proof (intro iffI)
  assume a: "off + 4 \<le> length data \<and> be_decode (bytes_slice data off 4) = n"
  then have l: "length (bytes_slice data off 4) = 4" by (simp add: length_bytes_slice)
  have "n < 2 ^ 32" using a be_decode_bound [of "bytes_slice data off 4"] by (simp add: l)
  moreover have "u32_bytes n = bytes_slice data off 4"
    using a be_encode_decode [of "bytes_slice data off 4"] by (simp add: u32_bytes_def l)
  ultimately show "n < 2 ^ 32 \<and> occurs data off (u32_bytes n)"
    using a by (simp add: occurs_def l)
qed (auto simp: occurs_def)

lemma occurs_i64:
  "off + 8 \<le> length data \<and> unpack_i64 (bytes_slice data off 8) = n \<longleftrightarrow>
     I64_MIN \<le> n \<and> n \<le> I64_MAX \<and> occurs data off (i64_bytes n)"
proof (intro iffI)
  assume a: "off + 8 \<le> length data \<and> unpack_i64 (bytes_slice data off 8) = n"
  then have l: "length (bytes_slice data off 8) = 8" by (simp add: length_bytes_slice)
  have m: "be_decode (bytes_slice data off 8) < 2 ^ 64"
    using be_decode_bound [of "bytes_slice data off 8"] by (simp add: l)
  have "nat (n mod 2 ^ 64) = be_decode (bytes_slice data off 8)"
    using a m by (auto simp: unpack_i64_def Let_def nat_mod_as_int split: if_splits)
  then have "i64_bytes n = bytes_slice data off 8"
    using be_encode_decode [of "bytes_slice data off 8"] by (simp add: i64_bytes_def l)
  then show "I64_MIN \<le> n \<and> n \<le> I64_MAX \<and> occurs data off (i64_bytes n)"
    using a unpack_i64_range [OF l] by (simp add: occurs_def l)
qed (auto simp: occurs_def)

lemma take_u32_Some:
  "take_u32 data off = Some (n, off') \<longleftrightarrow>
     n < 2 ^ 32 \<and> occurs data off (u32_bytes n) \<and> off' = off + 4"
  using occurs_u32 [of off data n] by (auto simp: take_u32_def)

lemma counted_Some:
  "counted data off b f = Inr (Some y) \<longleftrightarrow>
     (\<exists>n b1. n < 2 ^ 32 \<and> occurs data off (u32_bytes n) \<and> charge b n b1 \<and>
        f n (off + 4) b1 = Inr (Some y))"
proof -
  have "counted data off b f = Inr (Some y) \<longleftrightarrow>
     (\<exists>n b1. (off + 4 \<le> length data \<and> be_decode (bytes_slice data off 4) = n) \<and> charge b n b1 \<and>
        f n (off + 4) b1 = Inr (Some y))"
    by (auto simp: counted_def take_u32_def budget_consume_charge)
  then show ?thesis
    by (simp only: occurs_u32 conj_assoc)
qed

lemma at_end_Some:
  "at_end data r = Inr (Some x) \<longleftrightarrow> (\<exists>b. r = Inr (Some (x, length data, b)))"
  by (auto simp: at_end_def split: if_splits)

locale exact_reader =
  fixes rd :: "bytes \<Rightarrow> nat \<Rightarrow> budget \<Rightarrow> ('a \<times> nat \<times> budget) option result"
    and enc :: "'a \<Rightarrow> bytes"
    and ok :: "'a \<Rightarrow> bool"
    and cost :: "'a \<Rightarrow> nat"
  assumes exact: "nonneg_budget b \<Longrightarrow>
    rd data off b = Inr (Some (x, off', b')) \<longleftrightarrow>
      ok x \<and> occurs data off (enc x) \<and> off' = off + length (enc x) \<and> charge b (cost x) b'"
begin

lemma loop_exact:
  assumes "nonneg_budget b" and "off \<le> length data"
  shows "for_each (rd data) n off b = Inr (Some (xs, off', b')) \<longleftrightarrow>
     length xs = n \<and> list_all ok xs \<and> occurs data off (concat (map enc xs)) \<and>
     off' = off + length (concat (map enc xs)) \<and> charge b (sum_list (map cost xs)) b'"
  using assms
proof (induction n arbitrary: xs off b)
  case 0
  then show ?case by (auto simp: charge_0)
next
  case (Suc n)
  show ?case (is "?l = ?r")
  proof
    assume ?l
    then obtain x o1 b1 ys where r: "rd data off b = Inr (Some (x, o1, b1))"
      and f: "for_each (rd data) n o1 b1 = Inr (Some (ys, off', b'))" and xs: "xs = x # ys"
      by auto
    from r have e: "ok x" "occurs data off (enc x)" "o1 = off + length (enc x)" "charge b (cost x) b1"
      using exact [OF Suc.prems(1)] by blast+
    then show ?r
      using Suc.IH [of b1 o1 ys] f xs
      by (auto simp: charge_nonneg occurs_append charge_add dest!: occurs_le)
  next
    assume rr: ?r
    then obtain x ys where xs: "xs = x # ys" "length ys = n" by (auto simp: length_Suc_conv)
    from rr obtain b1 where e: "ok x" "occurs data off (enc x)" "charge b (cost x) b1"
      "charge b1 (sum_list (map cost ys)) b'"
      by (auto simp: xs occurs_append charge_add)
    then have "rd data off b = Inr (Some (x, off + length (enc x), b1))"
      using exact [OF Suc.prems(1)] by blast
    moreover have "for_each (rd data) n (off + length (enc x)) b1 = Inr (Some (ys, off', b'))"
      using Suc.IH [of b1 "off + length (enc x)" ys] rr e xs
      by (auto simp: charge_nonneg occurs_append add.assoc dest!: occurs_le)
    ultimately show ?l by (simp add: xs)
  qed
qed

lemma counted_loop:
  assumes "nonneg_budget b"
  shows "(\<exists>n b1. n < 2 ^ 32 \<and> occurs data off (u32_bytes n) \<and> charge b n b1 \<and>
      for_each (rd data) n (off + 4) b1 = Inr (Some (xs, off', b'))) \<longleftrightarrow>
    (length xs < 2 ^ 32 \<and> list_all ok xs) \<and>
    occurs data off (u32_bytes (length xs) @ concat (map enc xs)) \<and>
    off' = off + length (u32_bytes (length xs) @ concat (map enc xs)) \<and>
    charge b (length xs + sum_list (map cost xs)) b'" (is "?l \<longleftrightarrow> ?r")
proof -
  have "?l \<longleftrightarrow> (\<exists>n b1. n < 2 ^ 32 \<and> occurs data off (u32_bytes n) \<and> charge b n b1 \<and>
      length xs = n \<and> list_all ok xs \<and> occurs data (off + 4) (concat (map enc xs)) \<and>
      off' = off + 4 + length (concat (map enc xs)) \<and> charge b1 (sum_list (map cost xs)) b')"
  proof (intro ex_cong1 conj_cong refl)
    fix n b1
    assume "occurs data off (u32_bytes n)" and "charge b n b1"
    then have "off + 4 \<le> length data" "nonneg_budget b1"
      using occurs_le [of data off "u32_bytes n"] charge_nonneg by simp_all
    from loop_exact [OF this(2,1)]
    show "(for_each (rd data) n (off + 4) b1 = Inr (Some (xs, off', b'))) =
      (length xs = n \<and> list_all ok xs \<and> occurs data (off + 4) (concat (map enc xs)) \<and>
       off' = off + 4 + length (concat (map enc xs)) \<and> charge b1 (sum_list (map cost xs)) b')" .
  qed
  also have "\<dots> \<longleftrightarrow> ?r"
    by (auto simp: occurs_append add.assoc charge_add)
  finally show ?thesis .
qed

lemma collection_exact:
  assumes "nonneg_budget b"
  shows "counted data off b (\<lambda>n off b. at_end data (for_each (rd data) n off b)) = Inr (Some xs) \<longleftrightarrow>
     off \<le> length data \<and> length xs < 2 ^ 32 \<and> list_all ok xs \<and>
     drop off data = u32_bytes (length xs) @ concat (map enc xs) \<and>
     (\<exists>b'. charge b (length xs + sum_list (map cost xs)) b')" (is "?l \<longleftrightarrow> ?r")
proof -
  have "?l \<longleftrightarrow> (\<exists>b2. \<exists>n b1. n < 2 ^ 32 \<and> occurs data off (u32_bytes n) \<and> charge b n b1 \<and>
      for_each (rd data) n (off + 4) b1 = Inr (Some (xs, length data, b2)))"
    by (auto simp: counted_Some at_end_Some)
  also have "\<dots> \<longleftrightarrow> ?r"
    unfolding counted_loop [OF assms]
    using occurs_to_end [of data off "u32_bytes (length xs) @ concat (map enc xs)"] by auto
  finally show ?thesis .
qed

end

section \<open>Wire forms of the compact collections\<close>

definition compact_ok :: "bytes \<Rightarrow> bool" where
  "compact_ok x \<longleftrightarrow> length x < NULL_U32"

definition compact_wire :: "bytes \<Rightarrow> bytes" where
  "compact_wire x = u32_bytes (length x) @ x"

definition maybe_wire :: "bytes option \<Rightarrow> bytes" where
  "maybe_wire v = (case v of None \<Rightarrow> [0] | Some x \<Rightarrow> 1 # compact_wire x)"

definition list_wire :: "bytes list \<Rightarrow> bytes" where
  "list_wire xs = u32_bytes (length xs) @ concat (map compact_wire xs)"

definition pair_wire :: "bytes \<times> bytes \<Rightarrow> bytes" where
  "pair_wire p = compact_wire (fst p) @ compact_wire (snd p)"

definition map_wire :: "(bytes \<times> bytes) list \<Rightarrow> bytes" where
  "map_wire d = u32_bytes (length d) @ concat (map pair_wire d)"

definition list_ok :: "bytes list \<Rightarrow> bool" where
  "list_ok xs \<longleftrightarrow> length xs < 2 ^ 32 \<and> list_all compact_ok xs"

definition map_ok :: "(bytes \<times> bytes) list \<Rightarrow> bool" where
  "map_ok d \<longleftrightarrow> length d < 2 ^ 32 \<and> list_all (\<lambda>p. compact_ok (fst p) \<and> compact_ok (snd p)) d \<and>
     distinct (map fst d)"

lemma take_binary_Some:
  "take_binary data off b = Inr (Some (x, off', b')) \<longleftrightarrow>
     compact_ok x \<and> occurs data off (compact_wire x) \<and> off' = off + length (compact_wire x) \<and> b' = b"
  (is "?l = ?r")
proof
  assume ?l
  then obtain n o1 where t1: "take_u32 data off = Some (n, o1)"
    by (auto simp: take_binary_def split: option.splits)
  then have t: "take_u32 data off = Some (n, off + 4)" by (simp add: take_u32_def split: if_splits)
  with \<open>?l\<close> have n: "off + 4 + n \<le> length data" "x = bytes_slice data (off + 4) n"
    "off' = off + 4 + n" "b' = b" "n \<noteq> NULL_U32"
    by (simp_all add: take_binary_def split: if_splits)
  from n have l: "length x = n" by (simp add: length_bytes_slice)
  from t have "n < 2 ^ 32" "occurs data off (u32_bytes n)" by (simp_all add: take_u32_Some)
  moreover have "occurs data (off + 4) x" using n l by (simp add: occurs_def)
  ultimately show ?r
    using t n l by (simp add: compact_wire_def occurs_append compact_ok_def NULL_U32_def)
next
  assume r: ?r
  then have "take_u32 data off = Some (length x, off + 4)"
    by (simp add: take_u32_Some compact_wire_def occurs_append compact_ok_def NULL_U32_def)
  moreover from r have "occurs data (off + 4) x" by (simp add: compact_wire_def occurs_append)
  then have "bytes_slice data (off + 4) (length x) = x" "off + 4 + length x \<le> length data"
    by (simp_all add: occurs_def)
  ultimately show ?l
    using r by (simp add: take_binary_def compact_wire_def compact_ok_def)
qed

interpretation binary: exact_reader take_binary compact_wire compact_ok "\<lambda>_. 0"
  by unfold_locales (auto simp: take_binary_Some charge_0)

interpretation mget: exact_reader kv_mget_item maybe_wire "pred_option compact_ok" "\<lambda>_. 0"
proof (unfold_locales, goal_cases)
  case (1 b data off x off' b')
  then show ?case
    by (cases x) (auto simp: kv_mget_item_def maybe_wire_def take_binary_Some Let_def occurs_Cons
        charge_0)
qed

interpretation ints: exact_reader take_i64 i64_bytes "\<lambda>n. I64_MIN \<le> n \<and> n \<le> I64_MAX" "\<lambda>_. 0"
proof (unfold_locales, goal_cases)
  case (1 b data off x off' b')
  then show ?case
    using occurs_i64 [of off data x] by (auto simp: take_i64_def charge_0)
qed

lemma compact_wire_ge: "4 * length xs \<le> length (concat (map compact_wire xs))"
  by (induction xs) (auto simp: compact_wire_def)

lemma inner_binary_list_loop:
  assumes "nonneg_budget b" and "off \<le> length data"
  shows "(if n = 0 then Inr (Some ([], off, b))
       else if n = 1 then
         opt_then (take_binary data off b) (\<lambda>(x, off, b). Inr (Some ([x], off, b)))
       else if n > (length data - off) div 4 then Inr None
       else for_each (take_binary data) n off b) = Inr (Some r) \<longleftrightarrow>
     for_each (take_binary data) n off b = Inr (Some r)"
proof -
  have one: "for_each (take_binary data) 1 off b =
     opt_then (take_binary data off b) (\<lambda>(x, off, b). Inr (Some ([x], off, b)))"
    by (rule trans [OF fun_cong [OF fun_cong [OF arg_cong [OF One_nat_def]]]])
      (simp add: split_def)
  have many: "n \<le> (length data - off) div 4"
    if "for_each (take_binary data) n off b = Inr (Some r)"
  proof -
    obtain xs off' b' where r: "r = (xs, off', b')" by (cases r)
    with that binary.loop_exact [OF assms] have "length xs = n" "occurs data off (concat (map compact_wire xs))"
      by simp_all
    then have "4 * n \<le> length data - off"
      using compact_wire_ge [of xs] occurs_le [of data off "concat (map compact_wire xs)"] by simp
    then show ?thesis by simp
  qed
  show ?thesis
    using one many by (auto simp del: One_nat_def)
qed

interpretation lists: exact_reader inner_binary_list list_wire list_ok length
proof (unfold_locales, goal_cases)
  case (1 b data off xs off' b')
  have "inner_binary_list data off b = Inr (Some (xs, off', b')) \<longleftrightarrow>
     (\<exists>n b1. n < 2 ^ 32 \<and> occurs data off (u32_bytes n) \<and> charge b n b1 \<and>
        for_each (take_binary data) n (off + 4) b1 = Inr (Some (xs, off', b')))"
    unfolding inner_binary_list_def counted_Some
  proof (intro ex_cong1 conj_cong refl)
    fix n b1
    assume "occurs data off (u32_bytes n)" and "charge b n b1"
    then have "nonneg_budget b1" "off + 4 \<le> length data"
      using occurs_le [of data off "u32_bytes n"] charge_nonneg by simp_all
    then show "((if n = 0 then Inr (Some ([], off + 4, b1))
       else if n = 1 then
         opt_then (take_binary data (off + 4) b1) (\<lambda>(x, off, b). Inr (Some ([x], off, b)))
       else if n > (length data - (off + 4)) div 4 then Inr None
       else for_each (take_binary data) n (off + 4) b1) = Inr (Some (xs, off', b'))) =
       (for_each (take_binary data) n (off + 4) b1 = Inr (Some (xs, off', b')))"
      by (rule inner_binary_list_loop)
  qed
  then show ?case
    unfolding binary.counted_loop [OF 1] by (simp add: list_ok_def list_wire_def)
qed

lemma inner_map_items_Some:
  assumes "off \<le> length data"
  shows "inner_map_items data n off b items = Inr (Some (r, off', b')) \<longleftrightarrow>
     (\<exists>d. r = items @ d \<and> length d = n \<and>
        list_all (\<lambda>p. compact_ok (fst p) \<and> compact_ok (snd p)) d \<and>
        occurs data off (concat (map pair_wire d)) \<and>
        off' = off + length (concat (map pair_wire d)) \<and> b' = b \<and>
        distinct (map fst d) \<and> fst ` set d \<inter> fst ` set items = {})"
  using assms
proof (induction n arbitrary: off items)
  case 0
  then show ?case by auto
next
  case (Suc n)
  have step: "inner_map_items data (Suc n) off b items = Inr (Some (r, off', b')) \<longleftrightarrow>
     (\<exists>k v. compact_ok k \<and> compact_ok v \<and> occurs data off (pair_wire (k, v)) \<and>
        k \<notin> fst ` set items \<and>
        inner_map_items data n (off + length (pair_wire (k, v))) b (items @ [(k, v)]) =
          Inr (Some (r, off', b')))"
    by (force simp: take_binary_Some pair_wire_def occurs_append add.assoc split: if_splits)
  have rest: "occurs data off (pair_wire p) \<Longrightarrow> off + length (pair_wire p) \<le> length data" for p
    by (rule occurs_le)
  show ?case (is "_ \<longleftrightarrow> ?r")
  proof
    assume "inner_map_items data (Suc n) off b items = Inr (Some (r, off', b'))"
    then obtain k v where kv: "compact_ok k" "compact_ok v" "occurs data off (pair_wire (k, v))"
      "k \<notin> fst ` set items"
      and i: "inner_map_items data n (off + length (pair_wire (k, v))) b (items @ [(k, v)]) =
          Inr (Some (r, off', b'))"
      unfolding step by blast
    from i obtain d where "r = (items @ [(k, v)]) @ d" "length d = n"
        "list_all (\<lambda>p. compact_ok (fst p) \<and> compact_ok (snd p)) d"
        "occurs data (off + length (pair_wire (k, v))) (concat (map pair_wire d))"
        "off' = off + length (pair_wire (k, v)) + length (concat (map pair_wire d))" "b' = b"
        "distinct (map fst d)" "fst ` set d \<inter> fst ` set (items @ [(k, v)]) = {}"
      unfolding Suc.IH [OF rest [OF kv(3)]] by blast
    with kv show ?r
      by (intro exI [of _ "(k, v) # d"]) (auto simp: occurs_append)
  next
    assume ?r
    then obtain k v d where "r = items @ (k, v) # d" "length d = n" "compact_ok k" "compact_ok v"
        "list_all (\<lambda>p. compact_ok (fst p) \<and> compact_ok (snd p)) d"
        "occurs data off (pair_wire (k, v))"
        "occurs data (off + length (pair_wire (k, v))) (concat (map pair_wire d))"
        "off' = off + length (pair_wire (k, v)) + length (concat (map pair_wire d))" "b' = b"
        "distinct (map fst d)" "k \<notin> fst ` set d" "fst ` set d \<inter> fst ` set items = {}"
        "k \<notin> fst ` set items"
      by (auto simp: length_Suc_conv occurs_append)
    note d = this
    have "inner_map_items data n (off + length (pair_wire (k, v))) b (items @ [(k, v)]) =
        Inr (Some (r, off', b'))"
      unfolding Suc.IH [OF rest [OF d(6)]] by (rule exI [of _ d]) (use d in auto)
    with d show "inner_map_items data (Suc n) off b items = Inr (Some (r, off', b'))"
      unfolding step by blast
  qed
qed

interpretation maps: exact_reader inner_binary_map map_wire map_ok length
proof (unfold_locales, goal_cases)
  case (1 b data off d off' b')
  have "inner_binary_map data off b = Inr (Some (d, off', b')) \<longleftrightarrow>
     (\<exists>n b1. n < 2 ^ 32 \<and> occurs data off (u32_bytes n) \<and> charge b n b1 \<and>
        inner_map_items data n (off + 4) b1 [] = Inr (Some (d, off', b')))"
    unfolding inner_binary_map_def counted_Some by (intro ex_cong1 conj_cong refl) simp
  also have "\<dots> \<longleftrightarrow> (\<exists>n b1. n < 2 ^ 32 \<and> occurs data off (u32_bytes n) \<and> charge b n b1 \<and>
     length d = n \<and> list_all (\<lambda>p. compact_ok (fst p) \<and> compact_ok (snd p)) d \<and>
     occurs data (off + 4) (concat (map pair_wire d)) \<and>
     off' = off + 4 + length (concat (map pair_wire d)) \<and> b' = b1 \<and> distinct (map fst d))"
  proof (intro ex_cong1 conj_cong refl)
    fix n b1
    assume "occurs data off (u32_bytes n)"
    then have "off + 4 \<le> length data" using occurs_le [of data off "u32_bytes n"] by simp
    from inner_map_items_Some [OF this]
    show "(inner_map_items data n (off + 4) b1 [] = Inr (Some (d, off', b'))) =
      (length d = n \<and> list_all (\<lambda>p. compact_ok (fst p) \<and> compact_ok (snd p)) d \<and>
       occurs data (off + 4) (concat (map pair_wire d)) \<and>
       off' = off + 4 + length (concat (map pair_wire d)) \<and> b' = b1 \<and> distinct (map fst d))"
      by auto
  qed
  also have "\<dots> \<longleftrightarrow> map_ok d \<and> occurs data off (map_wire d) \<and> off' = off + length (map_wire d) \<and>
      charge b (length d) b'"
    by (auto simp: map_ok_def map_wire_def occurs_append add.assoc)
  finally show ?case .
qed

section \<open>The primitives read the same items\<close>

lemma rp_require_available_Inr [simp]:
  "rp_require_available data off n = Inr u \<longleftrightarrow> off + n \<le> length data"
  by (auto simp: rp_require_available_def)

lemma rp_read_u32_Inr:
  "rp_read_u32 data off = Inr n \<longleftrightarrow> n < 2 ^ 32 \<and> occurs data off (u32_bytes n)"
  using occurs_u32 [of off data n] by (auto simp: rp_read_u32_def)

lemma take_binary_read:
  "take_binary data off b =
     (case read_compact_binary data off of Inr (x, off') \<Rightarrow> Inr (Some (x, off', b)) | Inl _ \<Rightarrow> Inr None)"
  by (simp add: take_binary_def take_u32_def read_compact_binary_def rp_read_u32_def
      rp_require_available_def Let_def)

lemma read_compact_binary_iff:
  "read_compact_binary data off = Inr (x, off') \<longleftrightarrow>
     compact_ok x \<and> occurs data off (compact_wire x) \<and> off' = off + length (compact_wire x)"
  using take_binary_Some [of data off None x off' None]
  by (auto simp: take_binary_read split: sum.splits)

lemma binary_list_items_loop:
  "for_each (take_binary data) n off b = Inr (Some (xs, off', b')) \<longleftrightarrow>
     binary_list_items data n off = Inr (xs, off') \<and> b' = b"
proof (induction n arbitrary: off xs b')
  case (Suc n)
  show ?case
    by (cases "read_compact_binary data off")
       (auto simp: take_binary_read [of data off b] Suc.IH)
qed auto

lemma binary_map_items_loop:
  "inner_map_items data n off b acc = Inr (Some (d, off', b')) \<longleftrightarrow>
     binary_map_items data n off acc = Inr (d, off') \<and> b' = b"
proof (induction n arbitrary: off acc b')
  case (Suc n)
  show ?case
  proof (cases "read_compact_binary data off")
    case (Inr p)
    obtain k o1 where p: "p = (k, o1)" by (cases p)
    show ?thesis
      by (cases "read_compact_binary data o1")
         (auto simp: Inr p take_binary_read [of data off b] take_binary_read [of data o1 b]
           Suc.IH)
  qed (simp add: take_binary_read [of data off b])
qed auto

interpretation read_lists: exact_reader "\<lambda>data off b. returns (read_custom_binary_list data off b)"
  list_wire list_ok length
proof (unfold_locales, goal_cases)
  case (1 b data off xs off' b')
  have "returns (read_custom_binary_list data off b) = Inr (Some (xs, off', b')) \<longleftrightarrow>
     (\<exists>n b1. n < 2 ^ 32 \<and> occurs data off (u32_bytes n) \<and> charge b n b1 \<and>
        for_each (take_binary data) n (off + 4) b1 = Inr (Some (xs, off', b')))"
    by (auto simp: read_custom_binary_list_def rp_read_u32_Inr budget_consume_charge
        binary_list_items_loop)
  then show ?case
    unfolding binary.counted_loop [OF 1] by (simp add: list_ok_def list_wire_def)
qed

lemma read_custom_binary_map_inner:
  "returns (read_custom_binary_map data off b) = Inr (Some (d, off', b')) \<longleftrightarrow>
     inner_binary_map data off b = Inr (Some (d, off', b'))"
proof -
  have "inner_binary_map data off b = Inr (Some (d, off', b')) \<longleftrightarrow>
     (\<exists>n b1. n < 2 ^ 32 \<and> occurs data off (u32_bytes n) \<and> charge b n b1 \<and>
        inner_map_items data n (off + 4) b1 [] = Inr (Some (d, off', b')))"
    unfolding inner_binary_map_def counted_Some by (intro ex_cong1 conj_cong refl) simp
  then show ?thesis
    by (auto simp: read_custom_binary_map_def rp_read_u32_Inr budget_consume_charge
        binary_map_items_loop)
qed

interpretation read_maps: exact_reader "\<lambda>data off b. returns (read_custom_binary_map data off b)"
  map_wire map_ok length
  by unfold_locales (simp only: read_custom_binary_map_inner maps.exact)

section \<open>Exactness of the collections\<close>

text \<open>
  \<open>collection_at data off b n extra body\<close>: after the marker at \<open>off\<close> stands the count \<open>n\<close> and then
  \<open>body\<close>, up to the end of the data, and the budget admits the \<open>n\<close> items and the \<open>extra\<close> nested ones.
\<close>

definition admits :: "budget \<Rightarrow> nat \<Rightarrow> bool" where
  "admits b n \<longleftrightarrow> (case b of None \<Rightarrow> True | Some r \<Rightarrow> int n \<le> r)"

definition collection_at :: "bytes \<Rightarrow> nat \<Rightarrow> budget \<Rightarrow> nat \<Rightarrow> nat \<Rightarrow> bytes \<Rightarrow> bool" where
  "collection_at data off b n extra body \<longleftrightarrow>
     off + 1 \<le> length data \<and> n < 2 ^ 32 \<and> drop (off + 1) data = u32_bytes n @ body \<and>
     admits b (n + extra)"

lemma ex_charge: "(\<exists>b'. charge b n b') \<longleftrightarrow> admits b n"
  by (auto simp: charge_def admits_def split: option.splits)

lemma sum_list_zero [simp]: "sum_list (map (\<lambda>_. 0 :: nat) xs) = 0"
  by (induction xs) auto

lemma kv_mget_exact:
  "nonneg_budget b \<Longrightarrow> try_decode_custom_kv_mget data off b = Inr (Some vs) \<longleftrightarrow>
     list_all (pred_option compact_ok) vs \<and>
     collection_at data off b (length vs) 0 (concat (map maybe_wire vs))"
  by (auto simp: try_decode_custom_kv_mget_def mget.collection_exact collection_at_def ex_charge)

lemma binary_list_list_exact:
  "nonneg_budget b \<Longrightarrow> try_decode_custom_binary_list_list data off b = Inr (Some xss) \<longleftrightarrow>
     list_all list_ok xss \<and>
     collection_at data off b (length xss) (sum_list (map length xss)) (concat (map list_wire xss))"
  by (auto simp: try_decode_custom_binary_list_list_def lists.collection_exact collection_at_def
      ex_charge)

lemma binary_map_list_exact:
  "nonneg_budget b \<Longrightarrow> try_decode_custom_binary_map_list data off b = Inr (Some ds) \<longleftrightarrow>
     list_all map_ok ds \<and>
     collection_at data off b (length ds) (sum_list (map length ds)) (concat (map map_wire ds))"
  by (auto simp: try_decode_custom_binary_map_list_def maps.collection_exact collection_at_def
      ex_charge)

lemma length_concat_i64 [simp]: "length (concat (map i64_bytes ns)) = length ns * 8"
  by (induction ns) auto

lemma integer_list_exact:
  assumes "nonneg_budget b"
  shows "try_decode_custom_integer_list data off b = Inr (Some ns) \<longleftrightarrow>
     data ! off = 0x88 \<and> list_all (\<lambda>n. I64_MIN \<le> n \<and> n \<le> I64_MAX) ns \<and>
     collection_at data off b (length ns) 0 (concat (map i64_bytes ns))" (is "?l \<longleftrightarrow> ?r")
proof -
  let ?loop = "counted data (off + 1) b (\<lambda>n off b. at_end data (for_each (take_i64 data) n off b))"
  have step: "(if off' + n * 8 \<noteq> length data then Inr None
        else opt_then (for_each (take_i64 data) n off' b') (\<lambda>(xs, _, _). Inr (Some xs))) = Inr (Some ns)
     \<longleftrightarrow> at_end data (for_each (take_i64 data) n off' b') = Inr (Some ns)"
    if "nonneg_budget b'" "off' \<le> length data" for n off' b'
    using ints.loop_exact [OF that] by (auto simp: at_end_Some)
  have "?l \<longleftrightarrow> off < length data \<and> data ! off = 0x88 \<and> ?loop = Inr (Some ns)"
  proof -
    have "counted data (off + 1) b (\<lambda>n off b.
        if off + n * 8 \<noteq> length data then Inr None
        else opt_then (for_each (take_i64 data) n off b) (\<lambda>(xs, _, _). Inr (Some xs))) = Inr (Some ns)
      \<longleftrightarrow> ?loop = Inr (Some ns)"
      unfolding counted_Some
    proof (intro ex_cong1 conj_cong refl)
      fix n b1
      assume "occurs data (off + 1) (u32_bytes n)" "charge b n b1"
      then have "nonneg_budget b1" "off + 1 + 4 \<le> length data"
        using occurs_le [of data "off + 1" "u32_bytes n"] charge_nonneg by simp_all
      then show "((if off + 1 + 4 + n * 8 \<noteq> length data then Inr None
          else opt_then (for_each (take_i64 data) n (off + 1 + 4) b1) (\<lambda>(xs, _, _). Inr (Some xs)))
          = Inr (Some ns)) =
        (at_end data (for_each (take_i64 data) n (off + 1 + 4) b1) = Inr (Some ns))"
        by (rule step)
    qed
    then show ?thesis
      by (auto simp: try_decode_custom_integer_list_def byte_at_def)
  qed
  then show ?thesis
    using assms by (auto simp: ints.collection_exact collection_at_def ex_charge)
qed

lemma ok_list_exact:
  "try_decode_custom_ok_list data off b = Inr (Some xs) \<longleftrightarrow>
     xs = replicate (length xs) (bytes_lit ''OK'') \<and> collection_at data off b (length xs) 0 []"
proof -
  have e: "length data = off + 5 \<and> occurs data (off + 1) (u32_bytes n) \<longleftrightarrow>
      off + 1 \<le> length data \<and> drop (off + 1) data = u32_bytes n" for n
    using occurs_to_end [of data "off + 1" "u32_bytes n"] by auto
  have "try_decode_custom_ok_list data off b = Inr (Some xs) \<longleftrightarrow>
     (\<exists>n. (length data = off + 5 \<and> occurs data (off + 1) (u32_bytes n)) \<and> n < 2 ^ 32 \<and>
        (\<exists>b'. charge b n b') \<and> xs = replicate n (bytes_lit ''OK''))"
    by (auto simp: try_decode_custom_ok_list_def rp_read_u32_Inr budget_consume_charge)
  also have "\<dots> \<longleftrightarrow> xs = replicate (length xs) (bytes_lit ''OK'') \<and> collection_at data off b (length xs) 0 []"
    unfolding e by (auto simp: collection_at_def ex_charge)
  finally show ?thesis .
qed

lemma concat_slices:
  "length d = n * sz \<Longrightarrow> concat (map (\<lambda>i. bytes_slice d (i * sz) sz) [0..<n]) = d"
proof (induction n arbitrary: d)
  case (Suc n)
  have "concat (map (\<lambda>i. bytes_slice (drop sz d) (i * sz) sz) [0..<n]) = drop sz d"
    using Suc by simp
  moreover have "map (\<lambda>i. bytes_slice d (i * sz) sz) [0..<Suc n] =
      bytes_slice d 0 sz # map (\<lambda>i. bytes_slice (drop sz d) (i * sz) sz) [0..<n]"
    by (simp add: upt_conv_Cons map_Suc_upt [symmetric] bytes_slice_def o_def add.commute
        del: upt_Suc)
  ultimately show ?case
    by (simp add: bytes_slice_def del: upt_Suc)
qed simp

lemma slices_concat:
  "\<forall>x\<in>set xs. length x = sz \<Longrightarrow> map (\<lambda>i. bytes_slice (concat xs) (i * sz) sz) [0..<length xs] = xs"
proof (induction xs)
  case (Cons x xs)
  have "map (\<lambda>i. bytes_slice (concat (x # xs)) (i * sz) sz) [0..<Suc (length xs)] =
      bytes_slice (concat (x # xs)) 0 sz # map (\<lambda>i. bytes_slice (concat xs) (i * sz) sz) [0..<length xs]"
    using Cons.prems by (simp add: upt_conv_Cons map_Suc_upt [symmetric] bytes_slice_def o_def
        del: upt_Suc)
  with Cons show ?case by (simp add: bytes_slice_def)
qed simp

lemma fixed_items_drop:
  "fixed_items data off n sz = map Some (map (\<lambda>i. bytes_slice (drop off data) (i * sz) sz) [0..<n])"
  by (simp add: fixed_items_def bytes_slice_def add.commute)

lemma length_concat_uniform: "\<forall>x\<in>set xs. length x = sz \<Longrightarrow> length (concat xs) = length xs * sz"
  by (induction xs) auto

lemma fixed_items_exact:
  assumes "off \<le> length data"
  shows "length data - off = n * sz \<and> fixed_items data off n sz = vs \<longleftrightarrow>
     length vs = n \<and> (\<exists>xs. vs = map Some xs \<and> (\<forall>x\<in>set xs. length x = sz) \<and> drop off data = concat xs)"
  (is "?l \<longleftrightarrow> ?r")
proof
  assume l: ?l
  then have len: "length (drop off data) = n * sz" by simp
  have "\<forall>x\<in>set (map (\<lambda>i. bytes_slice (drop off data) (i * sz) sz) [0..<n]). length x = sz"
  proof
    fix x
    assume "x \<in> set (map (\<lambda>i. bytes_slice (drop off data) (i * sz) sz) [0..<n])"
    then obtain i where "i < n" "x = bytes_slice (drop off data) (i * sz) sz" by auto
    moreover from \<open>i < n\<close> have "i * sz + sz \<le> n * sz"
      by (metis Suc_leI add.commute mult_Suc mult_le_mono1)
    ultimately show "length x = sz" using len by (simp add: bytes_slice_def)
  qed
  moreover from l have "vs = map Some (map (\<lambda>i. bytes_slice (drop off data) (i * sz) sz) [0..<n])"
    by (simp only: fixed_items_drop)
  ultimately show ?r
    using concat_slices [OF len] by (metis length_map length_upt minus_nat.diff_0)
next
  assume ?r
  then show ?l
    using slices_concat length_concat_uniform assms
    by (auto simp: fixed_items_drop simp del: map_map simp flip: length_drop)
qed

lemma fixed_cases:
  assumes "off \<le> length data" and "length data - off = n * sz"
  shows "(if n = 0 then (if off = length data then Inr (Some []) else Inr None)
     else if sz = 0 then Inr (Some (replicate n (Some [])))
     else Inr (Some (fixed_items data off n sz))) = Inr (Some (fixed_items data off n sz))"
proof (cases "n = 0")
  case True
  with assms show ?thesis by (simp add: fixed_items_def)
next
  case False
  then show ?thesis
    by (cases "sz = 0") (simp_all add: fixed_items_def bytes_slice_def map_replicate_const)
qed

lemma kv_mget_fixed_exact:
  "try_decode_custom_kv_mget_fixed data off b = Inr (Some vs) \<longleftrightarrow>
     (\<exists>xs sz. vs = map Some xs \<and> sz < NULL_U32 \<and> (\<forall>x\<in>set xs. length x = sz) \<and>
        collection_at data off b (length vs) 0 (u32_bytes sz @ concat xs))"
proof -
  define n where "n = be_decode (bytes_slice data (off + 1) 4)"
  define sz where "sz = be_decode (bytes_slice data (off + 5) 4)"
  have u: "try_decode_custom_kv_mget_fixed data off b =
     (if off + 9 > length data then Inr None
      else and_then (budget_consume b n) (\<lambda>_.
        if sz = NULL_U32 \<or> length data - (off + 9) \<noteq> n * sz then Inr None
        else if n = 0 then (if off + 9 = length data then Inr (Some []) else Inr None)
        else if sz = 0 then Inr (Some (replicate n (Some [])))
        else Inr (Some (fixed_items data (off + 9) n sz))))"
  proof -
    have "off + 1 + 4 = off + 5" "off + 5 + 4 = off + 9" "off + 1 + 8 = off + 9" by simp_all
    then show ?thesis
      by (simp only: try_decode_custom_kv_mget_fixed_def Let_def n_def sz_def)
  qed
  have "try_decode_custom_kv_mget_fixed data off b = Inr (Some vs) \<longleftrightarrow>
      off + 9 \<le> length data \<and> admits b n \<and> sz \<noteq> NULL_U32 \<and> length data - (off + 9) = n * sz \<and>
      fixed_items data (off + 9) n sz = vs"
  proof (cases "off + 9 \<le> length data \<and> length data - (off + 9) = n * sz")
    case True
    then show ?thesis
      unfolding u using fixed_cases [of "off + 9" data n sz]
      by (auto simp: budget_consume_charge ex_charge [symmetric] simp del: fixed_items_def)
  qed (auto simp: u)
  also have "\<dots> \<longleftrightarrow> (\<exists>m z. (off + 1 + 4 \<le> length data \<and> be_decode (bytes_slice data (off + 1) 4) = m) \<and>
      (off + 5 + 4 \<le> length data \<and> be_decode (bytes_slice data (off + 5) 4) = z) \<and>
      admits b m \<and> z \<noteq> NULL_U32 \<and> length data - (off + 9) = m * z \<and>
      fixed_items data (off + 9) m z = vs)"
    by (auto simp: n_def sz_def)
  also have "\<dots> \<longleftrightarrow> (\<exists>n sz. n < 2 ^ 32 \<and> occurs data (off + 1) (u32_bytes n) \<and> sz < 2 ^ 32 \<and>
      occurs data (off + 5) (u32_bytes sz) \<and> admits b n \<and> sz \<noteq> NULL_U32 \<and>
      length data - (off + 9) = n * sz \<and> fixed_items data (off + 9) n sz = vs)"
    by (simp only: occurs_u32 conj_assoc)
  also have "\<dots> \<longleftrightarrow> (\<exists>n sz. n < 2 ^ 32 \<and> occurs data (off + 1) (u32_bytes n @ u32_bytes sz) \<and>
      sz < NULL_U32 \<and> admits b n \<and> length vs = n \<and>
      (\<exists>xs. vs = map Some xs \<and> (\<forall>x\<in>set xs. length x = sz) \<and> drop (off + 9) data = concat xs))"
  proof (intro ex_cong1)
    fix n sz
    have "sz < 2 ^ 32 \<and> sz \<noteq> NULL_U32 \<longleftrightarrow> sz < NULL_U32" by (auto simp: NULL_U32_def)
    moreover have "occurs data (off + 5) (u32_bytes sz) \<Longrightarrow> off + 9 \<le> length data"
      using occurs_le [of data "off + 5" "u32_bytes sz"] by simp
    ultimately show "(n < 2 ^ 32 \<and> occurs data (off + 1) (u32_bytes n) \<and> sz < 2 ^ 32 \<and>
        occurs data (off + 5) (u32_bytes sz) \<and> admits b n \<and> sz \<noteq> NULL_U32 \<and>
        length data - (off + 9) = n * sz \<and> fixed_items data (off + 9) n sz = vs) =
      (n < 2 ^ 32 \<and> occurs data (off + 1) (u32_bytes n @ u32_bytes sz) \<and>
        sz < NULL_U32 \<and> admits b n \<and> length vs = n \<and>
        (\<exists>xs. vs = map Some xs \<and> (\<forall>x\<in>set xs. length x = sz) \<and> drop (off + 9) data = concat xs))"
      using fixed_items_exact [of "off + 9" data n sz vs] unfolding occurs_append
      by (auto simp: add.commute)
  qed
  also have "\<dots> \<longleftrightarrow> (\<exists>xs sz. vs = map Some xs \<and> sz < NULL_U32 \<and> (\<forall>x\<in>set xs. length x = sz) \<and>
        collection_at data off b (length vs) 0 (u32_bytes sz @ concat xs))"
  proof -
    have e: "off + 1 \<le> length data \<and> drop (off + 1) data = u32_bytes n @ u32_bytes sz @ c \<longleftrightarrow>
        occurs data (off + 1) (u32_bytes n @ u32_bytes sz) \<and> drop (off + 9) data = c" for n sz c
      using occurs_to_end [of data "off + 1" "u32_bytes n @ u32_bytes sz @ c"]
        occurs_to_end [of data "off + 9" c] occurs_append [of data "off + 1" "u32_bytes n @ u32_bytes sz" c]
        occurs_le [of data "off + 1" "u32_bytes n @ u32_bytes sz"]
      by (auto simp: add.commute [of 9])
    have "collection_at data off b n 0 (u32_bytes sz @ c) \<longleftrightarrow>
        n < 2 ^ 32 \<and> occurs data (off + 1) (u32_bytes n @ u32_bytes sz) \<and> admits b n \<and>
        drop (off + 9) data = c" for n sz c
      using e [of n sz c] by (auto simp: collection_at_def)
    then show ?thesis by blast
  qed
  finally show ?thesis .
qed

section \<open>Properties\<close>

text \<open>
  C25. The compact collection decoders accept exactly their wire format. For a non-negative item
  budget, each decoder returns a collection exactly when the marker is followed, up to the end of the
  data, by the count and the wire forms of its items (values with a presence byte, equal-sized values
  after their common size, byte strings, maps with distinct keys, 64-bit integers), every byte string
  is shorter than the null length, and the items, nested ones included, fit the budget. So nothing
  malformed, truncated or followed by other bytes is decoded, and nothing well-formed is declined.
\<close>

theorem compact_collections_exact:
  assumes "nonneg_budget b"
  shows "(try_decode_custom_kv_mget data off b = Inr (Some vs) \<longleftrightarrow>
      list_all (pred_option compact_ok) vs \<and>
      collection_at data off b (length vs) 0 (concat (map maybe_wire vs)))
    \<and> (try_decode_custom_kv_mget_fixed data off b = Inr (Some vs) \<longleftrightarrow>
      (\<exists>xs sz. vs = map Some xs \<and> sz < NULL_U32 \<and> (\<forall>x\<in>set xs. length x = sz) \<and>
        collection_at data off b (length vs) 0 (u32_bytes sz @ concat xs)))
    \<and> (try_decode_custom_binary_list_list data off b = Inr (Some xss) \<longleftrightarrow>
      list_all list_ok xss \<and>
      collection_at data off b (length xss) (sum_list (map length xss)) (concat (map list_wire xss)))
    \<and> (try_decode_custom_binary_map_list data off b = Inr (Some ds) \<longleftrightarrow>
      list_all map_ok ds \<and>
      collection_at data off b (length ds) (sum_list (map length ds)) (concat (map map_wire ds)))
    \<and> (try_decode_custom_integer_list data off b = Inr (Some ns) \<longleftrightarrow>
      data ! off = 0x88 \<and> list_all (\<lambda>n. I64_MIN \<le> n \<and> n \<le> I64_MAX) ns \<and>
      collection_at data off b (length ns) 0 (concat (map i64_bytes ns)))"
  by (intro conjI kv_mget_exact [OF assms] kv_mget_fixed_exact binary_list_list_exact [OF assms]
      binary_map_list_exact [OF assms] integer_list_exact [OF assms])

theorem compact_collections_exact_witness:
  "try_decode_custom_kv_mget (0x83 # u32_bytes 2 @ [0] @ 1 # u32_bytes 1 @ [7]) 0 (Some 2) =
     Inr (Some [None, Some [7]])
   \<and> try_decode_custom_kv_mget_fixed (0x89 # u32_bytes 2 @ u32_bytes 1 @ [5, 6]) 0 (Some 2) =
     Inr (Some [Some [5], Some [6]])
   \<and> try_decode_custom_binary_map_list (0x87 # u32_bytes 1 @ map_wire [([1], [2])]) 0 (Some 1) \<noteq>
     Inr (Some [[([1], [2])]])"
proof -
  have two: "u32_bytes (Suc (Suc 0)) = u32_bytes 2" by (simp add: numeral_2_eq_2)
  have nn: "nonneg_budget (Some 2)" "nonneg_budget (Some 1)" by (simp_all add: nonneg_budget_def)
  have "try_decode_custom_kv_mget (0x83 # u32_bytes 2 @ [0] @ 1 # u32_bytes 1 @ [7]) 0 (Some 2) =
     Inr (Some [None, Some [7]])"
    using compact_collections_exact [OF nn(1), THEN conjunct1]
    by (simp add: collection_at_def admits_def maybe_wire_def compact_wire_def compact_ok_def NULL_U32_def
        two)
  moreover have "try_decode_custom_kv_mget_fixed (0x89 # u32_bytes 2 @ u32_bytes 1 @ [5, 6]) 0 (Some 2) =
     Inr (Some [Some [5], Some [6]])"
    unfolding compact_collections_exact [OF nn(1), THEN conjunct2, THEN conjunct1]
    by (rule exI [of _ "[[5], [6]]"], rule exI [of _ 1])
       (simp add: collection_at_def admits_def NULL_U32_def two)
  moreover have "try_decode_custom_binary_map_list (0x87 # u32_bytes 1 @ map_wire [([1], [2])]) 0 (Some 1) \<noteq>
     Inr (Some [[([1], [2])]])"
    using compact_collections_exact [OF nn(2), THEN conjunct2, THEN conjunct2, THEN conjunct2, THEN conjunct1]
    by (simp add: collection_at_def admits_def)
  ultimately show ?thesis by blast
qed

end
