(* ===== verification/Flow_Responses.thy ===== *)
theory Flow_Responses
  imports Compact_Responses
begin

text \<open>
  The compact Flow responses of \<open>protocol_responses.py\<close>: claimed jobs in their three widths, Flow
  records and record lists, pipeline responses, and the fast paths over typed lists. Values are the
  codec's dynamically typed values; a record is its list of fields in order of arrival. The three widths
  of a claimed job are not announced on the wire, so the decoder tries them from the widest; the
  lemmas show when that search cannot pick the wrong one. The inlined value decoder of record fields and
  the typed fast paths are compared with the generic codec of \<open>Codec\<close>.
\<close>

section \<open>Claimed jobs\<close>

definition opt_bytes :: "bytes option \<Rightarrow> pyval" where
  "opt_bytes v = (case v of None \<Rightarrow> PNone | Some x \<Rightarrow> PBytes x)"

definition is_dict :: "pyval \<Rightarrow> bool" where
  "is_dict v = (case v of PDict _ \<Rightarrow> True | _ \<Rightarrow> False)"

definition claim_fields :: "bytes \<Rightarrow> nat \<Rightarrow> (pyval list \<times> nat) result" where
  "claim_fields data off =
     and_then (read_compact_binary data off) (\<lambda>(id_value, off).
     and_then (read_compact_optional_binary data off) (\<lambda>(partition, off).
     and_then (read_compact_binary data off) (\<lambda>(lease, off).
     and_then (rp_require_available data off 8) (\<lambda>_.
       Inr ([PBytes id_value, opt_bytes partition, PBytes lease,
             PInt (unpack_i64 (bytes_slice data off 8))], off + 8)))))"

definition claim_row ::
    "bytes \<Rightarrow> nat \<Rightarrow> nat \<Rightarrow> budget \<Rightarrow> (pyval list \<times> nat \<times> budget) option result" where
  "claim_row data width off b =
     and_then (budget_consume b width) (\<lambda>b.
     and_then (claim_fields data off) (\<lambda>(row, off).
     if width = 5 then
       and_then (decode_value_at data (int off) PNone (Some b)) (\<lambda>(attrs, off, b).
         if \<not> is_dict attrs then Inr None else Inr (Some (row @ [attrs], off, b)))
     else if width = 6 then
       and_then (read_compact_optional_binary data off) (\<lambda>(run_state, off).
       and_then (decode_value_at data (int off) PNone (Some b)) (\<lambda>(attrs, off, b).
         if \<not> is_dict attrs then Inr None
         else Inr (Some (row @ [opt_bytes run_state, attrs], off, b))))
     else Inr (Some (row, off, b))))"

definition try_decode_custom_claim_jobs_width ::
    "bytes \<Rightarrow> nat \<Rightarrow> nat \<Rightarrow> nat \<Rightarrow> budget \<Rightarrow> pyval list list option result" where
  "try_decode_custom_claim_jobs_width data off n width b =
     none_on declined_errors (at_end data (for_each (claim_row data width) n off b))"

fun claim_widths ::
    "bytes \<Rightarrow> nat \<Rightarrow> nat \<Rightarrow> budget \<Rightarrow> nat list \<Rightarrow> py_error option \<Rightarrow> pyval list list option result" where
  "claim_widths data off n b [] limit_error =
     (case limit_error of Some e \<Rightarrow> Inl e | None \<Rightarrow> Inr None)"
| "claim_widths data off n b (width # widths) limit_error =
     (case try_decode_custom_claim_jobs_width data off n width b of
        Inl (DecodedCollectionLimitError m) \<Rightarrow>
          claim_widths data off n b widths
            (if limit_error = None then Some (DecodedCollectionLimitError m) else limit_error)
      | Inl e \<Rightarrow> Inl e
      | Inr (Some decoded) \<Rightarrow> Inr (Some decoded)
      | Inr None \<Rightarrow> claim_widths data off n b widths limit_error)"

definition try_decode_custom_claim_jobs ::
    "bytes \<Rightarrow> nat \<Rightarrow> budget \<Rightarrow> pyval list list option result" where
  "try_decode_custom_claim_jobs data off b = none_on declined_errors
     (and_then (rp_read_u32 data (off + 1)) (\<lambda>n.
      and_then (budget_consume b n) (\<lambda>b. claim_widths data (off + 5) n b [6, 5, 4] None)))"

definition read_custom_claim_job ::
    "bytes \<Rightarrow> nat \<Rightarrow> budget \<Rightarrow> (pyval list \<times> nat \<times> budget) result" where
  "read_custom_claim_job data off b =
     and_then (budget_consume b 4) (\<lambda>b.
     and_then (claim_fields data off) (\<lambda>(row, off). Inr (row, off, b)))"

definition read_custom_flow_value_ref ::
    "bytes \<Rightarrow> nat \<Rightarrow> budget \<Rightarrow> ((bytes \<times> pyval) list \<times> nat \<times> budget) result" where
  "read_custom_flow_value_ref data off b =
     and_then (read_compact_binary data off) (\<lambda>(ref, off).
     and_then (read_compact_optional_binary data off) (\<lambda>(partition_key, off).
     and_then (read_compact_optional_binary data off) (\<lambda>(owner_flow_id, off).
     and_then (budget_consume b (1 + (if partition_key \<noteq> None then 1 else 0)
                                   + (if owner_flow_id \<noteq> None then 1 else 0))) (\<lambda>b.
       Inr ([(bytes_lit ''ref'', PBytes ref)]
            @ (case partition_key of None \<Rightarrow> [] | Some x \<Rightarrow> [(bytes_lit ''partition_key'', PBytes x)])
            @ (case owner_flow_id of None \<Rightarrow> [] | Some x \<Rightarrow> [(bytes_lit ''owner_flow_id'', PBytes x)]),
            off, b)))))"

section \<open>Flow records\<close>

definition FLOW_RECORD_FIELD_KEYS :: "bytes list" where
  "FLOW_RECORD_FIELD_KEYS = map bytes_lit
     ['''', ''id'', ''type'', ''state'', ''version'', ''priority'', ''partition_key'', ''payload_ref'',
      ''result_ref'', ''error_ref'', ''payload'', ''result'', ''error'', ''created_at_ms'',
      ''updated_at_ms'', ''next_run_at_ms'', ''lease_deadline_ms'', ''lease_owner'', ''lease_token'',
      ''fencing_token'', ''attempts'', ''history_max_events'', ''history_hot_max_events'',
      ''child_groups'', ''parent_flow_id'', ''parent_partition_key'', ''root_flow_id'',
      ''correlation_id'', ''terminal_retention_until_ms'', ''ttl_ms'', ''retention_ttl_ms'',
      ''run_state'', ''value_refs'', ''values'', ''payload_omitted'', ''payload_size'',
      ''result_omitted'', ''result_size'', ''error_omitted'', ''error_size'', ''max_attempts'',
      ''attributes'']"

definition decode_flow_record_value_at :: "bytes \<Rightarrow> nat \<Rightarrow> budget \<Rightarrow> pyval decoded" where
  "decode_flow_record_value_at data off b =
     (if off \<ge> length data then Inl (FerricStoreError ''protocol value is truncated'')
      else
        let tag = data ! off; start = off; off = off + 1 in
        if tag = 0 then Inr (PNone, off, b)
        else if tag = 1 then Inr (PBool True, off, b)
        else if tag = 2 then Inr (PBool False, off, b)
        else if tag = 3 then
          (if off + 8 > length data then Inl (FerricStoreError ''protocol integer is truncated'')
           else Inr (PInt (unpack_i64 (bytes_slice data off 8)), off + 8, b))
        else if tag = 4 then
          (if off + 4 > length data then Inl (FerricStoreError ''protocol binary is truncated'')
           else
             let n = be_decode (bytes_slice data off 4); off = off + 4 in
             if n = NULL_U32 \<or> off + n > length data
             then Inl (FerricStoreError ''protocol compact value expected binary'')
             else Inr (PBytes (bytes_slice data off n), off + n, b))
        else if tag = 5 then
          (if off + 4 > length data then Inl (FerricStoreError ''protocol list is truncated'')
           else if be_decode (bytes_slice data off 4) = 0 then
             and_then (budget_consume b 0) (\<lambda>b. Inr (PList [], off + 4, b))
           else decode_value_at data (int start) PNone (Some b))
        else if tag = 6 then
          (if off + 4 > length data then Inl (FerricStoreError ''protocol map is truncated'')
           else if be_decode (bytes_slice data off 4) = 0 then
             and_then (budget_consume b 0) (\<lambda>b. Inr (PDict [], off + 4, b))
           else decode_value_at data (int start) PNone (Some b))
        else if tag = 7 then
          (if off + 8 > length data then Inl (FerricStoreError ''protocol float is truncated'')
           else Inr (PFloat (unpack_f64 (bytes_slice data off 8)), off + 8, b))
        else decode_value_at data (int start) PNone (Some b))"

definition flow_record_key :: "bytes \<Rightarrow> nat \<Rightarrow> (bytes option \<times> nat) result" where
  "flow_record_key data off =
     (if off \<ge> length data then Inl (FerricStoreError ''protocol compact Flow record is truncated'')
      else
        let key_id = unat (data ! off); off = off + 1 in
        if key_id = 0 then
          (if off + 4 > length data
           then Inl (FerricStoreError ''protocol compact Flow record key is truncated'')
           else
             let n = be_decode (bytes_slice data off 4); off = off + 4 in
             if n = NULL_U32 \<or> off + n > length data
             then Inl (FerricStoreError ''protocol compact Flow record key is invalid'')
             else Inr (Some (bytes_slice data off n), off + n))
        else if key_id < length FLOW_RECORD_FIELD_KEYS
          then Inr (Some (FLOW_RECORD_FIELD_KEYS ! key_id), off)
        else Inr (None, off))"

fun flow_record_fields ::
    "bytes \<Rightarrow> nat \<Rightarrow> nat \<Rightarrow> budget \<Rightarrow> (bytes \<times> pyval) list \<Rightarrow> (bytes \<times> pyval) list decoded" where
  "flow_record_fields data 0 off b record = Inr (record, off, b)"
| "flow_record_fields data (Suc n) off b record =
     and_then (flow_record_key data off) (\<lambda>(key, off).
     and_then (decode_flow_record_value_at data off b) (\<lambda>(value, off, b).
       case key of
         None \<Rightarrow> flow_record_fields data n off b record
       | Some k \<Rightarrow>
           if k \<in> fst ` set record
           then Inl (DuplicateProtocolMapKeyError ''duplicate protocol map key while decoding'')
           else flow_record_fields data n off b (record @ [(k, value)])))"

definition read_custom_flow_record :: "bytes \<Rightarrow> nat \<Rightarrow> budget \<Rightarrow> (bytes \<times> pyval) list decoded" where
  "read_custom_flow_record data off b =
     and_then (byte_at data off) (\<lambda>marker.
     if marker \<noteq> 0x84 then Inl (FerricStoreError ''protocol compact value expected Flow record'')
     else
       let off = off + 1 in
       if off + 4 > length data
       then Inl (FerricStoreError ''protocol compact Flow record is truncated'')
       else
         let n = be_decode (bytes_slice data off 4); off = off + 4 in
         and_then (budget_consume b n) (\<lambda>b. flow_record_fields data n off b []))"

fun flow_record_loop :: "bytes \<Rightarrow> nat \<Rightarrow> nat \<Rightarrow> budget \<Rightarrow> (bytes \<times> pyval) list list decoded" where
  "flow_record_loop data 0 off b = Inr ([], off, b)"
| "flow_record_loop data (Suc n) off b =
     and_then (read_custom_flow_record data off b) (\<lambda>(record, off, b).
     and_then (flow_record_loop data n off b) (\<lambda>(records, off, b). Inr (record # records, off, b)))"

definition read_custom_flow_record_list ::
    "bytes \<Rightarrow> nat \<Rightarrow> budget \<Rightarrow> (bytes \<times> pyval) list list decoded" where
  "read_custom_flow_record_list data off b =
     and_then (byte_at data off) (\<lambda>marker.
     if marker \<noteq> 0x85 then Inl (FerricStoreError ''protocol compact value expected Flow record list'')
     else
       let off = off + 1 in
       if off + 4 > length data
       then Inl (FerricStoreError ''protocol compact Flow record list is truncated'')
       else
         let n = be_decode (bytes_slice data off 4); off = off + 4 in
         and_then (budget_consume b n) (\<lambda>b. flow_record_loop data n off b))"

definition try_decode_custom_flow_record ::
    "bytes \<Rightarrow> nat \<Rightarrow> budget \<Rightarrow> (bytes \<times> pyval) list option result" where
  "try_decode_custom_flow_record data off b = none_on declined_errors
     (and_then (read_custom_flow_record data off b) (\<lambda>(value, off, _).
        Inr (if off = length data then Some value else None)))"

definition try_decode_custom_flow_record_list ::
    "bytes \<Rightarrow> nat \<Rightarrow> budget \<Rightarrow> (bytes \<times> pyval) list list option result" where
  "try_decode_custom_flow_record_list data off b = none_on declined_errors
     (and_then (read_custom_flow_record_list data off b) (\<lambda>(value, off, _).
        Inr (if off = length data then Some value else None)))"

section \<open>Pipeline responses\<close>

definition bytes_dict :: "(bytes \<times> pyval) list \<Rightarrow> pyval" where
  "bytes_dict d = PDict (map (\<lambda>(k, v). (PBytes k, v)) d)"

definition pipeline_ok_value :: "bytes \<Rightarrow> nat \<Rightarrow> budget \<Rightarrow> (pyval \<times> nat \<times> budget) option result" where
  "pipeline_ok_value data off b =
     and_then (byte_at data off) (\<lambda>present.
     let off = off + 1 in
     if present = 0 then Inr (Some (PNone, off, b))
     else if present = 1 then
       and_then (read_compact_binary data off) (\<lambda>(v, off). Inr (Some (PBytes v, off, b)))
     else if present = 2 then
       and_then (read_custom_flow_record data off b) (\<lambda>(v, off, b). Inr (Some (bytes_dict v, off, b)))
     else if present = 3 then
       and_then (read_custom_flow_record_list data off b) (\<lambda>(v, off, b).
         Inr (Some (PList (map bytes_dict v), off, b)))
     else if present = 4 then
       and_then (read_custom_claim_job data off b) (\<lambda>(v, off, b). Inr (Some (PList v, off, b)))
     else if present = 5 then
       and_then (read_custom_flow_value_ref data off b) (\<lambda>(v, off, b).
         Inr (Some (bytes_dict v, off, b)))
     else if present = 6 then
       and_then (read_custom_binary_list data off b) (\<lambda>(v, off, b).
         Inr (Some (PList (map PBytes v), off, b)))
     else if present = 7 then
       and_then (read_custom_binary_map data off b) (\<lambda>(v, off, b).
         Inr (Some (bytes_dict (map (\<lambda>(k, x). (k, PBytes x)) v), off, b)))
     else Inr None)"

definition pipeline_item :: "bytes \<Rightarrow> nat \<Rightarrow> budget \<Rightarrow> (pyval \<times> nat \<times> budget) option result" where
  "pipeline_item data off b =
     and_then (budget_consume b 2) (\<lambda>b.
     and_then (byte_at data off) (\<lambda>status_code.
     let off = off + 1 in
     if status_code = 0 then
       opt_then (pipeline_ok_value data off b) (\<lambda>(v, off, b).
         Inr (Some (PList [PStr (text_lit ''ok''), v], off, b)))
     else if status_code = 1 \<or> status_code = 2 then
       and_then (read_compact_binary data off) (\<lambda>(reason, off).
         Inr (Some (PList [PStr (text_lit (if status_code = 1 then ''busy'' else ''error'')), PBytes reason],
                    off, b)))
     else Inr None))"

fun caught_pipeline_errors :: "py_error \<Rightarrow> bool" where
  "caught_pipeline_errors IndexError = True"
| "caught_pipeline_errors StructError = True"
| "caught_pipeline_errors (ValueError _) = True"
| "caught_pipeline_errors UnicodeEncodeError = True"
| "caught_pipeline_errors UnicodeDecodeError = True"
| "caught_pipeline_errors _ = False"

definition try_decode_custom_pipeline_response ::
    "bytes \<Rightarrow> nat \<Rightarrow> budget \<Rightarrow> pyval list option result" where
  "try_decode_custom_pipeline_response data off b = none_on caught_pipeline_errors
     (let off = off + 1 in
      if off + 4 > length data then Inl StructError
      else
        let n = be_decode (bytes_slice data off 4); off = off + 4 in
        and_then (budget_consume b n) (\<lambda>b. at_end data (for_each (pipeline_item data) n off b)))"

section \<open>Typed fast paths\<close>

definition limit_or :: "(py_error \<Rightarrow> bool) \<Rightarrow> py_error \<Rightarrow> bool" where
  "limit_or caught e = (case e of DecodedCollectionLimitError _ \<Rightarrow> False | _ \<Rightarrow> caught e)"

definition typed_claim_row :: "bytes \<Rightarrow> nat \<Rightarrow> budget \<Rightarrow> (pyval list \<times> nat \<times> budget) option result" where
  "typed_claim_row data off b =
     and_then (byte_at data off) (\<lambda>tag.
     if tag \<noteq> 5 then Inr None
     else and_then (rp_read_u32 data (off + 1)) (\<lambda>width.
       let off = off + 5 in
       if width \<notin> {4, 5, 6} then Inr None
       else
         and_then (budget_consume b width) (\<lambda>b.
         and_then (read_tagged_binary data off) (\<lambda>(id_value, off).
         and_then (read_tagged_binary data off) (\<lambda>(partition, off).
         and_then (read_tagged_binary data off) (\<lambda>(lease, off).
         and_then (read_tagged_i64 data off) (\<lambda>(fencing, off).
         let row = [PBytes id_value, PBytes partition, PBytes lease, PInt fencing] in
         if width = 5 then
           and_then (decode_value_at data (int off) PNone (Some b)) (\<lambda>(attrs, off, b).
             if \<not> is_dict attrs then Inr None else Inr (Some (row @ [attrs], off, b)))
         else if width = 6 then
           and_then (read_compact_optional_binary data off) (\<lambda>(run_state, off).
           and_then (decode_value_at data (int off) PNone (Some b)) (\<lambda>(attrs, off, b).
             if \<not> is_dict attrs then Inr None
             else Inr (Some (row @ [opt_bytes run_state, attrs], off, b))))
         else Inr (Some (row, off, b)))))))))"

definition try_decode_claim_jobs_compact ::
    "bytes \<Rightarrow> nat \<Rightarrow> budget option \<Rightarrow> pyval list list option result" where
  "try_decode_claim_jobs_compact data off bud =
     (let b = (case bud of Some b \<Rightarrow> b | None \<Rightarrow> None) in
      none_on (limit_or caught_errors)
       (and_then (byte_at data off) (\<lambda>tag.
        if tag \<noteq> 5 then Inr None
        else and_then (rp_read_u32 data (off + 1)) (\<lambda>n.
          and_then (budget_consume b n) (\<lambda>b.
            at_end data (for_each (typed_claim_row data) n (off + 5) b))))))"

definition tagged_item :: "bytes \<Rightarrow> nat \<Rightarrow> budget \<Rightarrow> (bytes \<times> nat \<times> budget) option result" where
  "tagged_item data off b =
     and_then (read_tagged_binary data off) (\<lambda>(item, off). Inr (Some (item, off, b)))"

definition try_decode_binary_list :: "bytes \<Rightarrow> nat \<Rightarrow> budget \<Rightarrow> bytes list option result" where
  "try_decode_binary_list data off b = none_on (limit_or caught_errors)
     (and_then (byte_at data off) (\<lambda>tag.
      if tag \<noteq> 5 then Inr None
      else and_then (rp_read_u32 data (off + 1)) (\<lambda>n.
        and_then (budget_consume b n) (\<lambda>b.
          at_end data (for_each (tagged_item data) n (off + 5) b)))))"

section \<open>The fast paths agree with the codec\<close>

lemma decode_value_at_budget [simp]: "decode_value_at data (int off) PNone (Some b) = decode_at data off 0 b"
  by (simp add: decode_value_at_def)

lemma require_available_next [simp]:
  "require_available data (1 + int off) (numeral k) = Inr u \<longleftrightarrow> off + 1 + numeral k \<le> length data"
  using require_available_numeral(1) [of data "off + 1" k u] by simp

lemma decode_body_empty:
  assumes "be_decode (bytes_slice data off 4) = 0" and "off + 4 \<le> length data"
  shows "decode_body 5 data off d b = and_then (budget_consume b 0) (\<lambda>b. Inr (PList [], off + 4, b))"
    and "decode_body 6 data off d b = and_then (budget_consume b 0) (\<lambda>b. Inr (PDict [], off + 4, b))"
proof -
  have "read_u32 data off = Inr 0" using assms by (simp add: read_u32_iff)
  then show "decode_body 5 data off d b = and_then (budget_consume b 0) (\<lambda>b. Inr (PList [], off + 4, b))"
    and "decode_body 6 data off d b = and_then (budget_consume b 0) (\<lambda>b. Inr (PDict [], off + 4, b))"
    by (simp_all add: decode_body_def and_then_assoc)
qed

lemma record_value_codec:
  assumes "length data < NULL_U32"
  shows "decode_flow_record_value_at data off b = Inr r \<longleftrightarrow> decode_at data off 0 b = Inr r"
proof (cases "off < length data")
  case False
  then show ?thesis by (simp add: decode_flow_record_value_at_def decode_at_Inr)
next
  case True
  obtain v off' b' where r: "r = (v, off', b')" by (cases r)
  consider "data ! off = 4" | "data ! off = 5" | "data ! off = 6" | "data ! off \<notin> {4, 5, 6}" by blast
  then show ?thesis
  proof cases
    case 1
    let ?n = "be_decode (bytes_slice data (off + 1) 4)"
    have "decode_flow_record_value_at data off b = Inr r \<longleftrightarrow>
       off + 1 + 4 \<le> length data \<and> off + 1 + 4 + ?n \<le> length data \<and>
       r = (PBytes (bytes_slice data (off + 1 + 4) ?n), off + 1 + 4 + ?n, b)"
      using True 1 assms by (auto simp: decode_flow_record_value_at_def Let_def)
    also have "\<dots> \<longleftrightarrow> decode_body 4 data (off + 1) 0 b = Inr r"
      by (auto simp: decode_body_def read_binary_def read_u32_iff simp del: of_nat_add)
    finally show ?thesis using True 1 by (simp add: decode_at_Inr)
  next
    case 2
    show ?thesis
    proof (cases "off + 1 + 4 \<le> length data \<and> be_decode (bytes_slice data (off + 1) 4) = 0")
      case True
      then show ?thesis
        using 2 \<open>off < length data\<close> decode_body_empty [of data "off + 1"]
        by (auto simp: decode_at_Inr decode_flow_record_value_at_def Let_def)
    next
      case False
      then show ?thesis
        using 2 \<open>off < length data\<close>
        by (auto simp: r decode_at_Inr decode_flow_record_value_at_def Let_def decode_body_tags)
    qed
  next
    case 3
    show ?thesis
    proof (cases "off + 1 + 4 \<le> length data \<and> be_decode (bytes_slice data (off + 1) 4) = 0")
      case True
      then show ?thesis
        using 3 \<open>off < length data\<close> decode_body_empty [of data "off + 1"]
        by (auto simp: decode_at_Inr decode_flow_record_value_at_def Let_def)
    next
      case False
      then show ?thesis
        using 3 \<open>off < length data\<close>
        by (auto simp: r decode_at_Inr decode_flow_record_value_at_def Let_def decode_body_tags)
    qed
  next
    case 4
    then show ?thesis
      using True by (auto simp: r decode_at_Inr decode_flow_record_value_at_def Let_def decode_body_def)
  qed
qed

lemma tagged_binary_codec:
  assumes "d \<le> MAX_VALUE_NESTING"
  shows "decode_at data off d b = Inr (PBytes x, off', b') \<longleftrightarrow>
     read_tagged_binary data off = Inr (x, off') \<and> b' = b"
proof (cases "off < length data \<and> data ! off = 4")
  case True
  then show ?thesis
    using assms
    by (auto simp: decode_at_Inr decode_body_tags read_tagged_binary_def byte_at_def Let_def
        read_binary_def read_u32_def rp_read_u32_def simp del: of_nat_add)
next
  case False
  moreover have "decode_body t data (off + 1) d b = Inr (PBytes x, off', b') \<Longrightarrow> t = 4" for t
    by (auto simp: decode_body_def split_def split: if_splits)
  ultimately show ?thesis
    by (auto simp: decode_at_Inr read_tagged_binary_def byte_at_def)
qed

lemma tagged_i64_codec:
  assumes "d \<le> MAX_VALUE_NESTING" and "read_tagged_i64 data off = Inr (n, off')"
  shows "decode_at data off d b = Inr (PInt n, off', b)"
  using assms by (auto simp: decode_at_Inr decode_body_def read_tagged_i64_def byte_at_def Let_def
      split: if_splits)

lemma tagged_loop_codec:
  "for_each (tagged_item data) n off b = Inr (Some (xs, off', b')) \<longleftrightarrow>
     decode_items n data off 1 b = Inr (map PBytes xs, off', b')"
proof (induction n arbitrary: off b xs)
  case (Suc n)
  have d: "Suc 0 \<le> MAX_VALUE_NESTING" by (simp add: MAX_VALUE_NESTING_def)
  have item: "tagged_item data off b = Inr (Some (x, o1, b1)) \<longleftrightarrow>
      decode_at data off 1 b = Inr (PBytes x, o1, b1)" for x o1 b1
    by (auto simp: tagged_item_def tagged_binary_codec [OF d])
  show ?case
    by (cases xs) (auto simp: item Suc.IH split_def)
qed auto

lemma decode_at_PList:
  "decode_at data off d b = Inr (PList ys, off', b') \<longleftrightarrow>
     d \<le> MAX_VALUE_NESTING \<and> off < length data \<and> data ! off = 5 \<and>
     (\<exists>n b1. rp_read_u32 data (off + 1) = Inr n \<and> budget_consume b n = Inr b1 \<and>
        decode_items n data (off + 5) (d + 1) b1 = Inr (ys, off', b'))"
proof -
  have "decode_body (data ! off) data (off + 1) d b = Inr (PList ys, off', b') \<Longrightarrow> data ! off = 5"
    by (auto simp: decode_body_def split_def split: if_splits)
  then have "decode_at data off d b = Inr (PList ys, off', b') \<longleftrightarrow>
     d \<le> MAX_VALUE_NESTING \<and> off < length data \<and> data ! off = 5 \<and>
     decode_body 5 data (off + 1) d b = Inr (PList ys, off', b')"
    by (auto simp: decode_at_Inr)
  also have "decode_body 5 data (off + 1) d b = Inr (PList ys, off', b') \<longleftrightarrow>
     (\<exists>n b1. rp_read_u32 data (off + 1) = Inr n \<and> budget_consume b n = Inr b1 \<and>
        decode_items n data (off + 5) (d + 1) b1 = Inr (ys, off', b'))"
    by (auto simp: decode_body_tags rp_read_u32_def add.commute [of _ off])
  finally show ?thesis .
qed

lemma binary_list_codec:
  "try_decode_binary_list data off b = Inr (Some xs) \<longleftrightarrow>
     (\<exists>b'. decode_at data off 0 b = Inr (PList (map PBytes xs), length data, b'))"
  by (auto simp: try_decode_binary_list_def byte_at_def decode_at_PList at_end_Some tagged_loop_codec)

lemma typed_row_codec:
  assumes "typed_claim_row data off b = Inr (Some (row, off', b'))" and "length row = 4"
  shows "decode_at data off 1 b = Inr (PList row, off', b')"
proof -
  have d: "1 \<le> MAX_VALUE_NESTING" "2 \<le> MAX_VALUE_NESTING" by (simp_all add: MAX_VALUE_NESTING_def)
  from assms obtain b1 i o1 p o2 l o3 f where
      tag: "off < length data" "data ! off = 5" "rp_read_u32 data (off + 1) = Inr 4"
    and rd: "budget_consume b 4 = Inr b1" "read_tagged_binary data (off + 5) = Inr (i, o1)"
      "read_tagged_binary data o1 = Inr (p, o2)" "read_tagged_binary data o2 = Inr (l, o3)"
      "read_tagged_i64 data o3 = Inr (f, off')"
    and row: "row = [PBytes i, PBytes p, PBytes l, PInt f]" "b' = b1"
    by (auto simp: typed_claim_row_def byte_at_def Let_def split: if_splits)
  have "decode_items (Suc (Suc (Suc (Suc 0)))) data (off + 5) 2 b1 = Inr (row, off', b1)"
    using tagged_i64_codec [OF d(2) rd(5), of b1] row
      tagged_binary_codec [OF d(2), THEN iffD2, OF conjI, OF rd(2) refl, of b1]
      tagged_binary_codec [OF d(2), THEN iffD2, OF conjI, OF rd(3) refl, of b1]
      tagged_binary_codec [OF d(2), THEN iffD2, OF conjI, OF rd(4) refl, of b1]
    by simp
  then have "decode_items 4 data (off + 5) 2 b1 = Inr (row, off', b1)"
    by (simp only: numeral_eq_Suc pred_numeral_simps BitM.simps)
  with tag rd(1) d(1) show ?thesis
    by (auto simp: decode_at_PList row numeral_2_eq_2)
qed

lemma typed_rows_codec:
  assumes "for_each (typed_claim_row data) n off b = Inr (Some (rows, off', b'))"
    and "list_all (\<lambda>row. length row = 4) rows"
  shows "decode_items n data off 1 b = Inr (map PList rows, off', b')"
  using assms
proof (induction n arbitrary: off b rows)
  case (Suc n)
  then show ?case
    by (auto simp: split_def dest!: typed_row_codec)
qed simp

lemma claim_jobs_compact_codec:
  assumes "try_decode_claim_jobs_compact data off (Some b) = Inr (Some rows)"
    and "list_all (\<lambda>row. length row = 4) rows"
  shows "\<exists>b'. decode_at data off 0 b = Inr (PList (map PList rows), length data, b')"
  using assms
  by (auto simp: try_decode_claim_jobs_compact_def byte_at_def decode_at_PList at_end_Some
      split: if_splits dest: typed_rows_codec)

section \<open>The widths of claimed jobs\<close>

text \<open>
  The wire form of a claimed job: the four fixed fields, then nothing, an attribute map, or a run state
  and an attribute map. The width the decoder has to find is the number of elements of the row.
\<close>

datatype claim_tail =
    NoTail
  | Attrs "(pyval \<times> pyval) list"
  | StateAttrs "bytes option" "(pyval \<times> pyval) list"

type_synonym claim = "(bytes \<times> bytes option \<times> bytes \<times> int) \<times> claim_tail"

definition optional_wire :: "bytes option \<Rightarrow> bytes" where
  "optional_wire v = (case v of None \<Rightarrow> u32_bytes NULL_U32 | Some x \<Rightarrow> compact_wire x)"

fun fields_wire :: "bytes \<times> bytes option \<times> bytes \<times> int \<Rightarrow> bytes" where
  "fields_wire (i, p, l, f) = compact_wire i @ optional_wire p @ compact_wire l @ i64_bytes f"

fun fields_ok :: "bytes \<times> bytes option \<times> bytes \<times> int \<Rightarrow> bool" where
  "fields_ok (i, p, l, f) \<longleftrightarrow>
     compact_ok i \<and> pred_option compact_ok p \<and> compact_ok l \<and> I64_MIN \<le> f \<and> f \<le> I64_MAX"

fun fields_row :: "bytes \<times> bytes option \<times> bytes \<times> int \<Rightarrow> pyval list" where
  "fields_row (i, p, l, f) = [PBytes i, opt_bytes p, PBytes l, PInt f]"

fun tail_width :: "claim_tail \<Rightarrow> nat" where
  "tail_width NoTail = 4"
| "tail_width (Attrs d) = 5"
| "tail_width (StateAttrs st d) = 6"

fun tail_wire :: "claim_tail \<Rightarrow> bytes" where
  "tail_wire NoTail = []"
| "tail_wire (Attrs d) = wire (PDict d)"
| "tail_wire (StateAttrs st d) = optional_wire st @ wire (PDict d)"

fun tail_ok :: "claim_tail \<Rightarrow> bool" where
  "tail_ok NoTail = True"
| "tail_ok (Attrs d) = encodable (PDict d) 0"
| "tail_ok (StateAttrs st d) = (pred_option compact_ok st \<and> encodable (PDict d) 0)"

fun tail_row :: "claim_tail \<Rightarrow> pyval list" where
  "tail_row NoTail = []"
| "tail_row (Attrs d) = [norm (PDict d)]"
| "tail_row (StateAttrs st d) = [opt_bytes st, norm (PDict d)]"

fun tail_cost :: "claim_tail \<Rightarrow> nat" where
  "tail_cost NoTail = 0"
| "tail_cost (Attrs d) = item_count (norm (PDict d))"
| "tail_cost (StateAttrs st d) = item_count (norm (PDict d))"

definition claim_wire :: "claim \<Rightarrow> bytes" where
  "claim_wire c = fields_wire (fst c) @ tail_wire (snd c)"

definition claim_ok :: "claim \<Rightarrow> bool" where
  "claim_ok c \<longleftrightarrow> fields_ok (fst c) \<and> tail_ok (snd c)"

definition claim_values :: "claim \<Rightarrow> pyval list" where
  "claim_values c = fields_row (fst c) @ tail_row (snd c)"

definition claim_cost :: "claim \<Rightarrow> nat" where
  "claim_cost c = tail_width (snd c) + tail_cost (snd c)"

lemma read_compact_optional_binary_iff:
  "read_compact_optional_binary data off = Inr (v, off') \<longleftrightarrow>
     pred_option compact_ok v \<and> occurs data off (optional_wire v) \<and>
     off' = off + length (optional_wire v)"
proof (cases v)
  case None
  have "read_compact_optional_binary data off = Inr (None, off') \<longleftrightarrow>
      rp_read_u32 data off = Inr NULL_U32 \<and> off' = off + 4"
    by (auto simp: read_compact_optional_binary_def Let_def split: if_splits)
  then show ?thesis
    by (simp add: None rp_read_u32_Inr optional_wire_def NULL_U32_def)
next
  case (Some x)
  have "read_compact_optional_binary data off = Inr (Some x, off') \<longleftrightarrow>
      read_compact_binary data off = Inr (x, off')"
    by (auto simp: read_compact_optional_binary_def read_compact_binary_def Let_def split: if_splits)
  then show ?thesis
    by (simp add: Some read_compact_binary_iff optional_wire_def)
qed

lemma claim_fields_iff:
  "claim_fields data off = Inr (row, off') \<longleftrightarrow>
     (\<exists>c. fields_ok c \<and> row = fields_row c \<and> occurs data off (fields_wire c) \<and>
        off' = off + length (fields_wire c))" (is "?l \<longleftrightarrow> ?r")
proof
  assume ?l
  then obtain i o1 p o2 l o3 where
    "read_compact_binary data off = Inr (i, o1)" "read_compact_optional_binary data o1 = Inr (p, o2)"
    "read_compact_binary data o2 = Inr (l, o3)" "o3 + 8 \<le> length data" "off' = o3 + 8"
    "row = [PBytes i, opt_bytes p, PBytes l, PInt (unpack_i64 (bytes_slice data o3 8))]"
    by (auto simp: claim_fields_def)
  with occurs_i64 [of o3 data "unpack_i64 (bytes_slice data o3 8)"] show ?r
    by (intro exI [of _ "(i, p, l, unpack_i64 (bytes_slice data o3 8))"])
       (auto simp: read_compact_binary_iff read_compact_optional_binary_iff occurs_append add.assoc)
next
  assume ?r
  then obtain i p l f where c: "fields_ok (i, p, l, f)" "row = fields_row (i, p, l, f)"
    "occurs data off (fields_wire (i, p, l, f))" "off' = off + length (fields_wire (i, p, l, f))"
    by auto
  let ?o3 = "off + length (compact_wire i) + length (optional_wire p) + length (compact_wire l)"
  from c occurs_i64 [of ?o3 data f] have "?o3 + 8 \<le> length data" "unpack_i64 (bytes_slice data ?o3 8) = f"
    by (auto simp: occurs_append add.assoc)
  moreover from c have "read_compact_binary data off = Inr (i, off + length (compact_wire i))"
    "read_compact_optional_binary data (off + length (compact_wire i)) =
       Inr (p, off + length (compact_wire i) + length (optional_wire p))"
    "read_compact_binary data (off + length (compact_wire i) + length (optional_wire p)) = Inr (l, ?o3)"
    by (simp_all add: read_compact_binary_iff read_compact_optional_binary_iff occurs_append add.assoc)
  ultimately show ?l
    using c by (simp add: claim_fields_def)
qed

lemma occurs_stands:
  assumes "occurs data off w"
  shows "\<exists>r. stands_at data off (w @ r)"
proof -
  from assms have w: "take (length w) (drop off data) = w" and l: "length (take off data) = off"
    by (simp_all add: occurs_def bytes_slice_def)
  have "data = take off data @ take (length w) (drop off data) @ drop (length w) (drop off data)"
    by (simp only: append_take_drop_id)
  then have "data = take off data @ w @ drop (length w) (drop off data)"
    by (simp only: w)
  with l show ?thesis
    unfolding stands_at_def by blast
qed

lemma decode_attrs:
  assumes "encodable v 0" and "occurs data off (wire v)" and "nonneg_budget b"
  shows "decode_at data off 0 b = Inr (norm v, off + length (wire v), b') \<longleftrightarrow>
    charge b (item_count (norm v)) b'"
proof -
  from occurs_stands [OF assms(2)] obtain r where "stands_at data off (wire v @ r)" by blast
  from decode_wire [OF assms(1) this] show ?thesis
    using metered_valueD [OF decode_metered assms(3)] by simp
qed

lemma claim_row_decodes:
  assumes "claim_ok c" and "occurs data off (claim_wire c)" and "nonneg_budget b"
    and "charge b (claim_cost c) b'"
  shows "claim_row data (tail_width (snd c)) off b =
    Inr (Some (claim_values c, off + length (claim_wire c), b'))"
proof -
  obtain f t where c: "c = (f, t)" by (cases c)
  let ?o1 = "off + length (fields_wire f)"
  from assms(4) obtain b1 where b1: "charge b (tail_width t) b1" "charge b1 (tail_cost t) b'"
    by (auto simp: c claim_cost_def charge_add)
  have nn: "nonneg_budget b1" using b1(1) by (rule charge_nonneg)
  have fields: "claim_fields data off = Inr (fields_row f, ?o1)"
    unfolding claim_fields_iff
    by (rule exI [of _ f]) (use assms(1,2) in \<open>simp add: c claim_ok_def claim_wire_def occurs_append\<close>)
  have consume: "budget_consume b (tail_width t) = Inr b1"
    using b1(1) by (simp add: budget_consume_charge)
  show ?thesis
  proof (cases t)
    case NoTail
    with fields consume nn b1(2) show ?thesis
      by (simp add: claim_row_def c claim_values_def claim_wire_def charge_0)
  next
    case (Attrs d)
    then have "decode_at data ?o1 0 b1 = Inr (norm (PDict d), ?o1 + length (wire (PDict d)), b')"
      using decode_attrs [of "PDict d" data ?o1 b1 b'] assms(1,2) nn b1(2)
      by (auto simp: c claim_ok_def claim_wire_def occurs_append simp del: norm.simps wire.simps)
    with fields consume Attrs show ?thesis
      by (simp add: claim_row_def c claim_values_def claim_wire_def is_dict_def)
  next
    case (StateAttrs st d)
    let ?o2 = "?o1 + length (optional_wire st)"
    have "read_compact_optional_binary data ?o1 = Inr (st, ?o2)"
      using assms(1,2) StateAttrs
      by (simp add: read_compact_optional_binary_iff c claim_ok_def claim_wire_def occurs_append)
    moreover have "decode_at data ?o2 0 b1 = Inr (norm (PDict d), ?o2 + length (wire (PDict d)), b')"
      using decode_attrs [of "PDict d" data ?o2 b1 b'] assms(1,2) nn b1(2) StateAttrs
      by (auto simp: c claim_ok_def claim_wire_def occurs_append simp del: norm.simps wire.simps)
    ultimately show ?thesis
      using fields consume StateAttrs
      by (simp add: claim_row_def c claim_values_def claim_wire_def is_dict_def add.assoc)
  qed
qed

lemma claim_rows_decode:
  assumes "list_all claim_ok cs" and "list_all (\<lambda>c. tail_width (snd c) = w) cs"
    and "occurs data off (concat (map claim_wire cs))" and "nonneg_budget b"
    and "charge b (sum_list (map claim_cost cs)) b'"
  shows "for_each (claim_row data w) (length cs) off b =
    Inr (Some (map claim_values cs, off + length (concat (map claim_wire cs)), b'))"
  using assms
proof (induction cs arbitrary: off b)
  case Nil
  then show ?case by (simp add: charge_0)
next
  case (Cons c cs)
  then obtain b1 where b1: "charge b (claim_cost c) b1" "charge b1 (sum_list (map claim_cost cs)) b'"
    by (auto simp: charge_add)
  have "claim_row data w off b = Inr (Some (claim_values c, off + length (claim_wire c), b1))"
    using claim_row_decodes [of c data off b b1] Cons.prems b1(1) by (auto simp: occurs_append)
  moreover have "for_each (claim_row data w) (length cs) (off + length (claim_wire c)) b1 =
     Inr (Some (map claim_values cs, off + length (claim_wire c) + length (concat (map claim_wire cs)), b'))"
    using Cons.IH [of "off + length (claim_wire c)" b1] Cons.prems b1 charge_nonneg
    by (auto simp: occurs_append)
  ultimately show ?case by (simp add: add.assoc)
qed

text \<open>Wrong widths are declined at the first row.\<close>

definition rejects :: "'a option result \<Rightarrow> bool" where
  "rejects r \<longleftrightarrow> r = Inr None \<or> (\<exists>m. r = Inl (FerricStoreError m)) \<or>
     (\<exists>m. r = Inl (DecodedCollectionLimitError m))"

lemma u32_first_byte:
  assumes "n < 0x05000000"
  shows "\<exists>t r. u32_bytes n = t # r \<and> unat t \<le> 4"
proof -
  have four: "4 = Suc (Suc (Suc (Suc 0)))" by simp
  have "u32_bytes n = of_nat (n div 256 div 256 div 256) #
      [of_nat (n div 256 div 256), of_nat (n div 256), of_nat n]"
    unfolding u32_bytes_def four by simp
  moreover have "n div 256 div 256 div 256 < 5"
    using assms by (intro less_mult_imp_div_less) simp
  then have "unat (of_nat (n div 256 div 256 div 256) :: byte) \<le> 4"
    unfolding unat_byte_of_nat by (metis less_Suc_eq_le mod_less_eq_dividend le_trans eval_nat_numeral(3))
  ultimately show ?thesis by blast
qed

lemma decode_scalar_tag:
  assumes "off < length data \<Longrightarrow> unat (data ! off) \<le> 4 \<or> data ! off = 0xFF"
  shows "(\<exists>m. decode_at data off 0 b = Inl (FerricStoreError m)) \<or>
    (\<exists>v r. decode_at data off 0 b = Inr (v, r) \<and> \<not> is_dict v)"
proof (cases "off < length data")
  case False
  then show ?thesis
    by (subst (1) decode_at_unfold)
       (simp add: check_nesting_def guard_def require_available_def)
next
  case True
  have four: "unat t \<le> 4 \<Longrightarrow> t \<in> {0, 1, 2, 3, 4}" for t :: byte
    by (auto simp: word_unat_eq_iff)
  from True have "decode_at data off 0 b = decode_body (data ! off) data (off + 1) 0 b"
    by (subst decode_at_unfold)
       (simp add: check_nesting_def guard_def require_available_def decode_body_def Let_def)
  moreover have "data ! off \<in> {0, 1, 2, 3, 4} \<or> data ! off = 0xFF"
    using assms [OF True] four by blast
  moreover have "(\<exists>m. r = Inl (FerricStoreError m)) \<or> r = Inr ()"
    if "r = require_available data x y" for r x y
    using that by (simp add: require_available_def)
  ultimately show ?thesis
    by (auto simp: decode_body_def is_dict_def read_binary_def read_u32_def require_available_def)
qed

definition scalar_at :: "bytes \<Rightarrow> nat \<Rightarrow> bool" where
  "scalar_at data off \<longleftrightarrow> (off < length data \<longrightarrow> unat (data ! off) \<le> 4 \<or> data ! off = 0xFF)"

lemma null_first_byte: "\<exists>r. u32_bytes NULL_U32 = 0xFF # r"
proof -
  have four: "4 = Suc (Suc (Suc (Suc 0)))" by simp
  show ?thesis unfolding u32_bytes_def four by (simp add: NULL_U32_def)
qed

lemma optional_scalar:
  assumes "occurs data off (optional_wire v)" and "length data < 0x05000000"
  shows "scalar_at data off"
proof (cases v)
  case None
  then obtain r where "optional_wire v = 0xFF # r"
    using null_first_byte by (auto simp: optional_wire_def)
  with assms(1) show ?thesis by (simp add: scalar_at_def occurs_Cons)
next
  case (Some x)
  with assms occurs_le [OF assms(1)] have "length x < 0x05000000"
    by (simp add: optional_wire_def compact_wire_def)
  from u32_first_byte [OF this] obtain t r where "optional_wire v = t # r" "unat t \<le> 4"
    using Some by (auto simp: optional_wire_def compact_wire_def)
  with assms(1) show ?thesis by (simp add: scalar_at_def occurs_Cons)
qed

lemma optional_read_errors:
  "read_compact_optional_binary data off = Inl e \<Longrightarrow> \<exists>m. e = FerricStoreError m"
  by (auto simp: read_compact_optional_binary_def rp_read_u32_def rp_require_available_def Let_def
      and_then_eq_Inl split: if_splits)

lemma rejects_simps [simp]:
  "rejects (Inr None)" "rejects (Inl (FerricStoreError m))" "rejects (Inl (DecodedCollectionLimitError m))"
  by (simp_all add: rejects_def)

lemma consume_rejects:
  "(\<And>b'. rejects (f b')) \<Longrightarrow> rejects (and_then (budget_consume b n) f)"
  by (auto simp: budget_consume_def split: option.split)

lemma attrs_reject:
  assumes "scalar_at data off"
  shows "rejects (and_then (decode_at data off 0 b) (\<lambda>(attrs, off, b).
     if \<not> is_dict attrs then Inr None else f attrs off b))"
proof -
  have "off < length data \<Longrightarrow> unat (data ! off) \<le> 4 \<or> data ! off = 0xFF"
    using assms by (simp add: scalar_at_def)
  from decode_scalar_tag [OF this, of b] show ?thesis by auto
qed

lemma claim_row_rejects:
  assumes "fields_ok f" and "occurs data off (fields_wire f)"
    and "w = 5 \<and> scalar_at data (off + length (fields_wire f)) \<or>
      w = 6 \<and> (\<forall>st o2. read_compact_optional_binary data (off + length (fields_wire f)) = Inr (st, o2) \<longrightarrow>
         scalar_at data o2)"
  shows "rejects (claim_row data w off b)"
proof -
  let ?o1 = "off + length (fields_wire f)"
  have fields: "claim_fields data off = Inr (fields_row f, ?o1)"
    unfolding claim_fields_iff using assms(1,2) by blast
  show ?thesis
    using assms(3)
  proof
    assume "w = 5 \<and> scalar_at data ?o1"
    with fields attrs_reject show ?thesis
      by (auto simp: claim_row_def intro!: consume_rejects)
  next
    assume w: "w = 6 \<and> (\<forall>st o2. read_compact_optional_binary data ?o1 = Inr (st, o2) \<longrightarrow> scalar_at data o2)"
    show ?thesis
    proof (cases "read_compact_optional_binary data ?o1")
      case (Inl e)
      with optional_read_errors [OF Inl] fields w show ?thesis
        by (auto simp: claim_row_def intro!: consume_rejects)
    next
      case (Inr p)
      obtain st o2 where p: "p = (st, o2)" by (cases p)
      with Inr fields w attrs_reject show ?thesis
        by (auto simp: claim_row_def intro!: consume_rejects)
    qed
  qed
qed

lemma wrong_width_rejected:
  assumes "list_all claim_ok (c # cs)" and "list_all (\<lambda>c. tail_width (snd c) = w) (c # cs)"
    and "occurs data off (concat (map claim_wire (c # cs)))"
    and "off + length (concat (map claim_wire (c # cs))) = length data"
    and "length data < 0x05000000" and "w' = 5 \<or> w' = 6" and "w < w'"
  shows "rejects (claim_row data w' off b)"
proof -
  obtain f t where c: "c = (f, t)" by (cases c)
  let ?o1 = "off + length (fields_wire f)"
  have f: "fields_ok f" "occurs data off (fields_wire f)"
    using assms(1,3) by (simp_all add: c claim_ok_def claim_wire_def occurs_append)
  have tail: "occurs data ?o1 (tail_wire t @ concat (map claim_wire cs))"
    "?o1 + length (tail_wire t @ concat (map claim_wire cs)) = length data"
    using assms(3,4) by (simp_all add: c claim_wire_def occurs_append add.assoc)
  show ?thesis
  proof (cases t)
    case NoTail
    have "scalar_at data ?o1 \<and>
      (\<forall>st o2. read_compact_optional_binary data ?o1 = Inr (st, o2) \<longrightarrow> scalar_at data o2)"
    proof (cases cs)
      case Nil
      with tail NoTail have "?o1 = length data" by simp
      then show ?thesis
        by (auto simp: scalar_at_def read_compact_optional_binary_def rp_read_u32_def)
    next
      case (Cons c2 cs2)
      obtain i p l n t2 where c2: "c2 = ((i, p, l, n), t2)" by (cases c2) auto
      have i: "compact_ok i" "occurs data ?o1 (optional_wire (Some i))"
        "occurs data (?o1 + length (optional_wire (Some i))) (optional_wire p)"
        using assms(1) tail(1) NoTail Cons
        by (simp_all add: c2 claim_ok_def claim_wire_def occurs_append optional_wire_def)
      then have "read_compact_optional_binary data ?o1 = Inr (Some i, ?o1 + length (optional_wire (Some i)))"
        by (simp add: read_compact_optional_binary_iff)
      with optional_scalar [OF i(2) assms(5)] optional_scalar [OF i(3) assms(5)] show ?thesis by simp
    qed
    with f assms(6) show ?thesis by (intro claim_row_rejects) auto
  next
    case (Attrs d)
    with assms(2,6,7) c have w': "w' = 6" by auto
    have six: "?o1 < length data" "data ! ?o1 = 6"
      using tail(1) Attrs by (simp_all add: occurs_Cons)
    have "\<not> scalar_at data ?o1" using six by (simp add: scalar_at_def)
    then have "read_compact_optional_binary data ?o1 \<noteq> Inr (st, o2)" for st o2
      using optional_scalar [OF _ assms(5), of ?o1] by (auto simp: read_compact_optional_binary_iff)
    with f w' show ?thesis by (intro claim_row_rejects) auto
  next
    case (StateAttrs st d)
    with assms(2,6,7) c show ?thesis by auto
  qed
qed

lemma width_rejected:
  assumes "rejects (claim_row data w off b)"
  shows "try_decode_custom_claim_jobs_width data off (Suc n) w b = Inr None \<or>
    (\<exists>m. try_decode_custom_claim_jobs_width data off (Suc n) w b = Inl (DecodedCollectionLimitError m))"
  using assms
  by (auto simp: rejects_def try_decode_custom_claim_jobs_width_def at_end_def none_on_def
      declined_errors_def caught_errors_def)

lemma widths_skip:
  assumes "try_decode_custom_claim_jobs_width data off n w b = Inr None \<or>
    (\<exists>m. try_decode_custom_claim_jobs_width data off n w b = Inl (DecodedCollectionLimitError m))"
  shows "\<exists>le'. claim_widths data off n b (w # ws) le = claim_widths data off n b ws le'"
  using assms by auto

lemma widths_found:
  "try_decode_custom_claim_jobs_width data off n w b = Inr (Some rows) \<Longrightarrow>
     claim_widths data off n b (w # ws) le = Inr (Some rows)"
  by simp

lemma right_width_found:
  assumes "list_all claim_ok cs" and "list_all (\<lambda>c. tail_width (snd c) = w) cs"
    and "occurs data off (concat (map claim_wire cs))"
    and "off + length (concat (map claim_wire cs)) = length data"
    and "nonneg_budget b" and "admits b (sum_list (map claim_cost cs))"
  shows "try_decode_custom_claim_jobs_width data off (length cs) w b = Inr (Some (map claim_values cs))"
proof -
  from assms(6) obtain b' where "charge b (sum_list (map claim_cost cs)) b'"
    by (auto simp: ex_charge [symmetric])
  from claim_rows_decode [OF assms(1,2,3,5) this] show ?thesis
    by (simp add: try_decode_custom_claim_jobs_width_def at_end_Some assms(4))
qed

lemma widths_search:
  assumes "list_all claim_ok cs" and "list_all (\<lambda>c. tail_width (snd c) = w) cs"
    and "occurs data off (concat (map claim_wire cs))"
    and "off + length (concat (map claim_wire cs)) = length data"
    and "length data < 0x05000000"
    and "nonneg_budget b" and "admits b (sum_list (map claim_cost cs))"
  shows "claim_widths data off (length cs) b [6, 5, 4] None = Inr (Some (map claim_values cs))"
proof (cases cs)
  case Nil
  then have "try_decode_custom_claim_jobs_width data off (length cs) 6 b = Inr (Some (map claim_values cs))"
    using assms by (intro right_width_found) simp_all
  then show ?thesis by (rule widths_found)
next
  case (Cons c cs')
  note found = right_width_found [OF assms(1-4,6,7)]
  have skip: "try_decode_custom_claim_jobs_width data off (length cs) w' b = Inr None \<or>
      (\<exists>m. try_decode_custom_claim_jobs_width data off (length cs) w' b = Inl (DecodedCollectionLimitError m))"
    if "w' = 5 \<or> w' = 6" "w < w'" for w'
    using wrong_width_rejected [of c cs' w data off w' b] assms that
    unfolding Cons list.size add_Suc_right by (intro width_rejected) simp
  have "w = 4 \<or> w = 5 \<or> w = 6"
    using assms(2) Cons by (cases "snd c") auto
  moreover have six: "\<exists>le. claim_widths data off (length cs) b [6, 5, 4] None =
      claim_widths data off (length cs) b [5, 4] le" if "w < 6"
    by (rule widths_skip [OF skip]) (simp_all add: that)
  moreover have five: "\<exists>le'. claim_widths data off (length cs) b [5, 4] le =
      claim_widths data off (length cs) b [4] le'" if "w < 5" for le
    by (rule widths_skip [OF skip]) (simp_all add: that)
  moreover have hit: "claim_widths data off (length cs) b (w # ws) le = Inr (Some (map claim_values cs))"
    for ws le
    using found by (rule widths_found)
  ultimately consider "w = 6" | "w = 5" | "w = 4" by blast
  then show ?thesis
  proof cases
    case 1
    with hit [of "[5, 4]" None] show ?thesis by (simp only:)
  next
    case 2
    then obtain le where "claim_widths data off (length cs) b [6, 5, 4] None =
      claim_widths data off (length cs) b [5, 4] le" using six by auto
    with hit [of "[4]" le] 2 show ?thesis by (simp only:)
  next
    case 3
    then obtain le where l: "claim_widths data off (length cs) b [6, 5, 4] None =
      claim_widths data off (length cs) b [5, 4] le" using six by auto
    from 3 obtain le' where "claim_widths data off (length cs) b [5, 4] le =
      claim_widths data off (length cs) b [4] le'" using five [of le] by auto
    with l hit [of "[]" le'] 3 show ?thesis by (simp only:)
  qed
qed

section \<open>Properties\<close>

text \<open>
  The search over row widths finds the width that was written. For claimed jobs that all have the same
  width (the four fixed fields, or those with an attribute map, or with a run state and an attribute
  map) and a response shorter than 80 MiB, which is above the default response limit of 64 MiB, the
  decoder returns exactly the written rows whenever the budget admits them, although the widths are
  tried from the widest and a wrong width may already exhaust the budget.
\<close>

theorem claim_jobs_width_found:
  assumes "list_all claim_ok cs" and "list_all (\<lambda>c. tail_width (snd c) = w) cs"
    and "length cs < 2 ^ 32"
    and "data = pre @ 0x80 # u32_bytes (length cs) @ concat (map claim_wire cs)"
    and "length data < 0x05000000"
    and "nonneg_budget b" and "admits b (length cs + sum_list (map claim_cost cs))"
  shows "try_decode_custom_claim_jobs data (length pre) b = Inr (Some (map claim_values cs))"
proof -
  have o: "occurs data (length pre + 1) (u32_bytes (length cs) @ concat (map claim_wire cs))"
    "length pre + 1 + length (u32_bytes (length cs) @ concat (map claim_wire cs)) = length data"
    using occurs_to_end [of data "length pre + 1" "u32_bytes (length cs) @ concat (map claim_wire cs)"]
    by (simp_all add: assms(4))
  from assms(7) obtain b1 where b1: "charge b (length cs) b1"
    "admits b1 (sum_list (map claim_cost cs))"
    by (auto simp: ex_charge [symmetric] charge_add)
  have "claim_widths data (length pre + 5) (length cs) b1 [6, 5, 4] None = Inr (Some (map claim_values cs))"
    using o b1(2) charge_nonneg [OF b1(1)]
    by (intro widths_search [OF assms(1,2) _ _ assms(5)]) (simp_all add: occurs_append add.commute)
  moreover have "rp_read_u32 data (length pre + 1) = Inr (length cs)"
    using o assms(3) by (simp add: rp_read_u32_Inr occurs_append)
  moreover have "budget_consume b (length cs) = Inr b1"
    using b1(1) by (simp add: budget_consume_charge)
  ultimately show ?thesis
    by (simp add: try_decode_custom_claim_jobs_def none_on_def del: claim_widths.simps)
qed

definition sample_claims :: "claim list" where
  "sample_claims = [(([0x61], Some [0x70], [0x6C], 7), Attrs []), (([0x62], None, [0x6D], -1), Attrs [])]"

theorem claim_jobs_width_found_witness:
  "try_decode_custom_claim_jobs (0x80 # u32_bytes (length sample_claims) @ concat (map claim_wire sample_claims))
     0 (Some 12) =
     Inr (Some [[PBytes [0x61], PBytes [0x70], PBytes [0x6C], PInt 7, PDict []],
                [PBytes [0x62], PNone, PBytes [0x6D], PInt (-1), PDict []]])"
  using claim_jobs_width_found [of sample_claims 5
      "0x80 # u32_bytes (length sample_claims) @ concat (map claim_wire sample_claims)" "[]" "Some 12"]
  by (simp add: sample_claims_def claim_ok_def compact_ok_def NULL_U32_def I64_MIN_def I64_MAX_def
      MAX_VALUE_NESTING_def small_def claim_wire_def compact_wire_def optional_wire_def
      nonneg_budget_def admits_def claim_cost_def claim_values_def opt_bytes_def)



end
