(* ===== verification/Framing.thy ===== *)
theory Framing
  imports Codec_Correct
begin

text \<open>
  Response framing of \<open>protocol_framing.py\<close>: the body accumulator, the per-response frame budget
  and \<open>ResponseFrameAssembler\<close>, which reassembles response streams interleaved on one connection.
  The assembler is shown to be, per response identity, an independent stream machine
  (interface \<open>keyed_streams\<close>) and to refine a list-of-chunks specification.
\<close>

unbundle bit_operations_syntax

section \<open>Identities and frames\<close>

text \<open>
  \<open>ResponseIdentity\<close>: the three compared fields (\<open>may_mutate\<close> is declared \<open>compare=False\<close>, so it
  takes no part in equality or hashing).
\<close>

record response_identity =
  ri_lane_id :: int
  ri_opcode :: int
  ri_request_id :: int

definition validate_response_identity ::
    "response_identity \<Rightarrow> int \<Rightarrow> int \<Rightarrow> int \<Rightarrow> string \<Rightarrow> unit result" where
  "validate_response_identity expected lane_id opcode request_id message =
     (let actual = \<lparr>ri_lane_id = lane_id, ri_opcode = opcode, ri_request_id = request_id\<rparr>
      in if actual \<noteq> expected then Inl (FerricStoreError message) else Inr ())"

definition FRAME_BODY_SPLIT_BYTES :: nat where "FRAME_BODY_SPLIT_BYTES = 64 * 1024"

definition FLAG_MORE_CHUNKS :: int where "FLAG_MORE_CHUNKS = 0x20"

definition frame_parts :: "bytes \<Rightarrow> bytes \<Rightarrow> bytes list" where
  "frame_parts header body =
     (if body = [] then [header]
      else if length body < FRAME_BODY_SPLIT_BYTES then [header @ body]
      else [header, body])"

definition validated_response_chunk_limit :: "pyval \<Rightarrow> int option result" where
  "validated_response_chunk_limit v = validate_optional_positive_int v ''max_response_chunks''"

section \<open>\<open>ResponseBodyAccumulator\<close>\<close>

record accumulator =
  acc_first :: bytes
  acc_stream :: "bytes option"

definition make_accumulator :: "bytes \<Rightarrow> accumulator" where
  "make_accumulator first = \<lparr>acc_first = first, acc_stream = None\<rparr>"

definition acc_append :: "accumulator \<Rightarrow> bytes \<Rightarrow> accumulator" where
  "acc_append a chunk =
     (case acc_stream a of
        None \<Rightarrow> a\<lparr>acc_first := [], acc_stream := Some (acc_first a @ chunk)\<rparr>
      | Some stream \<Rightarrow> a\<lparr>acc_stream := Some (stream @ chunk)\<rparr>)"

definition acc_finish :: "accumulator \<Rightarrow> bytes" where
  "acc_finish a = (case acc_stream a of None \<Rightarrow> acc_first a | Some stream \<Rightarrow> stream)"

lemma acc_finish_append [simp]: "acc_finish (acc_append a chunk) = acc_finish a @ chunk"
  by (simp add: acc_finish_def acc_append_def split: option.split)

lemma acc_finish_make [simp]: "acc_finish (make_accumulator b) = b"
  by (simp add: acc_finish_def make_accumulator_def)

section \<open>\<open>ResponseFrameBudget\<close>\<close>

record frame_budget =
  fb_max_body_bytes :: "int option"
  fb_max_chunks :: "int option"
  fb_body_bytes :: int
  fb_chunks :: int

definition make_frame_budget :: "pyval \<Rightarrow> pyval \<Rightarrow> frame_budget result" where
  "make_frame_budget max_body_bytes max_chunks =
     and_then (validate_optional_nonnegative_int max_body_bytes ''max_response_bytes'') (\<lambda>mb.
     and_then (validate_optional_positive_int max_chunks ''max_response_chunks'') (\<lambda>mc.
       Inr \<lparr>fb_max_body_bytes = mb, fb_max_chunks = mc, fb_body_bytes = 0, fb_chunks = 0\<rparr>))"

definition exceeds :: "int option \<Rightarrow> int \<Rightarrow> bool" where
  "exceeds limit n = (case limit of None \<Rightarrow> False | Some m \<Rightarrow> n > m)"

definition add_chunk :: "frame_budget \<Rightarrow> int \<Rightarrow> frame_budget result" where
  "add_chunk b body_bytes =
     (let b = b\<lparr>fb_chunks := fb_chunks b + 1\<rparr> in
      if exceeds (fb_max_chunks b) (fb_chunks b)
      then Inl (FerricStoreError ''protocol response exceeds max_response_chunks'')
      else
        let b = b\<lparr>fb_body_bytes := fb_body_bytes b + body_bytes\<rparr> in
        if exceeds (fb_max_body_bytes b) (fb_body_bytes b)
        then Inl (FerricStoreError ''protocol response exceeds max_response_bytes'')
        else Inr b)"

section \<open>\<open>ResponseFrameAssembler\<close>\<close>

record assembled_frame =
  af_identity :: response_identity
  af_flags :: int
  af_body :: bytes
  af_read_started_ns :: int

record pending_frames =
  pf_accumulator :: accumulator
  pf_budget :: frame_budget
  pf_flags :: int
  pf_read_started_ns :: int

record assembler =
  as_max_body_bytes :: "int option"
  as_max_chunks :: "int option"
  as_pending :: "(response_identity \<times> pending_frames) list"

definition make_assembler :: "pyval \<Rightarrow> pyval \<Rightarrow> assembler result" where
  "make_assembler max_body_bytes max_chunks =
     and_then (validate_optional_nonnegative_int max_body_bytes ''max_response_bytes'') (\<lambda>mb.
     and_then (validated_response_chunk_limit max_chunks) (\<lambda>mc.
       Inr \<lparr>as_max_body_bytes = mb, as_max_chunks = mc, as_pending = []\<rparr>))"

definition pending_count :: "assembler \<Rightarrow> nat" where
  "pending_count a = length (as_pending a)"

definition assembler_clear :: "assembler \<Rightarrow> assembler" where
  "assembler_clear a = a\<lparr>as_pending := []\<rparr>"

definition assembler_reconfigure :: "assembler \<Rightarrow> pyval \<Rightarrow> pyval \<Rightarrow> assembler result" where
  "assembler_reconfigure a max_body_bytes max_chunks =
     (if as_pending a \<noteq> []
      then Inl (FerricStoreError ''cannot change response limits while chunks are pending'')
      else
        and_then (validate_optional_nonnegative_int max_body_bytes ''max_response_bytes'') (\<lambda>mb.
        and_then (validated_response_chunk_limit max_chunks) (\<lambda>mc.
          Inr (a\<lparr>as_max_body_bytes := mb, as_max_chunks := mc\<rparr>))))"

definition new_budget :: "assembler \<Rightarrow> frame_budget result" where
  "new_budget a = make_frame_budget (limit_arg (as_max_body_bytes a)) (limit_arg (as_max_chunks a))"

definition check_single_frame :: "assembler \<Rightarrow> int \<Rightarrow> unit result" where
  "check_single_frame a body_bytes =
     and_then (new_budget a) (\<lambda>b. and_then (add_chunk b body_bytes) (\<lambda>_. Inr ()))"

text \<open>
  \<open>add\<close> returns the new assembler state together with its result, since a failing continuation
  chunk drops the pending entry before the exception leaves the method.
\<close>

definition assembler_add ::
    "assembler \<Rightarrow> response_identity \<Rightarrow> int \<Rightarrow> bytes \<Rightarrow> int \<Rightarrow>
      assembler \<times> assembled_frame option result" where
  "assembler_add a ident flags body read_started_ns =
     (let more = (flags AND FLAG_MORE_CHUNKS \<noteq> 0);
          logical_flags = flags AND NOT FLAG_MORE_CHUNKS;
          size = int (length body)
      in case dict_get (as_pending a) ident of
           None \<Rightarrow>
             if \<not> more then
               (a, and_then (check_single_frame a size) (\<lambda>_.
                     Inr (Some \<lparr>af_identity = ident, af_flags = logical_flags, af_body = body,
                                af_read_started_ns = read_started_ns\<rparr>)))
             else
               (case and_then (new_budget a) (\<lambda>b. add_chunk b size) of
                  Inl e \<Rightarrow> (a, Inl e)
                | Inr b \<Rightarrow>
                    (a\<lparr>as_pending := dict_set (as_pending a) ident
                         \<lparr>pf_accumulator = make_accumulator body, pf_budget = b,
                          pf_flags = logical_flags, pf_read_started_ns = read_started_ns\<rparr>\<rparr>,
                     Inr None))
         | Some p \<Rightarrow>
             (case add_chunk (pf_budget p) size of
                Inl e \<Rightarrow> (a\<lparr>as_pending := dict_pop (as_pending a) ident\<rparr>, Inl e)
              | Inr b \<Rightarrow>
                  let p = p\<lparr>pf_budget := b,
                            pf_accumulator := acc_append (pf_accumulator p) body,
                            pf_flags := pf_flags p OR logical_flags\<rparr>
                  in if more then
                       (a\<lparr>as_pending := dict_set (as_pending a) ident p\<rparr>, Inr None)
                     else
                       (a\<lparr>as_pending := dict_pop (as_pending a) ident\<rparr>,
                        Inr (Some \<lparr>af_identity = ident, af_flags = pf_flags p,
                                   af_body = acc_finish (pf_accumulator p),
                                   af_read_started_ns = pf_read_started_ns p\<rparr>))))"


section \<open>The invariant of the assembler\<close>

definition within :: "int option \<Rightarrow> int \<Rightarrow> bool" where
  "within limit n \<longleftrightarrow> \<not> exceeds limit n"

definition limits_ok :: "int option \<Rightarrow> int option \<Rightarrow> bool" where
  "limits_ok mb mc \<longleftrightarrow> (\<forall>n. mb = Some n \<longrightarrow> 0 \<le> n) \<and> (\<forall>n. mc = Some n \<longrightarrow> 0 < n)"

definition pending_ok :: "int option \<Rightarrow> int option \<Rightarrow> pending_frames \<Rightarrow> bool" where
  "pending_ok mb mc p \<longleftrightarrow>
     fb_max_body_bytes (pf_budget p) = mb \<and> fb_max_chunks (pf_budget p) = mc \<and>
     fb_body_bytes (pf_budget p) = int (length (acc_finish (pf_accumulator p))) \<and>
     within mb (fb_body_bytes (pf_budget p)) \<and> within mc (fb_chunks (pf_budget p))"

definition assembler_inv :: "int option \<Rightarrow> int option \<Rightarrow> assembler \<Rightarrow> bool" where
  "assembler_inv mb mc a \<longleftrightarrow>
     as_max_body_bytes a = mb \<and> as_max_chunks a = mc \<and> limits_ok mb mc \<and>
     distinct (map fst (as_pending a)) \<and> (\<forall>x \<in> set (as_pending a). pending_ok mb mc (snd x))"

lemma new_budget_ok:
  "assembler_inv mb mc a \<Longrightarrow>
     new_budget a = Inr \<lparr>fb_max_body_bytes = mb, fb_max_chunks = mc, fb_body_bytes = 0, fb_chunks = 0\<rparr>"
  by (auto simp: new_budget_def make_frame_budget_def assembler_inv_def limits_ok_def limit_arg_def
      validate_optional_nonnegative_int_def validate_nonnegative_int_def
      validate_optional_positive_int_def validate_positive_int_def split: option.splits)

lemma add_chunk_Inr:
  "add_chunk b n = Inr b' \<longleftrightarrow>
     within (fb_max_chunks b) (fb_chunks b + 1) \<and> within (fb_max_body_bytes b) (fb_body_bytes b + n) \<and>
     b' = b\<lparr>fb_chunks := fb_chunks b + 1, fb_body_bytes := fb_body_bytes b + n\<rparr>"
  by (auto simp: add_chunk_def within_def Let_def)

text \<open>
  One identity of the assembler on its own: what happens to its pending entry, and what the call
  returns. The limits are parameters.
\<close>

definition stream_add ::
    "int option \<Rightarrow> int option \<Rightarrow> response_identity \<Rightarrow> pending_frames option \<Rightarrow> int \<times> bytes \<times> int \<Rightarrow>
      pending_frames option \<times> assembled_frame option result" where
  "stream_add mb mc ident p = (\<lambda>(flags, body, t).
     let a = \<lparr>as_max_body_bytes = mb, as_max_chunks = mc,
              as_pending = (case p of None \<Rightarrow> [] | Some q \<Rightarrow> [(ident, q)])\<rparr>;
         (a', out) = assembler_add a ident flags body t
     in (dict_get (as_pending a') ident, out))"

lemma assembler_inv_set:
  "assembler_inv mb mc a \<Longrightarrow> pending_ok mb mc p \<Longrightarrow>
     assembler_inv mb mc (a\<lparr>as_pending := dict_set (as_pending a) k p\<rparr>)"
  using set_dict_set_subset [of "as_pending a" k p]
  unfolding assembler_inv_def by auto

lemma assembler_inv_pop:
  "assembler_inv mb mc a \<Longrightarrow> assembler_inv mb mc (a\<lparr>as_pending := dict_pop (as_pending a) k\<rparr>)"
  using set_dict_pop_subset [of "as_pending a" k]
  unfolding assembler_inv_def by auto

lemma assembler_inv_get:
  "assembler_inv mb mc a \<Longrightarrow> dict_get (as_pending a) k = Some p \<Longrightarrow> pending_ok mb mc p"
  by (fastforce simp: assembler_inv_def dest: dict_get_SomeD)

lemma assembler_add_inv:
  assumes "assembler_inv mb mc a"
  shows "assembler_inv mb mc (fst (assembler_add a ident flags body t))"
proof (cases "dict_get (as_pending a) ident")
  case None
  with assms show ?thesis
    by (auto simp: assembler_add_def Let_def new_budget_ok [OF assms] add_chunk_Inr pending_ok_def
        simp del: dict_get_None intro!: assembler_inv_set split: sum.splits)
next
  case (Some p)
  with assembler_inv_get [OF assms Some] assms show ?thesis
    by (auto simp: assembler_add_def Let_def add_chunk_Inr pending_ok_def
        intro!: assembler_inv_set assembler_inv_pop split: sum.splits)
qed

lemma limits_inv:
  "limits_ok mb mc \<Longrightarrow> (\<And>q. p = Some q \<Longrightarrow> pending_ok mb mc q) \<Longrightarrow>
     assembler_inv mb mc \<lparr>as_max_body_bytes = mb, as_max_chunks = mc,
       as_pending = (case p of None \<Rightarrow> [] | Some q \<Rightarrow> [(ident, q)])\<rparr>"
  by (auto simp: assembler_inv_def split: option.splits)

text \<open>The assembler seen through one identity is \<open>stream_add\<close>.\<close>

lemma assembler_add_stream:
  assumes inv: "assembler_inv mb mc a"
  shows "(dict_get (as_pending (fst (assembler_add a ident flags body t))) ident,
          snd (assembler_add a ident flags body t)) =
         stream_add mb mc ident (dict_get (as_pending a) ident) (flags, body, t)"
proof (cases "dict_get (as_pending a) ident")
  case None
  let ?a = "\<lparr>as_max_body_bytes = mb, as_max_chunks = mc, as_pending = []\<rparr>"
  have inv': "assembler_inv mb mc ?a" using inv by (simp add: assembler_inv_def)
  from None show ?thesis
    by (simp add: stream_add_def assembler_add_def Let_def check_single_frame_def
        new_budget_ok [OF inv] new_budget_ok [OF inv'] dict_get_set split_def
        del: dict_get_None split: sum.split)
next
  case (Some p)
  have dist: "distinct (map fst (as_pending a))" using inv by (simp add: assembler_inv_def)
  from Some show ?thesis
    by (simp add: stream_add_def assembler_add_def Let_def dict_get_set dict_get_pop [OF dist]
        split_def del: dict_get_None split: sum.split)
qed

lemma assembler_add_other:
  assumes inv: "assembler_inv mb mc a" and "k \<noteq> ident"
  shows "dict_get (as_pending (fst (assembler_add a ident flags body t))) k = dict_get (as_pending a) k"
  using assms
  by (auto simp: assembler_add_def Let_def assembler_inv_def dict_get_set dict_get_pop
      simp del: dict_get_None split: sum.split option.split)


section \<open>Interleaved streams\<close>

fun run_streams :: "('s \<Rightarrow> 'k \<Rightarrow> 'i \<Rightarrow> 's \<times> 'o) \<Rightarrow> 's \<Rightarrow> ('k \<times> 'i) list \<Rightarrow> ('k \<times> 'o) list" where
  "run_streams step s [] = []"
| "run_streams step s ((k, i) # es) =
     (let (s', out) = step s k i in (k, out) # run_streams step s' es)"

fun run_stream :: "('v \<Rightarrow> 'i \<Rightarrow> 'v \<times> 'o) \<Rightarrow> 'v \<Rightarrow> 'i list \<Rightarrow> 'o list" where
  "run_stream step v [] = []"
| "run_stream step v (i # is) = (let (v', out) = step v i in out # run_stream step v' is)"

fun events_of :: "'k \<Rightarrow> ('k \<times> 'e) list \<Rightarrow> 'e list" where
  "events_of k [] = []"
| "events_of k ((k', e) # es) = (if k' = k then e # events_of k es else events_of k es)"

text \<open>
  The contract of a demultiplexer: a step on key \<open>k\<close> acts on the component of \<open>k\<close> alone, as the
  single-stream machine \<open>local\<close> does, and its output is that machine's output.
\<close>

locale keyed_streams =
  fixes step :: "'s \<Rightarrow> 'k \<Rightarrow> 'i \<Rightarrow> 's \<times> 'o"
    and proj :: "'s \<Rightarrow> 'k \<Rightarrow> 'v"
    and local :: "'k \<Rightarrow> 'v \<Rightarrow> 'i \<Rightarrow> 'v \<times> 'o"
    and inv :: "'s \<Rightarrow> bool"
  assumes step_inv: "inv s \<Longrightarrow> inv (fst (step s k i))"
    and step_own: "inv s \<Longrightarrow> (proj (fst (step s k i)) k, snd (step s k i)) = local k (proj s k) i"
    and step_other: "inv s \<Longrightarrow> k' \<noteq> k \<Longrightarrow> proj (fst (step s k i)) k' = proj s k'"
begin

lemma outputs_of_key:
  "inv s \<Longrightarrow>
     events_of k (run_streams step s es) = run_stream (local k) (proj s k) (events_of k es)"
proof (induction es arbitrary: s)
  case (Cons e es)
  obtain k' i where e: "e = (k', i)" by fastforce
  obtain s' out where st: "step s k' i = (s', out)" by fastforce
  have inv': "inv s'" using step_inv [OF Cons.prems, of k' i] st by simp
  have IH: "events_of k (run_streams step s' es) = run_stream (local k) (proj s' k) (events_of k es)"
    by (rule Cons.IH [OF inv'])
  show ?case
  proof (cases "k' = k")
    case True
    have "local k (proj s k) i = (proj s' k, out)"
      using step_own [OF Cons.prems, of k i] st True by simp
    with True e st IH show ?thesis by simp
  next
    case False
    have "proj s' k = proj s k"
      using step_other [OF Cons.prems, of k k' i] st False by simp
    with False e st IH show ?thesis by simp
  qed
qed simp

end

definition assembler_step ::
    "assembler \<Rightarrow> response_identity \<Rightarrow> int \<times> bytes \<times> int \<Rightarrow> assembler \<times> assembled_frame option result" where
  "assembler_step a ident = (\<lambda>(flags, body, t). assembler_add a ident flags body t)"

interpretation frames: keyed_streams assembler_step "\<lambda>a. dict_get (as_pending a)"
    "stream_add mb mc" "assembler_inv mb mc" for mb mc
  by unfold_locales
     (auto simp: assembler_step_def assembler_add_inv assembler_add_stream assembler_add_other
       simp del: dict_get_None)

section \<open>The chunk-list specification\<close>

text \<open>
  What one response stream promises, on the list of the chunks received so far: reject the response
  when the number of chunks or their total size passes its limit, otherwise deliver, at the last
  chunk, the concatenated bodies with the union of the flags and the first chunk's time stamp.
\<close>

definition chunks_add ::
    "int option \<Rightarrow> int option \<Rightarrow> response_identity \<Rightarrow> (int \<times> bytes \<times> int) list \<Rightarrow> int \<times> bytes \<times> int \<Rightarrow>
      (int \<times> bytes \<times> int) list \<times> assembled_frame option result" where
  "chunks_add mb mc ident chunks chunk =
     (let cs = chunks @ [chunk];
          body = concat (map (\<lambda>(_, b, _). b) cs)
      in if exceeds mc (int (length cs))
         then ([], Inl (FerricStoreError ''protocol response exceeds max_response_chunks''))
         else if exceeds mb (int (length body))
         then ([], Inl (FerricStoreError ''protocol response exceeds max_response_bytes''))
         else if fst chunk AND FLAG_MORE_CHUNKS \<noteq> 0 then (cs, Inr None)
         else ([], Inr (Some \<lparr>af_identity = ident,
                 af_flags = foldr (\<lambda>(f, _, _) acc. (f AND NOT FLAG_MORE_CHUNKS) OR acc) cs 0,
                 af_body = body, af_read_started_ns = snd (snd (hd cs))\<rparr>)))"

definition represents :: "int option \<Rightarrow> int option \<Rightarrow> pending_frames option \<Rightarrow> (int \<times> bytes \<times> int) list \<Rightarrow> bool" where
  "represents mb mc p chunks \<longleftrightarrow>
     (case p of
        None \<Rightarrow> chunks = []
      | Some q \<Rightarrow> chunks \<noteq> [] \<and> pending_ok mb mc q \<and>
          fb_chunks (pf_budget q) = int (length chunks) \<and>
          acc_finish (pf_accumulator q) = concat (map (\<lambda>(_, b, _). b) chunks) \<and>
          pf_flags q = foldr (\<lambda>(f, _, _) acc. (f AND NOT FLAG_MORE_CHUNKS) OR acc) chunks 0 \<and>
          pf_read_started_ns q = snd (snd (hd chunks)))"

lemma foldr_flags_snoc:
  fixes chunks :: "(int \<times> bytes \<times> int) list"
  shows "foldr (\<lambda>(f, _, _) acc. (f AND m) OR acc) (chunks @ [(g, b, t)]) 0 =
     foldr (\<lambda>(f, _, _) acc. (f AND m) OR acc) chunks 0 OR (g AND m)"
  by (induction chunks) (auto simp: or.assoc split_def)

lemma stream_refines_chunks:
  assumes lim: "limits_ok mb mc" and rep: "represents mb mc p chunks"
  shows "snd (stream_add mb mc ident p c) = snd (chunks_add mb mc ident chunks c)"
    and "represents mb mc (fst (stream_add mb mc ident p c)) (fst (chunks_add mb mc ident chunks c))"
proof -
  obtain flags body t where c: "c = (flags, body, t)" by (metis prod.exhaust)
  have nb: "new_budget \<lparr>as_max_body_bytes = mb, as_max_chunks = mc, as_pending = []\<rparr> =
      Inr \<lparr>fb_max_body_bytes = mb, fb_max_chunks = mc, fb_body_bytes = 0, fb_chunks = 0\<rparr>"
    using lim by (intro new_budget_ok) (simp add: assembler_inv_def)
  have "snd (stream_add mb mc ident p c) = snd (chunks_add mb mc ident chunks c) \<and>
     represents mb mc (fst (stream_add mb mc ident p c)) (fst (chunks_add mb mc ident chunks c))"
  proof (cases p)
    case None
    with rep have "chunks = []" by (simp add: represents_def)
    with None c show ?thesis
      by (auto simp: stream_add_def assembler_add_def Let_def check_single_frame_def nb add_chunk_def
          chunks_add_def represents_def pending_ok_def within_def)
  next
    case (Some q)
    with rep have q: "chunks \<noteq> []" "pending_ok mb mc q"
        "fb_chunks (pf_budget q) = int (length chunks)"
        "acc_finish (pf_accumulator q) = concat (map (\<lambda>(_, b, _). b) chunks)"
        "pf_flags q = foldr (\<lambda>(f, _, _) acc. (f AND NOT FLAG_MORE_CHUNKS) OR acc) chunks 0"
        "pf_read_started_ns q = snd (snd (hd chunks))"
      by (auto simp: represents_def)
    with Some c show ?thesis
      by (auto simp: stream_add_def assembler_add_def Let_def add_chunk_def chunks_add_def
          represents_def pending_ok_def within_def foldr_flags_snoc add.commute [of 1]
          simp del: foldr_append)
  qed
  then show "snd (stream_add mb mc ident p c) = snd (chunks_add mb mc ident chunks c)"
    and "represents mb mc (fst (stream_add mb mc ident p c)) (fst (chunks_add mb mc ident chunks c))"
    by simp_all
qed

lemma run_stream_refines:
  "limits_ok mb mc \<Longrightarrow> represents mb mc p chunks \<Longrightarrow>
     run_stream (stream_add mb mc ident) p cs = run_stream (chunks_add mb mc ident) chunks cs"
proof (induction cs arbitrary: p chunks)
  case (Cons c cs)
  note r = stream_refines_chunks [OF Cons.prems, of ident c]
  show ?case using r Cons.IH [OF Cons.prems(1) r(2)] by (simp add: split_def Let_def)
qed simp


lemma make_assembler_inv:
  "make_assembler mb mc = Inr a \<Longrightarrow>
     assembler_inv (as_max_body_bytes a) (as_max_chunks a) a \<and> as_pending a = []"
  by (auto simp: make_assembler_def validated_response_chunk_limit_def assembler_inv_def limits_ok_def)

section \<open>Properties of the assembler\<close>

text \<open>
  C4. Refinement under interleaving: on a fresh assembler, whatever frames of other responses are
  interleaved with them, the results of the frames of one identity are those of the chunk-list
  specification run on that identity's frames alone.
\<close>

theorem assembler_refines_per_identity:
  assumes "make_assembler mb mc = Inr a"
  shows "events_of k (run_streams assembler_step a es) =
     run_stream (chunks_add (as_max_body_bytes a) (as_max_chunks a) k) [] (events_of k es)"
proof -
  let ?mb = "as_max_body_bytes a" and ?mc = "as_max_chunks a"
  from make_assembler_inv [OF assms] have inv: "assembler_inv ?mb ?mc a" and empty: "as_pending a = []"
    by simp_all
  from inv have "limits_ok ?mb ?mc" by (simp add: assembler_inv_def)
  moreover have "represents ?mb ?mc (dict_get (as_pending a) k) []"
    by (simp add: empty represents_def)
  ultimately show ?thesis
    using frames.outputs_of_key [OF inv, of k es] run_stream_refines by metis
qed

definition sample_identity :: response_identity where
  "sample_identity = \<lparr>ri_lane_id = 1, ri_opcode = 0x0101, ri_request_id = 7\<rparr>"

definition sample_assembler :: assembler where
  "sample_assembler = \<lparr>as_max_body_bytes = Some 10, as_max_chunks = Some 4, as_pending = []\<rparr>"

lemma sample_assembler_made: "make_assembler (PInt 10) (PInt 4) = Inr sample_assembler"
  by (simp add: make_assembler_def validated_response_chunk_limit_def sample_assembler_def
      validate_optional_nonnegative_int_def validate_nonnegative_int_def
      validate_optional_positive_int_def validate_positive_int_def)

theorem assembler_refines_per_identity_witness:
  "make_assembler (PInt 10) (PInt 4) = Inr sample_assembler \<and>
   events_of sample_identity (run_streams assembler_step sample_assembler [(sample_identity, 0, [1], 5)]) =
     run_stream (chunks_add (Some 10) (Some 4) sample_identity) [] [(0, [1], 5)]"
  using sample_assembler_made assembler_refines_per_identity
    [OF sample_assembler_made, of sample_identity "[(sample_identity, 0, [1], 5)]"]
  by (simp add: sample_assembler_def)

lemma run_chunks_partial:
  assumes "list_all (\<lambda>(f, _, _). f AND FLAG_MORE_CHUNKS \<noteq> 0) cs"
    and "\<not> exceeds mc (int (length (pre @ cs)))"
    and "\<not> exceeds mb (int (length (concat (map (\<lambda>(_, b, _). b) (pre @ cs)))))"
  shows "run_stream (chunks_add mb mc k) pre (cs @ rest) =
     replicate (length cs) (Inr None) @ run_stream (chunks_add mb mc k) (pre @ cs) rest"
  using assms
proof (induction cs arbitrary: pre)
  case (Cons c cs)
  have le: "\<not> exceeds m n" if "\<not> exceeds m n'" "n \<le> n'" for m n n'
    using that by (auto simp: exceeds_def split: option.splits)
  have "\<not> exceeds mc (int (length (pre @ [c])))"
    by (rule le [OF Cons.prems(2)]) simp
  moreover have "\<not> exceeds mb (int (length (concat (map (\<lambda>(_, b, _). b) (pre @ [c])))))"
    by (rule le [OF Cons.prems(3)]) simp
  ultimately have "chunks_add mb mc k pre c = (pre @ [c], Inr None)"
    using Cons.prems(1) by (simp add: chunks_add_def Let_def split_def)
  with Cons.IH [of "pre @ [c]"] Cons.prems show ?case by simp
qed simp

text \<open>
  C5. Delivery: when the frames of one response are chunks flagged as continued followed by a last
  one, and their number and total size respect the configured limits, the assembler delivers
  exactly one response, at the last chunk, whose body is the concatenation of the chunks in order;
  frames of other responses in between do not matter.
\<close>

theorem assembler_delivers_response:
  assumes "make_assembler mb mc = Inr a"
    and "events_of k es = cs @ [(f, b, t)]"
    and "list_all (\<lambda>(f, _, _). f AND FLAG_MORE_CHUNKS \<noteq> 0) cs" and "f AND FLAG_MORE_CHUNKS = 0"
    and "\<not> exceeds (as_max_chunks a) (int (length cs + 1))"
    and "\<not> exceeds (as_max_body_bytes a) (int (length (concat (map (\<lambda>(_, b, _). b) cs) @ b)))"
  shows "\<exists>r. events_of k (run_streams assembler_step a es) = replicate (length cs) (Inr None) @ [Inr (Some r)] \<and>
     af_identity r = k \<and> af_body r = concat (map (\<lambda>(_, b, _). b) cs) @ b"
proof -
  let ?mb = "as_max_body_bytes a" and ?mc = "as_max_chunks a"
  have le: "\<not> exceeds m n" if "\<not> exceeds m n'" "n \<le> n'" for m n n'
    using that by (auto simp: exceeds_def split: option.splits)
  have "run_stream (chunks_add ?mb ?mc k) [] (cs @ [(f, b, t)]) =
      replicate (length cs) (Inr None) @ run_stream (chunks_add ?mb ?mc k) cs [(f, b, t)]"
    using run_chunks_partial [OF assms(3), of ?mc "[]" ?mb k "[(f, b, t)]"]
      le [OF assms(5), of "int (length cs)"] le [OF assms(6), of "int (length (concat (map (\<lambda>(_, b, _). b) cs)))"]
    by simp
  moreover have "\<exists>r. run_stream (chunks_add ?mb ?mc k) cs [(f, b, t)] = [Inr (Some r)] \<and>
      af_identity r = k \<and> af_body r = concat (map (\<lambda>(_, b, _). b) cs) @ b"
    using assms(4-6) by (simp add: chunks_add_def Let_def add.commute [of 1])
  moreover from make_assembler_inv [OF assms(1)] have inv: "assembler_inv ?mb ?mc a"
    and "represents ?mb ?mc (dict_get (as_pending a) k) []" "limits_ok ?mb ?mc"
    by (simp_all add: represents_def assembler_inv_def)
  then have "events_of k (run_streams assembler_step a es) =
      run_stream (chunks_add ?mb ?mc k) [] (cs @ [(f, b, t)])"
    using frames.outputs_of_key [OF inv, of k es] run_stream_refines assms(2) by metis
  ultimately show ?thesis by metis
qed

theorem assembler_delivers_response_witness:
  "\<exists>r. events_of sample_identity (run_streams assembler_step sample_assembler
       [(sample_identity, 0x20, [1, 2], 5), (sample_identity, 0, [3], 6)]) = [Inr None, Inr (Some r)] \<and>
     af_identity r = sample_identity \<and> af_body r = [1, 2, 3]"
  using assembler_delivers_response [OF sample_assembler_made, of sample_identity
      "[(sample_identity, 0x20, [1, 2], 5), (sample_identity, 0, [3], 6)]" "[(0x20, [1, 2], 5)]" 0 "[3]" 6]
  by (simp add: sample_assembler_def FLAG_MORE_CHUNKS_def exceeds_def)

text \<open>The states an assembler can be in: construction, then any sequence of its methods.\<close>

inductive assembler_reachable :: "assembler \<Rightarrow> bool" where
  fresh: "make_assembler mb mc = Inr a \<Longrightarrow> assembler_reachable a"
| added: "assembler_reachable a \<Longrightarrow> assembler_add a ident flags body t = (a', r) \<Longrightarrow>
     assembler_reachable a'"
| cleared: "assembler_reachable a \<Longrightarrow> assembler_reachable (assembler_clear a)"
| reconfigured: "assembler_reachable a \<Longrightarrow> assembler_reconfigure a mb mc = Inr a' \<Longrightarrow>
     assembler_reachable a'"

lemma reachable_inv:
  "assembler_reachable a \<Longrightarrow> assembler_inv (as_max_body_bytes a) (as_max_chunks a) a"
proof (induction rule: assembler_reachable.induct)
  case (fresh mb mc a)
  then show ?case using make_assembler_inv by blast
next
  case (added a ident flags body t a' r)
  from assembler_add_inv [OF added.IH, of ident flags body t] added.hyps(2) show ?case
    by (simp add: assembler_inv_def)
next
  case (cleared a)
  then show ?case by (simp add: assembler_clear_def assembler_inv_def)
next
  case (reconfigured a mb mc a')
  then show ?case
    by (auto simp: assembler_reconfigure_def assembler_inv_def limits_ok_def
        validated_response_chunk_limit_def split: if_splits)
qed

text \<open>
  C6. Bounded buffering: in every state reachable through the assembler's methods, what is buffered
  for a response that is still incomplete respects both configured limits, and its byte counter is
  the number of bytes actually held.
\<close>

theorem assembler_buffers_bounded:
  assumes "assembler_reachable a" and "dict_get (as_pending a) k = Some p"
  shows "\<not> exceeds (as_max_body_bytes a) (int (length (acc_finish (pf_accumulator p)))) \<and>
     \<not> exceeds (as_max_chunks a) (fb_chunks (pf_budget p)) \<and>
     fb_body_bytes (pf_budget p) = int (length (acc_finish (pf_accumulator p)))"
  using assembler_inv_get [OF reachable_inv [OF assms(1)] assms(2)]
  by (auto simp: pending_ok_def within_def)


theorem assembler_buffers_bounded_witness:
  "\<exists>a p. assembler_reachable a \<and> dict_get (as_pending a) sample_identity = Some p \<and>
     \<not> exceeds (as_max_body_bytes a) (int (length (acc_finish (pf_accumulator p)))) \<and>
     acc_finish (pf_accumulator p) = [1, 2]"
proof -
  obtain a r where a: "assembler_add sample_assembler sample_identity 0x20 [1, 2] 5 = (a, r)"
    by fastforce
  from fresh [OF sample_assembler_made] a have reach: "assembler_reachable a"
    by (rule added)
  obtain p where p: "dict_get (as_pending a) sample_identity = Some p"
      "acc_finish (pf_accumulator p) = [1, 2]"
    using a
    by (auto simp: assembler_add_def sample_assembler_def Let_def FLAG_MORE_CHUNKS_def new_budget_def
        make_frame_budget_def limit_arg_def validate_optional_nonnegative_int_def
        validate_nonnegative_int_def validate_optional_positive_int_def validate_positive_int_def
        add_chunk_def exceeds_def)
  from assembler_buffers_bounded [OF reach p(1)] reach p show ?thesis by blast
qed

end
