(* ===== verification/Response_Decoding.thy ===== *)
theory Response_Decoding
  imports Flow_Responses Framing
begin

text \<open>
  The decoding of one assembled response, \<open>_decode_protocol_response\<close> of \<open>protocol_responses.py\<close>, with
  everything it calls: bounded decompression (\<open>decompress_response\<close> of \<open>protocol_framing.py\<close>), the
  fixed-schema query result (\<open>protocol_flow_query_result.py\<close>), the preflight of compact counts, the
  dispatch from the negotiated codec name to a decoder, the generic codec as the fallback, trace
  extraction and the cardinality contract. zlib's decompression object is a parameter, a record of its
  methods; \<open>str.lower\<close>, \<open>str()\<close> and lossy UTF-8 decoding are parameters too.
\<close>

unbundle bit_operations_syntax

section \<open>Bounded decompression\<close>

record 'z inflater =
  inf_new :: 'z
  inf_decompress :: "'z \<Rightarrow> bytes \<Rightarrow> int option \<Rightarrow> (bytes \<times> 'z) result"
  inf_flush :: "'z \<Rightarrow> int option \<Rightarrow> bytes result"
  inf_eof :: "'z \<Rightarrow> bool"
  inf_unused_data :: "'z \<Rightarrow> bytes"
  inf_unconsumed_tail :: "'z \<Rightarrow> bytes"

definition SYS_MAXSIZE :: int where "SYS_MAXSIZE = 2 ^ 63 - 1"

definition inflate_incomplete :: "'z inflater \<Rightarrow> 'z \<Rightarrow> bool" where
  "inflate_incomplete Z z \<longleftrightarrow> \<not> inf_eof Z z \<or> inf_unused_data Z z \<noteq> [] \<or> inf_unconsumed_tail Z z \<noteq> []"

partial_function (option) inflate_loop ::
    "'z inflater \<Rightarrow> int \<Rightarrow> 'z \<Rightarrow> bytes \<Rightarrow> bytes \<Rightarrow> (bytes \<times> 'z) result option" where
  "inflate_loop Z limit z output compressed =
     (case inf_decompress Z z compressed (Some (min (limit - int (length output) + 1) SYS_MAXSIZE)) of
        Inl e \<Rightarrow> Some (Inl e)
      | Inr (piece, z) \<Rightarrow>
          if int (length (output @ piece)) > limit
          then Some (Inl (FerricStoreError ''protocol response exceeds max_decompressed_response_bytes''))
          else if inf_unconsumed_tail Z z = [] then Some (Inr (output @ piece, z))
          else inflate_loop Z limit z (output @ piece) (inf_unconsumed_tail Z z))"

definition inflate_finish :: "'z inflater \<Rightarrow> int \<Rightarrow> bytes \<Rightarrow> 'z \<Rightarrow> bytes result" where
  "inflate_finish Z limit output z =
     (if inflate_incomplete Z z
      then Inl (FerricStoreError ''protocol response has invalid compressed data'')
      else
        let flush_limit = limit - int (length output) + 1 in
        and_then (inf_flush Z z (if flush_limit \<le> SYS_MAXSIZE then Some flush_limit else None)) (\<lambda>rest.
        if int (length (output @ rest)) > limit
        then Inl (FerricStoreError ''protocol response exceeds max_decompressed_response_bytes'')
        else Inr (output @ rest)))"

fun zlib_error_mapped :: "'a result \<Rightarrow> 'a result" where
  "zlib_error_mapped (Inl ZlibError) =
     Inl (FerricStoreError ''protocol response has invalid compressed data'')"
| "zlib_error_mapped r = r"

definition decompress_response :: "'z inflater \<Rightarrow> bytes \<Rightarrow> pyval \<Rightarrow> bytes result option" where
  "decompress_response Z body limit =
     (case validate_optional_nonnegative_int limit ''max_decompressed_response_bytes'' of
        Inl e \<Rightarrow> Some (Inl e)
      | Inr None \<Rightarrow> Some (zlib_error_mapped
          (and_then (inf_decompress Z (inf_new Z) body None) (\<lambda>(decoded, z).
           if inflate_incomplete Z z
           then Inl (FerricStoreError ''protocol response has invalid compressed data'')
           else and_then (inf_flush Z z None) (\<lambda>rest. Inr (decoded @ rest)))))
      | Inr (Some m) \<Rightarrow>
          map_option (\<lambda>r. zlib_error_mapped (and_then r (\<lambda>(output, z). inflate_finish Z m output z)))
            (inflate_loop Z m (inf_new Z) [] body))"

section \<open>Fixed-schema query results\<close>

definition RECORD_FIELDS :: "bytes list" where
  "RECORD_FIELDS = map bytes_lit
     [''id'', ''type'', ''state'', ''version'', ''priority'', ''partition_key'', ''created_at_ms'',
      ''updated_at_ms'', ''next_run_at_ms'', ''lease_deadline_ms'', ''attempts'', ''run_state'',
      ''max_active_ms'', ''parent_flow_id'', ''root_flow_id'', ''correlation_id'', ''attributes'',
      ''state_meta'', ''event_id'', ''fields'']"

definition QUALITY :: "(bytes \<times> bytes list) list" where
  "QUALITY =
     [(bytes_lit ''exactness'',
       map bytes_lit [''authoritative'', ''projected_exact'', ''exact'', ''not_applicable'']),
      (bytes_lit ''freshness'', map bytes_lit [''current'', ''projection_watermark'', ''not_applicable'']),
      (bytes_lit ''coverage'', map bytes_lit [''complete'', ''unavailable'']),
      (bytes_lit ''pagination'',
       map bytes_lit [''none'', ''complete'', ''authenticated_seek'', ''live_seek''])]"

definition USAGE_FIELDS :: "bytes list" where
  "USAGE_FIELDS = map bytes_lit
     [''range_seeks'', ''range_pages'', ''scanned_entries'', ''scanned_bytes'', ''hydrated_records'',
      ''residual_checks'', ''duplicate_entries'', ''result_records'', ''response_bytes'',
      ''memory_high_water_bytes'', ''wall_time_us'']"

definition qr_require :: "bytes \<Rightarrow> nat \<Rightarrow> nat \<Rightarrow> unit result" where
  "qr_require data off n =
     (if int off > int (length data) - int n
      then Inl (FerricStoreError ''compact FLOW.QUERY result is truncated'') else Inr ())"

definition qr_read_u32 :: "bytes \<Rightarrow> nat \<Rightarrow> (nat \<times> nat) result" where
  "qr_read_u32 data off =
     and_then (qr_require data off 4) (\<lambda>_. Inr (be_decode (bytes_slice data off 4), off + 4))"

definition qr_read_u64 :: "bytes \<Rightarrow> nat \<Rightarrow> (nat \<times> nat) result" where
  "qr_read_u64 data off =
     and_then (qr_require data off 8) (\<lambda>_. Inr (be_decode (bytes_slice data off 8), off + 8))"

fun read_quality :: "bytes \<Rightarrow> nat \<Rightarrow> (bytes \<times> bytes list) list \<Rightarrow> ((bytes \<times> bytes) list \<times> nat) result" where
  "read_quality data off [] = Inr ([], off)"
| "read_quality data off ((field, codes) # rest) =
     and_then (byte_at data off) (\<lambda>c.
     if unat c \<ge> length codes then Inl (FerricStoreError ''invalid compact FLOW.QUERY quality code'')
     else and_then (read_quality data (off + 1) rest) (\<lambda>(q, off). Inr ((field, codes ! unat c) # q, off)))"

fun read_usage :: "bytes \<Rightarrow> nat \<Rightarrow> bytes list \<Rightarrow> ((bytes \<times> nat) list \<times> nat) result" where
  "read_usage data off [] = Inr ([], off)"
| "read_usage data off (field # rest) =
     and_then (qr_read_u64 data off) (\<lambda>(v, off).
     if int v > 2 ^ 63 - 1
     then Inl (FerricStoreError ''compact FLOW.QUERY usage exceeds signed 64-bit range'')
     else and_then (read_usage data off rest) (\<lambda>(u, off). Inr ((field, v) # u, off)))"

definition usage_of :: "(bytes \<times> nat) list \<Rightarrow> string \<Rightarrow> nat" where
  "usage_of usage name = (case dict_get usage (bytes_lit name) of Some v \<Rightarrow> v | None \<Rightarrow> 0)"

definition valid_usage :: "(bytes \<times> nat) list \<Rightarrow> bool" where
  "valid_usage usage \<longleftrightarrow>
     (let scanned = usage_of usage ''scanned_entries'' in
      usage_of usage ''hydrated_records'' \<le> scanned \<and> usage_of usage ''duplicate_entries'' \<le> scanned \<and>
      usage_of usage ''range_pages'' \<le> scanned + usage_of usage ''range_seeks'' \<and>
      usage_of usage ''residual_checks'' \<le> scanned * 12)"

definition read_page :: "bytes \<Rightarrow> nat \<Rightarrow> (pyval \<times> nat) result" where
  "read_page data off =
     and_then (qr_require data off 5) (\<lambda>_.
     let has_more = data ! off; n = be_decode (bytes_slice data (off + 1) 4); off = off + 5 in
     if has_more = 0 \<and> n = NULL_U32 then
       Inr (PDict [(PBytes (bytes_lit ''has_more''), PBool False), (PBytes (bytes_lit ''cursor''), PNone)], off)
     else if has_more \<noteq> 1 \<or> n < 16 \<or> n = NULL_U32 \<or> n > 4096
     then Inl (FerricStoreError ''invalid compact FLOW.QUERY page cursor'')
     else
       and_then (qr_require data off n) (\<lambda>_.
       let cursor = bytes_slice data off n in
       if (case utf8_decode cursor of Inl _ \<Rightarrow> True | Inr _ \<Rightarrow> False)
       then Inl (FerricStoreError ''invalid compact FLOW.QUERY page cursor'')
       else if take 5 cursor \<noteq> bytes_lit ''fqc1_''
       then Inl (FerricStoreError ''invalid compact FLOW.QUERY page cursor'')
       else Inr (PDict [(PBytes (bytes_lit ''has_more''), PBool True),
                        (PBytes (bytes_lit ''cursor''), PBytes cursor)], off + n)))"

fun record_values ::
    "bytes \<Rightarrow> nat \<Rightarrow> budget \<Rightarrow> nat \<Rightarrow> (nat \<times> bytes) list \<Rightarrow> (bytes \<times> pyval) list decoded" where
  "record_values data off b bitmap [] = Inr ([], off, b)"
| "record_values data off b bitmap ((index, field) # rest) =
     (if bit bitmap index then
        and_then (decode_value_at data (int off) PNone (Some b)) (\<lambda>(v, off, b).
        and_then (record_values data off b bitmap rest) (\<lambda>(r, off, b). Inr ((field, v) # r, off, b)))
      else record_values data off b bitmap rest)"

definition read_record :: "bytes \<Rightarrow> nat \<Rightarrow> budget \<Rightarrow> (bytes \<times> pyval) list decoded" where
  "read_record data off b =
     and_then (qr_read_u32 data off) (\<lambda>(bitmap, off).
     if bitmap div 2 ^ length RECORD_FIELDS \<noteq> 0
     then Inl (FerricStoreError ''compact FLOW.QUERY record contains reserved fields'')
     else
       and_then (budget_consume b (length (filter (bit bitmap) [0..<length RECORD_FIELDS]))) (\<lambda>b.
         record_values data off b bitmap (enumerate 0 RECORD_FIELDS)))"

fun read_records :: "bytes \<Rightarrow> nat \<Rightarrow> nat \<Rightarrow> budget \<Rightarrow> (bytes \<times> pyval) list list decoded" where
  "read_records data 0 off b = Inr ([], off, b)"
| "read_records data (Suc n) off b =
     and_then (read_record data off b) (\<lambda>(r, off, b).
     and_then (read_records data n off b) (\<lambda>(rs, off, b). Inr (r # rs, off, b)))"

definition query_result :: "(string \<times> pyval) list \<Rightarrow> (bytes \<times> bytes) list \<Rightarrow> (bytes \<times> nat) list \<Rightarrow> pyval" where
  "query_result body quality usage =
     PDict ([(PBytes (bytes_lit ''version''), PBytes (bytes_lit ''ferric.flow.query.result/v1''))]
       @ map (\<lambda>(k, v). (PBytes (bytes_lit k), v)) body
       @ [(PBytes (bytes_lit ''quality''), bytes_dict (map (\<lambda>(k, v). (k, PBytes v)) quality)),
          (PBytes (bytes_lit ''usage''), bytes_dict (map (\<lambda>(k, v). (k, PInt (int v))) usage))])"

definition query_body :: "bytes \<Rightarrow> nat \<Rightarrow> budget \<Rightarrow> byte \<Rightarrow> (bytes \<times> nat) list \<Rightarrow> (string \<times> pyval) list decoded" where
  "query_body data off b kind usage =
     (if kind = 0 then
        and_then (read_page data off) (\<lambda>(page, off).
        and_then (qr_read_u32 data off) (\<lambda>(n, off).
        if n > 100 then Inl (FerricStoreError ''compact FLOW.QUERY page exceeds 100 records'')
        else if usage_of usage ''result_records'' \<noteq> n \<or> n > usage_of usage ''scanned_entries''
        then Inl (FerricStoreError ''compact FLOW.QUERY record usage is inconsistent'')
        else
          and_then (budget_consume b n) (\<lambda>b.
          and_then (read_records data n off b) (\<lambda>(records, off, b).
            Inr ([(''records'', PList (map bytes_dict records)), (''page'', page)], off, b)))))
      else if kind = 1 then
        (if usage_of usage ''result_records'' \<noteq> 1
         then Inl (FerricStoreError ''compact FLOW.QUERY count usage is inconsistent'')
         else and_then (qr_read_u64 data off) (\<lambda>(n, off).
           if int n > 2 ^ 63 - 1
           then Inl (FerricStoreError ''compact FLOW.QUERY count exceeds signed 64-bit range'')
           else Inr ([(''result'', PDict [(PBytes (bytes_lit ''kind''), PBytes (bytes_lit ''count'')),
                                         (PBytes (bytes_lit ''value''), PInt (int n))])], off, b)))
      else Inl (FerricStoreError ''unsupported compact FLOW.QUERY result kind''))"

definition decode_compact_flow_query_result :: "bytes \<Rightarrow> nat \<Rightarrow> budget \<Rightarrow> pyval option result" where
  "decode_compact_flow_query_result data off b = none_on (limit_or caught_errors)
     (let start = off in
      and_then (qr_require data off (2 + length QUALITY + length USAGE_FIELDS * 8)) (\<lambda>_.
      if data ! off \<noteq> 0xA0 then Inr None
      else
        let kind = data ! (off + 1) in
        and_then (read_quality data (off + 2) QUALITY) (\<lambda>(quality, off).
        and_then (read_usage data off USAGE_FIELDS) (\<lambda>(usage, off).
        if \<not> valid_usage usage
        then Inl (FerricStoreError ''compact FLOW.QUERY usage counters are inconsistent'')
        else
          and_then (query_body data off b kind usage) (\<lambda>(body, off, b).
          if off \<noteq> length data
          then Inl (FerricStoreError ''compact FLOW.QUERY result has trailing bytes'')
          else if int (usage_of usage ''response_bytes'') \<noteq> int (length data) - int start
          then Inl (FerricStoreError ''compact FLOW.QUERY response_bytes does not match payload'')
          else Inr (Some (query_result body quality usage)))))))"

section \<open>Dispatch from codec names\<close>

definition COMPACT_COLLECTION_MARKERS :: "byte list" where
  "COMPACT_COLLECTION_MARKERS = [0x80, 0x81, 0x83, 0x85, 0x86, 0x87, 0x88, 0x89, 0x95]"

definition COMPACT_COLLECTION_MIN_ITEM_BYTES :: "(byte \<times> nat) list" where
  "COMPACT_COLLECTION_MIN_ITEM_BYTES =
     [(0x80, 20), (0x83, 1), (0x85, 5), (0x86, 4), (0x87, 4), (0x88, 8), (0x95, 1)]"

definition preflight_compact_collection ::
    "bytes \<Rightarrow> nat \<Rightarrow> int option \<Rightarrow> nat option \<Rightarrow> bool result" where
  "preflight_compact_collection data off max_collection_items expected_collection_items =
     (if off \<ge> length data \<or> data ! off \<notin> set COMPACT_COLLECTION_MARKERS then Inr True
      else if off + 5 > length data then Inr False
      else
        let n = be_decode (bytes_slice data (off + 1) 4) in
        and_then (require_compact_collection_count n max_collection_items expected_collection_items) (\<lambda>_.
        case dict_get COMPACT_COLLECTION_MIN_ITEM_BYTES (data ! off) of
          None \<Rightarrow> Inr True
        | Some minimum_item_bytes \<Rightarrow>
            Inr (n \<le> (length data - (off + 5)) div minimum_item_bytes)))"

definition as_value :: "('a \<Rightarrow> pyval) \<Rightarrow> 'a option result \<Rightarrow> pyval option result" where
  "as_value f r = opt_then r (\<lambda>x. Inr (Some (f x)))"

definition mget_value :: "bytes option list \<Rightarrow> pyval" where
  "mget_value vs = PList (map opt_bytes vs)"

definition map_value :: "(bytes \<times> bytes) list \<Rightarrow> pyval" where
  "map_value d = bytes_dict (map (\<lambda>(k, v). (k, PBytes v)) d)"

definition try_fast_pipeline :: "bytes \<Rightarrow> nat \<Rightarrow> budget \<Rightarrow> pyval option result" where
  "try_fast_pipeline data off b =
     (if off \<ge> length data then Inr None
      else
        let marker = data ! off in
        if marker = 0x95 then as_value PList (try_decode_custom_pipeline_response data off b)
        else if marker = 0x83 then as_value mget_value (try_decode_custom_kv_mget data off b)
        else if marker = 0x89 then as_value mget_value (try_decode_custom_kv_mget_fixed data off b)
        else if marker = 0x85 then
          as_value (\<lambda>rs. PList (map bytes_dict rs)) (try_decode_custom_flow_record_list data off b)
        else if marker = 0x80 then
          as_value (\<lambda>rows. PList (map PList rows)) (try_decode_custom_claim_jobs data off b)
        else if marker = 0x86 then
          as_value (\<lambda>xss. PList (map (\<lambda>xs. PList (map PBytes xs)) xss))
            (try_decode_custom_binary_list_list data off b)
        else if marker = 0x87 then
          as_value (\<lambda>ds. PList (map map_value ds)) (try_decode_custom_binary_map_list data off b)
        else if marker = 0x88 then
          as_value (\<lambda>ns. PList (map PInt ns)) (try_decode_custom_integer_list data off b)
        else if marker = 0x81 then
          as_value (\<lambda>xs. PList (map PBytes xs)) (try_decode_custom_ok_list data off b)
        else Inr None)"

definition try_fast_get :: "bytes \<Rightarrow> nat \<Rightarrow> budget \<Rightarrow> pyval option result" where
  "try_fast_get data off b =
     (if off < length data \<and> data ! off = 0x82
      then as_value PBytes (try_decode_custom_kv_get data off) else Inr None)"

definition try_fast_mget :: "bytes \<Rightarrow> nat \<Rightarrow> budget \<Rightarrow> pyval option result" where
  "try_fast_mget data off b =
     (if off \<ge> length data then Inr None
      else if data ! off = 0x83 then as_value mget_value (try_decode_custom_kv_mget data off b)
      else if data ! off = 0x89 then as_value mget_value (try_decode_custom_kv_mget_fixed data off b)
      else Inr None)"

definition try_fast_flow_record :: "bytes \<Rightarrow> nat \<Rightarrow> budget \<Rightarrow> pyval option result" where
  "try_fast_flow_record data off b =
     (if off < length data \<and> data ! off = 0x84
      then as_value bytes_dict (try_decode_custom_flow_record data off b) else Inr None)"

definition try_fast_flow_record_list :: "bytes \<Rightarrow> nat \<Rightarrow> budget \<Rightarrow> pyval option result" where
  "try_fast_flow_record_list data off b =
     (if off < length data \<and> data ! off = 0x85
      then as_value (\<lambda>rs. PList (map bytes_dict rs)) (try_decode_custom_flow_record_list data off b)
      else Inr None)"

definition try_fast_claim :: "bytes \<Rightarrow> nat \<Rightarrow> budget \<Rightarrow> pyval option result" where
  "try_fast_claim data off b =
     as_value (\<lambda>rows. PList (map PList rows))
       (if off < length data \<and> data ! off = 0x80 then try_decode_custom_claim_jobs data off b
        else try_decode_claim_jobs_compact data off (Some b))"

definition OP_SET :: int where "OP_SET = 0x0102"
definition OP_MSET :: int where "OP_MSET = 0x0105"

definition compact_decoder :: "string \<Rightarrow> (bytes \<Rightarrow> nat \<Rightarrow> budget \<Rightarrow> pyval option result) option" where
  "compact_decoder name =
     (if name = ''pipeline_v1'' then Some try_fast_pipeline
      else if name = ''kv_get_v1'' then Some try_fast_get
      else if name = ''kv_mget_v1'' then Some try_fast_mget
      else if name = ''flow_record_v1'' then Some try_fast_flow_record
      else if name = ''flow_record_list_v1'' then Some try_fast_flow_record_list
      else if name = ''flow_claim_jobs_v1'' then Some try_fast_claim
      else if name = ''flow_query_result_v1'' then Some decode_compact_flow_query_result
      else None)"

definition ok_list_value :: "int \<Rightarrow> bytes \<Rightarrow> nat \<Rightarrow> budget \<Rightarrow> pyval option result" where
  "ok_list_value opcode data off b =
     opt_then (try_decode_custom_ok_list data off b) (\<lambda>xs.
       if opcode = OP_SET \<or> opcode = OP_MSET
       then Inr (if length xs = 1 then Some (PBytes (bytes_lit ''OK'')) else None)
       else Inr (Some (PList (map PBytes xs))))"

definition try_compact_response_value_at ::
    "string \<Rightarrow> int \<Rightarrow> bytes \<Rightarrow> nat \<Rightarrow> int option \<Rightarrow> nat option \<Rightarrow> pyval option result" where
  "try_compact_response_value_at codec_name opcode data off max_collection_items expected_collection_items =
     and_then (preflight_compact_collection data off max_collection_items expected_collection_items) (\<lambda>safe.
     if \<not> safe then Inr None
     else if codec_name = ''ok_list_v1'' then
       and_then (make_budget (limit_arg max_collection_items)) (ok_list_value opcode data off)
     else
       (case compact_decoder codec_name of
          None \<Rightarrow> Inr None
        | Some decoder \<Rightarrow> and_then (make_budget (limit_arg max_collection_items)) (decoder data off)))"

definition is_custom_compact_nil :: "string option \<Rightarrow> bytes \<Rightarrow> nat \<Rightarrow> bool" where
  "is_custom_compact_nil codec_name data off \<longleftrightarrow>
     codec_name = Some ''kv_get_v1'' \<and> length data = off + 2 \<and> data ! off = 0x82 \<and> data ! (off + 1) = 0"

section \<open>Decoding one response\<close>

record response_adapter =
  ra_max_decompressed_response_bytes :: pyval
  ra_max_decoded_collection_items :: "int option"
  ra_compact_response_codecs :: "(int \<times> string) list"
  ra_pending_response_item_counts :: "(int \<times> nat) list"

record response_lib =
  rl_lower :: "ustr \<Rightarrow> ustr"
  rl_str :: "pyval \<Rightarrow> ustr"
  rl_decode_replace :: "bytes \<Rightarrow> ustr"

record response_trace =
  tr_response_read_us :: int
  tr_decode_us :: int
  tr_server :: pyval

record protocol_response =
  pr_lane_id :: int
  pr_opcode :: int
  pr_request_id :: int
  pr_flags :: int
  pr_status :: int
  pr_value :: pyval
  pr_trace :: "response_trace option"

fun normalize_trace_map :: "response_lib \<Rightarrow> pyval \<Rightarrow> pyval"
  and normalize_trace_items ::
    "response_lib \<Rightarrow> (pyval \<times> pyval) list \<Rightarrow> (pyval \<times> pyval) list \<Rightarrow> (pyval \<times> pyval) list"
where
  "normalize_trace_map L (PDict d) = PDict (normalize_trace_items L d [])"
| "normalize_trace_map L v = v"
| "normalize_trace_items L [] acc = acc"
| "normalize_trace_items L ((k, v) # d) acc =
     normalize_trace_items L d
       (dict_set acc (PStr (case k of PBytes x \<Rightarrow> rl_decode_replace L x | _ \<Rightarrow> rl_str L k))
          (normalize_trace_map L v))"

definition extract_traced_value :: "response_lib \<Rightarrow> pyval \<Rightarrow> pyval \<times> pyval" where
  "extract_traced_value L value =
     (if \<not> is_dict value then (value, PDict [])
      else
        let unwrapped = map_get value [''value'']; trace = map_get value [''trace''] in
        if trace = PNone then (value, PDict [])
        else (unwrapped, normalize_trace_map L (if is_dict trace then trace else PDict [])))"

definition pop_response_item_count :: "response_adapter \<Rightarrow> int \<Rightarrow> response_adapter \<times> nat option" where
  "pop_response_item_count A request_id =
     (A\<lparr>ra_pending_response_item_counts := dict_pop (ra_pending_response_item_counts A) request_id\<rparr>,
      dict_get (ra_pending_response_item_counts A) request_id)"

definition FLAG_TRACE :: int where "FLAG_TRACE = 0x01"
definition FLAG_CUSTOM_PAYLOAD :: int where "FLAG_CUSTOM_PAYLOAD = 0x02"
definition RESPONSE_COMPRESSED :: int where "RESPONSE_COMPRESSED = 0x08"

definition decode_response_value ::
    "response_adapter \<Rightarrow> int \<Rightarrow> int \<Rightarrow> int \<Rightarrow> nat option \<Rightarrow> bytes \<Rightarrow> pyval result" where
  "decode_response_value A opcode flags status expected body =
     (let limit = ra_max_decoded_collection_items A;
          compact_codec = dict_get (ra_compact_response_codecs A) opcode;
          custom_payload = (flags AND FLAG_CUSTOM_PAYLOAD \<noteq> 0);
          try_compact = (custom_payload \<or> compact_codec \<noteq> Some ''flow_query_result_v1'') in
      and_then
        (case compact_codec of
           Some name \<Rightarrow>
             if status = 0 \<and> try_compact
             then try_compact_response_value_at name opcode body 2 limit expected else Inr None
         | None \<Rightarrow> Inr None) (\<lambda>v.
      let fast_decoded = (v \<noteq> None \<or> is_custom_compact_nil compact_codec body 2) in
      if status = 0 \<and> custom_payload \<and> \<not> fast_decoded
      then Inl (FerricStoreError ''custom protocol response payload is malformed or not negotiated'')
      else if fast_decoded then Inr (case v of Some x \<Rightarrow> x | None \<Rightarrow> PNone)
      else
        and_then (make_budget (limit_arg limit)) (\<lambda>b.
        and_then (decode_value_at body 2 PNone (Some b)) (\<lambda>(v, off, _).
        if off \<noteq> length body
        then Inl (FerricStoreError ''protocol response value has trailing bytes'') else Inr v))))"

definition decode_protocol_response ::
    "response_lib \<Rightarrow> 'z inflater \<Rightarrow> response_adapter \<Rightarrow> int \<Rightarrow> int \<Rightarrow> int \<Rightarrow> int \<Rightarrow> bytes \<Rightarrow>
      int \<Rightarrow> int \<Rightarrow> int \<Rightarrow> (response_adapter \<times> protocol_response result) option" where
  "decode_protocol_response L Z A lane_id opcode request_id flags body read_started_ns read_done_ns
       decode_done_ns =
     (case (if flags AND RESPONSE_COMPRESSED \<noteq> 0
            then decompress_response Z body (ra_max_decompressed_response_bytes A) else Some (Inr body)) of
        None \<Rightarrow> None
      | Some (Inl e) \<Rightarrow> Some (A, Inl e)
      | Some (Inr body) \<Rightarrow> Some (
          if length body < 2
          then (A, Inl (FerricStoreError ''protocol response body is too short''))
          else
            let status = int (be_decode (bytes_slice body 0 2));
                (A', expected) = pop_response_item_count A request_id in
            (A',
             and_then (decode_response_value A opcode flags status expected body) (\<lambda>value.
             let (value, server_trace) =
                   (if flags AND FLAG_TRACE \<noteq> 0 then extract_traced_value L value else (value, PDict []));
                 trace =
                   (if flags AND FLAG_TRACE \<noteq> 0
                    then Some \<lparr>tr_response_read_us = (read_done_ns - read_started_ns) div 1000,
                               tr_decode_us = (decode_done_ns - read_done_ns) div 1000,
                               tr_server = server_trace\<rparr>
                    else None) in
             and_then (if status = 0 then validate_response_cardinality (rl_lower L) opcode value expected
                       else Inr ()) (\<lambda>_.
               Inr \<lparr>pr_lane_id = lane_id, pr_opcode = opcode, pr_request_id = request_id,
                    pr_flags = flags, pr_status = status, pr_value = value, pr_trace = trace\<rparr>)))))"

section \<open>Decompression ends\<close>

text \<open>
  What the code relies on of \<open>decompress(data, max_length)\<close>: it returns at most \<open>max_length\<close> bytes, and it
  leaves an unconsumed tail only when it returned that many.
\<close>

definition inflate_contract :: "'z inflater \<Rightarrow> bool" where
  "inflate_contract Z \<longleftrightarrow>
     (\<forall>z c m piece z'. inf_decompress Z z c (Some m) = Inr (piece, z') \<longrightarrow>
        int (length piece) \<le> m \<and> (inf_unconsumed_tail Z z' \<noteq> [] \<longrightarrow> int (length piece) = m))"

lemma inflate_loop_returns:
  assumes "inflate_contract Z" and "int (length acc) \<le> limit"
  shows "\<exists>r. inflate_loop Z limit z acc compressed = Some r \<and>
    (\<forall>out z'. r = Inr (out, z') \<longrightarrow> int (length out) \<le> limit)"
  using assms(2)
proof (induction "nat (limit - int (length acc))" arbitrary: z acc compressed rule: less_induct)
  case less
  let ?m = "min (limit - int (length acc) + 1) SYS_MAXSIZE"
  show ?case
  proof (cases "inf_decompress Z z compressed (Some ?m)")
    case (Inl e)
    then show ?thesis by (subst inflate_loop.simps) simp
  next
    case (Inr p)
    obtain piece z' where p: "p = (piece, z')" by (cases p)
    show ?thesis
    proof (cases "int (length (acc @ piece)) > limit \<or> inf_unconsumed_tail Z z' = []")
      case True
      then show ?thesis by (subst inflate_loop.simps) (auto simp: Inr p)
    next
      case False
      then have "int (length piece) = ?m"
        using assms(1) Inr p unfolding inflate_contract_def by blast
      moreover have "0 < ?m" using less.prems by (simp add: SYS_MAXSIZE_def)
      ultimately have "0 < length piece" by linarith
      moreover from False have le: "int (length (acc @ piece)) \<le> limit" by simp
      ultimately have "int (length acc) < limit" and
        "limit - int (length (acc @ piece)) < limit - int (length acc)"
        unfolding length_append of_nat_add by linarith+
      then have lt: "nat (limit - int (length (acc @ piece))) < nat (limit - int (length acc))"
        by (subst nat_mono_iff) simp_all
      from less.hyps [OF lt le] False show ?thesis
        by (subst inflate_loop.simps) (auto simp: Inr p)
    qed
  qed
qed

lemma zlib_error_mapped_Inr [simp]: "zlib_error_mapped r = Inr x \<longleftrightarrow> r = Inr x"
  by (cases r rule: zlib_error_mapped.cases) auto

lemma decompress_response_returns:
  assumes "inflate_contract Z"
  shows "\<exists>r. decompress_response Z body limit = Some r \<and>
    (\<forall>out m. r = Inr out \<longrightarrow> limit = PInt m \<longrightarrow> int (length out) \<le> m)"
proof (cases "validate_optional_nonnegative_int limit ''max_decompressed_response_bytes''")
  case (Inl e)
  then show ?thesis by (simp add: decompress_response_def)
next
  case (Inr lim)
  show ?thesis
  proof (cases lim)
    case None
    with Inr show ?thesis
      by (auto simp: decompress_response_def validate_optional_nonnegative_int_def split: pyval.splits)
  next
    case (Some m)
    then have "0 \<le> m" and lim: "limit = PInt k \<Longrightarrow> k = m" for k
      using Inr by (auto simp: validate_optional_nonnegative_int_def split: pyval.splits if_splits)
    then obtain r where r: "inflate_loop Z m (inf_new Z) [] body = Some r"
      using inflate_loop_returns [OF assms, of "[]" m "inf_new Z" body] by auto
    have "int (length out) \<le> m"
      if "zlib_error_mapped (and_then r (\<lambda>(output, z). inflate_finish Z m output z)) = Inr out" for out
      using that by (auto simp: inflate_finish_def Let_def split: if_splits)
    with lim show ?thesis
      by (auto simp: decompress_response_def Inr Some r)
  qed
qed

section \<open>Decoders spend what they return\<close>

locale bounded_reader =
  fixes rd :: "bytes \<Rightarrow> nat \<Rightarrow> budget \<Rightarrow> ('a \<times> nat \<times> budget) option result"
    and cnt :: "'a \<Rightarrow> nat"
  assumes spends: "nonneg_budget b \<Longrightarrow> rd data off b = Inr (Some (x, off', b')) \<Longrightarrow>
    \<exists>n. cnt x \<le> n \<and> charge b n b'"
begin

lemma loop_spends:
  "nonneg_budget b \<Longrightarrow> for_each (rd data) n off b = Inr (Some (xs, off', b')) \<Longrightarrow>
     length xs = n \<and> (\<exists>k. sum_list (map cnt xs) \<le> k \<and> charge b k b')"
proof (induction n arbitrary: off b xs)
  case 0
  then show ?case by (auto intro!: exI [of _ 0] simp: charge_0)
next
  case (Suc n)
  then obtain x o1 b1 ys where r: "rd data off b = Inr (Some (x, o1, b1))"
    and f: "for_each (rd data) n o1 b1 = Inr (Some (ys, off', b'))" and xs: "xs = x # ys"
    by auto
  from spends [OF Suc.prems(1) r] obtain k1 where k1: "cnt x \<le> k1" "charge b k1 b1" by blast
  from Suc.IH [OF charge_nonneg [OF k1(2)] f] obtain k2 where
    k2: "length ys = n" "sum_list (map cnt ys) \<le> k2" "charge b1 k2 b'" by blast
  from k1(2) k2(3) have "charge b (k1 + k2) b'" by (auto simp: charge_add)
  moreover have "sum_list (map cnt xs) \<le> k1 + k2" using k1(1) k2(2) by (simp add: xs)
  ultimately show ?case using k2(1) xs by auto
qed

lemma collection_spends:
  assumes "nonneg_budget b" and "charge b n b1"
    and "at_end data (for_each (rd data) n off b1) = Inr (Some xs)"
  shows "admits b (length xs + sum_list (map cnt xs))"
proof -
  from assms(3) obtain b2 where "for_each (rd data) n off b1 = Inr (Some (xs, length data, b2))"
    by (auto simp: at_end_Some)
  from loop_spends [OF charge_nonneg [OF assms(2)] this] assms(2)
  show ?thesis by (auto simp: charge_def admits_def split: option.splits)
qed

end

sublocale exact_reader \<subseteq> metered: bounded_reader rd cost
  using exact by unfold_locales blast

lemma charge_mono_admits: "charge b n b' \<Longrightarrow> m \<le> n \<Longrightarrow> admits b m"
  by (auto simp: charge_def admits_def split: option.splits)

lemma decode_at_spends:
  "nonneg_budget b \<Longrightarrow> decode_at data off d b = Inr (v, off', b') \<Longrightarrow> charge b (item_count v) b'"
  using metered_valueD [OF decode_metered] by blast

lemma items_count_sum: "items_count xs = sum_list (map item_count xs)"
  by (induction xs) auto

definition dict_count :: "(bytes \<times> pyval) list \<Rightarrow> nat" where
  "dict_count d = length d + sum_list (map (item_count \<circ> snd) d)"

lemma item_count_bytes_dict [simp]: "item_count (bytes_dict d) = dict_count d"
proof -
  have "entries_count (map (\<lambda>(k, v). (PBytes k, v)) d) = sum_list (map (item_count \<circ> snd) d)"
    by (induction d) auto
  then show ?thesis by (simp add: bytes_dict_def dict_count_def)
qed

lemma item_count_opt_bytes [simp]: "item_count (opt_bytes v) = 0"
  by (cases v) (simp_all add: opt_bytes_def)

lemma claim_fields_flat: "claim_fields data off = Inr (row, off') \<Longrightarrow> length row = 4 \<and> items_count row = 0"
  by (auto simp: claim_fields_def)

lemma items_count_append [simp]: "items_count (xs @ ys) = items_count xs + items_count ys"
  by (induction xs) auto

lemma claim_row_spends:
  assumes "w \<in> {4, 5, 6}" and "nonneg_budget b" and "claim_row data w off b = Inr (Some (row, off', b'))"
  shows "\<exists>n. item_count (PList row) \<le> n \<and> charge b n b'"
proof -
  from assms(3) obtain b1 fs o1 where consume: "budget_consume b w = Inr b1"
    and f: "claim_fields data off = Inr (fs, o1)"
    by (auto simp: claim_row_def)
  then have c: "charge b w b1" by (simp add: budget_consume_charge)
  have nn: "nonneg_budget b1" using c by (rule charge_nonneg)
  have "\<exists>k. charge b1 k b' \<and> length row = w \<and> items_count row \<le> k"
  proof (cases "w = 4")
    case True
    with assms(3) consume f claim_fields_flat [OF f] have "b' = b1" "row = fs" "length fs = 4" "items_count fs = 0"
      by (auto simp: claim_row_def)
    with True charge_0 [OF nn] show ?thesis by auto
  next
    case False
    with assms(1,3) consume f obtain attrs o2 ts where
      a: "decode_at data o2 0 b1 = Inr (attrs, off', b')"
      and r: "row = fs @ ts @ [attrs]" "length ts = w - 5" "items_count ts = 0"
      by (auto simp: claim_row_def split: if_splits)
    from decode_at_spends [OF nn a] r claim_fields_flat [OF f] assms(1) False show ?thesis by auto
  qed
  then obtain k where k: "charge b1 k b'" "length row = w" "items_count row \<le> k" by blast
  with c have "charge b (w + k) b'" by (auto simp: charge_add)
  with k show ?thesis by (intro exI [of _ "w + k"]) simp
qed

interpretation claims4: bounded_reader "\<lambda>data. claim_row data 4" "\<lambda>row. item_count (PList row)"
  by unfold_locales (rule claim_row_spends, simp_all)

interpretation claims5: bounded_reader "\<lambda>data. claim_row data 5" "\<lambda>row. item_count (PList row)"
  by unfold_locales (rule claim_row_spends, simp_all)

interpretation claims6: bounded_reader "\<lambda>data. claim_row data 6" "\<lambda>row. item_count (PList row)"
  by unfold_locales (rule claim_row_spends, simp_all)

lemma claim_width_admits:
  assumes "w \<in> {4, 5, 6}" and "nonneg_budget b" and "charge b n b1"
    and "try_decode_custom_claim_jobs_width data off n w b1 = Inr (Some rows)"
  shows "admits b (item_count (PList (map PList rows)))"
proof -
  from assms(4) have e: "at_end data (for_each (claim_row data w) n off b1) = Inr (Some rows)"
    by (simp add: try_decode_custom_claim_jobs_width_def)
  have "admits b (length rows + sum_list (map (\<lambda>row. item_count (PList row)) rows))"
    using assms(1) e claims4.collection_spends [OF assms(2,3)] claims5.collection_spends [OF assms(2,3)]
      claims6.collection_spends [OF assms(2,3)] by auto
  then show ?thesis
    by (simp add: items_count_sum o_def)
qed

lemma claim_widths_found:
  "claim_widths data off n b ws le = Inr (Some rows) \<Longrightarrow>
     \<exists>w\<in>set ws. try_decode_custom_claim_jobs_width data off n w b = Inr (Some rows)"
  by (induction ws arbitrary: le)
     (auto split: option.splits sum.splits py_error.splits)

lemma claim_jobs_admits:
  assumes "nonneg_budget b" and "try_decode_custom_claim_jobs data off b = Inr (Some rows)"
  shows "admits b (item_count (PList (map PList rows)))"
proof -
  from assms(2) obtain n b1 where c: "charge b n b1"
    and "claim_widths data (off + 5) n b1 [6, 5, 4] None = Inr (Some rows)"
    by (auto simp: try_decode_custom_claim_jobs_def budget_consume_charge simp del: claim_widths.simps)
  then obtain w where "w \<in> {4, 5, 6}"
    "try_decode_custom_claim_jobs_width data (off + 5) n w b1 = Inr (Some rows)"
    using claim_widths_found [of data "off + 5" n b1 "[6, 5, 4]" None rows] by auto
  then show ?thesis
    using claim_width_admits [OF _ assms(1) c] by blast
qed

lemma record_value_spends:
  assumes "nonneg_budget b" and "decode_flow_record_value_at data off b = Inr (v, off', b')"
  shows "charge b (item_count v) b'"
  using assms decode_at_spends [OF assms(1)]
  by (auto simp: decode_flow_record_value_at_def Let_def charge_0 budget_consume_charge split: if_splits)

lemma flow_record_fields_spend:
  "nonneg_budget b \<Longrightarrow> flow_record_fields data n off b rc = Inr (rc', off', b') \<Longrightarrow>
     \<exists>k. charge b k b' \<and> dict_count rc' \<le> dict_count rc + n + k"
proof (induction n arbitrary: off b rc)
  case 0
  then show ?case by (auto intro!: exI [of _ 0] simp: charge_0)
next
  case (Suc n)
  then obtain key o1 v o2 b1 rc1 where
    v: "decode_flow_record_value_at data o1 b = Inr (v, o2, b1)"
    and r: "flow_record_fields data n o2 b1 rc1 = Inr (rc', off', b')"
    and rc1: "dict_count rc1 \<le> dict_count rc + 1 + item_count v"
    by (auto simp: dict_count_def split: option.splits if_splits)
  from record_value_spends [OF Suc.prems(1) v] have c: "charge b (item_count v) b1" .
  from Suc.IH [OF charge_nonneg [OF c] r] obtain k where
    "charge b1 k b'" "dict_count rc' \<le> dict_count rc1 + n + k" by blast
  with c rc1 show ?case
    by (intro exI [of _ "item_count v + k"]) (auto simp: charge_add)
qed

lemma flow_record_spends:
  assumes "nonneg_budget b" and "read_custom_flow_record data off b = Inr (rc, off', b')"
  shows "\<exists>n. dict_count rc \<le> n \<and> charge b n b'"
proof -
  from assms(2) obtain n b1 o1 where c: "charge b n b1"
    and r: "flow_record_fields data n o1 b1 [] = Inr (rc, off', b')"
    by (auto simp: read_custom_flow_record_def Let_def budget_consume_charge split: if_splits)
  from flow_record_fields_spend [OF charge_nonneg [OF c] r] obtain k where
    "charge b1 k b'" "dict_count rc \<le> n + k" by (auto simp: dict_count_def)
  with c show ?thesis by (intro exI [of _ "n + k"]) (auto simp: charge_add)
qed

interpretation records: bounded_reader "\<lambda>data off b. returns (read_custom_flow_record data off b)" dict_count
  by unfold_locales (auto dest: flow_record_spends)

lemma flow_record_loop_each:
  "flow_record_loop data n off b = Inr (rs, off', b') \<longleftrightarrow>
     for_each (\<lambda>off b. returns (read_custom_flow_record data off b)) n off b = Inr (Some (rs, off', b'))"
  by (induction n arbitrary: off b rs) (auto simp: split_def)

lemma flow_record_list_spends:
  assumes "nonneg_budget b" and "read_custom_flow_record_list data off b = Inr (rs, off', b')"
  shows "\<exists>n. item_count (PList (map bytes_dict rs)) \<le> n \<and> charge b n b'"
proof -
  from assms(2) obtain n b1 o1 where c: "charge b n b1"
    and r: "flow_record_loop data n o1 b1 = Inr (rs, off', b')"
    by (auto simp: read_custom_flow_record_list_def Let_def budget_consume_charge split: if_splits)
  from records.loop_spends [OF charge_nonneg [OF c]] r obtain k where
    "length rs = n" "sum_list (map dict_count rs) \<le> k" "charge b1 k b'"
    unfolding flow_record_loop_each by blast
  with c show ?thesis
    by (intro exI [of _ "n + k"]) (auto simp: charge_add items_count_sum o_def)
qed

lemma read_list_spends:
  assumes "nonneg_budget b" and "read_custom_binary_list data off b = Inr (xs, off', b')"
  shows "charge b (length xs) b'"
proof -
  from assms(2) have "returns (read_custom_binary_list data off b) = Inr (Some (xs, off', b'))" by simp
  with read_lists.exact [OF assms(1)] show ?thesis by blast
qed

lemma read_map_spends:
  assumes "nonneg_budget b" and "read_custom_binary_map data off b = Inr (d, off', b')"
  shows "charge b (length d) b'"
proof -
  from assms(2) have "returns (read_custom_binary_map data off b) = Inr (Some (d, off', b'))" by simp
  with read_maps.exact [OF assms(1)] show ?thesis by blast
qed

lemma value_ref_spends:
  assumes "read_custom_flow_value_ref data off b = Inr (v, off', b')"
  shows "charge b (dict_count v) b'"
  using assms
  by (auto simp: read_custom_flow_value_ref_def dict_count_def budget_consume_charge split: option.splits)

lemma claim_job_spends:
  assumes "nonneg_budget b" and "read_custom_claim_job data off b = Inr (row, off', b')"
  shows "charge b (item_count (PList row)) b'"
  using assms claim_fields_flat
  by (fastforce simp: read_custom_claim_job_def budget_consume_charge)

lemma dict_count_bytes [simp]: "dict_count (map (\<lambda>(k, x). (k, PBytes x)) d) = length d"
proof -
  have "sum_list (map (item_count \<circ> snd) (map (\<lambda>(k, x). (k, PBytes x)) d)) = 0"
    by (induction d) auto
  then show ?thesis by (simp add: dict_count_def)
qed

lemma items_count_bytes [simp]: "items_count (map PBytes xs) = 0" "items_count (map PInt ns) = 0"
  "items_count (map opt_bytes vs) = 0"
  by (induction xs) (simp_all, (induction ns, simp_all)?, (induction vs, simp_all)?)

lemma ok_value_spends:
  assumes nn: "nonneg_budget b" and "pipeline_ok_value data off b = Inr (Some (v, off', b'))"
  shows "\<exists>n. item_count v \<le> n \<and> charge b n b'"
proof -
  have zero: "\<exists>n. charge b n b" using charge_0 [OF nn] by blast
  show ?thesis
    using assms(2) zero flow_record_spends [OF nn] flow_record_list_spends [OF nn]
      claim_job_spends [OF nn] value_ref_spends [of data _ b] read_list_spends [OF nn]
      read_map_spends [OF nn]
    unfolding pipeline_ok_value_def Let_def by (auto split: if_splits)
qed

lemma pipeline_item_spends:
  assumes nn: "nonneg_budget b" and "pipeline_item data off b = Inr (Some (v, off', b'))"
  shows "\<exists>n. item_count v \<le> n \<and> charge b n b'"
proof -
  from assms(2) obtain b1 where c: "budget_consume b 2 = Inr b1"
    by (auto simp: pipeline_item_def)
  then have c1: "charge b 2 b1" and nn1: "nonneg_budget b1"
    using charge_nonneg by (auto simp: budget_consume_charge)
  have "\<exists>k x. charge b1 k b' \<and> item_count v = 2 + item_count x \<and> item_count x \<le> k"
  proof (cases "byte_at data off = Inr 0")
    case True
    with assms(2) c obtain x where "pipeline_ok_value data (off + 1) b1 = Inr (Some (x, off', b'))"
      and v: "v = PList [PStr (text_lit ''ok''), x]"
      by (auto simp: pipeline_item_def)
    from ok_value_spends [OF nn1 this(1)] v show ?thesis by auto
  next
    case False
    with assms(2) c have "b' = b1" "item_count v = 2 + item_count PNone"
      by (auto simp: pipeline_item_def Let_def split: if_splits)
    with charge_0 [OF nn1] show ?thesis
      by (intro exI [of _ 0] exI [of _ PNone]) simp
  qed
  then obtain k x where k: "charge b1 k b'" "item_count v = 2 + item_count x" "item_count x \<le> k" by blast
  with c1 have "charge b (2 + k) b'" unfolding charge_add by blast
  with k show ?thesis by (intro exI [of _ "2 + k"]) simp
qed

interpretation pipeline: bounded_reader pipeline_item item_count
  by unfold_locales (rule pipeline_item_spends)

lemma pipeline_admits:
  assumes "nonneg_budget b" and "try_decode_custom_pipeline_response data off b = Inr (Some xs)"
  shows "admits b (item_count (PList xs))"
proof -
  from assms(2) obtain n o1 b1 where "charge b n b1"
    "at_end data (for_each (pipeline_item data) n o1 b1) = Inr (Some xs)"
    by (auto simp: try_decode_custom_pipeline_response_def Let_def budget_consume_charge split: if_splits)
  from pipeline.collection_spends [OF assms(1) this] show ?thesis
    by (simp add: items_count_sum)
qed

lemma typed_row_spends:
  assumes nn: "nonneg_budget b" and r: "typed_claim_row data off b = Inr (Some (row, off', b'))"
  shows "\<exists>n. item_count (PList row) \<le> n \<and> charge b n b'"
proof -
  from r obtain w b1 where w: "w \<in> {4, 5, 6}" "rp_read_u32 data (off + 1) = Inr w"
    and c: "budget_consume b w = Inr b1"
    by (auto simp: typed_claim_row_def Let_def split: if_splits)
  then have c1: "charge b w b1" and nn1: "nonneg_budget b1"
    using charge_nonneg by (auto simp: budget_consume_charge)
  have "\<exists>k. charge b1 k b' \<and> length row = w \<and> items_count row \<le> k"
  proof (cases "w = 4")
    case True
    with r w c have "b' = b1" "length row = 4" "items_count row = 0"
      by (auto simp: typed_claim_row_def Let_def split: if_splits)
    with True charge_0 [OF nn1] show ?thesis by auto
  next
    case False
    with r w c obtain attrs o2 fs where
      a: "decode_at data o2 0 b1 = Inr (attrs, off', b')"
      and row: "row = fs @ [attrs]" "length fs = w - 1" "items_count fs = 0"
      by (auto simp: typed_claim_row_def Let_def split: if_splits)
    from decode_at_spends [OF nn1 a] row w show ?thesis by auto
  qed
  then obtain k where k: "charge b1 k b'" "length row = w" "items_count row \<le> k" by blast
  with c1 have "charge b (w + k) b'" unfolding charge_add by blast
  with k show ?thesis by (intro exI [of _ "w + k"]) simp
qed

interpretation typed_rows: bounded_reader typed_claim_row "\<lambda>row. item_count (PList row)"
  by unfold_locales (rule typed_row_spends)

lemma typed_claims_admits:
  assumes "nonneg_budget b" and "try_decode_claim_jobs_compact data off (Some b) = Inr (Some rows)"
  shows "admits b (item_count (PList (map PList rows)))"
proof -
  from assms(2) obtain n b1 where "charge b n b1"
    "at_end data (for_each (typed_claim_row data) n (off + 5) b1) = Inr (Some rows)"
    by (auto simp: try_decode_claim_jobs_compact_def budget_consume_charge split: if_splits)
  from typed_rows.collection_spends [OF assms(1) this] show ?thesis
    by (simp add: items_count_sum o_def)
qed

lemma record_values_spend:
  "nonneg_budget b \<Longrightarrow> record_values data off b bitmap fs = Inr (r, off', b') \<Longrightarrow>
     length r = length (filter (\<lambda>(i, _). bit bitmap i) fs) \<and>
     charge b (sum_list (map (item_count \<circ> snd) r)) b'"
proof (induction fs arbitrary: off b r)
  case Nil
  then show ?case by (auto simp: charge_0)
next
  case (Cons f fs)
  obtain i name where f: "f = (i, name)" by (cases f)
  show ?case
  proof (cases "bit bitmap i")
    case True
    with Cons.prems f obtain v o1 b1 r1 where v: "decode_at data off 0 b = Inr (v, o1, b1)"
      and r1: "record_values data o1 b1 bitmap fs = Inr (r1, off', b')" and r: "r = (name, v) # r1"
      by auto
    from decode_at_spends [OF Cons.prems(1) v] have c: "charge b (item_count v) b1" .
    from Cons.IH [OF charge_nonneg [OF c] r1] c show ?thesis
      by (auto simp: r f True charge_add)
  next
    case False
    with Cons f show ?thesis by auto
  qed
qed

lemma length_filter_enumerate:
  "length (filter (\<lambda>(i, _). P i) (enumerate n xs)) = length (filter P [n..<n + length xs])"
proof (induction xs arbitrary: n)
  case (Cons x xs)
  have "[n..<n + length (x # xs)] = n # [Suc n..<Suc n + length xs]"
    by (simp add: upt_conv_Cons del: upt_Suc)
  with Cons [of "Suc n"] show ?case by (simp del: upt_Suc)
qed simp

lemma read_record_spends:
  assumes "nonneg_budget b" and "read_record data off b = Inr (r, off', b')"
  shows "charge b (dict_count r) b'"
proof -
  from assms(2) obtain bitmap o1 b1 where
    c: "charge b (length (filter (bit bitmap) [0..<length RECORD_FIELDS])) b1"
    and v: "record_values data o1 b1 bitmap (enumerate 0 RECORD_FIELDS) = Inr (r, off', b')"
    by (auto simp: read_record_def budget_consume_charge simp del: enumerate_simps split: if_splits)
  from record_values_spend [OF charge_nonneg [OF c] v] c show ?thesis
    by (auto simp: length_filter_enumerate dict_count_def charge_add simp del: enumerate_simps)
qed

lemma read_records_spend:
  "nonneg_budget b \<Longrightarrow> read_records data n off b = Inr (rs, off', b') \<Longrightarrow>
     length rs = n \<and> charge b (sum_list (map dict_count rs)) b'"
proof (induction n arbitrary: off b rs)
  case 0
  then show ?case by (auto simp: charge_0)
next
  case (Suc n)
  then obtain r o1 b1 rs1 where r: "read_record data off b = Inr (r, o1, b1)"
    and r1: "read_records data n o1 b1 = Inr (rs1, off', b')" and rs: "rs = r # rs1"
    by auto
  from read_record_spends [OF Suc.prems(1) r] have c: "charge b (dict_count r) b1" .
  from Suc.IH [OF charge_nonneg [OF c] r1] c show ?case by (auto simp: rs charge_add)
qed

lemma read_quality_length: "read_quality data off qs = Inr (q, off') \<Longrightarrow> length q = length qs"
  by (induction qs arbitrary: off q) (auto split: if_splits)

lemma read_usage_length: "read_usage data off us = Inr (u, off') \<Longrightarrow> length u = length us"
  by (induction us arbitrary: off u) (auto split: if_splits)

lemma read_page_count: "read_page data off = Inr (p, off') \<Longrightarrow> item_count p = 2"
  by (auto simp: read_page_def Let_def split: if_splits)

lemma query_body_spends:
  assumes "nonneg_budget b" and "query_body data off b kind usage = Inr (body, off', b')"
  shows "\<exists>k. charge b k b' \<and> length body + sum_list (map (item_count \<circ> snd) body) \<le> 4 + k"
proof (cases "kind = 0")
  case True
  with assms(2) obtain page o1 n o2 b1 rs where page: "read_page data off = Inr (page, o1)"
    and c: "charge b n b1" and r: "read_records data n o2 b1 = Inr (rs, off', b')"
    and body: "body = [(''records'', PList (map bytes_dict rs)), (''page'', page)]"
    by (auto simp: query_body_def budget_consume_charge split: if_splits)
  from read_records_spend [OF charge_nonneg [OF c] r] c show ?thesis
    by (intro exI [of _ "n + sum_list (map dict_count rs)"])
       (auto simp: charge_add body read_page_count [OF page] items_count_sum o_def)
next
  case False
  with assms show ?thesis
    by (intro exI [of _ 0]) (auto simp: query_body_def charge_0 split: if_splits)
qed

lemma query_result_admits:
  assumes "nonneg_budget b" and "decode_compact_flow_query_result data off b = Inr (Some v)"
  shows "\<exists>k. admits b k \<and> item_count v \<le> k + 22"
proof -
  from assms(2) obtain quality o1 usage o2 body o3 b' kind where
    q: "read_quality data (off + 2) QUALITY = Inr (quality, o1)"
    and u: "read_usage data o1 USAGE_FIELDS = Inr (usage, o2)"
    and body: "query_body data o2 b kind usage = Inr (body, o3, b')"
    and v: "v = query_result body quality usage"
    by (auto simp: decode_compact_flow_query_result_def Let_def split: if_splits)
  have len: "length quality = 4" "length usage = 11"
    using read_quality_length [OF q] read_usage_length [OF u] by (simp_all add: QUALITY_def USAGE_FIELDS_def)
  have dc: "dict_count (map (\<lambda>(k, v). (k, PInt (int v))) d) = length d" for d :: "(bytes \<times> nat) list"
  proof -
    have "sum_list (map (item_count \<circ> snd) (map (\<lambda>(k, v). (k, PInt (int v))) d)) = 0"
      by (induction d) auto
    then show ?thesis by (simp add: dict_count_def)
  qed
  have ec: "entries_count (map (\<lambda>(k, v). (PBytes (bytes_lit k), v)) d) = sum_list (map (item_count \<circ> snd) d)"
    for d :: "(string \<times> pyval) list"
    by (induction d) auto
  have "item_count v = 18 + length body + sum_list (map (item_count \<circ> snd) body)"
    by (simp add: v query_result_def entries_count_append ec dc len)
  with query_body_spends [OF assms(1) body] show ?thesis
    by (auto intro: charge_mono_admits)
qed

section \<open>Every path respects the item limit\<close>

lemma as_value_Some: "as_value f r = Inr (Some v) \<longleftrightarrow> (\<exists>x. r = Inr (Some x) \<and> v = f x)"
  by (auto simp: as_value_def)

lemma admits_0: "nonneg_budget b \<Longrightarrow> admits b 0"
  by (auto simp: admits_def nonneg_budget_def split: option.split)

lemma mget_admits:
  assumes "nonneg_budget b" and "try_decode_custom_kv_mget data off b = Inr (Some vs) \<or>
    try_decode_custom_kv_mget_fixed data off b = Inr (Some vs)"
  shows "admits b (item_count (mget_value vs))"
  using assms by (auto simp: kv_mget_exact kv_mget_fixed_exact collection_at_def mget_value_def)

lemma record_list_admits:
  assumes "nonneg_budget b" and "try_decode_custom_flow_record_list data off b = Inr (Some rs)"
  shows "admits b (item_count (PList (map bytes_dict rs)))"
proof -
  from assms(2) obtain o1 b1 where "read_custom_flow_record_list data off b = Inr (rs, o1, b1)"
    by (auto simp: try_decode_custom_flow_record_list_def split: if_splits)
  from flow_record_list_spends [OF assms(1) this] show ?thesis
    by (auto intro: charge_mono_admits)
qed

lemma record_admits:
  assumes "nonneg_budget b" and "try_decode_custom_flow_record data off b = Inr (Some r)"
  shows "admits b (item_count (bytes_dict r))"
proof -
  from assms(2) obtain o1 b1 where "read_custom_flow_record data off b = Inr (r, o1, b1)"
    by (auto simp: try_decode_custom_flow_record_def split: if_splits)
  from flow_record_spends [OF assms(1) this] show ?thesis
    by (auto intro: charge_mono_admits)
qed

lemma list_list_admits:
  assumes "nonneg_budget b" and "try_decode_custom_binary_list_list data off b = Inr (Some xss)"
  shows "admits b (item_count (PList (map (\<lambda>xs. PList (map PBytes xs)) xss)))"
  using assms by (simp add: binary_list_list_exact collection_at_def items_count_sum o_def)

lemma map_list_admits:
  assumes "nonneg_budget b" and "try_decode_custom_binary_map_list data off b = Inr (Some ds)"
  shows "admits b (item_count (PList (map map_value ds)))"
  using assms by (simp add: binary_map_list_exact collection_at_def items_count_sum o_def map_value_def)

lemma integer_list_admits:
  assumes "nonneg_budget b" and "try_decode_custom_integer_list data off b = Inr (Some ns)"
  shows "admits b (item_count (PList (map PInt ns)))"
  using assms by (simp add: integer_list_exact collection_at_def)

lemma ok_list_admits:
  assumes "try_decode_custom_ok_list data off b = Inr (Some xs)"
  shows "admits b (item_count (PList (map PBytes xs)))"
  using assms by (simp add: ok_list_exact collection_at_def)

lemmas compact_admits = mget_admits record_list_admits record_admits list_list_admits map_list_admits
  integer_list_admits ok_list_admits claim_jobs_admits typed_claims_admits pipeline_admits

lemma pipeline_dispatch_admits:
  assumes "nonneg_budget b" and "try_fast_pipeline data off b = Inr (Some v)"
  shows "admits b (item_count v)"
  using assms
  by (auto simp: try_fast_pipeline_def Let_def as_value_Some simp del: item_count.simps
      intro: compact_admits split: if_splits)

definition schema_items :: "string option \<Rightarrow> nat" where
  "schema_items codec_name = (if codec_name = Some ''flow_query_result_v1'' then 22 else 0)"

lemma compact_decoder_admits:
  assumes "nonneg_budget b" and "compact_decoder name = Some decoder" and "decoder data off b = Inr (Some v)"
  shows "\<exists>k. admits b k \<and> item_count v \<le> k + schema_items (Some name)"
proof (cases "name = ''flow_query_result_v1''")
  case True
  with assms query_result_admits show ?thesis by (auto simp: compact_decoder_def schema_items_def)
next
  case False
  have "admits b (item_count v)"
    using assms False pipeline_dispatch_admits [OF assms(1)]
    by (auto simp: compact_decoder_def try_fast_get_def try_fast_mget_def try_fast_flow_record_def
        try_fast_flow_record_list_def try_fast_claim_def as_value_Some admits_0
        simp del: item_count.simps(1-3) intro: compact_admits split: if_splits)
  then show ?thesis by auto
qed

lemma ok_list_value_admits:
  assumes "nonneg_budget b" and "ok_list_value opcode data off b = Inr (Some v)"
  shows "admits b (item_count v)"
  using assms by (auto simp: ok_list_value_def admits_0 simp del: item_count.simps(1-3)
      intro: ok_list_admits split: if_splits)

lemma make_budget_limit: "make_budget (limit_arg (Some m)) = Inr b \<Longrightarrow> b = Some m"
  by (cases "0 \<le> m") (use make_budget_simps(3) [of m] in \<open>auto simp: limit_arg_def make_budget_simps\<close>)

lemma compact_value_admits:
  assumes "try_compact_response_value_at name opcode data off (Some m) expected = Inr (Some v)"
  shows "int (item_count v) \<le> m + int (schema_items (Some name))"
proof -
  from assms obtain b where b: "make_budget (limit_arg (Some m)) = Inr b"
    and v: "name = ''ok_list_v1'' \<and> ok_list_value opcode data off b = Inr (Some v) \<or>
      (\<exists>decoder. compact_decoder name = Some decoder \<and> decoder data off b = Inr (Some v))"
    by (auto simp: try_compact_response_value_at_def split: if_splits option.splits)
  have nn: "nonneg_budget b" using b by (rule make_budget_nonneg)
  have bm: "b = Some m" using b by (rule make_budget_limit)
  from v ok_list_value_admits [OF nn] compact_decoder_admits [OF nn]
  obtain k where "admits b k" "item_count v \<le> k + schema_items (Some name)" by fastforce
  then show ?thesis by (simp add: bm admits_def)
qed

lemma response_value_bounded:
  assumes "decode_response_value A opcode flags status expected body = Inr v"
    and "ra_max_decoded_collection_items A = Some m" and "0 \<le> m"
  shows "int (item_count v) \<le> m + int (schema_items (dict_get (ra_compact_response_codecs A) opcode))"
proof -
  let ?codec = "dict_get (ra_compact_response_codecs A) opcode"
  from assms(1) consider
      (compact) name where "?codec = Some name"
        "try_compact_response_value_at name opcode body 2 (Some m) expected = Inr (Some v)"
    | (nil) "v = PNone"
    | (generic) b off b' where "make_budget (limit_arg (Some m)) = Inr b"
        "decode_value_at body 2 PNone (Some b) = Inr (v, off, b')"
    by (auto simp: decode_response_value_def Let_def assms(2) split: option.splits if_splits)
  then show ?thesis
  proof cases
    case compact
    then show ?thesis using compact_value_admits by simp
  next
    case nil
    with assms(3) show ?thesis by simp
  next
    case generic
    then have "decode_at body 2 0 b = Inr (v, off, b')" by (simp add: decode_value_at_def)
    with decode_at_spends [OF make_budget_nonneg [OF generic(1)]] make_budget_limit [OF generic(1)]
    have "charge (Some m) (item_count v) b'" by blast
    then show ?thesis by (auto simp: charge_def)
  qed
qed

lemma dict_get_count: "dict_get d k = Some v \<Longrightarrow> item_count v \<le> entries_count d"
  by (induction d) (auto split: if_splits)

lemma traced_value_smaller: "item_count (fst (extract_traced_value L v)) \<le> item_count v"
proof (cases v)
  case (PDict d)
  have "item_count (map_get (PDict d) [''value'']) \<le> entries_count d"
    using dict_get_count [of d] by (auto split: option.split)
  with PDict show ?thesis
    by (simp add: extract_traced_value_def is_dict_def Let_def del: map_get.simps)
qed (simp_all add: extract_traced_value_def is_dict_def)

lemma decode_protocol_response_Inr:
  assumes "decode_protocol_response L Z A lane_id opcode request_id flags body t0 t1 t2 = Some (A', Inr r)"
  shows "\<exists>body' v. decode_response_value A opcode flags (pr_status r)
        (dict_get (ra_pending_response_item_counts A) request_id) body' = Inr v \<and>
      pr_value r = (if flags AND FLAG_TRACE \<noteq> 0 then fst (extract_traced_value L v) else v) \<and>
      A' = fst (pop_response_item_count A request_id) \<and>
      (pr_status r = 0 \<longrightarrow> validate_response_cardinality (rl_lower L) opcode (pr_value r)
         (dict_get (ra_pending_response_item_counts A) request_id) = Inr ())"
  using assms
  by (auto simp: decode_protocol_response_def Let_def pop_response_item_count_def split_def
      split: option.splits sum.splits if_splits) blast+

section \<open>Properties\<close>


text \<open>A decompressor that expands every byte to two copies of it, kept as its unread input.\<close>

definition doubler :: "bytes inflater" where
  "doubler = \<lparr>inf_new = [],
     inf_decompress = (\<lambda>z c m.
       case m of
         None \<Rightarrow> Inr (concat (map (\<lambda>x. [x, x]) c), [])
       | Some k \<Rightarrow> if k < 0 then Inl (ValueError ''max_length must be non-negative'')
                   else if int (length (concat (map (\<lambda>x. [x, x]) c))) \<le> k
                   then Inr (concat (map (\<lambda>x. [x, x]) c), [])
                   else Inr (take (nat k) (concat (map (\<lambda>x. [x, x]) c)), c)),
     inf_flush = (\<lambda>z m. Inr []),
     inf_eof = (\<lambda>z. True),
     inf_unused_data = (\<lambda>z. []),
     inf_unconsumed_tail = (\<lambda>z. z)\<rparr>"


text \<open>
  C28. No response exceeds the item limit. Whatever the flags, the negotiated codec and the bytes of a
  response are, if it decodes to a value then the lists and maps of that value, nested ones included,
  hold no more items than \<open>max_decoded_collection_items\<close>; the fixed-schema query result adds only the
  22 entries of its schema. This covers the compact decoders, the fast paths over typed lists, the
  generic codec and traced responses.
\<close>

theorem decoded_items_bounded:
  assumes "decode_protocol_response L Z A lane_id opcode request_id flags body t0 t1 t2 = Some (A', Inr r)"
    and "ra_max_decoded_collection_items A = Some m" and "0 \<le> m"
  shows "int (item_count (pr_value r)) \<le>
    m + int (schema_items (dict_get (ra_compact_response_codecs A) opcode))"
proof -
  from decode_protocol_response_Inr [OF assms(1)] obtain body' v where
    v: "decode_response_value A opcode flags (pr_status r)
        (dict_get (ra_pending_response_item_counts A) request_id) body' = Inr v"
    and r: "pr_value r = (if flags AND FLAG_TRACE \<noteq> 0 then fst (extract_traced_value L v) else v)"
    by blast
  from response_value_bounded [OF v assms(2,3)] traced_value_smaller [of L v] show ?thesis
    by (auto simp: r)
qed

text \<open>
  C29. A batch response has the announced shape. When a response with status OK is decoded for a request
  that registered an expected item count, then for pipelines and reads of several keys the value is a
  list of exactly that many items, and for writes of several items it is such a list or the
  scalar OK; the registered count is consumed, so a second response of the same id is not held to it.
\<close>

theorem response_cardinality_enforced:
  assumes "decode_protocol_response L Z A lane_id opcode request_id flags body t0 t1 t2 = Some (A', Inr r)"
    and "pr_status r = 0" and "dict_get (ra_pending_response_item_counts A) request_id = Some k"
    and "map_of RESPONSE_CARDINALITY_POLICIES opcode = Some policy"
    and "distinct (map fst (ra_pending_response_item_counts A))"
  shows "((\<exists>xs. pr_value r = PList xs \<and> length xs = k) \<or>
      policy = OK_OR_EXACT_COLLECTION \<and> is_ok_scalar (rl_lower L) (pr_value r)) \<and>
    dict_get (ra_pending_response_item_counts A') request_id = None"
proof -
  from decode_protocol_response_Inr [OF assms(1)] assms(2,3)
  have "validate_response_cardinality (rl_lower L) opcode (pr_value r) (Some k) = Inr ()"
    and A': "A' = fst (pop_response_item_count A request_id)" by auto
  from this(1) have "(\<exists>xs. pr_value r = PList xs \<and> length xs = k) \<or>
      policy = OK_OR_EXACT_COLLECTION \<and> is_ok_scalar (rl_lower L) (pr_value r)"
    using assms(4)
    by (auto simp: validate_response_cardinality_def require_compact_collection_count_def
        split: pyval.splits if_splits)
  moreover have "dict_get (ra_pending_response_item_counts A') request_id = None"
    using assms(5) by (simp add: A' pop_response_item_count_def dict_get_pop)
  ultimately show ?thesis by blast
qed

definition sample_lib :: response_lib where
  "sample_lib = \<lparr>rl_lower = (\<lambda>s. s), rl_str = (\<lambda>_. []), rl_decode_replace = (\<lambda>_. [])\<rparr>"

definition sample_response_adapter :: response_adapter where
  "sample_response_adapter = \<lparr>ra_max_decompressed_response_bytes = PInt 100,
     ra_max_decoded_collection_items = Some 2, ra_compact_response_codecs = [(0x0104, ''kv_mget_v1'')],
     ra_pending_response_item_counts = [(7, 2)]\<rparr>"

definition sample_mget_body :: bytes where
  "sample_mget_body = [0, 0] @ 0x83 # u32_bytes 2 @ concat (map maybe_wire [None, Some [9]])"

definition sample_mget_response :: protocol_response where
  "sample_mget_response = \<lparr>pr_lane_id = 1, pr_opcode = 0x0104, pr_request_id = 7, pr_flags = 2,
     pr_status = 0, pr_value = PList [PNone, PBytes [9]], pr_trace = None\<rparr>"

lemma sample_mget_items: "try_decode_custom_kv_mget sample_mget_body 2 (Some 2) = Inr (Some [None, Some [9]])"
proof -
  have two: "u32_bytes (Suc (Suc 0)) = u32_bytes 2" by (simp add: numeral_2_eq_2)
  have nn: "nonneg_budget (Some 2)" by (simp add: nonneg_budget_def)
  show ?thesis
    unfolding kv_mget_exact [OF nn]
    by (simp add: collection_at_def sample_mget_body_def two compact_ok_def NULL_U32_def admits_def)
qed

lemma sample_mget_decodes:
  "decode_protocol_response sample_lib doubler sample_response_adapter 1 0x0104 7 2 sample_mget_body 0 0 0 =
     Some (sample_response_adapter\<lparr>ra_pending_response_item_counts := []\<rparr>, Inr sample_mget_response)"
proof -
  have n: "bytes_slice sample_mget_body 3 4 = u32_bytes 2" "sample_mget_body ! 2 = 0x83"
    "length sample_mget_body = 14" "bytes_slice sample_mget_body 0 2 = [0, 0]"
    by (simp_all add: sample_mget_body_def bytes_slice_def maybe_wire_def compact_wire_def)
  then have "preflight_compact_collection sample_mget_body 2 (Some 2) (Some 2) = Inr True"
    by (simp add: preflight_compact_collection_def COMPACT_COLLECTION_MARKERS_def
        COMPACT_COLLECTION_MIN_ITEM_BYTES_def require_compact_collection_count_def)
  then have "try_compact_response_value_at ''kv_mget_v1'' 0x0104 sample_mget_body 2 (Some 2) (Some 2) =
      Inr (Some (PList [PNone, PBytes [9]]))"
    using sample_mget_items n
    by (simp add: try_compact_response_value_at_def compact_decoder_def limit_arg_def make_budget_simps
        try_fast_mget_def as_value_def mget_value_def opt_bytes_def)
  then have "decode_response_value sample_response_adapter 0x0104 2 0 (Some 2) sample_mget_body =
      Inr (PList [PNone, PBytes [9]])"
    by (simp add: decode_response_value_def sample_response_adapter_def FLAG_CUSTOM_PAYLOAD_def)
  with n show ?thesis
    by (simp add: decode_protocol_response_def RESPONSE_COMPRESSED_def FLAG_TRACE_def be_decode_def
        pop_response_item_count_def sample_response_adapter_def sample_mget_response_def
        validate_response_cardinality_def RESPONSE_CARDINALITY_POLICIES_def
        require_compact_collection_count_def)
qed

theorem decoded_items_bounded_witness:
  "int (item_count (pr_value sample_mget_response)) \<le> 2"
  using decoded_items_bounded [OF sample_mget_decodes, of 2]
  by (simp add: sample_response_adapter_def schema_items_def)

theorem response_cardinality_enforced_witness:
  "\<exists>xs. pr_value sample_mget_response = PList xs \<and> length xs = 2"
  using response_cardinality_enforced [OF sample_mget_decodes, of 2 EXACT_COLLECTION]
  by (simp add: sample_response_adapter_def sample_mget_response_def RESPONSE_CARDINALITY_POLICIES_def)

end
