(* ===== verification/Pending_Requests.thy ===== *)
theory Pending_Requests
  imports Framing "HOL-Library.Product_Lexorder" Complex_Main
begin

text \<open>
  Admission and expiry of in-flight requests: \<open>PendingRequestBudget\<close> and
  \<open>SyncDeadlineScheduler\<close> of \<open>protocol_lifecycle.py\<close>. Deadlines are rationals (the code only
  compares and subtracts monotonic times). The scheduler's heap is the list \<open>heapq\<close> maintains,
  seen through \<open>heapq\<close>'s contract: element \<open>0\<close> is a least entry, so the model keeps it sorted,
  \<open>heappush\<close> inserts, \<open>heappop\<close> removes the head and \<open>heapify\<close> sorts.
\<close>

section \<open>\<open>PendingRequestBudget\<close>\<close>

record request_budget =
  rb_max_requests :: "int option"
  rb_max_bytes :: "int option"
  rb_sizes :: "(int \<times> int) list"
  rb_total_bytes :: int

definition check_batch_item_limit :: "int \<Rightarrow> int option \<Rightarrow> unit result" where
  "check_batch_item_limit count limit =
     (if exceeds limit count
      then Inl (PendingRequestCapacityError ''protocol batch items exceed max_batch_items'')
      else Inr ())"

definition make_request_budget :: "pyval \<Rightarrow> pyval \<Rightarrow> request_budget result" where
  "make_request_budget max_requests max_bytes =
     and_then (validate_optional_positive_int max_requests ''max_inflight_requests'') (\<lambda>mr.
     and_then (validate_optional_positive_int max_bytes ''max_pending_request_bytes'') (\<lambda>mb.
       Inr \<lparr>rb_max_requests = mr, rb_max_bytes = mb, rb_sizes = [], rb_total_bytes = 0\<rparr>))"

definition rb_count :: "request_budget \<Rightarrow> int" where
  "rb_count b = int (length (rb_sizes b))"

definition rb_reserve :: "request_budget \<Rightarrow> int \<Rightarrow> request_budget result" where
  "rb_reserve b request_id =
     (if dict_get (rb_sizes b) request_id \<noteq> None
      then Inl (RuntimeError ''duplicate pending protocol request_id'')
      else if (case rb_max_requests b of None \<Rightarrow> False | Some m \<Rightarrow> rb_count b \<ge> m)
      then Inl (PendingRequestCapacityError ''protocol pending requests exceed max_inflight_requests'')
      else Inr (b\<lparr>rb_sizes := dict_set (rb_sizes b) request_id 0\<rparr>))"

definition rb_set_size :: "request_budget \<Rightarrow> int \<Rightarrow> int \<Rightarrow> request_budget result" where
  "rb_set_size b request_id n =
     (if n < 0 then Inl (ValueError ''pending request size must be non-negative'')
      else case dict_get (rb_sizes b) request_id of
        None \<Rightarrow> Inl KeyError
      | Some previous \<Rightarrow>
          let total = rb_total_bytes b - previous + n in
          if exceeds (rb_max_bytes b) total
          then Inl (PendingRequestCapacityError
                 ''protocol pending request bytes exceed max_pending_request_bytes'')
          else Inr (b\<lparr>rb_sizes := dict_set (rb_sizes b) request_id n, rb_total_bytes := total\<rparr>))"

definition rb_remaining_bytes :: "request_budget \<Rightarrow> int \<Rightarrow> int option result" where
  "rb_remaining_bytes b request_id =
     (case dict_get (rb_sizes b) request_id of
        None \<Rightarrow> Inl KeyError
      | Some previous \<Rightarrow>
          Inr (case rb_max_bytes b of
                 None \<Rightarrow> None
               | Some m \<Rightarrow> Some (m - (rb_total_bytes b - previous))))"

definition rb_release :: "request_budget \<Rightarrow> int \<Rightarrow> request_budget \<times> bool" where
  "rb_release b request_id =
     (case dict_get (rb_sizes b) request_id of
        None \<Rightarrow> (b, False)
      | Some n \<Rightarrow>
          (b\<lparr>rb_sizes := dict_pop (rb_sizes b) request_id, rb_total_bytes := rb_total_bytes b - n\<rparr>,
           True))"

definition rb_clear :: "request_budget \<Rightarrow> request_budget" where
  "rb_clear b = b\<lparr>rb_sizes := [], rb_total_bytes := 0\<rparr>"

subsection \<open>Invariant\<close>

definition rb_inv :: "request_budget \<Rightarrow> bool" where
  "rb_inv b \<longleftrightarrow>
     distinct (map fst (rb_sizes b)) \<and>
     (\<forall>x \<in> set (rb_sizes b). 0 \<le> snd x) \<and>
     rb_total_bytes b = sum_list (map snd (rb_sizes b)) \<and>
     \<not> exceeds (rb_max_requests b) (rb_count b) \<and> \<not> exceeds (rb_max_bytes b) (rb_total_bytes b) \<and>
     (\<forall>m. rb_max_requests b = Some m \<longrightarrow> 0 < m) \<and> (\<forall>m. rb_max_bytes b = Some m \<longrightarrow> 0 < m)"

lemma sum_dict_set_new:
  "k \<notin> fst ` set d \<Longrightarrow> sum_list (map snd (dict_set d k v)) = sum_list (map snd d) + (v :: int)"
  by (induction d) auto

lemma sum_dict_set_old:
  "dict_get d k = Some (w :: int) \<Longrightarrow>
     sum_list (map snd (dict_set d k v)) = sum_list (map snd d) - w + v"
proof (induction d)
  case (Cons p d)
  then show ?case by (cases p) (auto split: if_splits)
qed simp

lemma sum_dict_pop:
  "dict_get d k = Some (w :: int) \<Longrightarrow> sum_list (map snd (dict_pop d k)) = sum_list (map snd d) - w"
proof (induction d)
  case (Cons p d)
  then show ?case by (cases p) (auto split: if_splits)
qed simp

lemma length_dict_set:
  "length (dict_set d k v) = length d + (if k \<in> fst ` set d then 0 else 1)"
proof -
  have "length (map fst (dict_set d k v)) = length d + (if k \<in> fst ` set d then 0 else 1)"
    by (simp only: dict_set_keys) simp
  then show ?thesis by simp
qed

lemma length_dict_pop:
  "length (dict_pop d k) = length d - (if k \<in> fst ` set d then 1 else 0)"
proof (induction d)
  case (Cons p d)
  obtain a b where p: "p = (a, b)" by fastforce
  have "k \<in> fst ` set d \<Longrightarrow> d \<noteq> []" by auto
  then show ?case using Cons p by (cases d) auto
qed simp

lemma rb_inv_make: "make_request_budget mr mb = Inr b \<Longrightarrow> rb_inv b"
  by (auto simp: make_request_budget_def rb_inv_def rb_count_def exceeds_def)

lemma rb_reserve_Inr:
  "rb_reserve b i = Inr b' \<longleftrightarrow>
     i \<notin> fst ` set (rb_sizes b) \<and> (\<forall>m. rb_max_requests b = Some m \<longrightarrow> rb_count b < m) \<and>
     b' = b\<lparr>rb_sizes := dict_set (rb_sizes b) i 0\<rparr>"
  by (auto simp: rb_reserve_def split: option.splits)

lemma rb_inv_reserve:
  assumes inv: "rb_inv b" and res: "rb_reserve b i = Inr b'"
  shows "rb_inv b'"
proof -
  have "\<forall>x \<in> set (dict_set (rb_sizes b) i 0). 0 \<le> snd x"
    using set_dict_set_subset [of "rb_sizes b" i 0] inv by (auto simp: rb_inv_def)
  with assms show ?thesis
    by (auto simp: rb_reserve_Inr rb_inv_def rb_count_def exceeds_def sum_dict_set_new
        length_dict_set split: option.splits)
qed

lemma rb_inv_sizes:
  "rb_inv b \<Longrightarrow> dict_get (rb_sizes b) i = Some n \<Longrightarrow> 0 \<le> n"
  using dict_get_SomeD by (fastforce simp: rb_inv_def)

lemma dict_get_SomeI: "dict_get d k = Some v \<Longrightarrow> k \<in> fst ` set d"
  using dict_get_SomeD by force

lemma rb_set_size_Inr:
  "rb_set_size b i n = Inr b' \<longleftrightarrow>
     (\<exists>old. 0 \<le> n \<and> dict_get (rb_sizes b) i = Some old \<and>
        \<not> exceeds (rb_max_bytes b) (rb_total_bytes b - old + n) \<and>
        b' = b\<lparr>rb_sizes := dict_set (rb_sizes b) i n, rb_total_bytes := rb_total_bytes b - old + n\<rparr>)"
  by (auto simp: rb_set_size_def Let_def simp del: dict_get_None split: option.splits)

lemma rb_inv_set_size:
  assumes inv: "rb_inv b" and set: "rb_set_size b i n = Inr b'"
  shows "rb_inv b'"
proof -
  obtain old where n: "0 \<le> n" and old: "dict_get (rb_sizes b) i = Some old"
    and fits: "\<not> exceeds (rb_max_bytes b) (rb_total_bytes b - old + n)"
    and b': "b' = b\<lparr>rb_sizes := dict_set (rb_sizes b) i n, rb_total_bytes := rb_total_bytes b - old + n\<rparr>"
    using set by (auto simp: rb_set_size_Inr)
  have "\<forall>x \<in> set (dict_set (rb_sizes b) i n). 0 \<le> snd x"
    using set_dict_set_subset [of "rb_sizes b" i n] inv n by (auto simp: rb_inv_def)
  with inv fits show ?thesis
    by (simp add: b' rb_inv_def rb_count_def sum_dict_set_old [OF old] length_dict_set
        dict_get_SomeI [OF old])
qed

lemma rb_inv_release:
  assumes inv: "rb_inv b"
  shows "rb_inv (fst (rb_release b i))"
proof (cases "dict_get (rb_sizes b) i")
  case (Some n)
  have "0 \<le> n" by (rule rb_inv_sizes [OF inv Some])
  moreover have "\<forall>x \<in> set (dict_pop (rb_sizes b) i). 0 \<le> snd x"
    using set_dict_pop_subset [of "rb_sizes b" i] inv by (auto simp: rb_inv_def)
  ultimately show ?thesis
    using inv Some
    by (auto simp: rb_release_def rb_inv_def rb_count_def exceeds_def sum_dict_pop length_dict_pop
        split: option.splits)
qed (use inv in \<open>simp add: rb_release_def del: dict_get_None\<close>)

lemma rb_inv_clear: "rb_inv b \<Longrightarrow> rb_inv (rb_clear b)"
  by (auto simp: rb_clear_def rb_inv_def rb_count_def exceeds_def split: option.splits)

inductive rb_reachable :: "request_budget \<Rightarrow> bool" where
  rb_new: "make_request_budget mr mb = Inr b \<Longrightarrow> rb_reachable b"
| rb_reserved: "rb_reachable b \<Longrightarrow> rb_reserve b i = Inr b' \<Longrightarrow> rb_reachable b'"
| rb_sized: "rb_reachable b \<Longrightarrow> rb_set_size b i n = Inr b' \<Longrightarrow> rb_reachable b'"
| rb_released: "rb_reachable b \<Longrightarrow> rb_reachable (fst (rb_release b i))"
| rb_cleared: "rb_reachable b \<Longrightarrow> rb_reachable (rb_clear b)"

lemma rb_reachable_inv: "rb_reachable b \<Longrightarrow> rb_inv b"
  by (induction rule: rb_reachable.induct)
    (auto intro: rb_inv_make rb_inv_reserve rb_inv_set_size rb_inv_release rb_inv_clear)

text \<open>
  C7. Whatever sequence of reservations, size updates and releases (failed calls leave the budget
  unchanged) has run, the pending-request budget's total is the sum of the sizes it still holds, and
  neither the number of reserved requests nor that total exceeds its limit.
\<close>

theorem request_budget_never_exceeded:
  assumes "rb_reachable b"
  shows "rb_total_bytes b = sum_list (map snd (rb_sizes b)) \<and>
    \<not> exceeds (rb_max_requests b) (rb_count b) \<and> \<not> exceeds (rb_max_bytes b) (rb_total_bytes b)"
  using rb_reachable_inv [OF assms] unfolding rb_inv_def by blast

theorem request_budget_never_exceeded_witness:
  "\<not> exceeds (Some 10)
     (rb_total_bytes \<lparr>rb_max_requests = Some 1, rb_max_bytes = Some 10, rb_sizes = [(7, 4)],
        rb_total_bytes = 4\<rparr>)"
proof -
  let ?b = "\<lparr>rb_max_requests = Some 1, rb_max_bytes = Some 10, rb_sizes = [], rb_total_bytes = 0\<rparr>"
  have "rb_reachable ?b"
    by (rule rb_new [of "PInt 1" "PInt 10"])
      (simp add: make_request_budget_def)
  moreover have "rb_reserve ?b 7 = Inr (?b\<lparr>rb_sizes := [(7, 0)]\<rparr>)"
    by (simp add: rb_reserve_def rb_count_def)
  ultimately have "rb_reachable (?b\<lparr>rb_sizes := [(7, 0)]\<rparr>)" by (rule rb_reserved)
  then have "rb_reachable (?b\<lparr>rb_sizes := [(7, 4)], rb_total_bytes := 4\<rparr>)"
    by (rule rb_sized [where i = 7 and n = 4]) (simp add: rb_set_size_def exceeds_def)
  from request_budget_never_exceeded [OF this] show ?thesis by simp
qed

text \<open>
  The head-room reported for a reserved request is exact: setting its size succeeds precisely
  for the sizes from zero up to the reported number of bytes (any size when no limit is set).
\<close>

theorem remaining_bytes_exact:
  assumes "rb_remaining_bytes b i = Inr room"
  shows "(\<exists>b'. rb_set_size b i n = Inr b') \<longleftrightarrow> 0 \<le> n \<and> \<not> exceeds room n"
  using assms
  by (auto simp: rb_set_size_Inr rb_remaining_bytes_def exceeds_def simp del: dict_get_None
      split: option.splits)

theorem remaining_bytes_exact_witness:
  "(\<exists>b'. rb_set_size \<lparr>rb_max_requests = None, rb_max_bytes = Some 10, rb_sizes = [(7, 4), (8, 3)],
        rb_total_bytes = 7\<rparr> 8 6 = Inr b') \<and>
   \<not> (\<exists>b'. rb_set_size \<lparr>rb_max_requests = None, rb_max_bytes = Some 10, rb_sizes = [(7, 4), (8, 3)],
        rb_total_bytes = 7\<rparr> 8 7 = Inr b')"
proof -
  have room: "rb_remaining_bytes \<lparr>rb_max_requests = None, rb_max_bytes = Some 10,
      rb_sizes = [(7, 4), (8, 3)], rb_total_bytes = 7\<rparr> 8 = Inr (Some 6)"
    by (simp add: rb_remaining_bytes_def)
  show ?thesis unfolding remaining_bytes_exact [OF room] by (simp add: exceeds_def)
qed

section \<open>\<open>SyncDeadlineScheduler\<close>\<close>

text \<open>
  A heap entry is \<open>(deadline, token, request_id)\<close>. Starting the scheduler thread may succeed, fail
  before the thread exists, or raise after it has started; the caller of \<open>schedule\<close> supplies
  which. \<open>schedule\<close> returns the new state with whether the waiting thread was notified.
\<close>

type_synonym deadline_entry = "rat \<times> int \<times> int"

record scheduler =
  sd_heap :: "deadline_entry list"
  sd_active :: "(int \<times> int) list"
  sd_sequence :: int
  sd_closed :: bool
  sd_started :: bool

datatype thread_start = Thread_started | Thread_not_started | Thread_started_then_raised

definition COMPACT_MIN_STALE :: int where "COMPACT_MIN_STALE = 64"

definition make_scheduler :: scheduler where
  "make_scheduler =
     \<lparr>sd_heap = [], sd_active = [], sd_sequence = 0, sd_closed = False, sd_started = False\<rparr>"

definition entry_live :: "(int \<times> int) list \<Rightarrow> deadline_entry \<Rightarrow> bool" where
  "entry_live active e = (dict_get active (snd (snd e)) = Some (fst (snd e)))"

definition sd_compact :: "scheduler \<Rightarrow> scheduler" where
  "sd_compact s =
     (let active_count = int (length (sd_active s));
          stale_count = int (length (sd_heap s)) - active_count
      in if stale_count < COMPACT_MIN_STALE \<or> int (length (sd_heap s)) \<le> active_count * 2 then s
         else s\<lparr>sd_heap := sort (filter (entry_live (sd_active s)) (sd_heap s))\<rparr>)"

definition sd_schedule ::
    "scheduler \<Rightarrow> thread_start \<Rightarrow> int \<Rightarrow> rat \<Rightarrow> scheduler \<times> bool result" where
  "sd_schedule s start request_id deadline =
     (if sd_closed s then (s, Inl (RuntimeError ''request deadline scheduler is closed''))
      else
        let token = sd_sequence s + 1;
            previous_head = (case sd_heap s of [] \<Rightarrow> None | e # _ \<Rightarrow> Some (fst e));
            s = sd_compact (s\<lparr>sd_sequence := token,
                              sd_active := dict_set (sd_active s) request_id token,
                              sd_heap := insort (deadline, token, request_id) (sd_heap s)\<rparr>);
            notify = (case previous_head of None \<Rightarrow> True | Some h \<Rightarrow> deadline < h)
        in if sd_started s then (s, Inr notify)
           else (case start of
                   Thread_started \<Rightarrow> (s\<lparr>sd_started := True\<rparr>, Inr notify)
                 | Thread_started_then_raised \<Rightarrow>
                     (s\<lparr>sd_started := True\<rparr>, Inl (RuntimeError ''thread start raised''))
                 | Thread_not_started \<Rightarrow>
                     (s\<lparr>sd_active := (if dict_get (sd_active s) request_id = Some token
                                      then dict_pop (sd_active s) request_id else sd_active s),
                        sd_heap := sort (filter (\<lambda>e. fst (snd e) \<noteq> token) (sd_heap s))\<rparr>,
                      Inl (RuntimeError ''thread start raised''))))"

definition sd_cancel :: "scheduler \<Rightarrow> int \<Rightarrow> scheduler" where
  "sd_cancel s request_id = sd_compact (s\<lparr>sd_active := dict_pop (sd_active s) request_id\<rparr>)"

definition sd_close :: "scheduler \<Rightarrow> scheduler" where
  "sd_close s =
     (if sd_closed s then s else s\<lparr>sd_closed := True, sd_active := [], sd_heap := []\<rparr>)"

text \<open>
  One pass of the inner loop of \<open>_run\<close> at time \<open>now\<close>, up to the point where it leaves, waits on
  the condition, goes round again, or calls \<open>_on_expire\<close>.
\<close>

datatype sched_action = Stop | Wait | Wait_for rat | Again | Expire int

definition sd_prune :: "scheduler \<Rightarrow> scheduler" where
  "sd_prune s = s\<lparr>sd_heap := dropWhile (\<lambda>e. \<not> entry_live (sd_active s) e) (sd_heap s)\<rparr>"

definition sd_run_pass :: "rat \<Rightarrow> scheduler \<Rightarrow> scheduler \<times> sched_action" where
  "sd_run_pass now s =
     (if sd_closed s then (s, Stop)
      else
        let s = sd_prune s
        in case sd_heap s of
             [] \<Rightarrow> (s, Wait)
           | (deadline, token, candidate) # rest \<Rightarrow>
               let remaining = deadline - now in
               if remaining > 0 then (s, Wait_for remaining)
               else
                 let s = s\<lparr>sd_heap := rest\<rparr> in
                 if dict_get (sd_active s) candidate \<noteq> Some token then (s, Again)
                 else (s\<lparr>sd_active := dict_pop (sd_active s) candidate\<rparr>, Expire candidate))"

subsection \<open>Invariant\<close>

definition sd_inv :: "scheduler \<Rightarrow> bool" where
  "sd_inv s \<longleftrightarrow>
     sorted (sd_heap s) \<and> distinct (sd_heap s) \<and> inj_on (\<lambda>e. fst (snd e)) (set (sd_heap s)) \<and>
     distinct (map fst (sd_active s)) \<and>
     (\<forall>e \<in> set (sd_heap s). fst (snd e) \<le> sd_sequence s) \<and>
     (\<forall>x \<in> set (sd_active s). \<exists>d. (d, snd x, fst x) \<in> set (sd_heap s)) \<and>
     (sd_closed s \<longrightarrow> sd_heap s = [] \<and> sd_active s = [])"

definition live_deadline :: "scheduler \<Rightarrow> int \<rightharpoonup> rat" where
  "live_deadline s r =
     (case dict_get (sd_active s) r of
        None \<Rightarrow> None
      | Some t \<Rightarrow> map_option fst (find (\<lambda>e. fst (snd e) = t) (sd_heap s)))"

lemma map_eqI: "(\<And>k v. f k = Some v \<longleftrightarrow> g k = Some v) \<Longrightarrow> f = g"
  by (rule ext) (metis option.exhaust)

lemma sd_inv_D:
  assumes "sd_inv s"
  shows "sorted (sd_heap s)" "distinct (sd_heap s)" "inj_on (\<lambda>e. fst (snd e)) (set (sd_heap s))"
    "distinct (map fst (sd_active s))"
    "e \<in> set (sd_heap s) \<Longrightarrow> fst (snd e) \<le> sd_sequence s"
    "x \<in> set (sd_active s) \<Longrightarrow> \<exists>d. (d, snd x, fst x) \<in> set (sd_heap s)"
  using assms by (simp_all add: sd_inv_def)

lemma sd_token_unique:
  "sd_inv s \<Longrightarrow> (d, t, r) \<in> set (sd_heap s) \<Longrightarrow> (d', t, r') \<in> set (sd_heap s) \<Longrightarrow> d' = d \<and> r' = r"
  using inj_onD [OF sd_inv_D(3), of s "(d, t, r)" "(d', t, r')"] by auto

lemma live_deadline_iff:
  assumes inv: "sd_inv s"
  shows "live_deadline s r = Some d \<longleftrightarrow>
     (\<exists>t. dict_get (sd_active s) r = Some t \<and> (d, t, r) \<in> set (sd_heap s))"
proof (cases "dict_get (sd_active s) r")
  case None
  then show ?thesis by (simp add: live_deadline_def del: dict_get_None)
next
  case (Some t)
  obtain d0 where d0: "(d0, t, r) \<in> set (sd_heap s)"
    using sd_inv_D(6) [OF inv dict_get_SomeD [OF Some]] by auto
  then obtain e where e: "find (\<lambda>e. fst (snd e) = t) (sd_heap s) = Some e"
    by (cases "find (\<lambda>e. fst (snd e) = t) (sd_heap s)") (auto simp: find_None_iff)
  have mem: "e \<in> set (sd_heap s)" and tok: "fst (snd e) = t"
    using e by (auto simp: find_Some_iff)
  have ee: "e = (d0, t, r)"
    using sd_token_unique [OF inv d0, of "fst e" "snd (snd e)"] mem tok by (cases e) auto
  have "live_deadline s r = Some d0" using e Some ee by (simp add: live_deadline_def)
  with Some d0 show ?thesis using sd_token_unique [OF inv d0] by (metis option.inject)
qed

lemma sd_inv_subheap:
  assumes inv: "sd_inv s" and sub: "set h \<subseteq> set (sd_heap s)" and "sorted h" "distinct h"
    and act: "set act \<subseteq> set (sd_active s)" "distinct (map fst act)"
    and kept: "\<And>x. x \<in> set act \<Longrightarrow> \<exists>d. (d, snd x, fst x) \<in> set h"
    and c: "sd_closed s' = sd_closed s" "sd_sequence s' = sd_sequence s"
    and s': "sd_heap s' = h" "sd_active s' = act"
  shows "sd_inv s'"
proof -
  have "inj_on (\<lambda>e. fst (snd e)) (set h)"
    using sd_inv_D(3) [OF inv] sub by (rule inj_on_subset)
  moreover have "h = [] \<and> act = []" if "sd_closed s"
    using that inv sub act(1) by (simp add: sd_inv_def)
  moreover have "\<forall>e \<in> set h. fst (snd e) \<le> sd_sequence s"
    using sd_inv_D(5) [OF inv] sub by blast
  ultimately show ?thesis using assms(3,4) act(2) kept by (simp add: sd_inv_def c s')
qed

lemma entry_live_active:
  "distinct (map fst act) \<Longrightarrow> x \<in> set act \<Longrightarrow> entry_live act (d, snd x, fst x)"
  by (cases x) (simp add: entry_live_def dict_get_map_of)

lemma sd_compact_inv: "sd_inv s \<Longrightarrow> sd_inv (sd_compact s)"
proof (rule sd_inv_subheap [of s])
  fix x assume inv: "sd_inv s" and "x \<in> set (sd_active (sd_compact s))"
  then have x: "x \<in> set (sd_active s)" by (simp add: sd_compact_def Let_def split: if_splits)
  with sd_inv_D(6) [OF inv x] entry_live_active [OF sd_inv_D(4) [OF inv] x]
  show "\<exists>d. (d, snd x, fst x) \<in> set (sd_heap (sd_compact s))"
    by (auto simp: sd_compact_def Let_def)
qed (auto simp: sd_compact_def Let_def sd_inv_D distinct_filter)

lemma sd_compact_live:
  assumes inv: "sd_inv s"
  shows "live_deadline (sd_compact s) = live_deadline s"
proof
  fix r
  have "live_deadline (sd_compact s) r = Some d \<longleftrightarrow> live_deadline s r = Some d" for d
    unfolding live_deadline_iff [OF inv] live_deadline_iff [OF sd_compact_inv [OF inv]]
    by (auto simp: sd_compact_def Let_def entry_live_def)
  then show "live_deadline (sd_compact s) r = live_deadline s r"
    by (cases "live_deadline s r") (metis option.exhaust)+
qed

lemma sd_compact_bound:
  assumes inv: "sd_inv s"
  shows "length (sd_heap (sd_compact s)) \<le>
     max (2 * length (sd_active (sd_compact s))) (length (sd_active (sd_compact s)) + 63)"
proof (cases "int (length (sd_heap s)) - int (length (sd_active s)) < COMPACT_MIN_STALE \<or>
    int (length (sd_heap s)) \<le> int (length (sd_active s)) * 2")
  case True
  then show ?thesis by (auto simp: sd_compact_def Let_def COMPACT_MIN_STALE_def)
next
  case False
  let ?h = "filter (entry_live (sd_active s)) (sd_heap s)"
  have "(\<lambda>e. (snd (snd e), fst (snd e))) ` set ?h \<subseteq> set (sd_active s)"
    using dict_get_SomeD by (fastforce simp: entry_live_def)
  moreover have "inj_on (\<lambda>e. (snd (snd e), fst (snd e))) (set ?h)"
    using sd_inv_D(3) [OF inv] by (auto simp: inj_on_def)
  ultimately have "card (set ?h) \<le> card (set (sd_active s))"
    by (metis card_inj_on_le List.finite_set)
  also have "\<dots> \<le> length (sd_active s)" by (rule card_length)
  finally have "length ?h \<le> length (sd_active s)"
    using distinct_card [OF distinct_filter [OF sd_inv_D(2) [OF inv]]] by metis
  with False show ?thesis by (simp add: sd_compact_def Let_def)
qed

subsection \<open>Operations keep the invariant and act on the deadline map\<close>

lemma sd_active_tokens:
  "sd_inv s \<Longrightarrow> x \<in> set (sd_active s) \<Longrightarrow> snd x \<le> sd_sequence s"
  using sd_inv_D(5,6) by fastforce

definition sd_armed :: "scheduler \<Rightarrow> int \<Rightarrow> rat \<Rightarrow> scheduler" where
  "sd_armed s r d =
     s\<lparr>sd_sequence := sd_sequence s + 1, sd_active := dict_set (sd_active s) r (sd_sequence s + 1),
       sd_heap := insort (d, sd_sequence s + 1, r) (sd_heap s)\<rparr>"

lemma sd_armed_inv:
  assumes inv: "sd_inv s" and open_: "\<not> sd_closed s"
  shows "sd_inv (sd_armed s r d)"
proof -
  let ?t = "sd_sequence s + 1"
  have fresh: "fst (snd e) \<noteq> ?t" if "e \<in> set (sd_heap s)" for e
    using sd_inv_D(5) [OF inv that] by simp
  have "inj_on (\<lambda>e. fst (snd e)) (insert (d, ?t, r) (set (sd_heap s)))"
    using sd_inv_D(3) [OF inv] fresh unfolding inj_on_insert by fastforce
  moreover have "(d, ?t, r) \<notin> set (sd_heap s)" using fresh by force
  moreover have "\<exists>d'. (d', snd x, fst x) \<in> insert (d, ?t, r) (set (sd_heap s))"
    if x: "x \<in> set (dict_set (sd_active s) r ?t)" for x
    using sd_inv_D(6) [OF inv, of x] set_dict_set_subset [of "sd_active s" r ?t] x by fastforce
  moreover have "\<forall>e \<in> set (sd_heap s). fst (snd e) \<le> ?t" using sd_inv_D(5) [OF inv] by fastforce
  ultimately show ?thesis
    using open_ sd_inv_D(1,2,4) [OF inv]
    by (simp add: sd_inv_def sd_armed_def sorted_insort set_insort_key distinct_insort)
qed

lemma sd_armed_live:
  assumes inv: "sd_inv s" and open_: "\<not> sd_closed s"
  shows "live_deadline (sd_armed s r d) = (live_deadline s)(r \<mapsto> d)"
proof
  fix k
  have fresh: "(d', sd_sequence s + 1, k') \<notin> set (sd_heap s)" for d' k'
    using sd_inv_D(5) [OF inv, of "(d', sd_sequence s + 1, k')"] by auto
  have old: "t \<le> sd_sequence s" if "dict_get (sd_active s) k = Some t" for t
    using sd_active_tokens [OF inv dict_get_SomeD [OF that]] by simp
  have "live_deadline (sd_armed s r d) k = Some x \<longleftrightarrow> ((live_deadline s)(r \<mapsto> d)) k = Some x" for x
  proof (cases "k = r")
    case True
    then show ?thesis
      unfolding live_deadline_iff [OF sd_armed_inv [OF assms]]
      using fresh by (auto simp: sd_armed_def dict_get_set set_insort_key)
  next
    case False
    then show ?thesis
      unfolding live_deadline_iff [OF sd_armed_inv [OF assms]]
      by (auto simp: sd_armed_def dict_get_set set_insort_key live_deadline_iff [OF inv] dest: old)
  qed
  then show "live_deadline (sd_armed s r d) k = ((live_deadline s)(r \<mapsto> d)) k"
    by (metis option.exhaust)
qed

lemma sd_drop_inv:
  assumes inv: "sd_inv s"
  shows "sd_inv (s\<lparr>sd_active := dict_pop (sd_active s) r\<rparr>)"
  using sd_inv_D [OF inv] set_dict_pop_subset [of "sd_active s" r]
  by (intro sd_inv_subheap [OF inv, where act = "dict_pop (sd_active s) r" and h = "sd_heap s"]) auto

lemma sd_drop_live:
  assumes inv: "sd_inv s"
  shows "live_deadline (s\<lparr>sd_active := dict_pop (sd_active s) r\<rparr>) = (live_deadline s)(r := None)"
  by (rule ext) (simp add: live_deadline_def dict_get_pop [OF sd_inv_D(4) [OF inv]] cong: option.case_cong)

lemma sd_cancel_inv: "sd_inv s \<Longrightarrow> sd_inv (sd_cancel s r)"
  by (simp add: sd_cancel_def sd_compact_inv sd_drop_inv)

lemma sd_cancel_live: "sd_inv s \<Longrightarrow> live_deadline (sd_cancel s r) = (live_deadline s)(r := None)"
  by (simp add: sd_cancel_def sd_compact_live sd_drop_inv sd_drop_live)

lemma sd_close_inv: "sd_inv s \<Longrightarrow> sd_inv (sd_close s)"
  by (auto simp: sd_close_def sd_inv_def)

lemma sd_inv_started [simp]: "sd_inv (s\<lparr>sd_started := b\<rparr>) = sd_inv s"
  by (simp add: sd_inv_def)

lemma live_started [simp]: "live_deadline (s\<lparr>sd_started := b\<rparr>) = live_deadline s"
  by (rule ext) (simp add: live_deadline_def cong: option.case_cong)

lemma sd_schedule_armed:
  "\<not> sd_closed s \<Longrightarrow> sd_started s \<or> start = Thread_started \<Longrightarrow>
     sd_schedule s start r d =
       ((sd_compact (sd_armed s r d))\<lparr>sd_started := True\<rparr>,
        Inr (case sd_heap s of [] \<Rightarrow> True | e # _ \<Rightarrow> d < fst e))"
  by (cases s) (auto simp: sd_schedule_def Let_def sd_armed_def sd_compact_def split: list.split)

lemma sd_schedule_inv:
  assumes inv: "sd_inv s"
  shows "sd_inv (fst (sd_schedule s start r d))"
proof (cases "sd_closed s")
  case False
  let ?s = "sd_compact (sd_armed s r d)" and ?t = "sd_sequence s + 1"
  let ?act = "if dict_get (sd_active ?s) r = Some ?t then dict_pop (sd_active ?s) r else sd_active ?s"
  let ?h = "sort (filter (\<lambda>e. fst (snd e) \<noteq> ?t) (sd_heap ?s))"
  have s: "sd_inv ?s" by (intro sd_compact_inv sd_armed_inv assms False)
  have act: "sd_active ?s = dict_set (sd_active s) r ?t"
    by (simp add: sd_compact_def Let_def sd_armed_def)
  have "sd_inv (?s\<lparr>sd_active := ?act, sd_heap := ?h\<rparr>)"
  proof (rule sd_inv_subheap [OF s, where h = ?h and act = ?act])
    fix x assume x: "x \<in> set ?act"
    then have xs: "x \<in> set (sd_active ?s)" and "fst x \<noteq> r"
      using sd_inv_D(4) [OF s] by (auto simp: act dict_get_set set_dict_pop)
    then have "x \<in> set (sd_active s)"
      using set_dict_set_subset [of "sd_active s" r ?t] by (auto simp: act)
    then have "snd x \<noteq> ?t" using sd_active_tokens [OF inv] by fastforce
    with sd_inv_D(6) [OF s xs] show "\<exists>d. (d, snd x, fst x) \<in> set ?h" by auto
  qed (use sd_inv_D [OF s] set_dict_pop_subset [of "sd_active ?s" r] in \<open>auto simp: distinct_filter\<close>)
  with s False show ?thesis
    by (auto simp: sd_schedule_def Let_def sd_armed_def split: thread_start.split)
qed (simp add: sd_schedule_def inv)

text \<open>The thread's view: dropping stale heads changes no live deadline.\<close>

lemma sd_prune_inv:
  assumes inv: "sd_inv s"
  shows "sd_inv (sd_prune s)" and "live_deadline (sd_prune s) = live_deadline s"
proof -
  let ?s = "sd_prune s"
  let ?h = "dropWhile (\<lambda>e. \<not> entry_live (sd_active s) e) (sd_heap s)"
  have keep: "e \<in> set ?h \<longleftrightarrow> e \<in> set (sd_heap s)" if "entry_live (sd_active s) e" for e
    using that takeWhile_dropWhile_id [of "\<lambda>e. \<not> entry_live (sd_active s) e" "sd_heap s"]
      set_takeWhileD [of e "\<lambda>e. \<not> entry_live (sd_active s) e" "sd_heap s"]
    by (metis Un_iff set_append)
  have h: "sd_heap ?s = ?h" and a: "sd_active ?s = sd_active s" by (simp_all add: sd_prune_def)
  show inv': "sd_inv ?s"
  proof (rule sd_inv_subheap [OF inv, where h = ?h and act = "sd_active s"])
    fix x assume x: "x \<in> set (sd_active s)"
    with sd_inv_D(6) [OF inv x] entry_live_active [OF sd_inv_D(4) [OF inv] x]
    show "\<exists>d. (d, snd x, fst x) \<in> set ?h" by (auto simp: keep)
  qed (use sd_inv_D [OF inv] in
    \<open>auto simp: sd_prune_def intro: sorted_dropWhile distinct_dropWhile dest: set_dropWhileD\<close>)
  have "live_deadline ?s r = Some d \<longleftrightarrow> live_deadline s r = Some d" for r d
    unfolding live_deadline_iff [OF inv] live_deadline_iff [OF inv'] h a
    using keep [of "(d, t, r)" for t] by (auto simp: entry_live_def)
  then show "live_deadline ?s = live_deadline s" by (rule map_eqI)
qed

lemma sd_head_least:
  assumes inv: "sd_inv s" and head: "sd_heap s = (d, t, c) # rest" and "live_deadline s r = Some x"
  shows "d \<le> x"
proof -
  obtain t' where "(x, t', r) \<in> set (sd_heap s)"
    using assms by (auto simp: live_deadline_iff)
  then show ?thesis using sd_inv_D(1) [OF inv] by (auto simp: head less_eq_prod_def)
qed

lemma sd_run_pass_inv: "sd_inv s \<Longrightarrow> sd_inv (fst (sd_run_pass now s))"
proof -
  assume inv: "sd_inv s"
  let ?p = "sd_prune s"
  have p: "sd_inv ?p" by (rule sd_prune_inv(1) [OF inv])
  have popped: "sd_inv (?p\<lparr>sd_heap := rest, sd_active := dict_pop (sd_active ?p) c\<rparr>)"
    if h: "sd_heap ?p = (d, t, c) # rest" and live: "dict_get (sd_active ?p) c = Some t" for d t c rest
  proof (rule sd_inv_subheap [OF p, where h = rest and act = "dict_pop (sd_active ?p) c"])
    fix x assume "x \<in> set (dict_pop (sd_active ?p) c)"
    then have x: "x \<in> set (sd_active ?p)" and ne: "fst x \<noteq> c"
      using sd_inv_D(4) [OF p] by (auto simp: set_dict_pop)
    with sd_inv_D(6) [OF p x] show "\<exists>d. (d, snd x, fst x) \<in> set rest" by (auto simp: h)
  qed (use sd_inv_D [OF p] h set_dict_pop_subset [of "sd_active ?p" c] in auto)
  have head: "entry_live (sd_active ?p) (d, t, c)" if "sd_heap ?p = (d, t, c) # rest" for d t c rest
    using that hd_dropWhile [of "\<lambda>e. \<not> entry_live (sd_active s) e" "sd_heap s"]
    by (auto simp: sd_prune_def)
  show ?thesis
    using inv p popped head
    by (auto simp: sd_run_pass_def Let_def entry_live_def split: list.split)
qed

subsection \<open>The scheduler implements a map of deadlines\<close>

definition due_first :: "(int \<rightharpoonup> rat) \<Rightarrow> int \<Rightarrow> rat \<Rightarrow> bool" where
  "due_first m r d \<longleftrightarrow> m r = Some d \<and> (\<forall>r' d'. m r' = Some d' \<longrightarrow> d \<le> d')"

lemma sd_run_pass_spec:
  assumes inv: "sd_inv s" and open_: "\<not> sd_closed s"
  shows "case snd (sd_run_pass now s) of
      Stop \<Rightarrow> False
    | Again \<Rightarrow> False
    | Wait \<Rightarrow> live_deadline s = Map.empty \<and> live_deadline (fst (sd_run_pass now s)) = Map.empty
    | Wait_for w \<Rightarrow> (\<exists>r d. due_first (live_deadline s) r d \<and> now < d \<and> w = d - now) \<and>
        live_deadline (fst (sd_run_pass now s)) = live_deadline s
    | Expire r \<Rightarrow> (\<exists>d. due_first (live_deadline s) r d \<and> d \<le> now) \<and>
        live_deadline (fst (sd_run_pass now s)) = (live_deadline s)(r := None)"
proof -
  let ?p = "sd_prune s"
  note p = sd_prune_inv [OF inv]
  show ?thesis
  proof (cases "sd_heap ?p")
    case Nil
    have "live_deadline s r = None" for r
      using live_deadline_iff [OF p(1), of r] Nil p(2) by (cases "live_deadline s r") auto
    then have "live_deadline s = Map.empty" by blast
    with Nil open_ p(2) show ?thesis by (simp add: sd_run_pass_def)
  next
    case (Cons e rest)
    obtain d t c where e: "e = (d, t, c)" by (cases e)
    have hd: "sd_heap ?p = (d, t, c) # rest" using Cons e by simp
    then have live: "dict_get (sd_active ?p) c = Some t"
      using hd_dropWhile [of "\<lambda>e. \<not> entry_live (sd_active s) e" "sd_heap s"]
      by (auto simp: sd_prune_def entry_live_def)
    have least: "due_first (live_deadline s) c d"
      using live hd p sd_head_least [OF p(1) hd] live_deadline_iff [OF p(1), of c d]
      by (auto simp: due_first_def)
    show ?thesis
    proof (cases "d - now > 0")
      case True
      with hd open_ p(2) least show ?thesis by (auto simp: sd_run_pass_def Let_def)
    next
      case False
      let ?s = "?p\<lparr>sd_heap := rest, sd_active := dict_pop (sd_active ?p) c\<rparr>"
      have run: "sd_run_pass now s = (?s, Expire c)"
        using False hd open_ live by (simp add: sd_run_pass_def Let_def)
      have inv': "sd_inv ?s" using sd_run_pass_inv [OF inv, of now] run by simp
      have "live_deadline ?s r = Some x \<longleftrightarrow> ((live_deadline ?p)(c := None)) r = Some x" for r x
        unfolding live_deadline_iff [OF inv']
        by (auto simp: dict_get_pop [OF sd_inv_D(4) [OF p(1)]] live_deadline_iff [OF p(1)] hd)
      then have "live_deadline ?s = (live_deadline s)(c := None)" unfolding p(2) by (rule map_eqI)
      with least False show ?thesis unfolding run by auto
    qed
  qed
qed

inductive sd_reachable :: "scheduler \<Rightarrow> bool" where
  sd_new: "sd_reachable make_scheduler"
| sd_scheduled: "sd_reachable s \<Longrightarrow> sd_reachable (fst (sd_schedule s start r d))"
| sd_cancelled: "sd_reachable s \<Longrightarrow> sd_reachable (sd_cancel s r)"
| sd_closing: "sd_reachable s \<Longrightarrow> sd_reachable (sd_close s)"
| sd_passed: "sd_reachable s \<Longrightarrow> sd_reachable (fst (sd_run_pass now s))"

lemma sd_reachable_inv: "sd_reachable s \<Longrightarrow> sd_inv s"
proof (induction rule: sd_reachable.induct)
  case sd_new
  show ?case by (simp add: sd_inv_def make_scheduler_def)
qed (simp_all add: sd_schedule_inv sd_cancel_inv sd_close_inv sd_run_pass_inv)

text \<open>
  C8. In every state the deadline scheduler can reach, it implements a map from request ids to
  deadlines: scheduling sets the deadline of a request (replacing an earlier one), cancelling
  removes it, and a pass of the thread expires a request only when it is the earliest one and due,
  waits exactly until the earliest deadline otherwise, and waits indefinitely only when no request
  has a deadline.
\<close>

theorem scheduler_refines_deadline_map:
  assumes "sd_reachable s" and "\<not> sd_closed s"
  shows "(sd_started s \<or> start = Thread_started \<longrightarrow>
           live_deadline (fst (sd_schedule s start r d)) = (live_deadline s)(r \<mapsto> d)) \<and>
    live_deadline (sd_cancel s r) = (live_deadline s)(r := None) \<and>
    (case snd (sd_run_pass now s) of
        Stop \<Rightarrow> False
      | Again \<Rightarrow> False
      | Wait \<Rightarrow> live_deadline s = Map.empty \<and> live_deadline (fst (sd_run_pass now s)) = Map.empty
      | Wait_for w \<Rightarrow> (\<exists>r d. due_first (live_deadline s) r d \<and> now < d \<and> w = d - now) \<and>
          live_deadline (fst (sd_run_pass now s)) = live_deadline s
      | Expire r \<Rightarrow> (\<exists>d. due_first (live_deadline s) r d \<and> d \<le> now) \<and>
          live_deadline (fst (sd_run_pass now s)) = (live_deadline s)(r := None))"
proof -
  note inv = sd_reachable_inv [OF assms(1)]
  have "live_deadline (fst (sd_schedule s start r d)) = (live_deadline s)(r \<mapsto> d)"
    if "sd_started s \<or> start = Thread_started"
    unfolding sd_schedule_armed [OF assms(2) that]
    by (simp add: sd_compact_live sd_armed_inv [OF inv assms(2)] sd_armed_live [OF inv assms(2)])
  then show ?thesis
    using sd_cancel_live [OF inv] sd_run_pass_spec [OF inv assms(2), of now] by blast
qed

theorem scheduler_refines_deadline_map_witness:
  "snd (sd_run_pass 7 (fst (sd_schedule make_scheduler Thread_started 3 5))) = Expire 3 \<and>
   live_deadline (fst (sd_schedule make_scheduler Thread_started 3 5)) 3 = Some 5"
proof -
  have s: "fst (sd_schedule make_scheduler Thread_started 3 5) =
      \<lparr>sd_heap = [(5, 1, 3)], sd_active = [(3, 1)], sd_sequence = 1, sd_closed = False, sd_started = True\<rparr>"
    by (simp add: sd_schedule_def make_scheduler_def sd_compact_def COMPACT_MIN_STALE_def)
  show ?thesis
    using scheduler_refines_deadline_map [OF sd_new, of Thread_started 3 5 7]
    by (simp add: s) (simp add: make_scheduler_def sd_run_pass_def sd_prune_def entry_live_def live_deadline_def)
qed

text \<open>
  Cancelled entries are not retained in proportion to throughput: after every successful
  scheduling and every cancellation the heap holds at most twice the active requests, or at most
  63 stale entries.
\<close>

theorem scheduler_retention_bounded:
  assumes "sd_reachable s" and "\<not> sd_closed s"
  shows "(let s' = sd_cancel s r in
            length (sd_heap s') \<le> max (2 * length (sd_active s')) (length (sd_active s') + 63)) \<and>
         (let s' = fst (sd_schedule s Thread_started r d) in
            length (sd_heap s') \<le> max (2 * length (sd_active s')) (length (sd_active s') + 63))"
proof -
  note inv = sd_reachable_inv [OF assms(1)]
  have "fst (sd_schedule s Thread_started r d) = (sd_compact (sd_armed s r d))\<lparr>sd_started := True\<rparr>"
    using sd_schedule_armed [OF assms(2), of Thread_started r d] by simp
  then show ?thesis
    using sd_compact_bound [OF sd_drop_inv [OF inv, of r]]
      sd_compact_bound [OF sd_armed_inv [OF inv assms(2), of r d]]
    by (simp add: Let_def sd_cancel_def)
qed

theorem scheduler_retention_bounded_witness:
  "length (sd_heap (sd_cancel make_scheduler 1)) \<le> 63"
  using scheduler_retention_bounded [OF sd_new, of 1 0]
  by (simp add: Let_def make_scheduler_def sd_cancel_def sd_compact_def)

end
