(* ===== verification/Request_Body.thy ===== *)
theory Request_Body
  imports Pending_Requests
begin

text \<open>
  Request bodies and frames: the frame header of \<open>protocol_constants.py\<close>, the bounded body buffer
  and \<open>_encode_request_body\<close> of \<open>protocol_common.py\<close>, and the part of
  \<open>SyncProtocolTransportMixin._send\<close> that turns an admitted request into the frames handed to
  the socket. The zlib compressor is a parameter: its state, its \<open>compress\<close> and its \<open>flush\<close>.
\<close>

unbundle bit_operations_syntax

section \<open>The frame header\<close>

record frame_header =
  fh_magic :: bytes
  fh_version :: int
  fh_flags :: int
  fh_lane_id :: int
  fh_opcode :: int
  fh_request_id :: int
  fh_body_len :: int

definition MAGIC :: bytes where "MAGIC = bytes_lit ''FSNP''"
definition REQUEST_VERSION :: int where "REQUEST_VERSION = 0x01"
definition RESPONSE_VERSION :: int where "RESPONSE_VERSION = 0x81"
definition HEADER_SIZE :: nat where "HEADER_SIZE = 24"
definition FLAG_COMPRESSED :: int where "FLAG_COMPRESSED = 0x08"
definition OP_HELLO :: int where "OP_HELLO = 0x0001"
definition OP_STARTUP :: int where "OP_STARTUP = 0x000C"

text \<open>\<open>_HEADER.pack\<close> and \<open>_HEADER.unpack\<close> for the format \<open>>4sBBIHQI\<close>.\<close>

definition header_pack :: "frame_header \<Rightarrow> bytes result" where
  "header_pack h =
     and_then (pack_uint 1 (fh_version h)) (\<lambda>v.
     and_then (pack_uint 1 (fh_flags h)) (\<lambda>f.
     and_then (pack_u32 (fh_lane_id h)) (\<lambda>l.
     and_then (pack_uint 2 (fh_opcode h)) (\<lambda>oc.
     and_then (pack_u64 (fh_request_id h)) (\<lambda>r.
     and_then (pack_u32 (fh_body_len h)) (\<lambda>n.
       Inr (take 4 (fh_magic h @ replicate 4 0) @ v @ f @ l @ oc @ r @ n)))))))"

definition header_unpack :: "bytes \<Rightarrow> frame_header result" where
  "header_unpack b =
     (if length b \<noteq> HEADER_SIZE then Inl StructError
      else Inr \<lparr>fh_magic = bytes_slice b 0 4,
                fh_version = int (be_decode (bytes_slice b 4 1)),
                fh_flags = int (be_decode (bytes_slice b 5 1)),
                fh_lane_id = int (be_decode (bytes_slice b 6 4)),
                fh_opcode = int (be_decode (bytes_slice b 10 2)),
                fh_request_id = int (be_decode (bytes_slice b 12 8)),
                fh_body_len = int (be_decode (bytes_slice b 20 4))\<rparr>)"

definition header_ok :: "frame_header \<Rightarrow> bool" where
  "header_ok h \<longleftrightarrow>
     length (fh_magic h) = 4 \<and> 0 \<le> fh_version h \<and> fh_version h < 256 \<and>
     0 \<le> fh_flags h \<and> fh_flags h < 256 \<and> 0 \<le> fh_lane_id h \<and> fh_lane_id h < 2 ^ 32 \<and>
     0 \<le> fh_opcode h \<and> fh_opcode h < 2 ^ 16 \<and> 0 \<le> fh_request_id h \<and> fh_request_id h < 2 ^ 64 \<and>
     0 \<le> fh_body_len h \<and> fh_body_len h < 2 ^ 32"

lemma pack_uint_Inr: "pack_uint k n = Inr b \<longleftrightarrow> 0 \<le> n \<and> n < 256 ^ k \<and> b = be_encode k (nat n)"
  by (auto simp: pack_uint_def)

lemma be_decode_pack: "0 \<le> n \<Longrightarrow> n < 256 ^ k \<Longrightarrow> int (be_decode (be_encode k (nat n))) = n"
  by (simp add: be_decode_encode zmod_int nat_mod_distrib)

lemma header_pack_Inr:
  assumes "length (fh_magic h) = 4"
  shows "header_pack h = Inr b \<longleftrightarrow> header_ok h \<and>
     b = fh_magic h @ be_encode 1 (nat (fh_version h)) @ be_encode 1 (nat (fh_flags h)) @
         be_encode 4 (nat (fh_lane_id h)) @ be_encode 2 (nat (fh_opcode h)) @
         be_encode 8 (nat (fh_request_id h)) @ be_encode 4 (nat (fh_body_len h))"
  using assms
  by (auto simp: header_pack_def header_ok_def pack_u32_def pack_u64_def pack_uint_Inr)

lemma header_pack_length: "length (fh_magic h) = 4 \<Longrightarrow> header_pack h = Inr b \<Longrightarrow> length b = HEADER_SIZE"
  by (simp add: header_pack_Inr HEADER_SIZE_def)

lemma header_roundtrip_lemma:
  assumes "length (fh_magic h) = 4" and "header_pack h = Inr b"
  shows "header_unpack b = Inr h"
proof -
  have ok: "header_ok h" and b: "b = fh_magic h @ be_encode 1 (nat (fh_version h)) @
      be_encode 1 (nat (fh_flags h)) @ be_encode 4 (nat (fh_lane_id h)) @
      be_encode 2 (nat (fh_opcode h)) @ be_encode 8 (nat (fh_request_id h)) @
      be_encode 4 (nat (fh_body_len h))"
    using assms by (auto simp: header_pack_Inr)
  show ?thesis
    using ok
    by (cases h) (simp add: b header_unpack_def HEADER_SIZE_def header_ok_def bytes_slice_def
        be_decode_pack del: be_encode.simps)
qed

section \<open>Bounded request bodies\<close>

definition pending_request_capacity_error :: py_error where
  "pending_request_capacity_error =
     PendingRequestCapacityError ''protocol pending request bytes exceed max_pending_request_bytes''"

definition request_body_byte_limit :: "request_budget \<Rightarrow> int \<Rightarrow> int option result" where
  "request_body_byte_limit budget request_id =
     (case rb_remaining_bytes budget request_id of
        Inl KeyError \<Rightarrow> Inr None
      | Inl e \<Rightarrow> Inl e
      | Inr None \<Rightarrow> Inr None
      | Inr (Some remaining) \<Rightarrow>
          let body_limit = remaining - int HEADER_SIZE in
          if body_limit < 0 then Inl pending_request_capacity_error else Inr (Some body_limit))"

record body_buffer =
  bb_max_bytes :: "int option"
  bb_size :: int
  bb_stream :: bytes

definition make_body_buffer :: "int option \<Rightarrow> body_buffer" where
  "make_body_buffer max_bytes = \<lparr>bb_max_bytes = max_bytes, bb_size = 0, bb_stream = []\<rparr>"

definition body_write :: "body_buffer sink" where
  "body_write ob chunk =
     (let n = int (length chunk) in
      if (case bb_max_bytes ob of None \<Rightarrow> False | Some m \<Rightarrow> n > m - bb_size ob)
      then Inl pending_request_capacity_error
      else Inr (ob\<lparr>bb_stream := bb_stream ob @ chunk, bb_size := bb_size ob + n\<rparr>))"

definition body_finish :: "body_buffer \<Rightarrow> bytes" where
  "body_finish ob = bb_stream ob"

text \<open>
  A zlib compressor object: the fresh state, \<open>compress\<close> and \<open>flush\<close>.
\<close>

record 'z compressor =
  cz_new :: 'z
  cz_compress :: "'z \<Rightarrow> bytes \<Rightarrow> 'z \<times> bytes"
  cz_flush :: "'z \<Rightarrow> bytes"

definition COMPRESS_SLICE_BYTES :: nat where "COMPRESS_SLICE_BYTES = 64 * 1024"

fun body_slices :: "nat \<Rightarrow> bytes \<Rightarrow> bytes list" where
  "body_slices k view =
     (if k = 0 \<or> view = [] then [] else take k view # body_slices k (drop k view))"

declare body_slices.simps [simp del]

fun write_slices ::
    "'z compressor \<Rightarrow> body_buffer \<times> 'z \<Rightarrow> bytes list \<Rightarrow> (body_buffer \<times> 'z) result" where
  "write_slices zc (ob, z) [] = Inr (ob, z)"
| "write_slices zc (ob, z) (sl # sls) =
     (let (z', out) = cz_compress zc z sl in
      and_then (body_write ob out) (\<lambda>ob. write_slices zc (ob, z') sls))"

definition write_encoded :: "'z compressor \<Rightarrow> (body_buffer \<times> 'z) sink" where
  "write_encoded zc st chunk = write_slices zc st (body_slices COMPRESS_SLICE_BYTES chunk)"

definition encode_request_body ::
    "'z compressor \<Rightarrow> pyval \<Rightarrow> string \<Rightarrow> int option \<Rightarrow> (bytes \<times> bool) result" where
  "encode_request_body zc payload compression max_body_bytes =
     (case payload of
        PBytes b \<Rightarrow>
          if b = [] \<or> compression \<noteq> ''zlib'' then
            if exceeds max_body_bytes (int (length b)) then Inl pending_request_capacity_error
            else Inr (b, False)
          else
            and_then (write_encoded zc (make_body_buffer max_body_bytes, cz_new zc) b) (\<lambda>(ob, z).
            and_then (body_write ob (cz_flush zc z)) (\<lambda>ob. Inr (body_finish ob, True)))
      | _ \<Rightarrow>
          if compression \<noteq> ''zlib'' then
            and_then (encode_value_into payload body_write (make_body_buffer max_body_bytes) PNone)
              (\<lambda>ob. Inr (body_finish ob, False))
          else
            and_then (encode_value_into payload (write_encoded zc)
                        (make_body_buffer max_body_bytes, cz_new zc) PNone) (\<lambda>(ob, z).
            and_then (body_write ob (cz_flush zc z)) (\<lambda>ob. Inr (body_finish ob, True))))"

text \<open>The body buffer is a byte sink, so the encoder's exactness applies to streamed bodies.\<close>

interpretation body: byte_sink body_write
  by unfold_locales (auto simp: body_write_def Let_def split: option.split)

definition body_ok :: "body_buffer \<Rightarrow> bool" where
  "body_ok ob \<longleftrightarrow> bb_size ob = int (length (bb_stream ob)) \<and> \<not> exceeds (bb_max_bytes ob) (bb_size ob)"

lemma body_write_Inr:
  "body_write ob b = Inr ob' \<longleftrightarrow>
     \<not> exceeds (bb_max_bytes ob) (bb_size ob + int (length b)) \<and>
     ob' = ob\<lparr>bb_stream := bb_stream ob @ b, bb_size := bb_size ob + int (length b)\<rparr>"
  by (auto simp: body_write_def Let_def exceeds_def split: option.splits)

lemma body_writes_new:
  "writes body_write \<lparr>vw_sink = make_body_buffer m, vw_max_bytes = None, vw_size = 0\<rparr> b w' \<longleftrightarrow>
     \<not> exceeds m (int (length b)) \<and>
     w' = \<lparr>vw_sink = \<lparr>bb_max_bytes = m, bb_size = int (length b), bb_stream = b\<rparr>,
           vw_max_bytes = None, vw_size = int (length b)\<rparr>"
  by (auto simp: writes_def fits_def body_write_Inr make_body_buffer_def)

lemma encode_request_body_plain:
  assumes "compression \<noteq> ''zlib''" and "\<And>b. payload \<noteq> PBytes b" and "\<not> exceeds m 0"
  shows "encode_request_body zc payload compression m = Inr r \<longleftrightarrow>
     encodable payload 0 \<and> \<not> exceeds m (int (length (wire payload))) \<and> r = (wire payload, False)"
proof -
  have live: "writes body_write \<lparr>vw_sink = make_body_buffer m, vw_max_bytes = None, vw_size = 0\<rparr> []
      \<lparr>vw_sink = make_body_buffer m, vw_max_bytes = None, vw_size = 0\<rparr>"
    using assms(3) unfolding body_writes_new by (simp add: make_body_buffer_def)
  have "encode_value_into payload body_write (make_body_buffer m) PNone = Inr ob \<longleftrightarrow>
      encodable payload 0 \<and> \<not> exceeds m (int (length (wire payload))) \<and>
      ob = \<lparr>bb_max_bytes = m, bb_size = int (length (wire payload)), bb_stream = wire payload\<rparr>" for ob
    by (auto simp: encode_value_into_def body.write_value_iff [OF live] body_writes_new
        validate_optional_nonnegative_int_def)
  then show ?thesis
    using assms(1,2)
    by (cases payload) (auto simp: encode_request_body_def body_finish_def)
qed

section \<open>Compressed bodies\<close>

text \<open>
  The exact sequence of writes the encoder makes, for sinks (such as a compressor) whose behaviour
  may depend on how the bytes are cut.
\<close>

fun chunks :: "pyval \<Rightarrow> bytes list"
  and chunks_items :: "pyval list \<Rightarrow> bytes list"
  and chunks_entries :: "(pyval \<times> pyval) list \<Rightarrow> bytes list"
where
  "chunks (PInt n) = (if n \<le> I64_MAX then [[0x03], i64_bytes n] else [[0x08], u64_bytes (nat n)])"
| "chunks (PStr s) = [[0x04], u32_bytes (length (str_wire s)), str_wire s]"
| "chunks (PBytes b) = [[0x04], u32_bytes (length b), b]"
| "chunks (PByteArray b) = [[0x04], u32_bytes (length b), b]"
| "chunks (PList xs) = [0x05] # u32_bytes (length xs) # chunks_items xs"
| "chunks (PTuple xs) = [0x05] # u32_bytes (length xs) # chunks_items xs"
| "chunks (PDict d) = [0x06] # u32_bytes (length d) # chunks_entries d"
| "chunks (PFloat x) = [[0x07], pack_f64 x]"
| "chunks v = [wire v]"
| "chunks_items [] = []"
| "chunks_items (x # xs) = chunks x @ chunks_items xs"
| "chunks_entries [] = []"
| "chunks_entries ((k, x) # d) = u32_bytes (length (key_wire k)) # key_wire k # chunks x @ chunks_entries d"

lemma concat_chunks:
  "concat (chunks v) = wire v" "concat (chunks_items xs) = wire_items xs"
  "concat (chunks_entries d) = wire_entries d"
  by (induction v and xs and d rule: chunks_chunks_items_chunks_entries.induct)
    (simp_all add: int_wire_def binary_wire_def)

fun feed :: "'s sink \<Rightarrow> 's \<Rightarrow> bytes list \<Rightarrow> 's result" where
  "feed sink s [] = Inr s"
| "feed sink s (c # cs) = and_then (sink s c) (\<lambda>s. feed sink s cs)"

definition feeds :: "'s sink \<Rightarrow> 's value_writer \<Rightarrow> bytes list \<Rightarrow> 's value_writer \<Rightarrow> bool" where
  "feeds sink w cs w' \<longleftrightarrow>
     (\<exists>s. feed sink (vw_sink w) cs = Inr s \<and>
          w' = w\<lparr>vw_sink := s, vw_size := vw_size w + int (length (concat cs))\<rparr>)"

lemma feed_append: "feed sink s (a @ b) = and_then (feed sink s a) (\<lambda>s. feed sink s b)"
  by (induction a arbitrary: s) (simp_all add: and_then_assoc)

lemma feeds_append: "feeds sink w (a @ b) w' \<longleftrightarrow> (\<exists>v. feeds sink w a v \<and> feeds sink v b w')"
  by (cases "feed sink (vw_sink w) a") (auto simp: feeds_def feed_append)

lemma feeds_Nil [simp]: "feeds sink w [] w' \<longleftrightarrow> w' = w"
  by (auto simp: feeds_def)

lemma feeds_Cons: "feeds sink w (a # b) w' \<longleftrightarrow> (\<exists>v. feeds sink w [a] v \<and> feeds sink v b w')"
  using feeds_append [of sink w "[a]" b w'] by simp

lemma feeds_header:
  "feeds sink w (a # b # cs) w' \<longleftrightarrow> (\<exists>v. feeds sink w [a, b] v \<and> feeds sink v cs w')"
  using feeds_append [of sink w "[a, b]" cs w'] by simp

lemma writes_feeds:
  "vw_max_bytes w = None \<Longrightarrow> writes sink w b w' \<longleftrightarrow> feeds sink w [b] w'"
  by (auto simp: writes_def feeds_def fits_def)

lemma feeds_None: "feeds sink w cs w' \<Longrightarrow> vw_max_bytes w = None \<Longrightarrow> vw_max_bytes w' = None"
  by (auto simp: feeds_def)

lemma ex_feeds_cong:
  "vw_max_bytes w = None \<Longrightarrow> (\<And>v. vw_max_bytes v = None \<Longrightarrow> P v \<longleftrightarrow> Q v) \<Longrightarrow>
     (\<exists>v. feeds sink w cs v \<and> P v) \<longleftrightarrow> (\<exists>v. feeds sink w cs v \<and> Q v)"
  using feeds_None by blast

lemma ex_writes_feeds:
  "vw_max_bytes w = None \<Longrightarrow> (\<And>v. vw_max_bytes v = None \<Longrightarrow> P v \<longleftrightarrow> Q v) \<Longrightarrow>
     (\<exists>v. writes sink w b v \<and> P v) \<longleftrightarrow> (\<exists>v. feeds sink w [b] v \<and> Q v)"
  using feeds_None writes_feeds by metis

lemma writes_two:
  "vw_max_bytes w = None \<Longrightarrow>
     (\<exists>v. writes sink w a v \<and> writes sink v b w') \<longleftrightarrow> feeds sink w [a, b] w'"
  unfolding feeds_Cons [of sink w a "[b]"]
  using feeds_None [of sink w "[a]"] by (auto simp: writes_feeds)

lemma write_int_feeds:
  assumes w: "vw_max_bytes w = None"
  shows "write_int sink w n = Inr w' \<longleftrightarrow>
     I64_MIN \<le> n \<and> n \<le> U64_MAX \<and> feeds sink w (chunks (PInt n)) w'"
proof -
  have i: "pack_i64 n = Inr (i64_bytes n)" if "I64_MIN \<le> n" "n \<le> I64_MAX"
    using that by (simp add: pack_i64_def i64_bytes_def)
  have u: "pack_u64 n = Inr (u64_bytes (nat n))" if "I64_MAX < n" "n \<le> U64_MAX"
    using that by (simp add: pack_u64_def pack_uint_def u64_bytes_def int_limits)
  show ?thesis
    using w by (auto simp: write_int_def i u int_limits writes_two)
qed

lemma write_binary_feeds:
  assumes w: "vw_max_bytes w = None"
  shows "write_binary sink w b = Inr w' \<longleftrightarrow>
     small (length b) \<and> feeds sink w [[0x04], u32_bytes (length b), b] w'"
proof -
  have "(\<exists>v u. writes sink w x v \<and> writes sink v y u \<and> writes sink u z w') \<longleftrightarrow>
      feeds sink w [x, y, z] w'" for x y z
    unfolding feeds_Cons [of sink w x "[y, z]"] feeds_Cons [of sink _ y "[z]"]
    using w feeds_None by (metis writes_feeds)
  then show ?thesis unfolding write_binary_def and_then_eq_Inr vw_write_iff write_binary_length_iff by blast
qed

lemma write_str_feeds:
  assumes w: "vw_max_bytes w = None"
  shows "write_str sink w s = Inr w' \<longleftrightarrow>
     list_all (\<lambda>c. \<not> is_surrogate c) s \<and> small (length (str_wire s)) \<and> feeds sink w (chunks (PStr s)) w'"
proof (cases "utf8_encode s")
  case (Inl e)
  then show ?thesis
    using utf8_encode_str_wire [of s] w by (auto simp: write_str_def remaining_capacity_def)
next
  case (Inr b)
  then show ?thesis
    using utf8_encode_str_wire [of s b] w
    by (auto simp: write_str_def remaining_capacity_def write_binary_feeds)
qed

lemma write_header_feeds:
  assumes w: "vw_max_bytes w = None"
  shows "write_collection_header sink w tag n = Inr w' \<longleftrightarrow>
     small n \<and> feeds sink w [[tag], u32_bytes n] w'"
  using w by (auto simp: write_collection_header_def small_U32 small_def U32_MAX_def writes_two)

lemma write_value_feeds:
  "vw_max_bytes w = None \<Longrightarrow>
     write_value sink w v d = Inr w' \<longleftrightarrow> encodable v d \<and> feeds sink w (chunks v) w'"
  and write_items_feeds:
  "vw_max_bytes w = None \<Longrightarrow>
     write_items sink w xs d = Inr w' \<longleftrightarrow> encodable_items xs d \<and> feeds sink w (chunks_items xs) w'"
  and write_entries_feeds:
  "vw_max_bytes w = None \<Longrightarrow>
     write_entries sink w kvs keys d = Inr w' \<longleftrightarrow>
       encodable_entries kvs keys d \<and> feeds sink w (chunks_entries kvs) w'"
proof (induction v d and xs d and kvs keys d arbitrary: w w' and w w' and w w'
    rule: encodable_encodable_items_encodable_entries.induct)
  case (7 xs d)
  then show ?case
    by (auto simp: check_nesting_def write_header_feeds feeds_header [of sink _ _ _ "chunks_items _"] cong: ex_feeds_cong)
next
  case (8 xs d)
  then show ?case
    by (auto simp: check_nesting_def write_header_feeds feeds_header [of sink _ _ _ "chunks_items _"] cong: ex_feeds_cong)
next
  case (9 kvs d)
  then show ?case
    by (auto simp: check_nesting_def write_header_feeds feeds_header [of sink _ _ _ "chunks_entries _"] cong: ex_feeds_cong)
next
  case (14 x xs d)
  then show ?case
    by (cases "encodable x d"; simp add: feeds_append; auto cong: ex_feeds_cong)
next
  case (10 x d)
  then show ?case
    by (auto simp: check_nesting_def writes_two)
next
  case (16 k x kvs keys d)
  let ?n = "u32_bytes (length (key_wire k))"
  have head: "feeds sink w (chunks_entries ((k, x) # kvs)) w' \<longleftrightarrow>
      (\<exists>u v y. feeds sink w [?n] u \<and> feeds sink u [key_wire k] v \<and>
        feeds sink v (chunks x) y \<and> feeds sink y (chunks_entries kvs) w')"
  proof -
    have cs: "chunks_entries ((k, x) # kvs) = [?n, key_wire k] @ chunks x @ chunks_entries kvs" by simp
    show ?thesis
      unfolding cs feeds_append [of sink w] feeds_append [of sink _ "chunks x"]
        feeds_Cons [of sink w ?n "[key_wire k]"] by blast
  qed
  have step: "writes sink w ?n u \<and> writes sink u (key_wire k) v \<and> write_value sink v x d = Inr y \<and>
        write_entries sink y kvs (key_wire k # keys) d = Inr w' \<longleftrightarrow>
      encodable x d \<and> encodable_entries kvs (key_wire k # keys) d \<and>
        feeds sink w [?n] u \<and> feeds sink u [key_wire k] v \<and> feeds sink v (chunks x) y \<and>
        feeds sink y (chunks_entries kvs) w'"
    for u v y
    using "16.prems" "16.IH"(1) [of v y] "16.IH"(2) [of y w'] by (metis writes_feeds feeds_None)
  have "write_entries sink w ((k, x) # kvs) keys d = Inr w' \<longleftrightarrow>
      key_ok k \<and> key_wire k \<notin> set keys \<and> small (length (key_wire k)) \<and>
      (\<exists>u v y. writes sink w ?n u \<and> writes sink u (key_wire k) v \<and> write_value sink v x d = Inr y \<and>
        write_entries sink y kvs (key_wire k # keys) d = Inr w')"
    by (auto simp: key_bytes_iff)
  then show ?case unfolding head encodable_entries.simps step by blast
qed (auto simp: check_nesting_def write_int_feeds write_str_feeds write_binary_feeds writes_feeds)

fun cz_out :: "'z compressor \<Rightarrow> 'z \<Rightarrow> bytes list \<Rightarrow> 'z \<times> bytes" where
  "cz_out zc z [] = (z, [])"
| "cz_out zc z (c # cs) =
     (let (z', out) = cz_compress zc z c; (z'', outs) = cz_out zc z' cs in (z'', out @ outs))"

definition compressed :: "'z compressor \<Rightarrow> bytes list \<Rightarrow> bytes" where
  "compressed zc cs = (let (z, out) = cz_out zc (cz_new zc) cs in out @ cz_flush zc z)"

definition payload_slices :: "pyval \<Rightarrow> bytes list" where
  "payload_slices payload =
     (case payload of
        PBytes b \<Rightarrow> body_slices COMPRESS_SLICE_BYTES b
      | _ \<Rightarrow> concat (map (body_slices COMPRESS_SLICE_BYTES) (chunks payload)))"

definition payload_wire :: "pyval \<Rightarrow> bytes" where
  "payload_wire payload = (case payload of PBytes b \<Rightarrow> b | _ \<Rightarrow> wire payload)"

definition payload_encodable :: "pyval \<Rightarrow> bool" where
  "payload_encodable payload = (case payload of PBytes _ \<Rightarrow> True | _ \<Rightarrow> encodable payload 0)"

lemma concat_body_slices: "0 < k \<Longrightarrow> concat (body_slices k b) = b"
proof (induction k b rule: body_slices.induct)
  case (1 k view)
  then show ?case by (subst body_slices.simps) auto
qed

lemma concat_payload_slices: "concat (payload_slices payload) = payload_wire payload"
proof -
  have "concat (concat (map (body_slices COMPRESS_SLICE_BYTES) cs)) = concat cs" for cs
    by (induction cs) (simp_all add: concat_body_slices COMPRESS_SLICE_BYTES_def)
  then show ?thesis
    by (simp add: payload_slices_def payload_wire_def concat_chunks concat_body_slices
        COMPRESS_SLICE_BYTES_def del: chunks.simps wire.simps split: pyval.split)
qed

lemma cz_out_append:
  "cz_out zc z (a @ b) =
     (let (z', out) = cz_out zc z a; (z'', outs) = cz_out zc z' b in (z'', out @ outs))"
  by (induction a arbitrary: z) (simp_all add: split_def Let_def)

definition buffer_of :: "int option \<Rightarrow> bytes \<Rightarrow> body_buffer" where
  "buffer_of m b = \<lparr>bb_max_bytes = m, bb_size = int (length b), bb_stream = b\<rparr>"

lemma body_write_buffer:
  "body_write (buffer_of m b) c = Inr ob \<longleftrightarrow>
     \<not> exceeds m (int (length (b @ c))) \<and> ob = buffer_of m (b @ c)"
  by (auto simp: body_write_Inr buffer_of_def)

lemma body_finish_buffer [simp]: "body_finish (buffer_of m b) = b"
  by (simp add: body_finish_def buffer_of_def)

lemma exceeds_mono: "exceeds m n \<Longrightarrow> n \<le> k \<Longrightarrow> exceeds m k"
  by (auto simp: exceeds_def split: option.splits)

lemma write_slices_iff:
  "\<not> exceeds m (int (length b)) \<Longrightarrow>
   write_slices zc (buffer_of m b, z) sls = Inr r \<longleftrightarrow>
     \<not> exceeds m (int (length (b @ snd (cz_out zc z sls)))) \<and>
     r = (buffer_of m (b @ snd (cz_out zc z sls)), fst (cz_out zc z sls))"
proof (induction sls arbitrary: b z)
  case (Cons sl sls)
  obtain z' out where c: "cz_compress zc z sl = (z', out)" by fastforce
  obtain z'' outs where cs: "cz_out zc z' sls = (z'', outs)" by fastforce
  show ?case
  proof (cases "exceeds m (int (length (b @ out)))")
    case True
    then have "exceeds m (int (length (b @ out @ outs)))" by (rule exceeds_mono) simp
    with True c cs show ?thesis by (auto simp: body_write_buffer)
  next
    case False
    with c cs Cons.IH [of "b @ out" z'] show ?thesis by (auto simp: body_write_buffer)
  qed
qed auto

lemma feed_write_encoded:
  "feed (write_encoded zc) (buffer_of m b, z) cs =
     write_slices zc (buffer_of m b, z) (concat (map (body_slices COMPRESS_SLICE_BYTES) cs))"
proof -
  have app: "write_slices zc st (xs @ ys) = and_then (write_slices zc st xs) (\<lambda>st. write_slices zc st ys)"
    for st xs ys
  proof (induction xs arbitrary: st)
    case Nil
    show ?case by (cases st) simp
  next
    case (Cons sl xs)
    then show ?case
      by (cases st; cases "cz_compress zc (snd st) sl") (simp add: and_then_assoc)
  qed
  have "feed (write_encoded zc) st cs =
      write_slices zc st (concat (map (body_slices COMPRESS_SLICE_BYTES) cs))" for st
    by (induction cs arbitrary: st) (auto simp: write_encoded_def app)
  then show ?thesis .
qed

lemma encode_request_body_zlib:
  assumes "\<not> exceeds m 0" and "payload \<noteq> PBytes []"
  shows "encode_request_body zc payload ''zlib'' m = Inr r \<longleftrightarrow>
     payload_encodable payload \<and>
     \<not> exceeds m (int (length (compressed zc (payload_slices payload)))) \<and>
     r = (compressed zc (payload_slices payload), True)"
proof -
  let ?start = "(buffer_of m [], cz_new zc)"
  obtain z out where out: "cz_out zc (cz_new zc) (payload_slices payload) = (z, out)" by fastforce
  have new: "make_body_buffer m = buffer_of m []" by (simp add: make_body_buffer_def buffer_of_def)
  have start: "\<not> exceeds m (int (length ([] :: bytes)))" using assms(1) by simp
  note slices = write_slices_iff [OF start, of zc "cz_new zc" "payload_slices payload"]
  have fin: "and_then (write_slices zc ?start (payload_slices payload))
      (\<lambda>(ob, z). and_then (body_write ob (cz_flush zc z)) (\<lambda>ob. Inr (body_finish ob, True))) = Inr r \<longleftrightarrow>
      \<not> exceeds m (int (length (compressed zc (payload_slices payload)))) \<and>
      r = (compressed zc (payload_slices payload), True)"
  proof (cases "exceeds m (int (length out))")
    case True
    then have "exceeds m (int (length (out @ cz_flush zc z)))" by (rule exceeds_mono) simp
    with True slices out show ?thesis by (auto simp: compressed_def)
  next
    case False
    then have "write_slices zc ?start (payload_slices payload) = Inr (buffer_of m out, z)"
      using slices out by auto
    then show ?thesis
      using out by (auto simp: compressed_def body_write_buffer body_finish_buffer)
  qed
  show ?thesis
  proof (cases "\<exists>b. payload = PBytes b")
    case True
    then show ?thesis
      using assms(2) fin
      by (auto simp: encode_request_body_def write_encoded_def new payload_slices_def payload_encodable_def)
  next
    case False
    let ?w = "\<lparr>vw_sink = ?start, vw_max_bytes = None, vw_size = 0\<rparr>"
    have sl: "payload_slices payload = concat (map (body_slices COMPRESS_SLICE_BYTES) (chunks payload))"
      using False by (cases payload) (auto simp: payload_slices_def)
    have enc: "encode_value_into payload (write_encoded zc) ?start PNone = Inr st \<longleftrightarrow>
        encodable payload 0 \<and> write_slices zc ?start (payload_slices payload) = Inr st" for st
      by (cases st) (auto simp: encode_value_into_def validate_optional_nonnegative_int_def
          write_value_feeds feeds_def feed_write_encoded sl)
    have eq: "encode_request_body zc payload ''zlib'' m = and_then
        (encode_value_into payload (write_encoded zc) ?start PNone)
        (\<lambda>(ob, z). and_then (body_write ob (cz_flush zc z)) (\<lambda>ob. Inr (body_finish ob, True)))"
      using False by (cases payload) (auto simp: encode_request_body_def new)
    have ok: "payload_encodable payload = encodable payload 0"
      using False by (cases payload) (auto simp: payload_encodable_def)
    show ?thesis
      unfolding eq and_then_eq_Inr [of "encode_value_into _ _ _ _"] enc ok
      using fin unfolding and_then_eq_Inr [of "write_slices _ _ _"] by (simp only: conj_assoc) simp
  qed
qed

lemma encode_request_body_iff:
  assumes "\<not> exceeds m 0"
  shows "encode_request_body zc payload compression m = Inr (body, c) \<longleftrightarrow>
     payload_encodable payload \<and> \<not> exceeds m (int (length body)) \<and>
     c = (compression = ''zlib'' \<and> payload \<noteq> PBytes []) \<and>
     body = (if c then compressed zc (payload_slices payload) else payload_wire payload)"
proof (cases "compression = ''zlib'' \<and> payload \<noteq> PBytes []")
  case True
  then show ?thesis using encode_request_body_zlib [OF assms, of payload zc "(body, c)"] by auto
next
  case False
  show ?thesis
  proof (cases "\<exists>b. payload = PBytes b")
    case True
    with False show ?thesis
      by (auto simp: encode_request_body_def payload_encodable_def payload_wire_def split: if_splits)
  next
    case nb: False
    then have plain: "compression \<noteq> ''zlib''" using False by blast
    have "payload_encodable payload = encodable payload 0" "payload_wire payload = wire payload"
      using nb by (cases payload; auto simp: payload_encodable_def payload_wire_def)+
    then show ?thesis
      using encode_request_body_plain [OF plain _ assms, of payload zc "(body, c)"] nb plain by auto
  qed
qed

section \<open>Sending a request\<close>

definition as_ferricstore_error :: "'a result \<Rightarrow> 'a result" where
  "as_ferricstore_error r =
     (case r of Inl (PendingRequestCapacityError m) \<Rightarrow> Inl (FerricStoreError m) | _ \<Rightarrow> r)"

text \<open>\<open>SyncPendingRequestRegistry.body_limit\<close>, \<open>encode_body\<close> and \<open>set_size\<close>.\<close>

definition reg_encode_body ::
    "'z compressor \<Rightarrow> request_budget \<Rightarrow> int \<Rightarrow> pyval \<Rightarrow> string \<Rightarrow> (bytes \<times> bool) result" where
  "reg_encode_body zc budget request_id payload compression =
     as_ferricstore_error
       (and_then (request_body_byte_limit budget request_id) (\<lambda>limit.
          encode_request_body zc payload compression limit))"

definition reg_set_size :: "request_budget \<Rightarrow> int \<Rightarrow> int \<Rightarrow> request_budget result" where
  "reg_set_size budget request_id n =
     (case rb_set_size budget request_id n of
        Inl (PendingRequestCapacityError m) \<Rightarrow> Inl (FerricStoreError m)
      | Inl KeyError \<Rightarrow> Inl (FerricStoreError ''protocol request timed out'')
      | r \<Rightarrow> r)"

definition UNAUTHENTICATED_MAX_FRAME_BYTES :: nat where
  "UNAUTHENTICATED_MAX_FRAME_BYTES = 64 * 1024"

definition validate_unauthenticated_request_size :: "bool \<Rightarrow> bool \<Rightarrow> nat \<Rightarrow> unit result" where
  "validate_unauthenticated_request_size auth_required authenticated body_bytes =
     (if auth_required \<and> \<not> authenticated \<and> body_bytes > UNAUTHENTICATED_MAX_FRAME_BYTES
      then Inl (FerricStoreError
        ''authenticate before submitting requests larger than the unauthenticated 64 KiB limit'')
      else Inr ())"

text \<open>
  The part of \<open>_send\<close> before the socket write: the compression in force, the body, the header,
  the final accounting, and the buffers passed to \<open>send_frames\<close>.
\<close>

definition prepare_frames ::
    "'z compressor \<Rightarrow> request_budget \<Rightarrow> bool \<Rightarrow> bool \<Rightarrow> string \<Rightarrow> int \<Rightarrow> int \<Rightarrow> int \<Rightarrow> pyval \<Rightarrow> int \<Rightarrow>
      (request_budget \<times> bytes list) result" where
  "prepare_frames zc budget auth_required authenticated compression opcode lane_id request_id
       payload extra_flags =
     and_then
       (reg_encode_body zc budget request_id payload
          (if opcode = OP_HELLO \<or> opcode = OP_STARTUP \<or> (auth_required \<and> \<not> authenticated)
           then ''none'' else compression)) (\<lambda>(body, compressed).
     and_then (validate_unauthenticated_request_size auth_required authenticated (length body)) (\<lambda>_.
     let flags = (if compressed then extra_flags OR FLAG_COMPRESSED else extra_flags) in
     and_then
       (header_pack \<lparr>fh_magic = MAGIC, fh_version = REQUEST_VERSION, fh_flags = flags,
          fh_lane_id = lane_id, fh_opcode = opcode, fh_request_id = request_id,
          fh_body_len = int (length body)\<rparr>) (\<lambda>header.
     and_then (reg_set_size budget request_id (int (length header) + int (length body))) (\<lambda>budget'.
       Inr (budget', frame_parts header body)))))"

definition next_request_id :: "int \<Rightarrow> int" where
  "next_request_id request_id =
     (let r = (request_id + 1) AND 0xFFFFFFFFFFFFFFFF in if r = 0 then 1 else r)"

definition next_protocol_lane :: "int option \<Rightarrow> int \<Rightarrow> int \<Rightarrow> int \<Rightarrow> int \<times> int" where
  "next_protocol_lane fixed_lane_id lanes lane_cursor lane_id =
     (if lane_id = 0 then (lane_cursor, lane_id)
      else case fixed_lane_id of
        Some l \<Rightarrow> (lane_cursor, l)
      | None \<Rightarrow>
          if lanes = 1 then (lane_cursor, lane_id)
          else let c = lane_cursor mod lanes + 1 in (c, c))"

lemma request_body_byte_limit_Inr:
  assumes "request_body_byte_limit b i = Inr limit" and "dict_get (rb_sizes b) i = Some old"
  shows "(limit = None \<and> rb_remaining_bytes b i = Inr None) \<or>
    (\<exists>k. limit = Some k \<and> 0 \<le> k \<and> rb_remaining_bytes b i = Inr (Some (k + int HEADER_SIZE)))"
  using assms
  by (auto simp: request_body_byte_limit_def rb_remaining_bytes_def Let_def
      split: option.splits if_splits)

lemma limit_nonneg:
  "request_body_byte_limit b i = Inr limit \<Longrightarrow> \<not> exceeds limit 0"
  by (auto simp: request_body_byte_limit_def exceeds_def Let_def split: sum.splits option.splits
      if_splits py_error.splits)

lemma as_ferricstore_error_Inr [simp]: "as_ferricstore_error r = Inr x \<longleftrightarrow> r = Inr x"
  by (auto simp: as_ferricstore_error_def split: sum.splits py_error.splits)

lemma reg_set_size_Inr [simp]: "reg_set_size b i n = Inr b' \<longleftrightarrow> rb_set_size b i n = Inr b'"
  by (auto simp: reg_set_size_def split: sum.splits py_error.splits)

lemma rb_set_size_room:
  assumes "rb_remaining_bytes b i = Inr room" and "0 \<le> n" and "\<not> exceeds room n"
  shows "\<exists>b'. rb_set_size b i n = Inr b'"
  using assms
  by (auto simp: rb_set_size_Inr rb_remaining_bytes_def exceeds_def simp del: dict_get_None
      split: option.splits)

lemma reg_encode_body_room:
  assumes "dict_get (rb_sizes b) i = Some old"
    and "reg_encode_body zc b i payload compression = Inr (body, c)"
  shows "\<exists>b'. rb_set_size b i (int HEADER_SIZE + int (length body)) = Inr b'"
proof -
  obtain limit where lim: "request_body_byte_limit b i = Inr limit"
    and enc: "encode_request_body zc payload compression limit = Inr (body, c)"
    using assms(2) by (auto simp: reg_encode_body_def)
  have fit: "\<not> exceeds limit (int (length body))"
    using enc unfolding encode_request_body_iff [OF limit_nonneg [OF lim]] by blast
  show ?thesis
    using request_body_byte_limit_Inr [OF lim assms(1)] fit
    by (auto intro!: rb_set_size_room simp: exceeds_def)
qed

lemma frame_parts_concat [simp]: "concat (frame_parts header body) = header @ body"
  by (simp add: frame_parts_def)

lemma length_MAGIC [simp]: "length MAGIC = 4"
  by (simp add: MAGIC_def bytes_lit_def)

text \<open>
  C9. A request body is produced exactly when the payload can be encoded and the bytes to be sent
  fit the limit: raw bytes go out unchanged, other payloads as their wire encoding, and with zlib
  the compressor's complete output over the payload cut in slices of at most 64 KiB, whether the body
  was streamed or not.
\<close>

theorem request_body_exact:
  assumes "\<not> exceeds m 0"
  shows "encode_request_body zc payload compression m = Inr (body, c) \<longleftrightarrow>
     payload_encodable payload \<and> \<not> exceeds m (int (length body)) \<and>
     c = (compression = ''zlib'' \<and> payload \<noteq> PBytes []) \<and>
     body = (if c then compressed zc (payload_slices payload) else payload_wire payload)"
  by (rule encode_request_body_iff [OF assms])

definition stored_blocks :: "unit compressor" where
  "stored_blocks = \<lparr>cz_new = (), cz_compress = (\<lambda>z b. (z, b)), cz_flush = (\<lambda>_. [0xFF])\<rparr>"

theorem request_body_exact_witness:
  "encode_request_body stored_blocks (PList [PBool True]) ''none'' (Some 6) =
     Inr (0x05 # u32_bytes 1 @ [0x01], False) \<and>
   encode_request_body stored_blocks (PList [PBool True]) ''none'' (Some 5) \<noteq>
     Inr (0x05 # u32_bytes 1 @ [0x01], False)"
proof -
  have w: "payload_wire (PList [PBool True]) = 0x05 # u32_bytes 1 @ [0x01]"
    by (simp add: payload_wire_def)
  show ?thesis
    using request_body_exact [of "Some 6" stored_blocks "PList [PBool True]" "''none''"
        "payload_wire (PList [PBool True])" False]
      request_body_exact [of "Some 5" stored_blocks "PList [PBool True]" "''none''"
        "payload_wire (PList [PBool True])" False]
    by (simp add: w payload_encodable_def exceeds_def small_def MAX_VALUE_NESTING_def)
qed

text \<open>
  If decompressing everything a zlib compressor emitted (its outputs and its final flush) gives
  back what was fed to it, then the receiver of a compressed request recovers exactly the payload's
  wire bytes.
\<close>

theorem compressed_request_recovers:
  assumes zlib: "\<And>cs. inflate (compressed zc cs) = Some (concat cs)"
    and "\<not> exceeds m 0"
    and "encode_request_body zc payload compression m = Inr (body, True)"
  shows "inflate body = Some (payload_wire payload)"
  using assms(3) zlib [of "payload_slices payload"]
  unfolding encode_request_body_iff [OF assms(2)] by (auto simp: concat_payload_slices)

theorem compressed_request_recovers_witness:
  "Some (butlast (compressed stored_blocks [[1, 2]])) = Some (payload_wire (PBytes [1, 2]))"
proof -
  have out: "cz_out stored_blocks () cs = ((), concat cs)" for cs
    by (induction cs) (simp_all add: stored_blocks_def)
  have "compressed stored_blocks cs = concat cs @ [0xFF]" for cs
    using out [of cs] by (simp add: compressed_def) (simp add: stored_blocks_def)
  then have zlib: "(\<lambda>b. Some (butlast b)) (compressed stored_blocks cs) = Some (concat cs)" for cs
    by simp
  have sl: "payload_slices (PBytes [1, 2]) = [[1, 2]]"
    by (simp add: payload_slices_def COMPRESS_SLICE_BYTES_def body_slices.simps)
  have "encode_request_body stored_blocks (PBytes [1, 2]) ''zlib'' None =
      Inr (compressed stored_blocks [[1, 2]], True)"
    using encode_request_body_iff [of None stored_blocks "PBytes [1, 2]" "''zlib''"
        "compressed stored_blocks [[1, 2]]" True]
    by (simp add: exceeds_def payload_encodable_def sl)
  from compressed_request_recovers [of "\<lambda>b. Some (butlast b)" stored_blocks None, OF zlib _ this]
  show ?thesis by (simp add: exceeds_def)
qed

text \<open>
  A body that was produced under the head-room of its reservation is always accounted: the
  final size update, header included, cannot fail, so no encoded request is dropped for capacity.
\<close>

theorem admitted_body_is_accounted:
  assumes "dict_get (rb_sizes b) i = Some old"
    and "reg_encode_body zc b i payload compression = Inr (body, c)"
  shows "\<exists>b'. reg_set_size b i (int HEADER_SIZE + int (length body)) = Inr b'"
  using reg_encode_body_room [OF assms] by simp

theorem admitted_body_is_accounted_witness:
  "\<exists>b'. reg_set_size \<lparr>rb_max_requests = None, rb_max_bytes = Some 33, rb_sizes = [(1, 0)],
      rb_total_bytes = 0\<rparr> 1 (int HEADER_SIZE + 9) = Inr b'"
proof -
  let ?b = "\<lparr>rb_max_requests = None, rb_max_bytes = Some 33, rb_sizes = [(1, 0)], rb_total_bytes = 0\<rparr>"
  have lim: "request_body_byte_limit ?b 1 = Inr (Some 9)"
    by (simp add: request_body_byte_limit_def rb_remaining_bytes_def HEADER_SIZE_def)
  have len: "length (payload_wire (PInt 7)) = 9"
    by (simp add: payload_wire_def)
  have "reg_encode_body stored_blocks ?b 1 (PInt 7) ''none'' = Inr (payload_wire (PInt 7), False)"
    using encode_request_body_iff [of "Some 9" stored_blocks "PInt 7" "''none''" "payload_wire (PInt 7)" False]
    by (simp add: reg_encode_body_def lim len payload_encodable_def exceeds_def int_limits
        MAX_VALUE_NESTING_def)
  from admitted_body_is_accounted [OF _ this] show ?thesis by (simp add: len)
qed

text \<open>
  C10. The buffers handed to the socket for a request are, concatenated, one frame: the first 24
  bytes unpack to the request's lane, opcode, id and flags with the length of the rest, and the
  rest is the body. \<open>HELLO\<close>, \<open>STARTUP\<close> and everything before authentication go out uncompressed,
  and before authentication no body exceeds 64 KiB.
\<close>

theorem request_frame_roundtrip:
  assumes "prepare_frames zc b auth_required authenticated compression opcode lane_id request_id
      payload extra_flags = Inr (b', parts)"
  shows "\<exists>flags body c.
    header_unpack (take HEADER_SIZE (concat parts)) =
      Inr \<lparr>fh_magic = MAGIC, fh_version = REQUEST_VERSION, fh_flags = flags, fh_lane_id = lane_id,
           fh_opcode = opcode, fh_request_id = request_id, fh_body_len = int (length body)\<rparr> \<and>
    drop HEADER_SIZE (concat parts) = body \<and>
    flags = (if c then extra_flags OR FLAG_COMPRESSED else extra_flags) \<and>
    body = (if c then compressed zc (payload_slices payload) else payload_wire payload) \<and>
    c = (compression = ''zlib'' \<and> payload \<noteq> PBytes [] \<and>
         \<not> (opcode = OP_HELLO \<or> opcode = OP_STARTUP \<or> auth_required \<and> \<not> authenticated)) \<and>
    (auth_required \<and> \<not> authenticated \<longrightarrow> length body \<le> UNAUTHENTICATED_MAX_FRAME_BYTES)"
proof -
  let ?plain = "opcode = OP_HELLO \<or> opcode = OP_STARTUP \<or> auth_required \<and> \<not> authenticated"
  let ?comp = "if ?plain then ''none'' else compression"
  obtain body c header where enc: "reg_encode_body zc b request_id payload ?comp = Inr (body, c)"
    and small_: "auth_required \<and> \<not> authenticated \<longrightarrow> length body \<le> UNAUTHENTICATED_MAX_FRAME_BYTES"
    and hdr: "header_pack \<lparr>fh_magic = MAGIC, fh_version = REQUEST_VERSION,
        fh_flags = (if c then extra_flags OR FLAG_COMPRESSED else extra_flags),
        fh_lane_id = lane_id, fh_opcode = opcode, fh_request_id = request_id,
        fh_body_len = int (length body)\<rparr> = Inr header"
    and parts: "parts = frame_parts header body"
    using assms
    by (auto simp: prepare_frames_def validate_unauthenticated_request_size_def Let_def
        split: if_splits)
  obtain limit where lim: "request_body_byte_limit b request_id = Inr limit"
    and body: "encode_request_body zc payload ?comp limit = Inr (body, c)"
    using enc by (auto simp: reg_encode_body_def)
  note b = body [unfolded encode_request_body_iff [OF limit_nonneg [OF lim]]]
  have len: "length header = HEADER_SIZE" using header_pack_length [OF _ hdr] by simp
  show ?thesis
    using header_roundtrip_lemma [OF _ hdr] b small_ len
    by (intro exI [of _ "if c then extra_flags OR FLAG_COMPRESSED else extra_flags"] exI [of _ body]
        exI [of _ c]) (auto simp: parts)
qed

theorem request_frame_roundtrip_witness:
  "\<exists>b' parts. prepare_frames stored_blocks
     \<lparr>rb_max_requests = None, rb_max_bytes = None, rb_sizes = [(1, 0)], rb_total_bytes = 0\<rparr>
     False False ''none'' 0x0101 1 1 (PBytes [7]) 0 = Inr (b', parts) \<and>
   drop HEADER_SIZE (concat parts) = [7]"
proof -
  let ?b = "\<lparr>rb_max_requests = None, rb_max_bytes = None, rb_sizes = [(1, 0)], rb_total_bytes = 0\<rparr>"
  let ?h = "\<lparr>fh_magic = MAGIC, fh_version = REQUEST_VERSION, fh_flags = 0, fh_lane_id = 1,
      fh_opcode = 0x0101, fh_request_id = 1, fh_body_len = 1\<rparr>"
  obtain header where h: "header_pack ?h = Inr header"
    using header_pack_Inr [of ?h] by (auto simp: header_ok_def REQUEST_VERSION_def)
  have run: "\<exists>b' parts. prepare_frames stored_blocks ?b False False ''none'' 0x0101 1 1 (PBytes [7]) 0 =
      Inr (b', parts)"
    by (simp add: prepare_frames_def reg_encode_body_def request_body_byte_limit_def
        rb_remaining_bytes_def encode_request_body_def exceeds_def
        validate_unauthenticated_request_size_def h rb_set_size_def as_ferricstore_error_def)
  then obtain b' parts where r: "prepare_frames stored_blocks ?b False False ''none'' 0x0101 1 1
      (PBytes [7]) 0 = Inr (b', parts)" by blast
  have "drop HEADER_SIZE (concat parts) = [7]"
    using request_frame_roundtrip [OF r] r
    by (auto simp: prepare_frames_def reg_encode_body_def request_body_byte_limit_def
        rb_remaining_bytes_def encode_request_body_def exceeds_def payload_wire_def
        validate_unauthenticated_request_size_def as_ferricstore_error_def)
  with r show ?thesis by blast
qed

lemma next_request_id_step:
  assumes "0 \<le> r" and "r < 2 ^ 64"
  shows "next_request_id r = (if r = 2 ^ 64 - 1 then 1 else r + 1)"
proof -
  have "(r + 1) AND 0xFFFFFFFFFFFFFFFF = take_bit 64 (r + 1)"
    by (simp add: take_bit_eq_mask mask_eq_exp_minus_1)
  then have "next_request_id r = (if (r + 1) mod 2 ^ 64 = 0 then 1 else (r + 1) mod 2 ^ 64)"
    by (simp add: next_request_id_def take_bit_eq_mod)
  with assms show ?thesis by (cases "r = 2 ^ 64 - 1") auto
qed

lemma next_request_id_iter:
  "(next_request_id ^^ Suc n) 0 = int n mod (2 ^ 64 - 1) + 1"
proof (induction n)
  case 0
  show ?case by (simp add: next_request_id_step)
next
  case (Suc n)
  let ?M = "2 ^ 64 - 1 :: int"
  define k where "k = int n mod ?M"
  have k: "0 \<le> k" "k < ?M" by (simp_all add: k_def)
  have "(next_request_id ^^ Suc (Suc n)) 0 = next_request_id (k + 1)"
    using Suc by (simp add: k_def)
  also have "\<dots> = (if k + 1 = ?M then 0 else k + 1) + 1"
    using k by (subst next_request_id_step) auto
  also have "(if k + 1 = ?M then 0 else k + 1) = (k + 1) mod ?M"
    using k by simp
  also have "\<dots> = int (Suc n) mod ?M"
    by (simp add: k_def mod_simps add.commute)
  finally show ?case .
qed

text \<open>
  Starting from a fresh connection, the request ids are \<open>1, 2, 3, ...\<close>: never 0 (the id of
  events), always 64-bit, and two ids of the sequence are equal only when a multiple of
  \<open>2 ^ 64 - 1\<close> requests lies between them.
\<close>

theorem request_ids_unique:
  "0 < (next_request_id ^^ Suc n) 0 \<and> (next_request_id ^^ Suc n) 0 < 2 ^ 64 \<and>
   ((next_request_id ^^ Suc n) 0 = (next_request_id ^^ Suc k) 0 \<longleftrightarrow>
      (2 ^ 64 - 1) dvd (int n - int k))"
proof -
  have "0 \<le> int n mod (2 ^ 64 - 1)" "int n mod (2 ^ 64 - 1) < 2 ^ 64 - 1" by simp_all
  then show ?thesis
    unfolding next_request_id_iter by (auto simp: mod_eq_dvd_iff)
qed

end
