(* ===== verification/Request_Outcome.thy ===== *)
theory Request_Outcome
  imports Request_Body
begin

text \<open>
  Which requests may have changed the server: the opcode table of \<open>protocol_constants.py\<close> and
  \<open>request_may_mutate\<close> and \<open>request_outcome_error\<close> of \<open>protocol_retry.py\<close>. Unicode upper-casing
  (\<open>str.upper\<close>) is a parameter \<open>upper\<close> of the classification.
\<close>

section \<open>Opcodes\<close>

definition OPCODES :: "(string \<times> int) list" where
  "OPCODES =
     [(''HELLO'', 0x0001), (''AUTH'', 0x0002), (''PING'', 0x0003), (''CLIENT.SETNAME'', 0x0004),
      (''CLIENT.INFO'', 0x0005), (''ROUTE'', 0x0006), (''SHARDS'', 0x0007),
      (''BACKPRESSURE'', 0x0008), (''QUIT'', 0x0009), (''GOAWAY'', 0x000A),
      (''OPTIONS'', 0x000B), (''STARTUP'', 0x000C), (''WINDOW_UPDATE'', 0x000D),
      (''PIPELINE'', 0x000E), (''ROUTE_BATCH'', 0x000F), (''EVENT'', 0x0010),
      (''SUBSCRIBE_EVENTS'', 0x0011), (''UNSUBSCRIBE_EVENTS'', 0x0012),
      (''COMMAND_EXEC'', 0x0100), (''GET'', 0x0101), (''SET'', 0x0102), (''DEL'', 0x0103),
      (''MGET'', 0x0104), (''MSET'', 0x0105), (''CAS'', 0x0106), (''LOCK'', 0x0107),
      (''UNLOCK'', 0x0108), (''EXTEND'', 0x0109), (''RATELIMIT.ADD'', 0x010A),
      (''FETCH_OR_COMPUTE'', 0x010B), (''FETCH_OR_COMPUTE_RESULT'', 0x010C),
      (''FETCH_OR_COMPUTE_ERROR'', 0x010D), (''HSET'', 0x0110), (''HGET'', 0x0111),
      (''HMGET'', 0x0112), (''HGETALL'', 0x0113), (''LPUSH'', 0x0120), (''RPUSH'', 0x0121),
      (''LPOP'', 0x0122), (''RPOP'', 0x0123), (''LRANGE'', 0x0124), (''SADD'', 0x0130),
      (''SREM'', 0x0131), (''SMEMBERS'', 0x0132), (''SISMEMBER'', 0x0133), (''ZADD'', 0x0140),
      (''ZREM'', 0x0141), (''ZRANGE'', 0x0142), (''ZSCORE'', 0x0143),
      (''CLUSTER.HEALTH'', 0x0301), (''CLUSTER.STATS'', 0x0302), (''CLUSTER.KEYSLOT'', 0x0303),
      (''CLUSTER.SLOTS'', 0x0304), (''CLUSTER.STATUS'', 0x0305), (''CLUSTER.JOIN'', 0x0306),
      (''CLUSTER.LEAVE'', 0x0307), (''CLUSTER.FAILOVER'', 0x0308), (''CLUSTER.PROMOTE'', 0x0309),
      (''CLUSTER.DEMOTE'', 0x030A), (''CLUSTER.ROLE'', 0x030B),
      (''FERRICSTORE.KEY_INFO'', 0x030C), (''FERRICSTORE.CONFIG'', 0x030D),
      (''FERRICSTORE.HOTNESS'', 0x030E), (''FERRICSTORE.METRICS'', 0x030F),
      (''FERRICSTORE.BLOBGC'', 0x0310), (''CLUSTER.FEATURES'', 0x0311),
      (''CLUSTER.FEATURES.RAISE'', 0x0312), (''FLOW.CREATE'', 0x0201), (''FLOW.GET'', 0x0202),
      (''FLOW.CLAIM_DUE'', 0x0203), (''FLOW.COMPLETE'', 0x0204), (''FLOW.TRANSITION'', 0x0205),
      (''FLOW.RETRY'', 0x0206), (''FLOW.FAIL'', 0x0207), (''FLOW.CANCEL'', 0x0208),
      (''FLOW.EXTEND_LEASE'', 0x0209), (''FLOW.HISTORY'', 0x020A), (''FLOW.VALUE.PUT'', 0x020B),
      (''FLOW.VALUE.MGET'', 0x020C), (''FLOW.SIGNAL'', 0x020D), (''FLOW.CREATE_MANY'', 0x020F),
      (''FLOW.COMPLETE_MANY'', 0x0210), (''FLOW.TRANSITION_MANY'', 0x0211),
      (''FLOW.RETRY_MANY'', 0x0212), (''FLOW.FAIL_MANY'', 0x0213),
      (''FLOW.CANCEL_MANY'', 0x0214), (''FLOW.RECLAIM'', 0x0215), (''FLOW.REWIND'', 0x0216),
      (''FLOW.INFO'', 0x021C), (''FLOW.POLICY.SET'', 0x021E), (''FLOW.POLICY.GET'', 0x021F),
      (''FLOW.SPAWN_CHILDREN'', 0x0220), (''FLOW.RETENTION_CLEANUP'', 0x0221),
      (''FLOW.STEP_CONTINUE'', 0x0222), (''FLOW.START_AND_CLAIM'', 0x0223),
      (''FLOW.RUN_STEPS_MANY'', 0x0224), (''FLOW.SCHEDULE.CREATE'', 0x0225),
      (''FLOW.SCHEDULE.GET'', 0x0226), (''FLOW.SCHEDULE.DELETE'', 0x0227),
      (''FLOW.SCHEDULE.FIRE_DUE'', 0x0228), (''FLOW.SCHEDULE.LIST'', 0x0229),
      (''FLOW.SCHEDULE.FIRE'', 0x022A), (''FLOW.SCHEDULE.PAUSE'', 0x022B),
      (''FLOW.SCHEDULE.RESUME'', 0x022C), (''FLOW.STATS'', 0x022D),
      (''FLOW.ATTRIBUTES'', 0x022E), (''FLOW.ATTRIBUTE_VALUES'', 0x022F),
      (''FLOW.QUERY'', 0x0231), (''FLOW.EFFECT.RESERVE'', 0x0240),
      (''FLOW.EFFECT.CONFIRM'', 0x0241), (''FLOW.EFFECT.FAIL'', 0x0242),
      (''FLOW.EFFECT.COMPENSATE'', 0x0243), (''FLOW.EFFECT.GET'', 0x0244),
      (''FLOW.GOVERNANCE.LEDGER'', 0x0245), (''FLOW.APPROVAL.REQUEST'', 0x0246),
      (''FLOW.APPROVAL.APPROVE'', 0x0247), (''FLOW.APPROVAL.REJECT'', 0x0248),
      (''FLOW.APPROVAL.GET'', 0x0249), (''FLOW.CIRCUIT.OPEN'', 0x024A),
      (''FLOW.CIRCUIT.CLOSE'', 0x024B), (''FLOW.CIRCUIT.GET'', 0x024C),
      (''FLOW.BUDGET.RESERVE'', 0x024D), (''FLOW.BUDGET.GET'', 0x024E),
      (''FLOW.LIMIT.LEASE'', 0x024F), (''FLOW.LIMIT.SPEND'', 0x0250),
      (''FLOW.LIMIT.RELEASE'', 0x0251), (''FLOW.LIMIT.GET'', 0x0252),
      (''FLOW.APPROVAL.LIST'', 0x0253), (''FLOW.GOVERNANCE.OVERVIEW'', 0x0254),
      (''FLOW.BUDGET.LIST'', 0x0255), (''FLOW.LIMIT.LIST'', 0x0256),
      (''FLOW.BUDGET.COMMIT'', 0x0257), (''FLOW.BUDGET.RELEASE'', 0x0258)]"

definition NON_MUTATING_COMMANDS :: "string list" where
  "NON_MUTATING_COMMANDS =
     [''AUTH'', ''BACKPRESSURE'', ''CLIENT.INFO'', ''CLIENT.SETNAME'', ''CLUSTER.FEATURES'',
      ''CLUSTER.HEALTH'', ''CLUSTER.KEYSLOT'', ''CLUSTER.ROLE'', ''CLUSTER.SLOTS'',
      ''CLUSTER.STATS'', ''CLUSTER.STATUS'', ''FERRICSTORE.HOTNESS'', ''FERRICSTORE.KEY_INFO'',
      ''FERRICSTORE.METRICS'', ''FLOW.APPROVAL.GET'', ''FLOW.APPROVAL.LIST'',
      ''FLOW.ATTRIBUTE_VALUES'', ''FLOW.ATTRIBUTES'', ''FLOW.BUDGET.GET'', ''FLOW.BUDGET.LIST'',
      ''FLOW.CIRCUIT.GET'', ''FLOW.EFFECT.GET'', ''FLOW.GET'', ''FLOW.GOVERNANCE.LEDGER'',
      ''FLOW.GOVERNANCE.OVERVIEW'', ''FLOW.HISTORY'', ''FLOW.INFO'', ''FLOW.LIMIT.GET'',
      ''FLOW.LIMIT.LIST'', ''FLOW.POLICY.GET'', ''FLOW.QUERY.INDEXES'', ''FLOW.SCHEDULE.GET'',
      ''FLOW.SCHEDULE.LIST'', ''FLOW.QUERY'', ''FLOW.STATS'', ''FLOW.VALUE.MGET'', ''GET'',
      ''HELLO'', ''HGET'', ''HGETALL'', ''HMGET'', ''LRANGE'', ''MGET'', ''OPTIONS'', ''PING'',
      ''QUIT'', ''ROUTE'', ''SHARDS'', ''SISMEMBER'', ''SMEMBERS'', ''STARTUP'',
      ''SUBSCRIBE_EVENTS'', ''UNSUBSCRIBE_EVENTS'', ''WINDOW_UPDATE'', ''ZRANGE'', ''ZSCORE'']"

definition NON_MUTATING_OPCODES :: "int list" where
  "NON_MUTATING_OPCODES =
     List.map_filter (\<lambda>name. dict_get OPCODES name) NON_MUTATING_COMMANDS"

lemma opcodes_distinct: "distinct (map fst OPCODES)" "distinct (map snd OPCODES)"
  by (simp_all add: OPCODES_def)

section \<open>Classification\<close>

definition is_py_space :: "nat \<Rightarrow> bool" where
  "is_py_space c \<longleftrightarrow>
     9 \<le> c \<and> c \<le> 13 \<or> 28 \<le> c \<and> c \<le> 32 \<or> c = 0x85 \<or> c = 0xA0 \<or> c = 0x1680 \<or>
     0x2000 \<le> c \<and> c \<le> 0x200A \<or> c = 0x2028 \<or> c = 0x2029 \<or> c = 0x202F \<or> c = 0x205F \<or> c = 0x3000"

definition str_strip :: "ustr \<Rightarrow> ustr" where
  "str_strip s = rev (dropWhile is_py_space (rev (dropWhile is_py_space s)))"

definition ascii_decode :: "bytes \<Rightarrow> ustr result" where
  "ascii_decode b =
     (if list_all (\<lambda>x. unat x < 128) b then Inr (map unat b) else Inl UnicodeDecodeError)"

definition mapping_value :: "(pyval \<times> pyval) list \<Rightarrow> string \<Rightarrow> pyval" where
  "mapping_value m field =
     (case dict_get m (PStr (text_lit field)) of
        Some v \<Rightarrow> v
      | None \<Rightarrow> (case dict_get m (PBytes (bytes_lit field)) of Some v \<Rightarrow> v | None \<Rightarrow> PNone))"

definition OP_PIPELINE :: int where "OP_PIPELINE = 0x000E"
definition OP_COMMAND_EXEC :: int where "OP_COMMAND_EXEC = 0x0100"

definition non_mutating_name :: "(ustr \<Rightarrow> ustr) \<Rightarrow> ustr \<Rightarrow> bool" where
  "non_mutating_name upper command =
     (upper (str_strip command) \<in> set (map text_lit NON_MUTATING_COMMANDS))"

text \<open>
  \<open>_request_may_mutate\<close>. The first branch falls through when the command is neither text nor
  bytes; a pipeline is searched to a depth of four.
\<close>

function request_may_mutate_at :: "(ustr \<Rightarrow> ustr) \<Rightarrow> int \<Rightarrow> pyval \<Rightarrow> nat \<Rightarrow> bool" where
  "request_may_mutate_at upper opcode payload pipeline_depth =
     (case (if opcode = OP_COMMAND_EXEC then
              (case payload of
                 PDict m \<Rightarrow>
                   (case mapping_value m ''command'' of
                      PBytes b \<Rightarrow>
                        (case ascii_decode b of
                           Inl _ \<Rightarrow> Some True
                         | Inr t \<Rightarrow> Some (\<not> non_mutating_name upper t))
                    | PStr t \<Rightarrow> Some (\<not> non_mutating_name upper t)
                    | _ \<Rightarrow> None)
               | _ \<Rightarrow> None)
            else None) of
        Some answer \<Rightarrow> answer
      | None \<Rightarrow>
          if opcode = OP_PIPELINE then
            if pipeline_depth \<ge> 4 then True
            else (case payload of
                PDict m \<Rightarrow>
                  (case sequence_items (mapping_value m ''commands'') of
                     None \<Rightarrow> True
                   | Some commands \<Rightarrow>
                       commands = [] \<or>
                       list_ex (\<lambda>command.
                         case command of
                           PDict c \<Rightarrow>
                             (case mapping_value c ''opcode'' of
                                PInt nested_opcode \<Rightarrow>
                                  (case mapping_value c ''body'' of
                                     PDict nested \<Rightarrow>
                                       request_may_mutate_at upper nested_opcode (PDict nested)
                                         (pipeline_depth + 1)
                                   | PBytes nested \<Rightarrow>
                                       request_may_mutate_at upper nested_opcode (PBytes nested)
                                         (pipeline_depth + 1)
                                   | _ \<Rightarrow> True)
                              | _ \<Rightarrow> True)
                         | _ \<Rightarrow> True) commands)
              | _ \<Rightarrow> True)
          else opcode \<notin> set NON_MUTATING_OPCODES)"
  by pat_completeness auto

termination
  by (relation "measure (\<lambda>(upper, opcode, payload, depth). 4 - depth)") auto

declare request_may_mutate_at.simps [simp del]

definition request_may_mutate :: "(ustr \<Rightarrow> ustr) \<Rightarrow> int \<Rightarrow> pyval \<Rightarrow> bool" where
  "request_may_mutate upper opcode payload = request_may_mutate_at upper opcode payload 0"

text \<open>
  \<open>request_outcome_error\<close>: an error that says the outcome of a mutation is unknown, or one that is
  marked safe to retry.
\<close>

datatype outcome_error = Request_outcome_unknown string | Retryable_error string

definition request_outcome_error ::
    "(ustr \<Rightarrow> ustr) \<Rightarrow> int \<Rightarrow> pyval \<Rightarrow> bool option \<Rightarrow> string \<Rightarrow> outcome_error" where
  "request_outcome_error upper opcode payload may_mutate message =
     (if (case may_mutate of None \<Rightarrow> request_may_mutate upper opcode payload | Some m \<Rightarrow> m)
      then Request_outcome_unknown (message @ ''; mutation outcome is unknown'')
      else Retryable_error message)"

section \<open>Safe to retry means read-only\<close>

text \<open>
  The commands a request carries: itself, or for \<open>COMMAND_EXEC\<close> the command it names, or for a
  pipeline those of its entries. \<open>reads_only\<close> holds when each of them is in the table of
  non-mutating commands.
\<close>

inductive reads_only :: "(ustr \<Rightarrow> ustr) \<Rightarrow> nat \<Rightarrow> int \<Rightarrow> pyval \<Rightarrow> bool" for upper where
  native: "name \<in> set NON_MUTATING_COMMANDS \<Longrightarrow> dict_get OPCODES name = Some opcode \<Longrightarrow>
     reads_only upper depth opcode payload"
| exec_str: "mapping_value m ''command'' = PStr t \<Longrightarrow> non_mutating_name upper t \<Longrightarrow>
     reads_only upper depth OP_COMMAND_EXEC (PDict m)"
| exec_bytes: "mapping_value m ''command'' = PBytes b \<Longrightarrow> ascii_decode b = Inr t \<Longrightarrow>
     non_mutating_name upper t \<Longrightarrow> reads_only upper depth OP_COMMAND_EXEC (PDict m)"
| pipeline: "depth < 4 \<Longrightarrow> sequence_items (mapping_value m ''commands'') = Some commands \<Longrightarrow>
     commands \<noteq> [] \<Longrightarrow>
     (\<And>c. c \<in> set commands \<Longrightarrow> \<exists>d n. c = PDict d \<and> mapping_value d ''opcode'' = PInt n \<and>
        ((\<exists>x. mapping_value d ''body'' = PDict x) \<or> (\<exists>x. mapping_value d ''body'' = PBytes x)) \<and>
        reads_only upper (depth + 1) n (mapping_value d ''body'')) \<Longrightarrow>
     reads_only upper depth OP_PIPELINE (PDict m)"

lemma non_mutating_opcode_iff:
  "opcode \<in> set NON_MUTATING_OPCODES \<longleftrightarrow>
     (\<exists>name \<in> set NON_MUTATING_COMMANDS. dict_get OPCODES name = Some opcode)"
  by (force simp: NON_MUTATING_OPCODES_def List.map_filter_def simp del: dict_get_None)

lemma opcode_name:
  "(name, 0x000E) \<in> set OPCODES \<Longrightarrow> name = ''PIPELINE''"
  "(name, 0x0100) \<in> set OPCODES \<Longrightarrow> name = ''COMMAND_EXEC''"
  by (simp_all add: OPCODES_def)

lemma special_names:
  "''PIPELINE'' \<notin> set NON_MUTATING_COMMANDS" "''COMMAND_EXEC'' \<notin> set NON_MUTATING_COMMANDS"
  by (simp_all add: NON_MUTATING_COMMANDS_def)

lemma special_opcodes: "OP_PIPELINE \<notin> set NON_MUTATING_OPCODES" "OP_COMMAND_EXEC \<notin> set NON_MUTATING_OPCODES"
  "OP_PIPELINE \<noteq> OP_COMMAND_EXEC"
proof -
  show "OP_PIPELINE \<notin> set NON_MUTATING_OPCODES"
    unfolding non_mutating_opcode_iff OP_PIPELINE_def
    using opcode_name(1) special_names(1) dict_get_SomeD by metis
  show "OP_COMMAND_EXEC \<notin> set NON_MUTATING_OPCODES"
    unfolding non_mutating_opcode_iff OP_COMMAND_EXEC_def
    using opcode_name(2) special_names(2) dict_get_SomeD by metis
qed (simp add: OP_PIPELINE_def OP_COMMAND_EXEC_def)

lemma reads_only_native:
  assumes "opcode \<noteq> OP_PIPELINE" and "opcode \<noteq> OP_COMMAND_EXEC"
  shows "reads_only upper depth opcode payload \<longleftrightarrow> opcode \<in> set NON_MUTATING_OPCODES"
proof
  assume "reads_only upper depth opcode payload"
  then show "opcode \<in> set NON_MUTATING_OPCODES"
    using assms by cases (simp_all add: non_mutating_opcode_iff, blast)
next
  assume "opcode \<in> set NON_MUTATING_OPCODES"
  then show "reads_only upper depth opcode payload"
    unfolding non_mutating_opcode_iff by (blast intro: native)
qed

lemma reads_only_exec:
  "reads_only upper depth OP_COMMAND_EXEC payload \<longleftrightarrow>
     (\<exists>m. payload = PDict m \<and>
        (\<exists>t. (mapping_value m ''command'' = PStr t \<or>
              (\<exists>b. mapping_value m ''command'' = PBytes b \<and> ascii_decode b = Inr t)) \<and>
             non_mutating_name upper t))" (is "_ \<longleftrightarrow> ?R")
proof
  assume "reads_only upper depth OP_COMMAND_EXEC payload"
  then show ?R
  proof cases
    case (native name)
    then show ?thesis using special_opcodes(2) non_mutating_opcode_iff by blast
  qed (use special_opcodes(3) in \<open>auto\<close>)
qed (auto intro: exec_str exec_bytes)

lemma reads_only_pipeline:
  "reads_only upper depth OP_PIPELINE payload \<longleftrightarrow>
     depth < 4 \<and> (\<exists>m commands. payload = PDict m \<and>
        sequence_items (mapping_value m ''commands'') = Some commands \<and> commands \<noteq> [] \<and>
        (\<forall>c \<in> set commands. \<exists>d n. c = PDict d \<and> mapping_value d ''opcode'' = PInt n \<and>
           ((\<exists>x. mapping_value d ''body'' = PDict x) \<or> (\<exists>x. mapping_value d ''body'' = PBytes x)) \<and>
           reads_only upper (depth + 1) n (mapping_value d ''body'')))" (is "_ \<longleftrightarrow> ?R")
proof
  assume "reads_only upper depth OP_PIPELINE payload"
  then show ?R
  proof cases
    case (native name)
    then show ?thesis using special_opcodes(1) non_mutating_opcode_iff by blast
  next
    case (pipeline m commands)
    then show ?thesis by blast
  qed (use special_opcodes(3) in \<open>auto\<close>)
next
  assume r: ?R
  then obtain m commands where payload: "payload = PDict m" and depth: "depth < 4"
    and cs: "sequence_items (mapping_value m ''commands'') = Some commands" "commands \<noteq> []"
    by blast
  show "reads_only upper depth OP_PIPELINE payload"
    unfolding payload
    by (rule reads_only.pipeline [OF depth cs]) (use r payload cs in auto)
qed

lemma may_mutate_exec:
  "request_may_mutate_at upper OP_COMMAND_EXEC payload depth \<longleftrightarrow>
     \<not> reads_only upper depth OP_COMMAND_EXEC payload"
proof (cases "\<exists>m. payload = PDict m")
  case True
  then obtain m where m: "payload = PDict m" by blast
  show ?thesis
    unfolding reads_only_exec request_may_mutate_at.simps [of upper OP_COMMAND_EXEC]
    by (cases "mapping_value m ''command''")
      (simp_all add: m special_opcodes special_opcodes(3) [symmetric] split: sum.split)
next
  case False
  then show ?thesis
    unfolding reads_only_exec request_may_mutate_at.simps [of upper OP_COMMAND_EXEC]
    by (cases payload) (simp_all add: special_opcodes special_opcodes(3) [symmetric])
qed

lemma may_mutate_native:
  assumes "opcode \<noteq> OP_PIPELINE" and "opcode \<noteq> OP_COMMAND_EXEC"
  shows "request_may_mutate_at upper opcode payload depth \<longleftrightarrow> \<not> reads_only upper depth opcode payload"
  unfolding reads_only_native [OF assms] request_may_mutate_at.simps [of upper opcode]
  using assms by simp

lemma may_mutate_iff:
  "request_may_mutate_at upper opcode payload depth \<longleftrightarrow> \<not> reads_only upper depth opcode payload"
proof (induction "4 - depth" arbitrary: opcode payload depth rule: less_induct)
  case less
  show ?case
  proof (cases "opcode = OP_PIPELINE \<and> depth < 4")
    case False
    then show ?thesis
      using may_mutate_exec may_mutate_native [of opcode] special_opcodes(3)
      by (cases "opcode = OP_PIPELINE"; cases "opcode = OP_COMMAND_EXEC")
        (simp_all add: reads_only_pipeline request_may_mutate_at.simps [of upper OP_PIPELINE])
  next
    case True
    then have nested: "request_may_mutate_at upper op p (depth + 1) \<longleftrightarrow> \<not> reads_only upper (depth + 1) op p"
      for op p
      by (intro less.hyps [of "depth + 1"]) auto
    have entry: "(case c of
          PDict d \<Rightarrow> (case mapping_value d ''opcode'' of
              PInt n \<Rightarrow> (case mapping_value d ''body'' of
                  PDict x \<Rightarrow> request_may_mutate_at upper n (PDict x) (depth + 1)
                | PBytes x \<Rightarrow> request_may_mutate_at upper n (PBytes x) (depth + 1)
                | _ \<Rightarrow> True)
            | _ \<Rightarrow> True)
        | _ \<Rightarrow> True) \<longleftrightarrow>
        \<not> (\<exists>d n. c = PDict d \<and> mapping_value d ''opcode'' = PInt n \<and>
           ((\<exists>x. mapping_value d ''body'' = PDict x) \<or> (\<exists>x. mapping_value d ''body'' = PBytes x)) \<and>
           reads_only upper (depth + 1) n (mapping_value d ''body''))" for c
      by (simp add: nested [simplified] split: pyval.split)
    have op: "opcode = OP_PIPELINE" "\<not> 4 \<le> depth" using True by auto
    show ?thesis
      unfolding op(1) request_may_mutate_at.simps [of upper OP_PIPELINE payload depth] entry
        reads_only_pipeline
      using op(2) special_opcodes(3)
      by (cases payload; simp add: list_ex_iff split: option.split)
  qed
qed


end
