(* ===== verification/Negotiation.thy ===== *)
theory Negotiation
  imports Request_Outcome
begin

text \<open>
  Capability negotiation: \<open>protocol_negotiation.py\<close>. \<open>parse_hello_capabilities\<close> checks the server's
  HELLO answer; \<open>apply_hello_negotiation\<close>, \<open>reset_hello_negotiation\<close> and \<open>mark_authenticated\<close> change
  the fields of the adapter they own, collected in the record \<open>adapter\<close>. An update that raises half way
  leaves the fields written before it, so these operations return the new state and an outcome.
\<close>

section \<open>Reading HELLO\<close>

definition incompatible_server :: "string \<Rightarrow> py_error" where
  "incompatible_server detail =
     FerricStoreError (''FerricStore server does not satisfy the minimum 0.11.4 HELLO contract: '' @ detail)"

definition FLOW_QUERY_CAPABILITIES :: "string list" where
  "FLOW_QUERY_CAPABILITIES =
     [''flow_query_v1'', ''flow_explain_v1'', ''flow_explain_analyze_v1'', ''flow_composite_index_v1'',
      ''flow_query_index_status_v1'', ''flow_query_result_projection_v1'']"

definition FLOW_QUERY_SHAPES :: "string list" where
  "FLOW_QUERY_SHAPES =
     [''runs_by_run_id_record'', ''runs_by_partition_and_run_id_record'',
      ''runs_by_partition_predicates_ordered_records'', ''runs_by_partition_type_state_ordered_records'',
      ''runs_by_partition_type_terminals_ordered_records'', ''runs_by_partition_metadata_ordered_records'',
      ''runs_by_partition_type_running_lease_deadline_ordered_records'',
      ''runs_by_partition_parent_ordered_records'', ''runs_by_partition_root_ordered_records'',
      ''runs_by_partition_correlation_ordered_records'', ''runs_by_partition_predicates_count'',
      ''events_by_run_id_ordered_records'']"

definition hello_text :: "pyval \<Rightarrow> ustr" where
  "hello_text v =
     (case v of
        PBytes b \<Rightarrow> (case utf8_decode b of Inl _ \<Rightarrow> [] | Inr t \<Rightarrow> t)
      | PStr t \<Rightarrow> t
      | _ \<Rightarrow> [])"

definition plain_int :: "pyval \<Rightarrow> int option" where
  "plain_int v = (case v of PInt n \<Rightarrow> Some n | _ \<Rightarrow> None)"

definition positive_int :: "pyval \<Rightarrow> int result" where
  "positive_int v =
     (case plain_int v of
        None \<Rightarrow> Inl (incompatible_server ''HELLO field must be a positive integer'')
      | Some n \<Rightarrow>
          if n \<le> 0 then Inl (incompatible_server ''HELLO field must be a positive integer'') else Inr n)"

definition minimum_limit :: "int option \<Rightarrow> int \<Rightarrow> int" where
  "minimum_limit configured negotiated = (case configured of None \<Rightarrow> negotiated | Some c \<Rightarrow> min c negotiated)"

definition required_map :: "pyval \<Rightarrow> string \<Rightarrow> pyval result" where
  "required_map v field =
     (case map_get v [field] of
        PDict d \<Rightarrow> Inr (PDict d)
      | _ \<Rightarrow> Inl (incompatible_server (''HELLO is missing '' @ field)))"

definition required_text_set :: "pyval \<Rightarrow> string \<Rightarrow> ustr set result" where
  "required_text_set v field =
     (case sequence_items (map_get v [field]) of
        None \<Rightarrow> Inl (incompatible_server (''HELLO is missing '' @ field))
      | Some items \<Rightarrow>
          let texts = set (map hello_text items) in
          if [] \<in> texts then Inl (incompatible_server ''HELLO field contains an invalid value'')
          else Inr texts)"

definition required_text :: "pyval \<Rightarrow> string \<Rightarrow> ustr result" where
  "required_text v field =
     (let t = hello_text (map_get v [field]) in
      if t = [] then Inl (incompatible_server ''HELLO flow_query field must be bounded non-empty text'')
      else
        and_then (utf8_encode t) (\<lambda>b.
          if length b > 256
          then Inl (incompatible_server ''HELLO flow_query field must be bounded non-empty text'')
          else Inr t))"

fun bounded_texts :: "pyval list \<Rightarrow> ustr set \<Rightarrow> ustr set result" where
  "bounded_texts [] acc = Inr acc"
| "bounded_texts (raw_item # items) acc =
     (let item = hello_text raw_item in
      if item = [] then Inl (incompatible_server ''HELLO field contains invalid text'')
      else
        and_then (utf8_encode item) (\<lambda>b.
          if length b > 256 then Inl (incompatible_server ''HELLO field contains invalid text'')
          else if item \<in> acc then Inl (incompatible_server ''HELLO field contains duplicate'')
          else bounded_texts items (insert item acc)))"

definition bounded_text_set :: "pyval \<Rightarrow> string \<Rightarrow> nat \<Rightarrow> ustr set result" where
  "bounded_text_set v field maximum =
     (case sequence_items (map_get v [field]) of
        None \<Rightarrow> Inl (incompatible_server ''HELLO field must contain 1..maximum entries'')
      | Some items \<Rightarrow>
          if \<not> (1 \<le> length items \<and> length items \<le> maximum)
          then Inl (incompatible_server ''HELLO field must contain 1..maximum entries'')
          else bounded_texts items {})"

definition require_members :: "ustr set \<Rightarrow> string list \<Rightarrow> unit result" where
  "require_members actual required =
     (if \<not> list_all (\<lambda>r. text_lit r \<in> actual) required then Inl (incompatible_server ''missing member'')
      else Inr ())"

record flow_query_capabilities =
  fqc_request_contract :: ustr
  fqc_result_contract :: ustr
  fqc_explain_contract :: ustr
  fqc_index_status_contract :: ustr
  fqc_capabilities :: "ustr set"
  fqc_language_versions :: "ustr set"
  fqc_shapes :: "ustr set"

definition require_contract :: "ustr \<Rightarrow> string \<Rightarrow> unit result" where
  "require_contract actual expected =
     (if actual \<noteq> text_lit expected then Inl (incompatible_server (''flow_query contract must be '' @ expected)) else Inr ())"

definition parse_flow_query_capabilities :: "pyval \<Rightarrow> pyval \<Rightarrow> flow_query_capabilities result" where
  "parse_flow_query_capabilities capabilities schemas =
     and_then (required_map capabilities ''flow_query'') (\<lambda>manifest.
     and_then (required_text manifest ''request_contract'') (\<lambda>request_contract.
     and_then (required_text manifest ''result_contract'') (\<lambda>result_contract.
     and_then (required_text manifest ''explain_contract'') (\<lambda>explain_contract.
     and_then (required_text manifest ''index_status_contract'') (\<lambda>index_status_contract.
     and_then (require_contract request_contract ''ferric.flow.query.request/v1'') (\<lambda>_.
     and_then (require_contract result_contract ''ferric.flow.query.result/v1'') (\<lambda>_.
     and_then (require_contract explain_contract ''ferric.flow.explain/v1'') (\<lambda>_.
     and_then (require_contract index_status_contract ''ferric.flow.query.indexes/v1'') (\<lambda>_.
     and_then (bounded_text_set manifest ''capabilities'' 64) (\<lambda>query_capabilities.
     and_then (bounded_text_set manifest ''language_versions'' 16) (\<lambda>language_versions.
     and_then (bounded_text_set manifest ''shapes'' 128) (\<lambda>shapes.
     and_then (require_members query_capabilities FLOW_QUERY_CAPABILITIES) (\<lambda>_.
     and_then (require_members language_versions [''FQL1'']) (\<lambda>_.
     and_then (require_members shapes FLOW_QUERY_SHAPES) (\<lambda>_.
     and_then (required_map schemas ''FLOW.QUERY'') (\<lambda>query_schema.
     and_then (bounded_text_set query_schema ''fields'' 64) (\<lambda>fields.
     and_then (require_members fields [''version'', ''query'', ''params'', ''deadline_ms'']) (\<lambda>_.
     and_then (bounded_text_set query_schema ''required'' 16) (\<lambda>required.
       if required \<noteq> {text_lit ''version'', text_lit ''query''}
       then Inl (incompatible_server ''FLOW.QUERY schema must require exactly version and query'')
       else Inr \<lparr>fqc_request_contract = request_contract, fqc_result_contract = result_contract,
                 fqc_explain_contract = explain_contract, fqc_index_status_contract = index_status_contract,
                 fqc_capabilities = query_capabilities, fqc_language_versions = language_versions,
                 fqc_shapes = shapes\<rparr>)))))))))))))))))))"

record negotiated =
  ng_max_response_bytes :: int
  ng_compact_response_codecs :: "(int \<times> ustr) list"
  ng_auth_required :: bool
  ng_flow_policy_set_fields :: "ustr set"
  ng_flow_query :: flow_query_capabilities
  ng_compact_pubsub_publish :: bool
  ng_compact_stream_xadd :: bool

fun declare_opcodes :: "ustr \<Rightarrow> pyval list \<Rightarrow> (int \<times> ustr) list \<Rightarrow> (int \<times> ustr) list result" where
  "declare_opcodes name [] by_opcode = Inr by_opcode"
| "declare_opcodes name (raw # raws) by_opcode =
     (case plain_int raw of
        None \<Rightarrow> Inl (incompatible_server ''compact response opcode is invalid'')
      | Some opcode \<Rightarrow>
          if \<not> (0 \<le> opcode \<and> opcode \<le> 0xFFFF) then Inl (incompatible_server ''compact response opcode is invalid'')
          else
            let by_opcode' = (if dict_get by_opcode opcode = None then dict_set by_opcode opcode name else by_opcode);
                previous = the (dict_get by_opcode' opcode)
            in if previous \<noteq> name
               then Inl (incompatible_server ''opcode is declared by multiple compact response codecs'')
               else declare_opcodes name raws by_opcode')"

fun declare_codecs :: "(pyval \<times> pyval) list \<Rightarrow> (int \<times> ustr) list \<Rightarrow> (int \<times> ustr) list result" where
  "declare_codecs [] by_opcode = Inr by_opcode"
| "declare_codecs ((raw_name, raw_opcodes) # items) by_opcode =
     (let name = hello_text raw_name in
      case sequence_items raw_opcodes of
        None \<Rightarrow> Inl (incompatible_server ''compact response codec declaration is invalid'')
      | Some raws \<Rightarrow>
          if name = [] then Inl (incompatible_server ''compact response codec declaration is invalid'')
          else and_then (declare_opcodes name raws by_opcode) (\<lambda>by_opcode. declare_codecs items by_opcode))"

definition dict_items :: "pyval \<Rightarrow> (pyval \<times> pyval) list" where
  "dict_items v = (case v of PDict d \<Rightarrow> d | _ \<Rightarrow> [])"

definition mode_is :: "pyval \<Rightarrow> string \<Rightarrow> int \<Rightarrow> bool" where
  "mode_is modes name code = (case modes of PDict _ \<Rightarrow> plain_int (map_get modes [name]) = Some code | _ \<Rightarrow> False)"

definition parse_hello_capabilities :: "pyval \<Rightarrow> negotiated result" where
  "parse_hello_capabilities v =
     (case v of
        PDict _ \<Rightarrow>
          if hello_text (map_get v [''protocol'']) \<noteq> text_lit ''ferricstore-native''
          then Inl (incompatible_server ''HELLO protocol is not ferricstore-native'')
          else if plain_int (map_get v [''version'']) \<noteq> Some 1
          then Inl (incompatible_server ''HELLO native protocol version is not 1'')
          else
            and_then (required_map v ''capabilities'') (\<lambda>capabilities.
            and_then (required_map capabilities ''limits'') (\<lambda>limits.
            and_then (positive_int (map_get limits [''max_response_bytes''])) (\<lambda>max_response_bytes.
            and_then (required_map capabilities ''response_codecs'') (\<lambda>response_codecs.
            and_then (required_map response_codecs ''compact_response_opcodes'') (\<lambda>compact_opcodes.
            and_then (required_map capabilities ''schemas'') (\<lambda>schemas.
            and_then (required_map schemas ''FLOW.POLICY.SET'') (\<lambda>policy_set_schema.
            and_then (required_text_set policy_set_schema ''fields'') (\<lambda>policy_set_fields.
            if \<not> {text_lit ''expected_generation'', text_lit ''replace''} \<subseteq> policy_set_fields
            then Inl (incompatible_server ''FLOW.POLICY.SET schema is missing required fields'')
            else
              and_then (parse_flow_query_capabilities capabilities schemas) (\<lambda>flow_query.
              let pipeline = map_get capabilities [''pipeline''];
                  modes = (case pipeline of PDict _ \<Rightarrow> map_get pipeline [''modes''] | _ \<Rightarrow> PNone)
              in and_then (declare_codecs (dict_items compact_opcodes) []) (\<lambda>by_opcode.
                   Inr \<lparr>ng_max_response_bytes = max_response_bytes, ng_compact_response_codecs = by_opcode,
                        ng_auth_required = (map_get v [''auth_required''] = PBool True),
                        ng_flow_policy_set_fields = policy_set_fields, ng_flow_query = flow_query,
                        ng_compact_pubsub_publish = mode_is modes ''pubsub_publish'' 35,
                        ng_compact_stream_xadd = mode_is modes ''stream_xadd_auto'' 34\<rparr>))))))))))
      | _ \<Rightarrow> Inl (incompatible_server ''HELLO response is not a map''))"

section \<open>The negotiated state of an adapter\<close>

record adapter =
  ad_configured_max_response_bytes :: "int option"
  ad_configured_max_decompressed_response_bytes :: "int option"
  ad_max_response_bytes :: "int option"
  ad_max_decompressed_response_bytes :: "int option"
  ad_max_response_chunks :: "int option"
  ad_compact_response_codecs :: "(int \<times> ustr) list"
  ad_auth_required :: bool
  ad_authenticated :: bool
  ad_negotiated_capabilities :: "negotiated option"
  ad_compact_pubsub_publish :: bool
  ad_compact_stream_xadd :: bool
  ad_response_frame_assembler :: "assembler option"

definition reconfigure_frame_assembler :: "adapter \<Rightarrow> adapter \<times> unit result" where
  "reconfigure_frame_assembler a =
     (case ad_response_frame_assembler a of
        None \<Rightarrow> (a, Inr ())
      | Some asm \<Rightarrow>
          (case assembler_reconfigure asm (limit_arg (ad_max_response_bytes a)) (limit_arg (ad_max_response_chunks a)) of
             Inl e \<Rightarrow> (a, Inl e)
           | Inr asm' \<Rightarrow> (a\<lparr>ad_response_frame_assembler := Some asm'\<rparr>, Inr ())))"

definition apply_hello_negotiation :: "adapter \<Rightarrow> pyval \<Rightarrow> adapter \<times> negotiated result" where
  "apply_hello_negotiation a v =
     (case parse_hello_capabilities v of
        Inl e \<Rightarrow> (a, Inl e)
      | Inr n \<Rightarrow>
          let a' = a\<lparr>ad_max_response_bytes :=
                       Some (minimum_limit (ad_configured_max_response_bytes a) (ng_max_response_bytes n)),
                     ad_max_decompressed_response_bytes :=
                       Some (minimum_limit (ad_configured_max_decompressed_response_bytes a) (ng_max_response_bytes n)),
                     ad_compact_response_codecs := ng_compact_response_codecs n,
                     ad_auth_required := ng_auth_required n,
                     ad_authenticated := \<not> ng_auth_required n,
                     ad_negotiated_capabilities := Some n,
                     ad_compact_pubsub_publish := ng_compact_pubsub_publish n,
                     ad_compact_stream_xadd := ng_compact_stream_xadd n\<rparr>
          in (case reconfigure_frame_assembler a' of
                (a'', Inl e) \<Rightarrow> (a'', Inl e)
              | (a'', Inr _) \<Rightarrow> (a'', Inr n)))"

definition reset_hello_negotiation :: "adapter \<Rightarrow> adapter \<times> unit result" where
  "reset_hello_negotiation a =
     (let a' = a\<lparr>ad_max_response_bytes := ad_configured_max_response_bytes a,
                 ad_max_decompressed_response_bytes := ad_configured_max_decompressed_response_bytes a,
                 ad_compact_response_codecs := [], ad_auth_required := False, ad_authenticated := False,
                 ad_negotiated_capabilities := None, ad_compact_pubsub_publish := False,
                 ad_compact_stream_xadd := False\<rparr>
      in (case ad_response_frame_assembler a' of
            None \<Rightarrow> (a', Inr ())
          | Some asm \<Rightarrow>
              reconfigure_frame_assembler (a'\<lparr>ad_response_frame_assembler := Some (assembler_clear asm)\<rparr>)))"

definition mark_authenticated :: "adapter \<Rightarrow> adapter" where
  "mark_authenticated a = a\<lparr>ad_authenticated := True\<rparr>"

section \<open>What an accepted HELLO guarantees\<close>

text \<open>The codec declarations of a HELLO map, as pairs of an opcode and a codec name.\<close>

definition declared :: "(pyval \<times> pyval) list \<Rightarrow> int \<Rightarrow> ustr \<Rightarrow> bool" where
  "declared items opcode name \<longleftrightarrow>
     (\<exists>raw_name raw_opcodes raws. (raw_name, raw_opcodes) \<in> set items \<and> hello_text raw_name = name \<and>
        sequence_items raw_opcodes = Some raws \<and> PInt opcode \<in> set raws)"

lemma declare_opcodes_Inr:
  assumes "declare_opcodes name raws d = Inr d'"
  shows "dict_get d' opcode = Some m \<longleftrightarrow> dict_get d opcode = Some m \<or> (m = name \<and> PInt opcode \<in> set raws)"
    and "PInt opcode \<in> set raws \<Longrightarrow> 0 \<le> opcode \<and> opcode \<le> 0xFFFF \<and> dict_get d' opcode = Some name"
proof -
  have "(\<forall>m. dict_get d' opcode = Some m \<longleftrightarrow> dict_get d opcode = Some m \<or> (m = name \<and> PInt opcode \<in> set raws)) \<and>
    (PInt opcode \<in> set raws \<longrightarrow> 0 \<le> opcode \<and> opcode \<le> 0xFFFF \<and> dict_get d' opcode = Some name)"
    using assms
  proof (induction raws arbitrary: d)
    case (Cons raw raws)
    then obtain k where k: "raw = PInt k" "0 \<le> k" "k \<le> 0xFFFF"
      by (auto simp: plain_int_def split: pyval.splits if_splits)
    define e where "e = (if dict_get d k = None then dict_set d k name else d)"
    from Cons.prems k have e: "the (dict_get e k) = name" and run: "declare_opcodes name raws e = Inr d'"
      by (auto simp: plain_int_def e_def Let_def simp del: dict_get_None split: if_splits)
    have ek: "dict_get e k = Some name" "\<And>j. j \<noteq> k \<Longrightarrow> dict_get e j = dict_get d j"
      "dict_get d k = None \<or> dict_get d k = Some name"
      using e by (auto simp: e_def dict_get_set simp del: dict_get_None split: if_splits)
    have ih: "(\<forall>m. dict_get d' opcode = Some m \<longleftrightarrow> dict_get e opcode = Some m \<or> (m = name \<and> PInt opcode \<in> set raws)) \<and>
      (PInt opcode \<in> set raws \<longrightarrow> 0 \<le> opcode \<and> opcode \<le> 0xFFFF \<and> dict_get d' opcode = Some name)"
      by (rule Cons.IH [OF run])
    show ?case
    proof (cases "opcode = k")
      case True
      then have "dict_get d' k = Some name" using ih ek(1) by simp
      with True k ek show ?thesis using ih by (auto simp del: dict_get_None)
    next
      case False
      with ek(2) [OF False] ih k show ?thesis by (auto simp del: dict_get_None)
    qed
  qed simp
  then show "dict_get d' opcode = Some m \<longleftrightarrow> dict_get d opcode = Some m \<or> (m = name \<and> PInt opcode \<in> set raws)"
    and "PInt opcode \<in> set raws \<Longrightarrow> 0 \<le> opcode \<and> opcode \<le> 0xFFFF \<and> dict_get d' opcode = Some name" by auto
qed

lemma declare_codecs_Inr:
  assumes "declare_codecs items d = Inr d'"
  shows "dict_get d' opcode = Some m \<longleftrightarrow> dict_get d opcode = Some m \<or> declared items opcode m"
    and "declared items opcode m \<Longrightarrow> 0 \<le> opcode \<and> opcode \<le> 0xFFFF \<and> m \<noteq> []"
proof -
  have "(dict_get d' opcode = Some m \<longleftrightarrow> dict_get d opcode = Some m \<or> declared items opcode m) \<and>
    (declared items opcode m \<longrightarrow> 0 \<le> opcode \<and> opcode \<le> 0xFFFF \<and> m \<noteq> [])"
    using assms
  proof (induction items arbitrary: d)
    case (Cons item items)
    obtain raw_name raw_opcodes where item: "item = (raw_name, raw_opcodes)" by fastforce
    from Cons.prems obtain raws e where e: "sequence_items raw_opcodes = Some raws" "hello_text raw_name \<noteq> []"
      "declare_opcodes (hello_text raw_name) raws d = Inr e" "declare_codecs items e = Inr d'"
      by (auto simp: Let_def item split: option.splits if_splits)
    have head: "declared ((raw_name, raw_opcodes) # items) opcode m \<longleftrightarrow>
        (m = hello_text raw_name \<and> PInt opcode \<in> set raws) \<or> declared items opcode m"
      using e(1) by (auto simp: declared_def)
    from Cons.IH [OF e(4)] e(2) declare_opcodes_Inr(1) [OF e(3), of opcode m] declare_opcodes_Inr(2) [OF e(3), of opcode]
    show ?case unfolding item head by auto
  qed (simp add: declared_def)
  then show "dict_get d' opcode = Some m \<longleftrightarrow> dict_get d opcode = Some m \<or> declared items opcode m"
    and "declared items opcode m \<Longrightarrow> 0 \<le> opcode \<and> opcode \<le> 0xFFFF \<and> m \<noteq> []" by auto
qed


lemma required_map_Inr: "required_map v field = Inr m \<longleftrightarrow> map_get v [field] = m \<and> (\<exists>d. m = PDict d)"
  by (auto simp: required_map_def simp del: map_get.simps split: pyval.splits)

lemma require_members_Inr: "require_members actual required = Inr u \<longleftrightarrow> set (map text_lit required) \<subseteq> actual"
  by (auto simp: require_members_def list_all_iff)

lemma require_contract_Inr: "require_contract actual expected = Inr u \<longleftrightarrow> actual = text_lit expected"
  by (auto simp: require_contract_def)

definition flow_query_contract :: "flow_query_capabilities \<Rightarrow> bool" where
  "flow_query_contract q \<longleftrightarrow>
     fqc_request_contract q = text_lit ''ferric.flow.query.request/v1'' \<and>
     fqc_result_contract q = text_lit ''ferric.flow.query.result/v1'' \<and>
     fqc_explain_contract q = text_lit ''ferric.flow.explain/v1'' \<and>
     fqc_index_status_contract q = text_lit ''ferric.flow.query.indexes/v1'' \<and>
     set (map text_lit FLOW_QUERY_CAPABILITIES) \<subseteq> fqc_capabilities q \<and>
     text_lit ''FQL1'' \<in> fqc_language_versions q \<and>
     set (map text_lit FLOW_QUERY_SHAPES) \<subseteq> fqc_shapes q"

lemma parse_flow_query_contract: "parse_flow_query_capabilities caps schemas = Inr q \<Longrightarrow> flow_query_contract q"
  by (auto simp: parse_flow_query_capabilities_def flow_query_contract_def require_members_Inr require_contract_Inr
      split: if_splits)

lemma positive_int_Inr: "positive_int v = Inr n \<longleftrightarrow> v = PInt n \<and> 0 < n"
  by (auto simp: positive_int_def plain_int_def split: pyval.splits)

text \<open>
  C21. A HELLO answer that is accepted satisfies the contract the client relies on: the required query
  capabilities, shapes and schema fields are there, the response limit is positive, and the codec table
  maps each opcode to exactly the codec that declares it, with no opcode claimed twice.
\<close>

theorem hello_contract:
  assumes "parse_hello_capabilities v = Inr n"
  shows "0 < ng_max_response_bytes n \<and> flow_query_contract (ng_flow_query n) \<and>
    {text_lit ''expected_generation'', text_lit ''replace''} \<subseteq> ng_flow_policy_set_fields n \<and>
    (\<forall>opcode name. dict_get (ng_compact_response_codecs n) opcode = Some name \<longleftrightarrow>
       declared (dict_items (map_get (map_get (map_get v [''capabilities'']) [''response_codecs''])
         [''compact_response_opcodes''])) opcode name) \<and>
    (\<forall>opcode name. dict_get (ng_compact_response_codecs n) opcode = Some name \<longrightarrow>
       0 \<le> opcode \<and> opcode \<le> 0xFFFF \<and> name \<noteq> [])"
proof -
  from assms obtain caps codecs compact schemas where caps: "required_map v ''capabilities'' = Inr caps"
    and codecs: "required_map caps ''response_codecs'' = Inr codecs"
    and compact: "required_map codecs ''compact_response_opcodes'' = Inr compact"
    and fields: "{text_lit ''expected_generation'', text_lit ''replace''} \<subseteq> ng_flow_policy_set_fields n"
    and query: "parse_flow_query_capabilities caps schemas = Inr (ng_flow_query n)"
    and table: "declare_codecs (dict_items compact) [] = Inr (ng_compact_response_codecs n)"
    and pos: "0 < ng_max_response_bytes n"
    by (auto simp: parse_hello_capabilities_def Let_def positive_int_Inr simp del: map_get.simps
        split: pyval.splits if_splits)
  have compact_eq: "compact = map_get (map_get (map_get v [''capabilities'']) [''response_codecs'']) [''compact_response_opcodes'']"
    using caps codecs compact by (simp add: required_map_Inr del: map_get.simps)
  show ?thesis
    using pos fields parse_flow_query_contract [OF query] declare_codecs_Inr [OF table]
    unfolding compact_eq [symmetric] by auto
qed

definition text_value :: "string \<Rightarrow> pyval" where "text_value s = PStr (text_lit s)"

definition text_values :: "string list \<Rightarrow> pyval" where "text_values ss = PList (map text_value ss)"

definition fields_value :: "(string \<times> pyval) list \<Rightarrow> pyval" where
  "fields_value fs = PDict (map (\<lambda>(k, v). (text_value k, v)) fs)"

definition sample_manifest :: pyval where
  "sample_manifest = fields_value
     [(''request_contract'', text_value ''ferric.flow.query.request/v1''),
      (''result_contract'', text_value ''ferric.flow.query.result/v1''),
      (''explain_contract'', text_value ''ferric.flow.explain/v1''),
      (''index_status_contract'', text_value ''ferric.flow.query.indexes/v1''),
      (''capabilities'', text_values FLOW_QUERY_CAPABILITIES), (''language_versions'', text_values [''FQL1'']),
      (''shapes'', text_values FLOW_QUERY_SHAPES)]"

definition sample_query_schema :: pyval where
  "sample_query_schema = fields_value
     [(''fields'', text_values [''version'', ''query'', ''params'', ''deadline_ms'']),
      (''required'', text_values [''query'', ''version''])]"

definition sample_policy_schema :: pyval where
  "sample_policy_schema = fields_value [(''fields'', text_values [''replace'', ''expected_generation''])]"

definition sample_schemas :: pyval where
  "sample_schemas = fields_value
     [(''FLOW.POLICY.SET'', sample_policy_schema), (''FLOW.QUERY'', sample_query_schema)]"

definition sample_codecs :: pyval where
  "sample_codecs = fields_value
     [(''compact_response_opcodes'', fields_value [(''kv'', PList [PInt 257, PInt 258])])]"

definition sample_capabilities :: pyval where
  "sample_capabilities = fields_value
     [(''limits'', fields_value [(''max_response_bytes'', PInt 1000)]), (''response_codecs'', sample_codecs),
      (''schemas'', sample_schemas), (''flow_query'', sample_manifest)]"

definition sample_hello :: pyval where
  "sample_hello = fields_value
     [(''protocol'', text_value ''ferricstore-native''), (''version'', PInt 1), (''auth_required'', PBool True),
      (''capabilities'', sample_capabilities)]"

lemma text_lit_eq_iff: "text_lit s = text_lit t \<longleftrightarrow> s = t"
  by (auto simp: text_lit_def inj_map_eq_map [OF inj_of_char] intro: injI)

lemma map_get_fields:
  "map_get (fields_value ((k, v) # fs)) [field] = (if k = field then v else map_get (fields_value fs) [field])"
proof -
  have "dict_get (map (\<lambda>(k, v). (text_value k, v)) fs) (PBytes b) = None" for b
    by (induction fs) (auto simp: text_value_def)
  then show ?thesis
    by (simp add: fields_value_def text_value_def text_lit_eq_iff del: dict_get_None split: option.split)
qed

definition plain_text :: "string \<Rightarrow> bool" where
  "plain_text s \<longleftrightarrow> s \<noteq> [] \<and> length s \<le> 256 \<and> list_all (\<lambda>c. (of_char c :: nat) < 128) s"

lemma plain_text_encode:
  assumes "plain_text s"
  shows "\<exists>b. utf8_encode (text_lit s) = Inr b \<and> length b \<le> 256" "text_lit s \<noteq> []"
proof -
  have "list_all (\<lambda>c. (of_char c :: nat) < 128) s \<Longrightarrow>
      utf8_encode (text_lit s) = Inr (map of_nat (text_lit s))" for s
    by (induction s) (auto simp: text_lit_def is_surrogate_def utf8_char_def)
  then show "\<exists>b. utf8_encode (text_lit s) = Inr b \<and> length b \<le> 256" "text_lit s \<noteq> []"
    using assms by (auto simp: plain_text_def text_lit_def)
qed

lemma hello_text_value [simp]: "hello_text (text_value s) = text_lit s"
  by (simp add: hello_text_def text_value_def)

lemma required_text_value:
  "map_get v [field] = text_value s \<Longrightarrow> plain_text s \<Longrightarrow> required_text v field = Inr (text_lit s)"
  using plain_text_encode [of s] by (auto simp: required_text_def)

lemma bounded_texts_values:
  "list_all plain_text ss \<Longrightarrow> distinct ss \<Longrightarrow> set (map text_lit ss) \<inter> acc = {} \<Longrightarrow>
   bounded_texts (map text_value ss) acc = Inr (acc \<union> set (map text_lit ss))"
proof (induction ss arbitrary: acc)
  case (Cons s ss)
  have "set (map text_lit ss) \<inter> insert (text_lit s) acc = {}"
    using Cons.prems by (auto simp: text_lit_eq_iff)
  with Cons plain_text_encode [of s] show ?case by auto
qed simp

lemma bounded_set_values:
  assumes "map_get v [field] = text_values ss" "list_all plain_text ss" "distinct ss" "1 \<le> length ss" "length ss \<le> k"
  shows "bounded_text_set v field k = Inr (set (map text_lit ss))"
  using assms bounded_texts_values [of ss "{}"]
  by (simp add: bounded_text_set_def text_values_def sequence_items_def)

lemma sample_query_ok: "\<exists>q. parse_flow_query_capabilities sample_capabilities sample_schemas = Inr q"
proof -
  have maps: "required_map sample_capabilities ''flow_query'' = Inr sample_manifest"
    "required_map sample_schemas ''FLOW.QUERY'' = Inr sample_query_schema"
    by (simp_all add: required_map_Inr sample_capabilities_def sample_schemas_def map_get_fields)
      (simp_all add: sample_manifest_def sample_query_schema_def fields_value_def)
  note contract = required_text_value [where v = sample_manifest, unfolded plain_text_def]
  have contracts:
    "required_text sample_manifest ''request_contract'' = Inr (text_lit ''ferric.flow.query.request/v1'')"
    "required_text sample_manifest ''result_contract'' = Inr (text_lit ''ferric.flow.query.result/v1'')"
    "required_text sample_manifest ''explain_contract'' = Inr (text_lit ''ferric.flow.explain/v1'')"
    "required_text sample_manifest ''index_status_contract'' = Inr (text_lit ''ferric.flow.query.indexes/v1'')"
    by (rule contract, simp add: sample_manifest_def map_get_fields, simp)+
  have sets:
    "bounded_text_set sample_manifest ''capabilities'' 64 = Inr (set (map text_lit FLOW_QUERY_CAPABILITIES))"
    "bounded_text_set sample_manifest ''language_versions'' 16 = Inr (set (map text_lit [''FQL1'']))"
    "bounded_text_set sample_manifest ''shapes'' 128 = Inr (set (map text_lit FLOW_QUERY_SHAPES))"
    "bounded_text_set sample_query_schema ''fields'' 64 =
       Inr (set (map text_lit [''version'', ''query'', ''params'', ''deadline_ms'']))"
    "bounded_text_set sample_query_schema ''required'' 16 = Inr (set (map text_lit [''query'', ''version'']))"
    by (rule bounded_set_values;
        simp add: sample_manifest_def sample_query_schema_def map_get_fields plain_text_def
          FLOW_QUERY_CAPABILITIES_def FLOW_QUERY_SHAPES_def)+
  have members: "require_members (set (map text_lit ss)) ss = Inr ()" for ss
    by (simp add: require_members_Inr)
  have contract_ok: "require_contract (text_lit s) s = Inr ()" for s by (simp add: require_contract_def)
  show ?thesis
    unfolding parse_flow_query_capabilities_def
    by (simp add: maps contracts sets members contract_ok del: set_map list.map) auto
qed

lemma sample_hello_ok: "\<exists>n. parse_hello_capabilities sample_hello = Inr n"
proof -
  obtain q where q: "parse_flow_query_capabilities sample_capabilities sample_schemas = Inr q"
    using sample_query_ok by blast
  have maps: "required_map sample_hello ''capabilities'' = Inr sample_capabilities"
    "required_map sample_capabilities ''limits'' = Inr (fields_value [(''max_response_bytes'', PInt 1000)])"
    "required_map sample_capabilities ''response_codecs'' = Inr sample_codecs"
    "required_map sample_codecs ''compact_response_opcodes'' = Inr (fields_value [(''kv'', PList [PInt 257, PInt 258])])"
    "required_map sample_capabilities ''schemas'' = Inr sample_schemas"
    "required_map sample_schemas ''FLOW.POLICY.SET'' = Inr sample_policy_schema"
    by (simp_all add: required_map_Inr sample_hello_def sample_capabilities_def sample_codecs_def sample_schemas_def
        map_get_fields) (simp_all add: sample_capabilities_def sample_codecs_def sample_schemas_def
          sample_policy_schema_def fields_value_def)
  have fields: "required_text_set sample_policy_schema ''fields'' =
      Inr (set (map text_lit [''replace'', ''expected_generation'']))"
    by (simp add: required_text_set_def sample_policy_schema_def map_get_fields text_values_def sequence_items_def)
      (simp add: text_lit_def)
  have table: "declare_codecs (dict_items (fields_value [(''kv'', PList [PInt 257, PInt 258])])) [] =
      Inr [(257, text_lit ''kv''), (258, text_lit ''kv'')]"
    by (simp add: fields_value_def dict_items_def sequence_items_def plain_int_def Let_def text_lit_def)
  have head: "hello_text (map_get sample_hello [''protocol'']) = text_lit ''ferricstore-native''"
    "plain_int (map_get sample_hello [''version'']) = Some 1"
    "positive_int (map_get (fields_value [(''max_response_bytes'', PInt 1000)]) [''max_response_bytes'']) = Inr 1000"
    by (simp_all add: sample_hello_def map_get_fields plain_int_def positive_int_def)
  obtain d where d: "sample_hello = PDict d" by (simp add: sample_hello_def fields_value_def)
  show ?thesis
    unfolding parse_hello_capabilities_def Let_def
    by (subst (1) d, unfold pyval.case) (simp add: maps fields table head q del: map_get.simps)
qed

theorem hello_contract_witness:
  "\<exists>n. parse_hello_capabilities sample_hello = Inr n \<and> 0 < ng_max_response_bytes n \<and>
     flow_query_contract (ng_flow_query n)"
proof -
  obtain n where "parse_hello_capabilities sample_hello = Inr n"
    using sample_hello_ok by blast
  with hello_contract [OF this] show ?thesis by blast
qed

section \<open>Negotiated limits\<close>

datatype adapter_event = Hello pyval | Reset | Authenticated | Frames assembler

text \<open>What reaches the negotiated state of an adapter; frames change only what the assembler holds.\<close>

definition adapter_step :: "adapter \<Rightarrow> adapter_event \<Rightarrow> adapter" where
  "adapter_step a ev =
     (case ev of
        Hello v \<Rightarrow> fst (apply_hello_negotiation a v)
      | Reset \<Rightarrow> fst (reset_hello_negotiation a)
      | Authenticated \<Rightarrow> mark_authenticated a
      | Frames asm \<Rightarrow>
          (case ad_response_frame_assembler a of
             None \<Rightarrow> a
           | Some old \<Rightarrow> a\<lparr>ad_response_frame_assembler := Some (old\<lparr>as_pending := as_pending asm\<rparr>)\<rparr>))"

definition initial_adapter :: "int option \<Rightarrow> int option \<Rightarrow> int option \<Rightarrow> assembler option \<Rightarrow> adapter" where
  "initial_adapter limit decompressed max_chunks asm =
     \<lparr>ad_configured_max_response_bytes = limit, ad_configured_max_decompressed_response_bytes = decompressed,
      ad_max_response_bytes = limit, ad_max_decompressed_response_bytes = decompressed,
      ad_max_response_chunks = max_chunks, ad_compact_response_codecs = [], ad_auth_required = False,
      ad_authenticated = False, ad_negotiated_capabilities = None, ad_compact_pubsub_publish = False,
      ad_compact_stream_xadd = False, ad_response_frame_assembler = asm\<rparr>"

definition within_limit :: "int option \<Rightarrow> int option \<Rightarrow> bool" where
  "within_limit limit configured \<longleftrightarrow> (\<forall>c. configured = Some c \<longrightarrow> (\<exists>m. limit = Some m \<and> m \<le> c))"

definition adapter_inv :: "adapter \<Rightarrow> bool" where
  "adapter_inv a \<longleftrightarrow>
     within_limit (ad_max_response_bytes a) (ad_configured_max_response_bytes a) \<and>
     within_limit (ad_max_decompressed_response_bytes a) (ad_configured_max_decompressed_response_bytes a) \<and>
     (case ad_negotiated_capabilities a of
        None \<Rightarrow> ad_max_response_bytes a = ad_configured_max_response_bytes a \<and>
                ad_compact_response_codecs a = [] \<and> \<not> ad_auth_required a \<and>
                \<not> ad_compact_pubsub_publish a \<and> \<not> ad_compact_stream_xadd a
      | Some n \<Rightarrow> within_limit (ad_max_response_bytes a) (Some (ng_max_response_bytes n)) \<and>
                  within_limit (ad_max_decompressed_response_bytes a) (Some (ng_max_response_bytes n)) \<and>
                  ad_compact_response_codecs a = ng_compact_response_codecs n \<and>
                  ad_auth_required a = ng_auth_required n \<and>
                  ad_compact_pubsub_publish a = ng_compact_pubsub_publish n \<and>
                  ad_compact_stream_xadd a = ng_compact_stream_xadd n)"

lemma within_minimum: "within_limit (Some (minimum_limit c n)) c" "within_limit (Some (minimum_limit c n)) (Some n)"
  by (auto simp: within_limit_def minimum_limit_def split: option.split)

lemma within_refl [simp]: "within_limit c c"
  by (simp add: within_limit_def)

lemma reconfigure_only_assembler:
  "\<exists>asm. fst (reconfigure_frame_assembler a) = a\<lparr>ad_response_frame_assembler := asm\<rparr>"
  by (auto simp: reconfigure_frame_assembler_def split: option.split sum.split intro: exI [of _ "ad_response_frame_assembler a"])

lemma inv_assembler [simp]: "adapter_inv (a\<lparr>ad_response_frame_assembler := asm\<rparr>) \<longleftrightarrow> adapter_inv a"
  by (simp add: adapter_inv_def split: option.split)

lemma inv_authenticated [simp]: "adapter_inv (a\<lparr>ad_authenticated := b\<rparr>) \<longleftrightarrow> adapter_inv a"
  by (simp add: adapter_inv_def split: option.split)

lemma inv_reconfigure [simp]: "adapter_inv (fst (reconfigure_frame_assembler a)) \<longleftrightarrow> adapter_inv a"
  using reconfigure_only_assembler [of a] by (metis inv_assembler)

lemma apply_hello_inv: "adapter_inv a \<Longrightarrow> adapter_inv (fst (apply_hello_negotiation a v))"
proof (cases "parse_hello_capabilities v")
  case (Inr n)
  assume "adapter_inv a"
  define b where "b = a\<lparr>ad_max_response_bytes :=
                       Some (minimum_limit (ad_configured_max_response_bytes a) (ng_max_response_bytes n)),
                     ad_max_decompressed_response_bytes :=
                       Some (minimum_limit (ad_configured_max_decompressed_response_bytes a) (ng_max_response_bytes n)),
                     ad_compact_response_codecs := ng_compact_response_codecs n,
                     ad_auth_required := ng_auth_required n,
                     ad_authenticated := \<not> ng_auth_required n,
                     ad_negotiated_capabilities := Some n,
                     ad_compact_pubsub_publish := ng_compact_pubsub_publish n,
                     ad_compact_stream_xadd := ng_compact_stream_xadd n\<rparr>"
  have "adapter_inv b" by (simp add: adapter_inv_def b_def within_minimum)
  moreover have "fst (apply_hello_negotiation a v) = fst (reconfigure_frame_assembler b)"
    by (simp add: apply_hello_negotiation_def Inr b_def [symmetric] Let_def split: prod.split sum.split)
  ultimately show ?thesis by simp
qed (simp add: apply_hello_negotiation_def)

lemma reset_hello_inv: "adapter_inv (fst (reset_hello_negotiation a))"
proof -
  define b where "b = a\<lparr>ad_max_response_bytes := ad_configured_max_response_bytes a,
                 ad_max_decompressed_response_bytes := ad_configured_max_decompressed_response_bytes a,
                 ad_compact_response_codecs := [], ad_auth_required := False, ad_authenticated := False,
                 ad_negotiated_capabilities := None, ad_compact_pubsub_publish := False,
                 ad_compact_stream_xadd := False\<rparr>"
  have "adapter_inv b" by (simp add: adapter_inv_def b_def)
  then show ?thesis by (simp add: reset_hello_negotiation_def b_def [symmetric] Let_def split: option.split)
qed

lemma adapter_step_inv: "adapter_inv a \<Longrightarrow> adapter_inv (adapter_step a ev)"
  by (cases ev)
    (auto simp: adapter_step_def apply_hello_inv reset_hello_inv mark_authenticated_def split: option.split)

interpretation adapter: preserved adapter_step adapter_inv
  by unfold_locales (rule adapter_step_inv)

text \<open>
  C22. Whatever HELLO answers, resets, authentications and frames an adapter sees, and whichever of them
  fail, the limits in force never exceed the configured ones nor those the server announced, and the
  codec table, the authentication requirement and the optional features are those of the capabilities in
  force, with none in force before a HELLO is accepted.
\<close>

theorem negotiated_limits_never_raised:
  "adapter_inv (foldl adapter_step (initial_adapter limit decompressed max_chunks asm) events)"
proof (rule adapter.after_events)
  show "adapter_inv (initial_adapter limit decompressed max_chunks asm)"
    by (simp add: adapter_inv_def initial_adapter_def)
qed

end
