(* ===== verification/Connection_Pool.thy ===== *)
theory Connection_Pool
  imports Prelude
begin

text \<open>
  The synchronous connection pool: \<open>ProtocolAdapterPool\<close> and \<open>_ProtocolAdapterSession\<close> of
  \<open>protocol_sync_pool.py\<close>. Every method that touches the pool's tables runs under one condition
  variable, so a critical section is one definition here; a method that waits on the condition is the
  pass of its loop, which grants, raises, or waits. \<open>pool_step\<close> interleaves the critical sections of any
  number of threads, each with its program point, and records whether the section called
  \<open>notify_all\<close>. An adapter is its index.
\<close>

section \<open>The pool's tables and critical sections\<close>

record pool =
  pl_size :: nat
  pl_cursor :: nat
  pl_leased :: "nat set"
  pl_active :: "int list"
  pl_closed :: bool
  pl_session_waiters :: int
  pl_broadcasting :: bool
  pl_event_ready :: bool
  pl_idle_listeners :: "nat list"

definition new_pool :: "nat \<Rightarrow> pool result" where
  "new_pool n =
     (if n = 0 then Inl (ValueError ''ProtocolAdapterPool requires at least one adapter'')
      else Inr \<lparr>pl_size = n, pl_cursor = 0, pl_leased = {}, pl_active = replicate n 0, pl_closed = False,
                pl_session_waiters = 0, pl_broadcasting = False, pl_event_ready = False,
                pl_idle_listeners = []\<rparr>)"

definition pool_closed_error :: py_error where
  "pool_closed_error = FerricStoreError ''protocol pool is closed''"

text \<open>One pass of a waiting loop: what it returns or raises, or that it waits.\<close>

datatype 'a pass = Gets 'a | Raises py_error | Waits

definition rotation :: "pool \<Rightarrow> nat list" where
  "rotation p = map (\<lambda>off. (pl_cursor p + off) mod pl_size p) [0..<pl_size p]"

definition add_active :: "nat \<Rightarrow> int \<Rightarrow> pool \<Rightarrow> pool" where
  "add_active i d p = p\<lparr>pl_active := (pl_active p)[i := pl_active p ! i + d]\<rparr>"

definition acquire_adapter :: "pool \<Rightarrow> nat pass \<times> pool" where
  "acquire_adapter p =
     (if pl_closed p then (Raises pool_closed_error, p)
      else if pl_session_waiters p = 0 then
        (case find (\<lambda>i. i \<notin> pl_leased p) (rotation p) of
           Some i \<Rightarrow> (Gets i, (add_active i 1 p)\<lparr>pl_cursor := i + 1\<rparr>)
         | None \<Rightarrow> (Waits, p))
      else (Waits, p))"

definition add_idle_listener :: "nat \<Rightarrow> pool \<Rightarrow> pool" where
  "add_idle_listener l p =
     (if l \<in> set (pl_idle_listeners p) then p else p\<lparr>pl_idle_listeners := pl_idle_listeners p @ [l]\<rparr>)"

definition remove_idle_listener :: "nat \<Rightarrow> pool \<Rightarrow> pool" where
  "remove_idle_listener l p = p\<lparr>pl_idle_listeners := remove1 l (pl_idle_listeners p)\<rparr>"

definition idle_listeners_if_idle :: "pool \<Rightarrow> nat list" where
  "idle_listeners_if_idle p =
     (if list_ex (\<lambda>n. n \<noteq> 0) (pl_active p) \<or> pl_leased p \<noteq> {} \<or> pl_broadcasting p then []
      else pl_idle_listeners p)"

text \<open>A release returns the listeners it goes on to notify, outside the lock.\<close>

definition release_adapter :: "nat \<Rightarrow> pool \<Rightarrow> nat list \<times> pool" where
  "release_adapter i p = (let p' = add_active i (- 1) p in (idle_listeners_if_idle p', p'))"

definition enter_session :: "pool \<Rightarrow> unit pass \<times> pool" where
  "enter_session p =
     (if pl_closed p then (Raises pool_closed_error, p)
      else (Gets (), p\<lparr>pl_session_waiters := pl_session_waiters p + 1\<rparr>))"

definition acquire_session :: "pool \<Rightarrow> nat pass \<times> pool" where
  "acquire_session p =
     (let leave = p\<lparr>pl_session_waiters := pl_session_waiters p - 1,
                    pl_event_ready := (pl_session_waiters p = 1 \<or> pl_event_ready p)\<rparr> in
      if pl_closed p then (Raises pool_closed_error, leave)
      else if pl_broadcasting p then (Waits, p)
      else
        (case find (\<lambda>i. i \<notin> pl_leased p \<and> pl_active p ! i = 0) (rotation p) of
           Some i \<Rightarrow> (Gets i, leave\<lparr>pl_leased := insert i (pl_leased p), pl_cursor := i + 1\<rparr>)
         | None \<Rightarrow> (Waits, p)))"

definition release_session :: "nat \<Rightarrow> pool \<Rightarrow> nat list \<times> pool" where
  "release_session i p =
     (let p' = p\<lparr>pl_leased := pl_leased p - {i}, pl_event_ready := True\<rparr> in (idle_listeners_if_idle p', p'))"

definition reserve_event_adapter :: "nat set \<Rightarrow> pool \<Rightarrow> (nat \<times> pool) option" where
  "reserve_event_adapter excluded p =
     (if pl_closed p \<or> pl_session_waiters p \<noteq> 0 then None
      else map_option (\<lambda>i. (i, add_active i 1 p))
             (find (\<lambda>i. i \<notin> excluded \<and> i \<notin> pl_leased p) [0..<pl_size p]))"

definition start_broadcast :: "pool \<Rightarrow> unit pass \<times> pool" where
  "start_broadcast p =
     (if (pl_leased p \<noteq> {} \<or> pl_broadcasting p) \<and> \<not> pl_closed p then (Waits, p)
      else if pl_closed p then (Raises pool_closed_error, p)
      else (Gets (), p\<lparr>pl_broadcasting := True\<rparr>))"

definition end_broadcast :: "pool \<Rightarrow> nat list \<times> pool" where
  "end_broadcast p = (let p' = p\<lparr>pl_broadcasting := False\<rparr> in (idle_listeners_if_idle p', p'))"

text \<open>\<open>wait_event\<close> clears the event flag before it looks at the adapters again.\<close>

definition clear_event :: "pool \<Rightarrow> pool" where
  "clear_event p = p\<lparr>pl_event_ready := False\<rparr>"

definition close_once :: "pool \<Rightarrow> pool" where
  "close_once p = p\<lparr>pl_closed := True, pl_event_ready := True\<rparr>"

text \<open>Closing a session object returns its adapter the first time and does nothing afterwards.\<close>

record session =
  ss_index :: nat
  ss_closed :: bool

definition session_close :: "session \<Rightarrow> pool \<Rightarrow> session \<times> pool" where
  "session_close s p =
     (if ss_closed s then (s, p) else (s\<lparr>ss_closed := True\<rparr>, snd (release_session (ss_index s) p)))"

section \<open>Threads\<close>

text \<open>
  A thread's program point: outside the pool, waiting for an adapter, inside a call on adapter \<open>i\<close>,
  with \<open>n\<close> submitted futures outstanding on adapter \<open>i\<close> (the callbacks of \<open>_track_futures\<close>), waiting for
  or holding a session, waiting for or running a broadcast.
\<close>

datatype tstate =
    Outside | Wants_adapter | Calling nat | Tracking nat nat
  | Wants_session | Holding nat | Wants_broadcast | Broadcasts

definition settle_future :: "nat \<Rightarrow> nat \<Rightarrow> pool \<Rightarrow> pool \<times> tstate" where
  "settle_future i n p = (if n = 0 then (snd (release_adapter i p), Outside) else (p, Tracking i n))"

inductive pool_step :: "bool \<Rightarrow> pool \<times> tstate list \<Rightarrow> pool \<times> tstate list \<Rightarrow> bool" where
  call: "k < length ts \<Longrightarrow> ts ! k = Outside \<Longrightarrow> pool_step False (p, ts) (p, ts[k := Wants_adapter])"
| granted: "k < length ts \<Longrightarrow> ts ! k = Wants_adapter \<Longrightarrow> acquire_adapter p = (Gets i, p') \<Longrightarrow>
    pool_step False (p, ts) (p', ts[k := Calling i])"
| refused: "k < length ts \<Longrightarrow> ts ! k = Wants_adapter \<Longrightarrow> acquire_adapter p = (Raises e, p') \<Longrightarrow>
    pool_step False (p, ts) (p', ts[k := Outside])"
| returned: "k < length ts \<Longrightarrow> ts ! k = Calling i \<Longrightarrow>
    pool_step True (p, ts) (snd (release_adapter i p), ts[k := Outside])"
| submitted: "k < length ts \<Longrightarrow> ts ! k = Calling i \<Longrightarrow> settle_future i n p = (p', t) \<Longrightarrow>
    pool_step (n = 0) (p, ts) (p', ts[k := t])"
| settled: "k < length ts \<Longrightarrow> ts ! k = Tracking i (Suc n) \<Longrightarrow> settle_future i n p = (p', t) \<Longrightarrow>
    pool_step (n = 0) (p, ts) (p', ts[k := t])"
| polled: "k < length ts \<Longrightarrow> ts ! k = Outside \<Longrightarrow> reserve_event_adapter ex p = Some (i, p') \<Longrightarrow>
    pool_step False (p, ts) (p', ts[k := Calling i])"
| session_entered: "k < length ts \<Longrightarrow> ts ! k = Outside \<Longrightarrow> enter_session p = (Gets (), p') \<Longrightarrow>
    pool_step False (p, ts) (p', ts[k := Wants_session])"
| session_granted: "k < length ts \<Longrightarrow> ts ! k = Wants_session \<Longrightarrow> acquire_session p = (Gets i, p') \<Longrightarrow>
    pool_step True (p, ts) (p', ts[k := Holding i])"
| session_refused: "k < length ts \<Longrightarrow> ts ! k = Wants_session \<Longrightarrow> acquire_session p = (Raises e, p') \<Longrightarrow>
    pool_step True (p, ts) (p', ts[k := Outside])"
| session_closed: "k < length ts \<Longrightarrow> ts ! k = Holding i \<Longrightarrow>
    session_close \<lparr>ss_index = i, ss_closed = False\<rparr> p = (s, p') \<Longrightarrow>
    pool_step True (p, ts) (p', ts[k := Outside])"
| broadcast_called: "k < length ts \<Longrightarrow> ts ! k = Outside \<Longrightarrow>
    pool_step False (p, ts) (p, ts[k := Wants_broadcast])"
| broadcast_started: "k < length ts \<Longrightarrow> ts ! k = Wants_broadcast \<Longrightarrow> start_broadcast p = (Gets (), p') \<Longrightarrow>
    pool_step False (p, ts) (p', ts[k := Broadcasts])"
| broadcast_refused: "k < length ts \<Longrightarrow> ts ! k = Wants_broadcast \<Longrightarrow> start_broadcast p = (Raises e, p') \<Longrightarrow>
    pool_step False (p, ts) (p', ts[k := Outside])"
| broadcast_ended: "k < length ts \<Longrightarrow> ts ! k = Broadcasts \<Longrightarrow>
    pool_step True (p, ts) (snd (end_broadcast p), ts[k := Outside])"
| closed: "pool_step True (p, ts) (close_once p, ts)"
| event_cleared: "pool_step False (p, ts) (clear_event p, ts)"
| listener_added: "pool_step False (p, ts) (add_idle_listener l p, ts)"
| listener_removed: "pool_step False (p, ts) (remove_idle_listener l p, ts)"

inductive pool_reachable :: "pool \<times> tstate list \<Rightarrow> bool" where
  start: "new_pool n = Inr p \<Longrightarrow> list_all (\<lambda>t. t = Outside) ts \<Longrightarrow> pool_reachable (p, ts)"
| step: "pool_reachable s \<Longrightarrow> pool_step b s s' \<Longrightarrow> pool_reachable s'"

section \<open>The invariant\<close>

definition tally :: "(tstate \<Rightarrow> int) \<Rightarrow> tstate list \<Rightarrow> int" where
  "tally f ts = sum_list (map f ts)"

definition uses :: "nat \<Rightarrow> tstate \<Rightarrow> int" where
  "uses i t = (case t of Calling j \<Rightarrow> of_bool (j = i) | Tracking j _ \<Rightarrow> of_bool (j = i) | _ \<Rightarrow> 0)"

definition leases :: "nat \<Rightarrow> tstate \<Rightarrow> int" where
  "leases i t = (case t of Holding j \<Rightarrow> of_bool (j = i) | _ \<Rightarrow> 0)"

definition placed :: "nat \<Rightarrow> tstate \<Rightarrow> bool" where
  "placed n t = (case t of Calling i \<Rightarrow> i < n | Tracking i m \<Rightarrow> i < n \<and> 0 < m | Holding i \<Rightarrow> i < n | _ \<Rightarrow> True)"

definition pool_inv :: "pool \<times> tstate list \<Rightarrow> bool" where
  "pool_inv s \<longleftrightarrow>
     (case s of (p, ts) \<Rightarrow>
        0 < pl_size p \<and> length (pl_active p) = pl_size p \<and>
        (\<forall>i<pl_size p. tally (uses i) ts = pl_active p ! i) \<and>
        (\<forall>i. tally (leases i) ts = (if i \<in> pl_leased p then 1 else 0)) \<and>
        tally (\<lambda>t. of_bool (t = Wants_session)) ts = pl_session_waiters p \<and>
        tally (\<lambda>t. of_bool (t = Broadcasts)) ts = (if pl_broadcasting p then 1 else 0) \<and>
        (\<forall>i\<in>pl_leased p. i < pl_size p \<and> pl_active p ! i = 0) \<and>
        (pl_leased p \<noteq> {} \<longrightarrow> \<not> pl_broadcasting p) \<and>
        (\<forall>t\<in>set ts. placed (pl_size p) t))"

lemma tally_update: "k < length ts \<Longrightarrow> tally f (ts[k := t]) = tally f ts + f t - f (ts ! k)"
proof (induction ts arbitrary: k)
  case (Cons x ts)
  then show ?case by (cases k) (simp_all add: tally_def)
qed simp

lemma rotation_set: "0 < pl_size p \<Longrightarrow> set (rotation p) = {..<pl_size p}"
proof
  assume n: "0 < pl_size p"
  then show "set (rotation p) \<subseteq> {..<pl_size p}" by (auto simp: rotation_def)
  show "{..<pl_size p} \<subseteq> set (rotation p)"
  proof
    fix i assume "i \<in> {..<pl_size p}"
    then have i: "i < pl_size p" by simp
    define off where "off = (i + (pl_size p - pl_cursor p mod pl_size p)) mod pl_size p"
    have "(pl_cursor p + off) mod pl_size p = (pl_cursor p mod pl_size p + (i + (pl_size p - pl_cursor p mod pl_size p))) mod pl_size p"
      unfolding off_def by (metis mod_add_eq mod_mod_trivial)
    also have "\<dots> = (i + pl_size p) mod pl_size p"
      using mod_less_divisor [OF n, of "pl_cursor p"] by (intro arg_cong2 [where f = "(mod)"]) auto
    finally have "(pl_cursor p + off) mod pl_size p = i" using i by simp
    moreover have "off < pl_size p" using n by (simp add: off_def)
    ultimately show "i \<in> set (rotation p)" by (force simp: rotation_def)
  qed
qed

lemma placed_update: "\<forall>t\<in>set ts. placed n t \<Longrightarrow> placed n t' \<Longrightarrow> \<forall>t\<in>set (ts[k := t']). placed n t"
  using set_update_subset_insert [of ts k t'] by blast

lemma find_cases:
  "find P xs = Some i \<Longrightarrow> i \<in> set xs \<and> P i"
  by (auto simp: find_Some_iff)

lemma acquire_adapter_Gets:
  assumes "acquire_adapter p = (Gets i, p')" and "0 < pl_size p"
  shows "i < pl_size p" and "i \<notin> pl_leased p" and "p' = (add_active i 1 p)\<lparr>pl_cursor := i + 1\<rparr>"
    and "pl_session_waiters p = 0" and "\<not> pl_closed p"
  using assms rotation_set [of p]
  by (auto simp: acquire_adapter_def split: if_splits option.splits dest!: find_cases)

lemma reserve_event_adapter_Some:
  assumes "reserve_event_adapter ex p = Some (i, p')"
  shows "i < pl_size p" and "i \<notin> pl_leased p" and "p' = add_active i 1 p" and "pl_session_waiters p = 0"
  using assms by (auto simp: reserve_event_adapter_def split: if_splits dest!: find_cases)

lemma acquire_session_Gets:
  assumes "acquire_session p = (Gets i, p')" and "0 < pl_size p"
  shows "i < pl_size p" and "i \<notin> pl_leased p" and "pl_active p ! i = 0" and "\<not> pl_broadcasting p"
    and "p' = p\<lparr>pl_session_waiters := pl_session_waiters p - 1, pl_event_ready := (pl_session_waiters p = 1 \<or> pl_event_ready p),
        pl_leased := insert i (pl_leased p), pl_cursor := i + 1\<rparr>"
  using assms rotation_set [of p]
  by (auto simp: acquire_session_def Let_def split: if_splits option.splits dest!: find_cases)

lemma acquire_session_Raises:
  "acquire_session p = (Raises e, p') \<Longrightarrow> p' = p\<lparr>pl_session_waiters := pl_session_waiters p - 1,
      pl_event_ready := (pl_session_waiters p = 1 \<or> pl_event_ready p)\<rparr>"
  by (auto simp: acquire_session_def Let_def split: if_splits option.splits)

lemma acquire_adapter_Raises: "acquire_adapter p = (Raises e, p') \<Longrightarrow> p' = p"
  by (auto simp: acquire_adapter_def split: if_splits option.splits)

lemma start_broadcast_cases:
  "start_broadcast p = (Gets u, p') \<Longrightarrow> pl_leased p = {} \<and> \<not> pl_broadcasting p \<and> p' = p\<lparr>pl_broadcasting := True\<rparr>"
  "start_broadcast p = (Raises e, p') \<Longrightarrow> p' = p"
  by (auto simp: start_broadcast_def split: if_splits)

lemmas section_defs = add_active_def release_adapter_def enter_session_def release_session_def
  end_broadcast_def close_once_def session_close_def settle_future_def Let_def

lemma inv_flags [simp]:
  "pool_inv (p\<lparr>pl_event_ready := b\<rparr>, ts) = pool_inv (p, ts)"
  "pool_inv (p\<lparr>pl_idle_listeners := ls\<rparr>, ts) = pool_inv (p, ts)"
  by (simp_all add: pool_inv_def)

lemmas tallies = tally_update uses_def leases_def

lemma inv_grant:
  assumes "pool_inv (p, ts)" and "k < length ts" and "ts ! k \<in> {Outside, Wants_adapter}"
    and "i < pl_size p" and "i \<notin> pl_leased p"
  shows "pool_inv ((add_active i 1 p)\<lparr>pl_cursor := c\<rparr>, ts[k := Calling i])"
proof -
  have "\<forall>t\<in>set (ts[k := Calling i]). placed (pl_size p) t"
    using assms by (intro placed_update) (auto simp: pool_inv_def placed_def)
  with assms show ?thesis
    by (auto simp: pool_inv_def tallies add_active_def nth_list_update)
qed

lemma tally_member: "k < length ts \<Longrightarrow> (\<And>t. 0 \<le> f t) \<Longrightarrow> f (ts ! k) \<le> tally f ts"
  unfolding tally_def by (rule member_le_sum_list [of "f (ts ! k)" "map f ts", OF _ _]) (auto intro: nth_mem)

lemma nonneg_marks [simp]: "0 \<le> uses i t" "0 \<le> leases i t"
  by (simp_all add: uses_def leases_def split: tstate.splits)

lemma marks_Outside [simp]: "uses i Outside = 0" "leases i Outside = 0"
  by (simp_all add: uses_def leases_def)

lemma user_not_leased:
  assumes "pool_inv (p, ts)" and "k < length ts" and "uses i (ts ! k) = 1"
  shows "i \<notin> pl_leased p"
proof
  assume i: "i \<in> pl_leased p"
  with assms(1) have "tally (uses i) ts = 0" by (auto simp: pool_inv_def)
  with tally_member [OF assms(2), of "uses i"] assms(3) show False by simp
qed

lemma inv_release:
  assumes "pool_inv (p, ts)" and "k < length ts" and t: "ts ! k = Calling i \<or> ts ! k = Tracking i n"
  shows "pool_inv (snd (release_adapter i p), ts[k := Outside])"
proof -
  have "\<forall>t\<in>set (ts[k := Outside]). placed (pl_size p) t"
    using assms by (intro placed_update) (auto simp: pool_inv_def placed_def)
  moreover have "i \<notin> pl_leased p"
    using user_not_leased [OF assms(1,2)] t by (auto simp: uses_def)
  moreover from this have "\<forall>j\<in>pl_leased p. xs[i := x] ! j = xs ! j" for xs and x :: int
    by (metis nth_list_update_neq)
  ultimately show ?thesis
    using assms by (auto simp: pool_inv_def tallies section_defs nth_list_update)
qed

lemma inv_point:
  assumes "pool_inv (p, ts)" and "k < length ts" and "placed (pl_size p) t"
    and "\<And>i. uses i t = uses i (ts ! k)" and "\<And>i. leases i t = leases i (ts ! k)"
    and "(t = Broadcasts) = (ts ! k = Broadcasts)"
    and "w = of_bool (t = Wants_session) - of_bool (ts ! k = Wants_session)"
  shows "pool_inv (p\<lparr>pl_session_waiters := pl_session_waiters p + w\<rparr>, ts[k := t])"
proof -
  have "\<forall>t\<in>set (ts[k := t]). placed (pl_size p) t"
    using assms by (intro placed_update) (auto simp: pool_inv_def)
  with assms show ?thesis
    by (auto simp: pool_inv_def tally_update)
qed

lemma inv_session:
  assumes "pool_inv (p, ts)" and "k < length ts" and "ts ! k = Wants_session"
    and "i < pl_size p" and "i \<notin> pl_leased p" and "pl_active p ! i = 0" and "\<not> pl_broadcasting p"
  shows "pool_inv (p\<lparr>pl_session_waiters := pl_session_waiters p - 1, pl_event_ready := b,
     pl_leased := insert i (pl_leased p), pl_cursor := c\<rparr>, ts[k := Holding i])"
proof -
  have "\<forall>t\<in>set (ts[k := Holding i]). placed (pl_size p) t"
    using assms by (intro placed_update) (auto simp: pool_inv_def placed_def)
  with assms show ?thesis
    by (auto simp: pool_inv_def tallies)
qed

lemma inv_unlease:
  assumes "pool_inv (p, ts)" and "k < length ts" and "ts ! k = Holding i"
  shows "pool_inv (snd (release_session i p), ts[k := Outside])"
proof -
  have "\<forall>t\<in>set (ts[k := Outside]). placed (pl_size p) t"
    using assms by (intro placed_update) (auto simp: pool_inv_def placed_def)
  moreover have "1 \<le> tally (leases i) ts"
    using tally_member [OF assms(2), of "leases i", OF nonneg_marks(2)] assms(3) by (simp add: leases_def)
  then have "i \<in> pl_leased p" using assms(1) by (auto simp: pool_inv_def split: if_splits)
  ultimately show ?thesis
    using assms by (auto simp: pool_inv_def tallies release_session_def Let_def)
qed

lemma inv_broadcast:
  assumes "pool_inv (p, ts)" and "k < length ts"
  shows "ts ! k = Wants_broadcast \<Longrightarrow> pl_leased p = {} \<Longrightarrow> \<not> pl_broadcasting p \<Longrightarrow>
      pool_inv (p\<lparr>pl_broadcasting := True\<rparr>, ts[k := Broadcasts])"
    and "ts ! k = Broadcasts \<Longrightarrow> pool_inv (snd (end_broadcast p), ts[k := Outside])"
proof -
  have pl: "\<forall>t\<in>set (ts[k := t]). placed (pl_size p) t" if "t = Broadcasts \<or> t = Outside" for t
    using assms that by (intro placed_update) (auto simp: pool_inv_def placed_def)
  show "pool_inv (p\<lparr>pl_broadcasting := True\<rparr>, ts[k := Broadcasts])"
    if "ts ! k = Wants_broadcast" "pl_leased p = {}" "\<not> pl_broadcasting p"
    using assms pl [of Broadcasts] that by (auto simp: pool_inv_def tallies)
  show "pool_inv (snd (end_broadcast p), ts[k := Outside])" if "ts ! k = Broadcasts"
  proof -
    have "1 \<le> tally (\<lambda>t. of_bool (t = Broadcasts)) ts"
      using tally_member [OF assms(2), of "\<lambda>t. of_bool (t = Broadcasts)"] that by simp
    then have "pl_broadcasting p" using assms(1) by (auto simp: pool_inv_def split: if_splits)
    with assms pl [of Outside] that show ?thesis
      by (auto simp: pool_inv_def tallies end_broadcast_def Let_def)
  qed
qed

lemma inv_relabel:
  assumes "pool_inv (p, ts)" and "k < length ts" and "ts ! k \<in> {Outside, Wants_adapter, Wants_broadcast}"
    and "t \<in> {Outside, Wants_adapter, Wants_broadcast}"
  shows "pool_inv (p, ts[k := t])"
  using inv_point [of p ts k t 0] assms by (auto simp: placed_def uses_def leases_def)

lemma inv_track:
  assumes "pool_inv (p, ts)" and "k < length ts" and "ts ! k = Calling i \<or> ts ! k = Tracking i m"
    and "settle_future i n p = (p', t)"
  shows "pool_inv (p', ts[k := t])"
proof (cases "n = 0")
  case True
  with assms inv_release [OF assms(1-3)] show ?thesis by (simp add: settle_future_def)
next
  case False
  have "placed (pl_size p) (ts ! k)" using assms(1,2) by (auto simp: pool_inv_def)
  then have "pool_inv (p, ts[k := Tracking i n])"
    using False assms inv_point [of p ts k "Tracking i n" 0] by (auto simp: placed_def uses_def leases_def)
  with False assms(4) show ?thesis by (simp add: settle_future_def)
qed

lemma pool_inv_step: "pool_step b s s' \<Longrightarrow> pool_inv s \<Longrightarrow> pool_inv s'"
proof (induction rule: pool_step.induct)
  case (granted k ts p i p')
  then have "0 < pl_size p" by (simp add: pool_inv_def)
  from acquire_adapter_Gets [OF granted(3) this] granted show ?case
    using inv_grant [of p ts k i "i + 1"] by simp
next
  case (polled k ts ex p i p')
  from reserve_event_adapter_Some [OF polled(3)] polled show ?case
    using inv_grant [of p ts k i "pl_cursor p"] by (simp add: add_active_def)
next
  case (session_entered k ts p p')
  then show ?case
    using inv_point [of p ts k Wants_session 1]
    by (auto simp: enter_session_def placed_def uses_def leases_def split: if_splits)
next
  case (session_granted k ts p i p')
  then have "0 < pl_size p" by (simp add: pool_inv_def)
  from acquire_session_Gets [OF session_granted(3) this] session_granted show ?case
    using inv_session [where i = i and c = "i + 1"] by simp
next
  case (session_refused k ts p e p')
  then show ?case
    using inv_point [of p ts k Outside "- 1"]
    by (auto simp: placed_def uses_def leases_def dest!: acquire_session_Raises)
next
  case (session_closed k ts i p s p')
  then show ?case using inv_unlease [of p ts k i] by (simp add: session_close_def)
next
  case (broadcast_started k ts p p')
  then show ?case using inv_broadcast(1) [of p ts k] by (auto dest!: start_broadcast_cases(1))
next
  case (broadcast_ended k ts p)
  then show ?case using inv_broadcast(2) [of p ts k] by simp
next
  case (closed p ts)
  then show ?case by (simp add: pool_inv_def close_once_def)
next
  case (listener_added p ts l)
  then show ?case by (simp add: add_idle_listener_def)
next
  case (listener_removed p ts l)
  then show ?case by (simp add: remove_idle_listener_def)
next
  case (event_cleared p ts)
  then show ?case by (simp add: clear_event_def)
qed (auto intro: inv_relabel inv_release inv_track dest!: acquire_adapter_Raises start_broadcast_cases(2))

lemma pool_inv_reachable: "pool_reachable s \<Longrightarrow> pool_inv s"
proof (induction rule: pool_reachable.induct)
  case (start n p ts)
  have ts: "ts = replicate (length ts) Outside"
    using start(2) by (auto simp: list_all_iff intro!: replicate_eqI)
  have "tally f ts = int (length ts) * f Outside" for f
    by (subst ts) (simp add: tally_def sum_list_replicate)
  with start show ?case
    by (auto simp: pool_inv_def new_pool_def uses_def leases_def placed_def list_all_iff split: if_splits)
qed (rule pool_inv_step)

section \<open>Exclusion, progress and wake-ups\<close>

lemma tally_two:
  assumes "k < length ts" and "l < length ts" and "k \<noteq> l" and "\<And>t. 0 \<le> f t" and "f Outside = 0"
  shows "f (ts ! k) + f (ts ! l) \<le> tally f ts"
proof -
  have "f (ts[k := Outside] ! l) \<le> tally f (ts[k := Outside])"
    using assms by (intro tally_member) simp_all
  with assms show ?thesis by (simp add: tally_update)
qed

lemma tally_zero: "tally f ts = 0 \<Longrightarrow> (\<And>t. 0 \<le> f t) \<Longrightarrow> k < length ts \<Longrightarrow> f (ts ! k) = 0"
  using tally_member [of k ts f] by (simp add: order_antisym)

definition holds :: "tstate \<Rightarrow> bool" where
  "holds t \<longleftrightarrow> t \<notin> {Outside, Wants_adapter, Wants_session, Wants_broadcast}"

lemma holds_cases: "holds t \<longleftrightarrow> (\<exists>i. uses i t = 1 \<or> leases i t = 1) \<or> t = Broadcasts"
  by (cases t) (auto simp: holds_def uses_def leases_def)

lemma no_holder_tables:
  assumes "pool_inv (p, ts)" and "\<forall>t\<in>set ts. \<not> holds t"
  shows "pl_leased p = {}" and "\<not> pl_broadcasting p" and "\<forall>i<pl_size p. pl_active p ! i = 0"
proof -
  have zero: "tally f ts = 0" if "\<And>t. \<not> holds t \<Longrightarrow> f t = 0" for f
    using assms(2) that by (induction ts) (auto simp: tally_def)
  have "tally (leases i) ts = 0" "tally (uses i) ts = 0" for i
    by (rule zero; auto simp: holds_def leases_def uses_def split: tstate.splits)+
  moreover have "tally (\<lambda>t. of_bool (t = Broadcasts)) ts = 0"
    by (rule zero) (auto simp: holds_def)
  ultimately show "pl_leased p = {}" "\<not> pl_broadcasting p" "\<forall>i<pl_size p. pl_active p ! i = 0"
    using assms(1) by (auto simp: pool_inv_def split: if_splits)
qed

lemma find_rotation:
  assumes "0 < pl_size p" and "i < pl_size p" and "P i"
  obtains j where "find P (rotation p) = Some j"
  using assms rotation_set [OF assms(1)] by (cases "find P (rotation p)") (auto simp: find_None_iff)

lemma idle_iff:
  assumes inv: "pool_inv (p, ts)"
  shows "(\<not> list_ex (\<lambda>n. n \<noteq> 0) (pl_active p) \<and> pl_leased p = {} \<and> \<not> pl_broadcasting p) \<longleftrightarrow>
    (\<forall>t\<in>set ts. \<not> holds t)" (is "?idle \<longleftrightarrow> _")
proof
  assume idle: ?idle
  show "\<forall>t\<in>set ts. \<not> holds t"
  proof
    fix t assume "t \<in> set ts"
    then obtain k where k: "k < length ts" "t = ts ! k" by (auto simp: in_set_conv_nth)
    have "tally (leases i) ts = 0" for i using idle inv by (simp add: pool_inv_def)
    then have "leases i t = 0" for i
      using tally_zero [of "leases i" ts k, OF _ nonneg_marks(2)] k by simp
    moreover have "tally (uses i) ts = 0" if "i < pl_size p" for i
      using idle inv that by (auto simp: pool_inv_def list_ex_iff)
    then have "uses i t = 0" if "i < pl_size p" for i
      using tally_zero [of "uses i" ts k, OF _ nonneg_marks(1)] k that by simp
    moreover have "tally (\<lambda>t. of_bool (t = Broadcasts)) ts = 0"
      using idle inv by (simp add: pool_inv_def)
    then have "t \<noteq> Broadcasts"
      using tally_zero [of "\<lambda>t. of_bool (t = Broadcasts)" ts k] k by simp
    moreover have "placed (pl_size p) t" using inv k by (auto simp: pool_inv_def)
    ultimately show "\<not> holds t"
      unfolding holds_cases by (cases t) (auto simp: uses_def leases_def placed_def)
  qed
next
  assume "\<forall>t\<in>set ts. \<not> holds t"
  from no_holder_tables [OF inv this] inv show ?idle
    by (auto simp: list_ex_iff in_set_conv_nth pool_inv_def)
qed

lemma active_nonneg:
  assumes "pool_inv (p, ts)" and "i < pl_size p"
  shows "0 \<le> pl_active p ! i"
proof -
  have "0 \<le> tally (uses i) ts" unfolding tally_def by (rule sum_list_nonneg) auto
  with assms show ?thesis by (auto simp: pool_inv_def)
qed

lemma waiters_nonneg: "pool_inv (p, ts) \<Longrightarrow> 0 \<le> pl_session_waiters p"
proof -
  assume "pool_inv (p, ts)"
  moreover have "0 \<le> tally (\<lambda>t. of_bool (t = Wants_session)) ts" unfolding tally_def by (rule sum_list_nonneg) auto
  ultimately show ?thesis by (simp add: pool_inv_def)
qed

text \<open>
  A run of two threads on two adapters: the first takes a session on adapter 0, the second then a call
  on adapter 1 while the session is held.
\<close>

definition pool_two :: pool where
  "pool_two = \<lparr>pl_size = 2, pl_cursor = 0, pl_leased = {}, pl_active = [0, 0], pl_closed = False,
     pl_session_waiters = 0, pl_broadcasting = False, pl_event_ready = False, pl_idle_listeners = []\<rparr>"

definition session_taken :: "pool \<times> tstate list" where
  "session_taken = (pool_two\<lparr>pl_cursor := 1, pl_leased := {0}, pl_event_ready := True\<rparr>, [Holding 0, Outside])"

lemma example_start: "pool_reachable (pool_two, [Outside, Outside])"
  by (rule pool_reachable.start [of 2]) (simp_all add: new_pool_def pool_two_def numeral_2_eq_2)

lemma example_session: "pool_reachable session_taken"
proof -
  let ?w = "pool_two\<lparr>pl_session_waiters := 1\<rparr>"
  have "pool_step False (pool_two, [Outside, Outside]) (?w, [Wants_session, Outside])"
    using pool_step.session_entered [of 0 "[Outside, Outside]" pool_two ?w]
    by (simp add: enter_session_def pool_two_def)
  with example_start have "pool_reachable (?w, [Wants_session, Outside])" by (rule pool_reachable.step)
  moreover have "acquire_session ?w = (Gets 0, fst session_taken)"
    by (simp add: acquire_session_def rotation_def pool_two_def session_taken_def upt_rec)
  then have "pool_step True (?w, [Wants_session, Outside]) session_taken"
    using pool_step.session_granted [of 0 "[Wants_session, Outside]" ?w 0 "fst session_taken"]
    by (simp add: session_taken_def)
  ultimately show ?thesis by (rule pool_reachable.step)
qed

lemma example_called:
  "pool_reachable (fst session_taken, [Holding 0, Wants_adapter])"
  "pool_step False (fst session_taken, [Holding 0, Wants_adapter])
     (add_active 1 1 (fst session_taken)\<lparr>pl_cursor := 2\<rparr>, [Holding 0, Calling 1])"
proof -
  have "pool_step False session_taken (fst session_taken, [Holding 0, Wants_adapter])"
    using pool_step.call [of 1 "[Holding 0, Outside]" "fst session_taken"] by (simp add: session_taken_def)
  with example_session show "pool_reachable (fst session_taken, [Holding 0, Wants_adapter])"
    by (rule pool_reachable.step)
  have "acquire_adapter (fst session_taken) = (Gets 1, add_active 1 1 (fst session_taken)\<lparr>pl_cursor := 2\<rparr>)"
    by (simp add: acquire_adapter_def rotation_def pool_two_def session_taken_def upt_rec)
  from pool_step.granted [OF _ _ this, of 1 "[Holding 0, Wants_adapter]"]
  show "pool_step False (fst session_taken, [Holding 0, Wants_adapter])
     (add_active 1 1 (fst session_taken)\<lparr>pl_cursor := 2\<rparr>, [Holding 0, Calling 1])"
    by simp
qed

text \<open>
  C33. Sessions own their connection. In every reachable state of the pool and its threads, a thread
  that holds a session on adapter \<open>i\<close> is alone on it: no other thread is in a call, has futures
  outstanding or holds a session there, and no broadcast is running. The pool's tables are exact
  counts of the threads, so its idle check holds exactly when no thread holds anything.
\<close>
theorem pool_sessions_exclusive:
  assumes "pool_reachable (p, ts)"
  shows "(\<forall>k<length ts. \<forall>l<length ts. \<forall>i. k \<noteq> l \<and> ts ! k = Holding i \<longrightarrow>
       ts ! l \<noteq> Calling i \<and> ts ! l \<noteq> Holding i \<and> ts ! l \<noteq> Broadcasts \<and> (\<forall>n. ts ! l \<noteq> Tracking i n)) \<and>
     (idle_listeners_if_idle p = (if \<forall>t\<in>set ts. \<not> holds t then pl_idle_listeners p else []))"
proof (intro conjI allI impI)
  have inv: "pool_inv (p, ts)" using assms by (rule pool_inv_reachable)
  fix k l i
  assume k: "k < length ts" and l: "l < length ts" and kl: "k \<noteq> l \<and> ts ! k = Holding i"
  have "1 \<le> tally (leases i) ts"
    using tally_member [OF k, of "leases i", OF nonneg_marks(2)] kl by (simp add: leases_def)
  then have i: "i \<in> pl_leased p" using inv by (auto simp: pool_inv_def split: if_splits)
  have "leases i (ts ! k) + leases i (ts ! l) \<le> tally (leases i) ts"
    using kl by (intro tally_two k l) simp_all
  with i have "leases i (ts ! k) + leases i (ts ! l) \<le> 1" "tally (uses i) ts = 0"
    "tally (\<lambda>t. of_bool (t = Broadcasts)) ts = 0"
    using inv by (auto simp: pool_inv_def)
  then have "leases i (ts ! l) = 0" "uses i (ts ! l) = 0" "(of_bool (ts ! l = Broadcasts) :: int) = 0"
    using kl tally_zero [of "uses i" ts l] tally_zero [of "\<lambda>t. of_bool (t = Broadcasts)" ts l] l
      nonneg_marks(2) [of i "ts ! l"]
    by (simp_all add: leases_def)
  then show "ts ! l \<noteq> Calling i" "ts ! l \<noteq> Holding i" "ts ! l \<noteq> Broadcasts" "ts ! l \<noteq> Tracking i n" for n
    by (auto simp: leases_def uses_def)
next
  show "idle_listeners_if_idle p = (if \<forall>t\<in>set ts. \<not> holds t then pl_idle_listeners p else [])"
    using idle_iff [OF pool_inv_reachable [OF assms]] by (auto simp: idle_listeners_if_idle_def)
qed

theorem pool_sessions_exclusive_witness:
  "pool_reachable session_taken \<and> idle_listeners_if_idle (fst session_taken) = [] \<and>
   snd session_taken ! 0 = Holding 0 \<and> snd session_taken ! 1 \<noteq> Calling 0"
  using pool_sessions_exclusive [of "fst session_taken" "snd session_taken"] example_session
  by (auto simp: session_taken_def holds_def)

text \<open>
  Waiting threads are never stranded. In every reachable state in which some thread waits for an
  adapter, a session or a broadcast, either a thread still holds a connection, a session or the
  broadcast and will release it, or some waiting thread's pass does not wait: it is granted what it
  asked for or told that the pool is closed.
\<close>
theorem pool_waiters_progress:
  assumes "pool_reachable (p, ts)" and "\<exists>t\<in>set ts. t \<in> {Wants_adapter, Wants_session, Wants_broadcast}"
  shows "(\<exists>t\<in>set ts. holds t) \<or>
    (Wants_session \<in> set ts \<and> fst (acquire_session p) \<noteq> Waits) \<or>
    (Wants_adapter \<in> set ts \<and> fst (acquire_adapter p) \<noteq> Waits) \<or>
    (Wants_broadcast \<in> set ts \<and> fst (start_broadcast p) \<noteq> Waits)"
proof (cases "\<exists>t\<in>set ts. holds t")
  case False
  have inv: "pool_inv (p, ts)" using assms(1) by (rule pool_inv_reachable)
  then have pos: "0 < pl_size p" by (simp add: pool_inv_def)
  have free: "pl_leased p = {}" "\<not> pl_broadcasting p" "\<forall>i<pl_size p. pl_active p ! i = 0"
    using no_holder_tables [OF inv] False by blast+
  obtain j where "find (\<lambda>i. i \<notin> pl_leased p \<and> pl_active p ! i = 0) (rotation p) = Some j"
    by (rule find_rotation [OF pos pos, where P = "\<lambda>i. i \<notin> pl_leased p \<and> pl_active p ! i = 0"]) (use pos free in auto)
  then have s: "fst (acquire_session p) \<noteq> Waits" using free by (simp add: acquire_session_def Let_def)
  have b: "fst (start_broadcast p) \<noteq> Waits" using free by (simp add: start_broadcast_def)
  have a: "fst (acquire_adapter p) \<noteq> Waits" if "Wants_session \<notin> set ts"
  proof -
    have "tally (\<lambda>t. of_bool (t = Wants_session)) ts = 0"
      using that by (induction ts) (auto simp: tally_def)
    then have "pl_session_waiters p = 0" using inv by (simp add: pool_inv_def)
    moreover obtain j where "find (\<lambda>i. i \<notin> pl_leased p) (rotation p) = Some j"
      by (rule find_rotation [OF pos pos, where P = "\<lambda>i. i \<notin> pl_leased p"]) (use free in auto)
    ultimately show ?thesis by (simp add: acquire_adapter_def)
  qed
  from assms(2) s a b show ?thesis by auto
qed simp

theorem pool_waiters_progress_witness:
  "pool_reachable (pool_two, [Wants_adapter, Outside]) \<and> fst (acquire_adapter pool_two) \<noteq> Waits"
proof -
  have "pool_step False (pool_two, [Outside, Outside]) (pool_two, [Wants_adapter, Outside])"
    using pool_step.call [of 0 "[Outside, Outside]" pool_two] by simp
  with example_start have "pool_reachable (pool_two, [Wants_adapter, Outside])" by (rule pool_reachable.step)
  with pool_waiters_progress [OF this] show ?thesis by (auto simp: holds_def)
qed

lemma waits_iff:
  assumes "0 < pl_size p"
  shows "fst (acquire_adapter p) = Waits \<longleftrightarrow>
      \<not> pl_closed p \<and> (pl_session_waiters p \<noteq> 0 \<or> {..<pl_size p} \<subseteq> pl_leased p)"
    and "fst (acquire_session p) = Waits \<longleftrightarrow>
      \<not> pl_closed p \<and> (pl_broadcasting p \<or> (\<forall>i<pl_size p. i \<in> pl_leased p \<or> pl_active p ! i \<noteq> 0))"
    and "fst (start_broadcast p) = Waits \<longleftrightarrow> \<not> pl_closed p \<and> (pl_leased p \<noteq> {} \<or> pl_broadcasting p)"
  using rotation_set [OF assms]
  by (auto simp: acquire_adapter_def acquire_session_def start_broadcast_def Let_def find_None_iff find_Some_iff
      split: option.splits)

text \<open>
  C34. No wake-up is lost. A critical section that does not call \<open>notify_all\<close> never makes a waiting pass
  able to proceed: whatever waited before it still waits after it, so a thread asleep on the condition
  never misses the change it waits for.
\<close>
theorem pool_no_lost_wakeup:
  assumes "pool_reachable (p, ts)" and "pool_step False (p, ts) (p', ts')"
  shows "(fst (acquire_adapter p) = Waits \<longrightarrow> fst (acquire_adapter p') = Waits) \<and>
    (fst (acquire_session p) = Waits \<longrightarrow> fst (acquire_session p') = Waits) \<and>
    (fst (start_broadcast p) = Waits \<longrightarrow> fst (start_broadcast p') = Waits)"
proof -
  have inv: "pool_inv (p, ts)" and inv': "pool_inv (p', ts')"
    using assms pool_inv_reachable pool_reachable.step by blast+
  then have pos: "0 < pl_size p" "0 < pl_size p'" by (simp_all add: pool_inv_def)
  have waiters: "pl_session_waiters p + 1 \<noteq> 0" using waiters_nonneg [OF inv] by simp
  have reserve: "fst (acquire_session p) = Waits \<Longrightarrow> fst (acquire_session (add_active i 1 p\<lparr>pl_cursor := c\<rparr>)) = Waits"
    "fst (start_broadcast p) = Waits \<Longrightarrow> fst (start_broadcast (add_active i 1 p\<lparr>pl_cursor := c\<rparr>)) = Waits"
    "fst (acquire_adapter p) = Waits \<Longrightarrow> fst (acquire_adapter (add_active i 1 p\<lparr>pl_cursor := c\<rparr>)) = Waits"
    if "i < pl_size p" for i c
    using pos(1) that active_nonneg [OF inv that] inv
    by (auto simp: waits_iff add_active_def nth_list_update pool_inv_def)
  from assms(2) show ?thesis
  proof (cases rule: pool_step.cases)
    case (granted k i)
    from acquire_adapter_Gets [OF granted(4) pos(1)] reserve show ?thesis by simp
  next
    case (polled k ex i)
    from reserve_event_adapter_Some [OF polled(4)] reserve [of i "pl_cursor p"] show ?thesis
      by (simp add: add_active_def)
  qed (use pos waiters in \<open>auto simp: waits_iff enter_session_def clear_event_def add_idle_listener_def
      remove_idle_listener_def settle_future_def split: if_splits
      dest!: acquire_adapter_Raises start_broadcast_cases\<close>)
qed

theorem pool_no_lost_wakeup_witness:
  "fst (start_broadcast (fst session_taken)) = Waits \<and>
   fst (start_broadcast (add_active 1 1 (fst session_taken)\<lparr>pl_cursor := 2\<rparr>)) = Waits"
proof -
  have "fst (start_broadcast (fst session_taken)) = Waits"
    by (simp add: start_broadcast_def session_taken_def pool_two_def)
  with pool_no_lost_wakeup [OF example_called] show ?thesis by simp
qed

end
