(* ===== verification/Pending_Registry.thy ===== *)
theory Pending_Registry
  imports Request_Outcome "HOL-Library.Multiset"
begin

text \<open>
  \<open>SyncPendingRequestRegistry\<close> of \<open>protocol_sync_pending.py\<close>: registration, completion, expiry and
  failure of in-flight requests over the budget and the deadline scheduler. Each method runs under
  the registry's lock, so a run of the registry is a sequence of method calls. A future and a
  socket are opaque numbers; an operation that settles futures returns them with their outcome.
\<close>

section \<open>State and operations\<close>

type_synonym future = nat
type_synonym sock = nat
type_synonym binding = "int \<times> sock option"

record registry =
  pr_pending :: "(int \<times> future) list"
  pr_traces :: "(int \<times> pyval) list"
  pr_item_counts :: "(int \<times> int) list"
  pr_identities :: "(int \<times> (response_identity \<times> bool)) list"
  pr_bindings :: "(int \<times> binding) list"
  pr_budget :: request_budget
  pr_scheduler :: scheduler
  pr_generation :: int
  pr_sock :: "sock option"

definition opt_set :: "('k \<times> 'v) list \<Rightarrow> 'k \<Rightarrow> 'v option \<Rightarrow> ('k \<times> 'v) list" where
  "opt_set d k v = (case v of None \<Rightarrow> d | Some x \<Rightarrow> dict_set d k x)"

definition release_locked :: "registry \<Rightarrow> int \<Rightarrow> registry" where
  "release_locked g request_id =
     g\<lparr>pr_budget := fst (rb_release (pr_budget g) request_id),
       pr_scheduler := sd_cancel (pr_scheduler g) request_id\<rparr>"

definition reg_reserve ::
    "registry \<Rightarrow> thread_start \<Rightarrow> int \<Rightarrow> future \<Rightarrow> int option \<Rightarrow> pyval option \<Rightarrow> rat option \<Rightarrow>
      (response_identity \<times> bool) option \<Rightarrow> binding \<Rightarrow> registry \<times> binding result" where
  "reg_reserve g start request_id future expected_collection_items client_trace expires_at
       response_identity selected_binding =
     (case rb_reserve (pr_budget g) request_id of
        Inl (PendingRequestCapacityError m) \<Rightarrow> (g, Inl (FerricStoreError m))
      | Inl e \<Rightarrow> (g, Inl e)
      | Inr budget \<Rightarrow>
          let g = g\<lparr>pr_budget := budget,
                    pr_pending := dict_set (pr_pending g) request_id future,
                    pr_bindings := dict_set (pr_bindings g) request_id selected_binding,
                    pr_identities := opt_set (pr_identities g) request_id response_identity,
                    pr_item_counts := opt_set (pr_item_counts g) request_id expected_collection_items,
                    pr_traces := opt_set (pr_traces g) request_id client_trace\<rparr>
          in case expires_at of
               None \<Rightarrow> (g, Inr selected_binding)
             | Some deadline \<Rightarrow>
                 let (s, r) = sd_schedule (pr_scheduler g) start request_id deadline;
                     g = g\<lparr>pr_scheduler := s\<rparr>
                 in case r of
                      Inr _ \<Rightarrow> (g, Inr selected_binding)
                    | Inl e \<Rightarrow>
                        (g\<lparr>pr_pending := dict_pop (pr_pending g) request_id,
                           pr_bindings := dict_pop (pr_bindings g) request_id,
                           pr_identities := dict_pop (pr_identities g) request_id,
                           pr_item_counts := dict_pop (pr_item_counts g) request_id,
                           pr_traces := dict_pop (pr_traces g) request_id,
                           pr_budget := fst (rb_release (pr_budget g) request_id)\<rparr>,
                         Inl e))"

definition reg_register ::
    "registry \<Rightarrow> thread_start \<Rightarrow> int \<Rightarrow> future \<Rightarrow> int option \<Rightarrow> pyval option \<Rightarrow> binding option \<Rightarrow>
      rat option \<Rightarrow> (response_identity \<times> bool) option \<Rightarrow> registry \<times> binding result" where
  "reg_register g start request_id future expected_collection_items client_trace binding expires_at
       response_identity =
     reg_reserve g start request_id future expected_collection_items client_trace expires_at
       response_identity
       (case binding of Some b \<Rightarrow> b | None \<Rightarrow> (pr_generation g, pr_sock g))"

definition reg_discard ::
    "registry \<Rightarrow> int \<Rightarrow> future option \<Rightarrow> registry \<times> future option \<times> pyval option" where
  "reg_discard g request_id expected_future =
     (let future = dict_get (pr_pending g) request_id in
      if expected_future \<noteq> None \<and> future \<noteq> expected_future then (g, None, None)
      else
        (release_locked
           (g\<lparr>pr_pending := dict_pop (pr_pending g) request_id,
              pr_traces := dict_pop (pr_traces g) request_id,
              pr_item_counts := dict_pop (pr_item_counts g) request_id,
              pr_identities := dict_pop (pr_identities g) request_id,
              pr_bindings := dict_pop (pr_bindings g) request_id\<rparr>) request_id,
         future, dict_get (pr_traces g) request_id))"

definition reg_take_response ::
    "registry \<Rightarrow> int \<Rightarrow> sock option \<Rightarrow> registry \<times> future option \<times> pyval option" where
  "reg_take_response g request_id sock =
     (let stale = (case dict_get (pr_bindings g) request_id of
                     Some (_, Some bound) \<Rightarrow> sock \<noteq> Some bound
                   | _ \<Rightarrow> False) in
      if stale then (g, None, None)
      else
        (release_locked
           (g\<lparr>pr_pending := dict_pop (pr_pending g) request_id,
              pr_traces := dict_pop (pr_traces g) request_id,
              pr_bindings := dict_pop (pr_bindings g) request_id,
              pr_identities := dict_pop (pr_identities g) request_id\<rparr>) request_id,
         dict_get (pr_pending g) request_id, dict_get (pr_traces g) request_id))"

text \<open>
  \<open>fail\<close>: the loop over a snapshot of the pending items, then the error given to each future: the
  original exception when no identity was recorded, an outcome error otherwise.
\<close>

datatype settle_error = Settle_with py_error | Settle_outcome outcome_error

fun reg_fail_loop ::
    "int option \<Rightarrow> registry \<Rightarrow> (int \<times> future) list \<Rightarrow>
      registry \<times> (future \<times> (response_identity \<times> bool) option) list" where
  "reg_fail_loop generation g [] = (g, [])"
| "reg_fail_loop generation g ((request_id, future) # items) =
     (let skip = (case generation of
                    None \<Rightarrow> False
                  | Some n \<Rightarrow> (case dict_get (pr_bindings g) request_id of
                                None \<Rightarrow> False | Some b \<Rightarrow> fst b \<noteq> n)) in
      if skip then reg_fail_loop generation g items
      else
        let ident = dict_get (pr_identities g) request_id;
            g' = release_locked
                   (g\<lparr>pr_pending := dict_pop (pr_pending g) request_id,
                      pr_traces := dict_pop (pr_traces g) request_id,
                      pr_item_counts := dict_pop (pr_item_counts g) request_id,
                      pr_identities := dict_pop (pr_identities g) request_id,
                      pr_bindings := dict_pop (pr_bindings g) request_id\<rparr>) request_id;
            (g'', failed) = reg_fail_loop generation g' items
        in (g'', (future, ident) # failed))"

definition outcome_of :: "py_error \<Rightarrow> string \<Rightarrow> (response_identity \<times> bool) option \<Rightarrow> settle_error" where
  "outcome_of exc message ident =
     (case ident of
        None \<Rightarrow> Settle_with exc
      | Some (i, may_mutate) \<Rightarrow>
          Settle_outcome (request_outcome_error (\<lambda>t. t) (ri_opcode i) PNone (Some may_mutate) message))"

definition reg_fail ::
    "registry \<Rightarrow> py_error \<Rightarrow> int option \<Rightarrow> registry \<times> (future \<times> settle_error) list" where
  "reg_fail g exc generation =
     (let (g', failed) = reg_fail_loop generation g (pr_pending g)
      in (g', map (\<lambda>(future, ident). (future, outcome_of exc ''protocol connection closed'' ident)) failed))"

definition reg_expire :: "registry \<Rightarrow> int \<Rightarrow> registry \<times> (future \<times> settle_error) list" where
  "reg_expire g request_id =
     (let ident = dict_get (pr_identities g) request_id;
          (g', future, _) = reg_discard g request_id None
      in case future of
           None \<Rightarrow> (g', [])
         | Some f \<Rightarrow>
             (g', [(f, outcome_of (FerricStoreError ''protocol request timed out'')
                          ''protocol request timed out'' ident)]))"

definition reg_update_size :: "registry \<Rightarrow> int \<Rightarrow> int \<Rightarrow> registry \<times> unit result" where
  "reg_update_size g request_id n =
     (case reg_set_size (pr_budget g) request_id n of
        Inl e \<Rightarrow> (g, Inl e)
      | Inr b \<Rightarrow> (g\<lparr>pr_budget := b\<rparr>, Inr ()))"

definition reg_pending_socket :: "registry \<Rightarrow> int \<Rightarrow> sock result" where
  "reg_pending_socket g request_id =
     (case dict_get (pr_bindings g) request_id of
        Some (_, Some s) \<Rightarrow> Inr s
      | _ \<Rightarrow> (case pr_sock g of
                None \<Rightarrow> Inl (FerricStoreError ''protocol connection is closed'')
              | Some s \<Rightarrow> Inr s))"

section \<open>Invariant\<close>

abbreviation keys :: "('k \<times> 'v) list \<Rightarrow> 'k set" where
  "keys d \<equiv> fst ` set d"

definition reg_inv :: "registry \<Rightarrow> bool" where
  "reg_inv g \<longleftrightarrow>
     distinct (map fst (pr_pending g)) \<and> distinct (map fst (pr_bindings g)) \<and>
     keys (pr_bindings g) = keys (pr_pending g) \<and>
     keys (rb_sizes (pr_budget g)) = keys (pr_pending g) \<and>
     distinct (map fst (pr_identities g)) \<and> keys (pr_identities g) \<subseteq> keys (pr_pending g) \<and>
     distinct (map fst (pr_traces g)) \<and> keys (pr_traces g) \<subseteq> keys (pr_pending g) \<and>
     rb_inv (pr_budget g) \<and> sd_inv (pr_scheduler g)"

lemma keys_dict_pop: "distinct (map fst d) \<Longrightarrow> keys (dict_pop d k) = keys d - {k}"
  by (auto simp: set_dict_pop)

lemma keys_dict_set: "keys (dict_set d k v) = insert k (keys d)"
proof -
  have "set (map fst (dict_set d k v)) = insert k (set (map fst d))"
    by (auto simp: dict_set_keys)
  then show ?thesis by simp
qed

lemma keys_opt_set: "keys (opt_set d k v) \<subseteq> insert k (keys d)"
  by (auto simp: opt_set_def keys_dict_set split: option.splits simp del: image_insert)

lemma distinct_opt_set [simp]: "distinct (map fst d) \<Longrightarrow> distinct (map fst (opt_set d k v))"
  by (simp add: opt_set_def split: option.split)

lemma rb_release_keys:
  assumes "rb_inv b"
  shows "keys (rb_sizes (fst (rb_release b i))) = keys (rb_sizes b) - {i}"
proof -
  have d: "distinct (map fst (rb_sizes b))" using assms by (simp add: rb_inv_def)
  show ?thesis
  proof (cases "dict_get (rb_sizes b) i")
    case None
    then show ?thesis by (auto simp: rb_release_def simp flip: dict_get_None)
  next
    case (Some n)
    then show ?thesis by (simp add: rb_release_def keys_dict_pop [OF d])
  qed
qed

lemma reg_inv_forget:
  assumes "reg_inv g"
    and "pr_pending g' = dict_pop (pr_pending g) i" and "pr_bindings g' = dict_pop (pr_bindings g) i"
    and "pr_budget g' = fst (rb_release (pr_budget g) i)" and "sd_inv (pr_scheduler g')"
    and "pr_identities g' = dict_pop (pr_identities g) i" and "pr_traces g' = dict_pop (pr_traces g) i"
  shows "reg_inv g'"
  using assms
  by (auto simp: reg_inv_def keys_dict_pop rb_release_keys intro: rb_inv_release)

lemma reg_inv_discard:
  assumes "reg_inv g"
  shows "reg_inv (fst (reg_discard g i ef))"
proof -
  have s: "sd_inv (sd_cancel (pr_scheduler g) i)" using assms by (simp add: reg_inv_def sd_cancel_inv)
  show ?thesis
    using assms reg_inv_forget [OF assms, of "fst (reg_discard g i ef)" i] s
    by (auto simp: reg_discard_def release_locked_def Let_def)
qed

lemma reg_inv_take_response:
  assumes "reg_inv g"
  shows "reg_inv (fst (reg_take_response g i s))"
proof -
  have s: "sd_inv (sd_cancel (pr_scheduler g) i)" using assms by (simp add: reg_inv_def sd_cancel_inv)
  show ?thesis
    using assms reg_inv_forget [OF assms, of "fst (reg_take_response g i s)" i] s
    by (auto simp: reg_take_response_def release_locked_def Let_def)
qed

lemma reg_inv_fail_loop:
  "reg_inv g \<Longrightarrow> reg_inv (fst (reg_fail_loop n g items))"
proof (induction n g items rule: reg_fail_loop.induct)
  case (2 n g i f items)
  let ?g = "release_locked
                   (g\<lparr>pr_pending := dict_pop (pr_pending g) i,
                      pr_traces := dict_pop (pr_traces g) i,
                      pr_item_counts := dict_pop (pr_item_counts g) i,
                      pr_identities := dict_pop (pr_identities g) i,
                      pr_bindings := dict_pop (pr_bindings g) i\<rparr>) i"
  have s: "sd_inv (sd_cancel (pr_scheduler g) i)" using "2.prems" by (simp add: reg_inv_def sd_cancel_inv)
  have inv: "reg_inv ?g"
    by (rule reg_inv_forget [OF "2.prems", of _ i]) (simp_all add: release_locked_def s)
  show ?case
    using "2.IH" "2.prems" inv by (auto simp: Let_def split_def)
qed simp

lemma reg_inv_fail: "reg_inv g \<Longrightarrow> reg_inv (fst (reg_fail g e n))"
  using reg_inv_fail_loop [of g n "pr_pending g"] by (simp add: reg_fail_def split_def Let_def)

lemma reg_inv_expire: "reg_inv g \<Longrightarrow> reg_inv (fst (reg_expire g i))"
  using reg_inv_discard [of g i None] by (simp add: reg_expire_def split_def Let_def split: option.split)

lemma rb_set_size_keys: "rb_set_size b i n = Inr b' \<Longrightarrow> keys (rb_sizes b') = keys (rb_sizes b)"
proof -
  assume "rb_set_size b i n = Inr b'"
  then obtain old where "dict_get (rb_sizes b) i = Some old" "rb_sizes b' = dict_set (rb_sizes b) i n"
    by (auto simp: rb_set_size_Inr)
  then show ?thesis by (simp only: keys_dict_set insert_absorb [OF dict_get_SomeI])
qed

lemma reg_inv_update_size: "reg_inv g \<Longrightarrow> reg_inv (fst (reg_update_size g i n))"
  by (auto simp: reg_update_size_def reg_inv_def rb_set_size_keys split: sum.split intro: rb_inv_set_size)

lemma reg_inv_reserve:
  assumes inv: "reg_inv g"
  shows "reg_inv (fst (reg_reserve g st i f n t x ri b))"
proof (cases "rb_reserve (pr_budget g) i")
  case (Inl e)
  then show ?thesis using inv by (cases e) (simp_all add: reg_reserve_def)
next
  case (Inr b')
  define h where "h = g\<lparr>pr_budget := b', pr_pending := dict_set (pr_pending g) i f,
      pr_bindings := dict_set (pr_bindings g) i b, pr_identities := opt_set (pr_identities g) i ri,
      pr_item_counts := opt_set (pr_item_counts g) i n, pr_traces := opt_set (pr_traces g) i t\<rparr>"
  have new: "keys (rb_sizes b') = insert i (keys (rb_sizes (pr_budget g)))"
    using Inr by (simp add: rb_reserve_Inr keys_dict_set)
  have sub: "keys (opt_set (pr_identities g) i ri) \<subseteq> insert i (keys (pr_pending g))"
      "keys (opt_set (pr_traces g) i t) \<subseteq> insert i (keys (pr_pending g))"
    by (rule order_trans [OF keys_opt_set insert_mono], use inv in \<open>simp add: reg_inv_def\<close>)+
  have "rb_inv b'" using inv rb_inv_reserve [OF _ Inr] by (simp add: reg_inv_def)
  with inv new sub have h: "reg_inv h"
    by (simp add: reg_inv_def h_def keys_dict_set)
  show ?thesis
  proof (cases x)
    case None
    with Inr h show ?thesis by (simp add: reg_reserve_def h_def)
  next
    case (Some d)
    obtain s r where s: "sd_schedule (pr_scheduler g) st i d = (s, r)" by fastforce
    have si: "sd_inv s" using sd_schedule_inv [of "pr_scheduler g" st i d] s inv by (simp add: reg_inv_def)
    have hs: "reg_inv (h\<lparr>pr_scheduler := s\<rparr>)" using h si by (simp add: reg_inv_def)
    have rolled: "reg_inv (h\<lparr>pr_scheduler := s, pr_pending := dict_pop (pr_pending h) i,
        pr_bindings := dict_pop (pr_bindings h) i, pr_identities := dict_pop (pr_identities h) i,
        pr_item_counts := dict_pop (pr_item_counts h) i, pr_traces := dict_pop (pr_traces h) i,
        pr_budget := fst (rb_release (pr_budget h) i)\<rparr>)"
      by (rule reg_inv_forget [OF hs, of _ i]) (simp_all add: si)
    show ?thesis
      using Inr Some s hs rolled by (auto simp: reg_reserve_def h_def Let_def split: sum.split)
  qed
qed

section \<open>Runs of the registry\<close>

datatype reg_event =
    Ev_register thread_start int future "int option" "pyval option" "binding option" "rat option"
      "(response_identity \<times> bool) option"
  | Ev_response int "sock option"
  | Ev_discard int "future option"
  | Ev_fail py_error "int option"
  | Ev_expire int
  | Ev_size int int
  | Ev_connected sock
  | Ev_disconnected

text \<open>
  One call: the new state, the futures the registry accepted and the futures it handed back or
  settled.
\<close>

fun reg_step :: "registry \<Rightarrow> reg_event \<Rightarrow> registry \<times> future list \<times> future list" where
  "reg_step g (Ev_register st i f n t b x ri) =
     (let (g', r) = reg_register g st i f n t b x ri
      in (g', (case r of Inr _ \<Rightarrow> [f] | Inl _ \<Rightarrow> []), []))"
| "reg_step g (Ev_response i s) =
     (let (g', f, _) = reg_take_response g i s in (g', [], (case f of None \<Rightarrow> [] | Some f \<Rightarrow> [f])))"
| "reg_step g (Ev_discard i ef) =
     (let (g', f, _) = reg_discard g i ef in (g', [], (case f of None \<Rightarrow> [] | Some f \<Rightarrow> [f])))"
| "reg_step g (Ev_fail e n) = (let (g', fs) = reg_fail g e n in (g', [], map fst fs))"
| "reg_step g (Ev_expire i) = (let (g', fs) = reg_expire g i in (g', [], map fst fs))"
| "reg_step g (Ev_size i n) = (fst (reg_update_size g i n), [], [])"
| "reg_step g (Ev_connected s) =
     (g\<lparr>pr_generation := pr_generation g + 1, pr_sock := Some s\<rparr>, [], [])"
| "reg_step g Ev_disconnected = (g\<lparr>pr_sock := None\<rparr>, [], [])"

fun reg_run :: "registry \<Rightarrow> reg_event list \<Rightarrow> registry \<times> future list \<times> future list" where
  "reg_run g [] = (g, [], [])"
| "reg_run g (e # es) =
     (let (g', acc, out) = reg_step g e; (g'', accs, outs) = reg_run g' es
      in (g'', acc @ accs, out @ outs))"

definition make_registry :: "request_budget \<Rightarrow> registry" where
  "make_registry b = \<lparr>pr_pending = [], pr_traces = [], pr_item_counts = [], pr_identities = [],
     pr_bindings = [], pr_budget = b, pr_scheduler = make_scheduler, pr_generation = 0, pr_sock = None\<rparr>"

definition held :: "registry \<Rightarrow> future multiset" where
  "held g = mset (map snd (pr_pending g))"

lemma reg_inv_make: "make_request_budget mr mb = Inr b \<Longrightarrow> reg_inv (make_registry b)"
  using rb_inv_make [of mr mb b]
  by (auto simp: reg_inv_def make_registry_def make_request_budget_def sd_inv_def make_scheduler_def)

lemma reg_step_inv: "reg_inv g \<Longrightarrow> reg_inv (fst (reg_step g e))"
proof (cases e)
  case (Ev_register st i f n t b x ri)
  then show "reg_inv g \<Longrightarrow> ?thesis"
    using reg_inv_reserve by (simp add: reg_register_def split_def Let_def)
next
  case (Ev_fail exc n)
  then show "reg_inv g \<Longrightarrow> ?thesis" using reg_inv_fail by (simp add: split_def Let_def)
next
  case (Ev_expire i)
  then show "reg_inv g \<Longrightarrow> ?thesis" using reg_inv_expire by (simp add: split_def Let_def)
next
  case (Ev_response i s)
  then show "reg_inv g \<Longrightarrow> ?thesis" using reg_inv_take_response by (simp add: split_def Let_def)
next
  case (Ev_discard i s)
  then show "reg_inv g \<Longrightarrow> ?thesis" using reg_inv_discard by (simp add: split_def Let_def)
next
  case (Ev_size i n)
  then show "reg_inv g \<Longrightarrow> ?thesis" using reg_inv_update_size by simp
qed (simp_all add: reg_inv_def)

lemma mset_dict_set_new: "k \<notin> keys d \<Longrightarrow> mset (map snd (dict_set d k v)) = add_mset v (mset (map snd d))"
  by (induction d) auto

lemma mset_dict_pop:
  "mset (map snd d) =
     mset (map snd (dict_pop d k)) + mset (case dict_get d k of None \<Rightarrow> [] | Some v \<Rightarrow> [v])"
proof (induction d)
  case (Cons p d)
  then show ?case by (cases p) (auto split: option.splits)
qed simp


lemma reg_discard_held:
  "held g = held (fst (reg_discard g i ef)) +
     mset (case fst (snd (reg_discard g i ef)) of None \<Rightarrow> [] | Some f \<Rightarrow> [f])"
  using mset_dict_pop [of "pr_pending g" i]
  by (simp add: reg_discard_def release_locked_def held_def Let_def)

lemma reg_take_response_held:
  "held g = held (fst (reg_take_response g i s)) +
     mset (case fst (snd (reg_take_response g i s)) of None \<Rightarrow> [] | Some f \<Rightarrow> [f])"
  using mset_dict_pop [of "pr_pending g" i]
  by (simp add: reg_take_response_def release_locked_def held_def Let_def)

lemma reg_register_held:
  assumes inv: "reg_inv g"
  shows "held g + mset (case snd (reg_register g st i f n t b x ri) of Inr _ \<Rightarrow> [f] | Inl _ \<Rightarrow> []) =
     held (fst (reg_register g st i f n t b x ri))"
proof (cases "rb_reserve (pr_budget g) i")
  case (Inl e)
  then show ?thesis by (cases e) (simp_all add: reg_register_def reg_reserve_def)
next
  case (Inr b')
  then have "i \<notin> keys (pr_pending g)" using inv by (simp add: rb_reserve_Inr reg_inv_def)
  then have new: "mset (map snd (dict_set (pr_pending g) i f)) = add_mset f (held g)"
    and pop: "mset (map snd (dict_pop (dict_set (pr_pending g) i f) i)) = held g"
    using mset_dict_pop [of "dict_set (pr_pending g) i f" i] mset_dict_set_new [of i "pr_pending g" f]
    by (simp_all add: held_def dict_get_set)
  show ?thesis
    using Inr new pop
    by (auto simp: reg_register_def reg_reserve_def held_def Let_def split_def split: option.split sum.split)
qed

text \<open>
  Failing: the snapshot is a suffix of the pending list that is still intact when its turn comes.
\<close>

lemma reg_fail_loop_held:
  "distinct (map fst items) \<Longrightarrow> distinct (map fst (pr_pending g)) \<Longrightarrow> set items \<subseteq> set (pr_pending g) \<Longrightarrow>
   held g = held (fst (reg_fail_loop n g items)) + mset (map fst (snd (reg_fail_loop n g items)))"
proof (induction n g items rule: reg_fail_loop.induct)
  case (2 n g i f items)
  let ?g = "release_locked
                   (g\<lparr>pr_pending := dict_pop (pr_pending g) i,
                      pr_traces := dict_pop (pr_traces g) i,
                      pr_item_counts := dict_pop (pr_item_counts g) i,
                      pr_identities := dict_pop (pr_identities g) i,
                      pr_bindings := dict_pop (pr_bindings g) i\<rparr>) i"
  have get: "dict_get (pr_pending g) i = Some f"
    using "2.prems" by (simp add: dict_get_map_of)
  have pend: "pr_pending ?g = dict_pop (pr_pending g) i" by (simp add: release_locked_def)
  have keep: "set items \<subseteq> set (pr_pending ?g)"
    using "2.prems" by (auto simp: pend set_dict_pop)
  have one: "held g = add_mset f (held ?g)"
    using mset_dict_pop [of "pr_pending g" i] get by (simp add: held_def pend)
  let ?skip = "case n of None \<Rightarrow> False
      | Some k \<Rightarrow> (case dict_get (pr_bindings g) i of None \<Rightarrow> False | Some b \<Rightarrow> fst b \<noteq> k)"
  show ?case
  proof (cases ?skip)
    case True
    then show ?thesis using "2.IH"(1) [OF refl True] "2.prems" by simp
  next
    case False
    have "held ?g = held (fst (reg_fail_loop n ?g items)) + mset (map fst (snd (reg_fail_loop n ?g items)))"
      using "2.prems" keep
      by (intro "2.IH"(2) [OF refl False refl refl]) (simp_all add: pend)
    with one False show ?thesis by (simp add: Let_def split_def)
  qed
qed simp

lemma reg_fail_held:
  assumes "reg_inv g"
  shows "held g = held (fst (reg_fail g e n)) + mset (map fst (snd (reg_fail g e n)))"
proof -
  have "map fst (map (\<lambda>(future, ident). (future, outcome_of e m ident)) xs) = map fst xs" for m xs
    by (induction xs) auto
  then show ?thesis
    using reg_fail_loop_held [of "pr_pending g" g n] assms
    by (simp add: reg_fail_def split_def Let_def reg_inv_def comp_def)
qed

lemma reg_expire_held:
  "held g = held (fst (reg_expire g i)) + mset (map fst (snd (reg_expire g i)))"
  using reg_discard_held [of g i None]
  by (simp add: reg_expire_def split_def Let_def split: option.splits)

lemma reg_step_held:
  assumes "reg_inv g" and "reg_step g e = (g', acc, out)"
  shows "held g + mset acc = held g' + mset out"
proof (cases e)
  case (Ev_fail exc n)
  then show ?thesis using assms(2) reg_fail_held [OF assms(1), of exc n] by (auto simp: Let_def split_def)
next
  case (Ev_register st i f n t b x ri)
  then show ?thesis
    using assms(2) reg_register_held [OF assms(1), of f st i n t b x ri] by (auto simp: Let_def split_def)
next
  case (Ev_response i s)
  then show ?thesis using assms(2) reg_take_response_held [of g i s] by (auto simp: Let_def split_def)
next
  case (Ev_discard i f)
  then show ?thesis using assms(2) reg_discard_held [of g i f] by (auto simp: Let_def split_def)
next
  case (Ev_expire i)
  then show ?thesis using assms(2) reg_expire_held [of g i] by (auto simp: Let_def split_def)
qed (use assms(2) in \<open>auto simp: held_def reg_update_size_def split: sum.splits\<close>)


lemma reg_run_inv: "reg_inv g \<Longrightarrow> reg_inv (fst (reg_run g es))"
proof (induction es arbitrary: g)
  case (Cons e es)
  then show ?case using reg_step_inv by (simp add: split_def Let_def)
qed simp

lemma reg_run_held:
  "reg_inv g \<Longrightarrow> reg_run g es = (g', accs, outs) \<Longrightarrow> held g + mset accs = held g' + mset outs"
proof (induction es arbitrary: g accs outs)
  case (Cons e es)
  obtain h acc out where step: "reg_step g e = (h, acc, out)" by (metis surj_pair)
  obtain accs' outs' where run: "reg_run h es = (g', accs', outs')"
    and split: "accs = acc @ accs'" "outs = out @ outs'"
    using Cons.prems(2) step by (cases "reg_run h es") (auto simp: split_def Let_def)
  have "reg_inv h" using reg_step_inv [OF Cons.prems(1), of e] step by simp
  from Cons.IH [OF this run] reg_step_held [OF Cons.prems(1) step] split
  show ?case by (simp add: ac_simps) (metis add.assoc add.commute)
qed simp

text \<open>
  C12. No in-flight request is lost or settled twice. Whatever calls reach the registry (registrations,
  responses, discards, expiries, failures of a connection, size updates, reconnects), the futures it
  accepted are, with multiplicity, exactly those it still holds together with those it has handed
  back or settled.
\<close>

theorem registry_conserves_futures:
  assumes "make_request_budget mr mb = Inr b" and "reg_run (make_registry b) es = (g, accepted, settled)"
  shows "mset accepted = held g + mset settled"
  using reg_run_held [OF reg_inv_make [OF assms(1)] assms(2)] by (simp add: held_def make_registry_def)

lemma unlimited_budget:
  "make_request_budget PNone PNone =
     Inr \<lparr>rb_max_requests = None, rb_max_bytes = None, rb_sizes = [], rb_total_bytes = 0\<rparr>"
  by (simp add: make_request_budget_def validate_optional_positive_int_def)

theorem registry_conserves_futures_witness:
  "mset [11, 12] = held (fst (reg_run (make_registry \<lparr>rb_max_requests = None, rb_max_bytes = None,
      rb_sizes = [], rb_total_bytes = 0\<rparr>)
      [Ev_register Thread_started 1 11 None None None None None,
       Ev_register Thread_started 2 12 None None None None None, Ev_response 1 None])) + mset [11]"
proof -
  let ?g = "make_registry \<lparr>rb_max_requests = None, rb_max_bytes = None, rb_sizes = [], rb_total_bytes = 0\<rparr>"
  let ?es = "[Ev_register Thread_started 1 11 None None None None None,
       Ev_register Thread_started 2 12 None None None None None, Ev_response 1 None]"
  have "reg_run ?g ?es = (fst (reg_run ?g ?es), [11, 12], [11])"
    by (simp add: make_registry_def reg_register_def reg_reserve_def rb_reserve_def rb_count_def
        reg_take_response_def release_locked_def opt_set_def Let_def)
  from registry_conserves_futures [OF unlimited_budget this] show ?thesis .
qed

text \<open>
  C13. In every state the registry can reach, its tables agree: exactly the pending requests have a
  transport binding and a budget reservation, identities and traces belong to pending requests, and
  the number of pending requests and their accounted bytes stay within the configured limits.
\<close>

theorem registry_tables_agree:
  assumes "make_request_budget mr mb = Inr b"
  shows "let g = fst (reg_run (make_registry b) es) in
    keys (pr_bindings g) = keys (pr_pending g) \<and> keys (rb_sizes (pr_budget g)) = keys (pr_pending g) \<and>
    keys (pr_identities g) \<subseteq> keys (pr_pending g) \<and> keys (pr_traces g) \<subseteq> keys (pr_pending g) \<and>
    distinct (map fst (pr_pending g)) \<and>
    \<not> exceeds (rb_max_requests (pr_budget g)) (int (length (pr_pending g))) \<and>
    \<not> exceeds (rb_max_bytes (pr_budget g)) (rb_total_bytes (pr_budget g))"
proof -
  let ?g = "fst (reg_run (make_registry b) es)"
  have inv: "reg_inv ?g" by (rule reg_run_inv [OF reg_inv_make [OF assms]])
  have "card (keys (rb_sizes (pr_budget ?g))) = length (rb_sizes (pr_budget ?g))"
    using inv by (metis distinct_card length_map list.set_map rb_inv_def reg_inv_def)
  moreover have "card (keys (pr_pending ?g)) = length (pr_pending ?g)"
    using inv by (metis distinct_card length_map list.set_map reg_inv_def)
  moreover have "keys (rb_sizes (pr_budget ?g)) = keys (pr_pending ?g)"
    using inv unfolding reg_inv_def by blast
  ultimately have "length (rb_sizes (pr_budget ?g)) = length (pr_pending ?g)" by metis
  moreover have "rb_inv (pr_budget ?g)" using inv unfolding reg_inv_def by blast
  ultimately have "\<not> exceeds (rb_max_requests (pr_budget ?g)) (int (length (pr_pending ?g)))"
    "\<not> exceeds (rb_max_bytes (pr_budget ?g)) (rb_total_bytes (pr_budget ?g))"
    unfolding rb_inv_def rb_count_def by metis+
  then show ?thesis using inv by (simp add: Let_def reg_inv_def)
qed

theorem registry_tables_agree_witness:
  "keys (pr_bindings (fst (reg_run (make_registry \<lparr>rb_max_requests = None, rb_max_bytes = None,
      rb_sizes = [], rb_total_bytes = 0\<rparr>) [Ev_register Thread_started 1 11 None None None None None]))) =
   keys (pr_pending (fst (reg_run (make_registry \<lparr>rb_max_requests = None, rb_max_bytes = None,
      rb_sizes = [], rb_total_bytes = 0\<rparr>) [Ev_register Thread_started 1 11 None None None None None])))"
  using registry_tables_agree [OF unlimited_budget, of "[Ev_register Thread_started 1 11 None None None None None]"]
  unfolding Let_def by (rule conjunct1)

lemma reg_fail_loop_keys:
  "distinct (map fst items) \<Longrightarrow> distinct (map fst (pr_pending g)) \<Longrightarrow> distinct (map fst (pr_bindings g)) \<Longrightarrow>
   set items \<subseteq> set (pr_pending g) \<Longrightarrow>
   keys (pr_pending (fst (reg_fail_loop (Some n) g items))) =
     keys (pr_pending g) -
     {i \<in> keys items. \<forall>b. dict_get (pr_bindings g) i = Some b \<longrightarrow> fst b = n}"
proof (induction "Some n" g items rule: reg_fail_loop.induct)
  case (2 g i f items)
  let ?g = "release_locked
                   (g\<lparr>pr_pending := dict_pop (pr_pending g) i,
                      pr_traces := dict_pop (pr_traces g) i,
                      pr_item_counts := dict_pop (pr_item_counts g) i,
                      pr_identities := dict_pop (pr_identities g) i,
                      pr_bindings := dict_pop (pr_bindings g) i\<rparr>) i"
  have pend: "pr_pending ?g = dict_pop (pr_pending g) i" "pr_bindings ?g = dict_pop (pr_bindings g) i"
    by (simp_all add: release_locked_def)
  have other: "dict_get (pr_bindings ?g) k = dict_get (pr_bindings g) k" if "k \<in> keys items" for k
    using that "2.prems" by (auto simp: pend dict_get_pop)
  have keep: "set items \<subseteq> set (pr_pending ?g)"
    using "2.prems" by (auto simp: pend set_dict_pop)
  let ?skip = "case dict_get (pr_bindings g) i of None \<Rightarrow> False | Some b \<Rightarrow> fst b \<noteq> n"
  show ?case
  proof (cases ?skip)
    case True
    then have "reg_fail_loop (Some n) g ((i, f) # items) = reg_fail_loop (Some n) g items" by simp
    with True show ?thesis
      using "2.hyps"(1) [of ?skip] "2.prems" by (auto split: option.splits)
  next
    case False
    have "keys (pr_pending (fst (reg_fail_loop (Some n) ?g items))) =
        keys (pr_pending ?g) - {k \<in> keys items. \<forall>b. dict_get (pr_bindings ?g) k = Some b \<longrightarrow> fst b = n}"
      using "2.prems" keep False
      by (intro "2.hyps"(2) [of ?skip]) (simp_all add: pend)
    also have "{k \<in> keys items. \<forall>b. dict_get (pr_bindings ?g) k = Some b \<longrightarrow> fst b = n} =
        {k \<in> keys items. \<forall>b. dict_get (pr_bindings g) k = Some b \<longrightarrow> fst b = n}"
      by (intro Collect_cong conj_cong refl) (simp only: other)
    finally have rest: "keys (pr_pending (fst (reg_fail_loop (Some n) ?g items))) =
        keys (pr_pending g) - {i} -
        {k \<in> keys items. \<forall>b. dict_get (pr_bindings g) k = Some b \<longrightarrow> fst b = n}"
      using "2.prems" by (simp add: pend keys_dict_pop)
    have own: "\<forall>b. dict_get (pr_bindings g) i = Some b \<longrightarrow> fst b = n"
      using False by (auto simp del: dict_get_None split: option.splits)
    have same: "fst (reg_fail_loop (Some n) g ((i, f) # items)) = fst (reg_fail_loop (Some n) ?g items)"
      using False by (simp add: Let_def split_def)
    have "{k \<in> keys ((i, f) # items). \<forall>b. dict_get (pr_bindings g) k = Some b \<longrightarrow> fst b = n} =
        insert i {k \<in> keys items. \<forall>b. dict_get (pr_bindings g) k = Some b \<longrightarrow> fst b = n}"
      using own by auto
    then show ?thesis unfolding same rest by (simp only: Diff_insert2 [symmetric] Diff_insert [symmetric])
  qed
qed simp



end
