(* ===== verification/Topology.thy ===== *)
theory Topology
  imports Pending_Registry
begin

text \<open>
  Slot routing: \<open>RoutingTopology\<close> and its helpers of \<open>protocol_common.py\<close>, and the routing
  decisions, batch plans and endpoint selection of \<open>topology_core.py\<close>. Unicode lower-casing of host
  names (\<open>str.lower\<close>) is a parameter \<open>lower\<close>. Routing keys are text or bytes.
\<close>

unbundle bit_operations_syntax

section \<open>Reading topology payloads\<close>

definition ROUTE_SLOT_COUNT :: nat where "ROUTE_SLOT_COUNT = 1024"
definition MAX_LANE_ID :: int where "MAX_LANE_ID = 0xFFFFFFFF"

definition text_or_none :: "pyval \<Rightarrow> ustr option result" where
  "text_or_none v =
     (case v of
        PBytes b \<Rightarrow> and_then (utf8_decode b) (\<lambda>t. Inr (Some t))
      | PStr t \<Rightarrow> Inr (Some t)
      | _ \<Rightarrow> Inr None)"

definition int_or_none :: "pyval \<Rightarrow> int option" where
  "int_or_none v = (case v of PInt n \<Rightarrow> Some n | _ \<Rightarrow> None)"

definition valid_port :: "int option \<Rightarrow> bool" where
  "valid_port v = (case v of None \<Rightarrow> False | Some n \<Rightarrow> 1 \<le> n \<and> n \<le> 65535)"

definition truthy_text :: "ustr option \<Rightarrow> bool" where
  "truthy_text t = (case t of None \<Rightarrow> False | Some s \<Rightarrow> s \<noteq> [])"

type_synonym endpoint_key = "ustr \<times> int"
type_synonym endpoint_identity = "ustr \<times> int \<times> int"

definition endpoint_from_range :: "pyval \<Rightarrow> pyval result" where
  "endpoint_from_range item =
     (let endpoint = map_get item [''endpoint''];
          raw = (case endpoint of PDict _ \<Rightarrow> endpoint | _ \<Rightarrow> item) in
      and_then (text_or_none (map_get raw [''host'', ''native_host''])) (\<lambda>host.
      let port = int_or_none (map_get raw [''native_port'']);
          tls_port = int_or_none (map_get raw [''native_tls_port'']) in
      if \<not> truthy_text host \<or> \<not> valid_port port \<or> (tls_port \<noteq> None \<and> \<not> valid_port tls_port)
      then Inl (FerricStoreError ''invalid SHARDS endpoint'')
      else
        and_then (text_or_none (map_get raw [''node'', ''leader_node'', ''owner_node''])) (\<lambda>node.
        Inr (PDict
          ([(PStr (text_lit ''node''), PStr (the (if truthy_text node then node else host))),
            (PStr (text_lit ''host''), PStr (the host)),
            (PStr (text_lit ''native_port''), PInt (the port))] @
           (case tls_port of
              None \<Rightarrow> []
            | Some p \<Rightarrow> [(PStr (text_lit ''native_tls_port''), PInt p)]))))))"

definition endpoint_key :: "(ustr \<Rightarrow> ustr) \<Rightarrow> pyval \<Rightarrow> endpoint_key result" where
  "endpoint_key lower endpoint =
     and_then (text_or_none (map_get endpoint [''host'', ''native_host''])) (\<lambda>host.
     let port = int_or_none (map_get endpoint [''native_port'']) in
     if \<not> truthy_text host \<or> \<not> valid_port port
     then Inl (FerricStoreError ''invalid FerricStore endpoint'')
     else Inr (lower (the host), the port))"

definition endpoint_identity :: "(ustr \<Rightarrow> ustr) \<Rightarrow> pyval \<Rightarrow> endpoint_identity result" where
  "endpoint_identity lower endpoint =
     and_then (endpoint_key lower endpoint) (\<lambda>(host, native_port).
     let tls_port = int_or_none (map_get endpoint [''native_tls_port'']) in
     if tls_port \<noteq> None \<and> \<not> valid_port tls_port
     then Inl (FerricStoreError ''invalid FerricStore endpoint'')
     else Inr (host, native_port, (case tls_port of None \<Rightarrow> native_port | Some p \<Rightarrow> p)))"

section \<open>The slot table\<close>

record route =
  rt_shard :: int
  rt_lane_id :: int
  rt_endpoint_key :: endpoint_key
  rt_endpoint_identity :: endpoint_identity
  rt_endpoint :: pyval
  rt_leader_node :: pyval

record topology =
  tp_route_epoch :: int
  tp_shard_count :: int
  tp_slots :: "route option list"
  tp_endpoints :: "(endpoint_identity \<times> pyval) list"
  tp_route_destinations :: "route list"

definition empty_topology :: topology where
  "empty_topology =
     \<lparr>tp_route_epoch = 0, tp_shard_count = 0, tp_slots = replicate ROUTE_SLOT_COUNT None,
      tp_endpoints = [], tp_route_destinations = []\<rparr>"

fun fill_slots :: "route option list \<Rightarrow> route \<Rightarrow> nat list \<Rightarrow> route option list result" where
  "fill_slots slots r [] = Inr slots"
| "fill_slots slots r (slot # rest) =
     (if slots ! slot \<noteq> None then Inl (FerricStoreError ''SHARDS slot table overlaps at slot'')
      else fill_slots (slots[slot := Some r]) r rest)"

text \<open>One iteration over \<open>ranges\<close>: the route an item describes, and the slots it claims.\<close>

definition range_route ::
    "(ustr \<Rightarrow> ustr) \<Rightarrow> int \<Rightarrow> pyval \<Rightarrow> (nat \<times> nat \<times> route) result" where
  "range_route lower shard_count item =
     (case item of
        PDict _ \<Rightarrow>
          and_then (text_or_none (map_get item [''hint''])) (\<lambda>hint.
          if hint = Some (text_lit ''leader_unknown'')
          then Inl (FerricStoreError ''SHARDS range has no leader'')
          else
            let first = int_or_none (map_get item [''first_slot'']);
                lst = int_or_none (map_get item [''last_slot'']);
                shard = int_or_none (map_get item [''shard'']);
                lane_id = int_or_none (map_get item [''lane_id''])
            in and_then (endpoint_from_range item) (\<lambda>endpoint.
               case (first, lst, shard, lane_id) of
                 (Some f, Some l, Some s, Some n) \<Rightarrow>
                   if f < 0 \<or> l < f \<or> l \<ge> int ROUTE_SLOT_COUNT \<or> s < 0 \<or> s \<ge> shard_count \<or>
                      n < 0 \<or> n > MAX_LANE_ID
                   then Inl (FerricStoreError ''invalid SHARDS range'')
                   else
                     and_then (endpoint_key lower endpoint) (\<lambda>key.
                     and_then (endpoint_identity lower endpoint) (\<lambda>identity.
                       Inr (nat f, nat l,
                            \<lparr>rt_shard = s, rt_lane_id = n, rt_endpoint_key = key,
                             rt_endpoint_identity = identity, rt_endpoint = endpoint,
                             rt_leader_node = map_get endpoint [''node'']\<rparr>)))
               | _ \<Rightarrow> Inl (FerricStoreError ''invalid SHARDS range'')))
      | _ \<Rightarrow> Inl (FerricStoreError ''invalid SHARDS range''))"

type_synonym table_state = "route option list \<times> (endpoint_identity \<times> pyval) list \<times> int list"

fun build_ranges ::
    "(ustr \<Rightarrow> ustr) \<Rightarrow> int \<Rightarrow> table_state \<Rightarrow> pyval list \<Rightarrow> table_state result" where
  "build_ranges lower shard_count st [] = Inr st"
| "build_ranges lower shard_count (slots, endpoints, routed_shards) (item # items) =
     and_then (range_route lower shard_count item) (\<lambda>(first, lst, r).
     and_then (fill_slots slots r [first ..< lst + 1]) (\<lambda>slots.
       build_ranges lower shard_count
         (slots, dict_set endpoints (rt_endpoint_identity r) (rt_endpoint r),
          List.insert (rt_shard r) routed_shards) items))"

definition route_destination :: "route \<Rightarrow> endpoint_identity \<times> int" where
  "route_destination r = (rt_endpoint_identity r, rt_lane_id r)"

fun destinations ::
    "((endpoint_identity \<times> int) \<times> route) list \<Rightarrow> route list \<Rightarrow> ((endpoint_identity \<times> int) \<times> route) list" where
  "destinations d [] = d"
| "destinations d (r # rs) =
     destinations (if dict_get d (route_destination r) = None then dict_set d (route_destination r) r
                   else d) rs"

definition topology_build :: "(ustr \<Rightarrow> ustr) \<Rightarrow> pyval \<Rightarrow> topology result" where
  "topology_build lower payload =
     (case (map_get payload [''ranges''], int_or_none (map_get payload [''route_epoch'']),
            int_or_none (map_get payload [''shard_count''])) of
        (PList ranges, Some route_epoch, Some shard_count) \<Rightarrow>
          if route_epoch < 0 \<or> shard_count \<le> 0 \<or> shard_count > int ROUTE_SLOT_COUNT
          then Inl (FerricStoreError ''invalid SHARDS topology payload'')
          else
            and_then (build_ranges lower shard_count (replicate ROUTE_SLOT_COUNT None, [], []) ranges)
              (\<lambda>(slots, endpoints, routed_shards).
                 if list_ex (\<lambda>r. r = None) slots
                 then Inl (FerricStoreError ''SHARDS slot table is incomplete'')
                 else if int (length routed_shards) \<noteq> shard_count
                 then Inl (FerricStoreError ''SHARDS shard_count does not match slot table'')
                 else Inr \<lparr>tp_route_epoch = route_epoch, tp_shard_count = shard_count,
                           tp_slots = slots, tp_endpoints = endpoints,
                           tp_route_destinations = map snd (destinations [] (map the slots))\<rparr>)
      | _ \<Rightarrow> Inl (FerricStoreError ''invalid SHARDS topology payload''))"

section \<open>Slots of keys\<close>

fun index_of :: "'a \<Rightarrow> 'a list \<Rightarrow> nat option" where
  "index_of x [] = None"
| "index_of x (y # ys) = (if y = x then Some 0 else map_option Suc (index_of x ys))"

text \<open>
  \<open>_hash_tag_or_key\<close> and \<open>_flow_hash_tag\<close>, whose text and bytes versions differ only in the
  characters \<open>op\<close> and \<open>cl\<close> that stand for the braces.
\<close>

definition hash_tag_or_key :: "'a \<Rightarrow> 'a \<Rightarrow> 'a list \<Rightarrow> 'a list" where
  "hash_tag_or_key op cl key =
     (case index_of op key of
        None \<Rightarrow> key
      | Some start \<Rightarrow>
          (case index_of cl (drop (start + 1) key) of
             None \<Rightarrow> key
           | Some n \<Rightarrow> if n > 0 then take n (drop (start + 1) key) else key))"

definition flow_hash_tag :: "'a \<Rightarrow> 'a \<Rightarrow> 'a list \<Rightarrow> 'a list \<Rightarrow> 'a list" where
  "flow_hash_tag op cl rest fallback_key =
     (case index_of cl rest of
        Some n \<Rightarrow> if n > 0 then take n rest else hash_tag_or_key op cl fallback_key
      | None \<Rightarrow> hash_tag_or_key op cl fallback_key)"

definition startswith :: "'a list \<Rightarrow> 'a list \<Rightarrow> bool" where
  "startswith s p = (take (length p) s = p)"

definition slot_hash_input :: "(string \<Rightarrow> 'a list) \<Rightarrow> 'a \<Rightarrow> 'a \<Rightarrow> 'a list \<Rightarrow> 'a list" where
  "slot_hash_input lit op cl key =
     (if startswith key (lit ''f:{'') then flow_hash_tag op cl (drop 3 key) key
      else if startswith key (lit ''X:f:{'') then flow_hash_tag op cl (drop 5 key) key
      else hash_tag_or_key op cl key)"

definition crc32_bit :: "32 word \<Rightarrow> 32 word" where
  "crc32_bit c = (if bit c 0 then drop_bit 1 c XOR 0xEDB88320 else drop_bit 1 c)"

definition crc32_byte :: "32 word \<Rightarrow> byte \<Rightarrow> 32 word" where
  "crc32_byte c b = (crc32_bit ^^ 8) (c XOR ucast b)"

definition crc32 :: "bytes \<Rightarrow> 32 word \<Rightarrow> 32 word" where
  "crc32 data value = NOT (foldl crc32_byte (NOT value) data)"

datatype route_key = Key_text ustr | Key_bytes bytes

definition slot_for_key :: "route_key \<Rightarrow> nat result" where
  "slot_for_key key =
     and_then
       (case key of
          Key_bytes b \<Rightarrow> Inr (slot_hash_input bytes_lit (of_char CHR ''{'') (of_char CHR ''}'') b)
        | Key_text t \<Rightarrow> utf8_encode (slot_hash_input text_lit (of_char CHR ''{'') (of_char CHR ''}'') t))
       (\<lambda>encoded. Inr (unat (crc32 encoded 0 AND 1023)))"

definition topology_route_key :: "topology \<Rightarrow> route_key \<Rightarrow> (route \<times> nat) result" where
  "topology_route_key t key =
     and_then (slot_for_key key) (\<lambda>slot.
       case tp_slots t ! slot of
         None \<Rightarrow> Inl (FerricStoreError ''no route for slot'')
       | Some r \<Rightarrow> Inr (r, slot))"

section \<open>The table is exact\<close>

text \<open>
  The reference: the routes, among the parsed ranges, that claim a slot. A topology is accepted
  exactly when every slot is claimed once.
\<close>

type_synonym slot_range = "nat \<times> nat \<times> route"

definition owners :: "slot_range list \<Rightarrow> nat \<Rightarrow> route list" where
  "owners rs i = map (\<lambda>x. snd (snd x)) (filter (\<lambda>x. fst x \<le> i \<and> i \<le> fst (snd x)) rs)"

definition owner :: "slot_range list \<Rightarrow> nat \<Rightarrow> route option" where
  "owner rs i = (case owners rs i of [] \<Rightarrow> None | r # _ \<Rightarrow> Some r)"

definition parse_ranges :: "(ustr \<Rightarrow> ustr) \<Rightarrow> int \<Rightarrow> pyval list \<Rightarrow> slot_range list \<Rightarrow> bool" where
  "parse_ranges lower n items rs \<longleftrightarrow> list_all2 (\<lambda>item x. range_route lower n item = Inr x) items rs"

lemma owners_Cons:
  "owners (x # rs) i = (if fst x \<le> i \<and> i \<le> fst (snd x) then [snd (snd x)] else []) @ owners rs i"
  by (simp add: owners_def)

lemma fill_slots_iff:
  "(\<forall>i \<in> set is. i < length slots) \<Longrightarrow> distinct is \<Longrightarrow>
   fill_slots slots r is = Inr slots' \<longleftrightarrow>
     (\<forall>i \<in> set is. slots ! i = None) \<and>
     slots' = map (\<lambda>i. if i \<in> set is then Some r else slots ! i) [0..<length slots]"
proof (induction "is" arbitrary: slots)
  case Nil
  then show ?case by (auto simp: map_nth)
next
  case (Cons i "is")
  have eq: "map (\<lambda>j. if j \<in> set is then Some r else (slots[i := Some r]) ! j) [0..<length slots] =
      map (\<lambda>j. if j \<in> set (i # is) then Some r else slots ! j) [0..<length slots]"
    using Cons.prems by (auto simp: nth_list_update)
  show ?case
    using Cons.IH [of "slots[i := Some r]"] Cons.prems eq by (auto simp: nth_list_update)
qed

lemma range_route_InrE:
  assumes "range_route lower n item = Inr (f, l, r)"
  obtains f' l' s lane endpoint key ident where
    "f = nat f'" "l = nat l'" "0 \<le> f'" "f' \<le> l'" "l' < int ROUTE_SLOT_COUNT" "0 \<le> s" "s < n"
    "0 \<le> lane" "lane \<le> MAX_LANE_ID" "endpoint_from_range item = Inr endpoint"
    "endpoint_key lower endpoint = Inr key" "endpoint_identity lower endpoint = Inr ident"
    "r = \<lparr>rt_shard = s, rt_lane_id = lane, rt_endpoint_key = key, rt_endpoint_identity = ident,
          rt_endpoint = endpoint, rt_leader_node = map_get endpoint [''node'']\<rparr>"
proof -
  obtain d where d: "item = PDict d"
    using assms by (cases item) (auto simp: range_route_def)
  note [simp del] = map_get.simps
  show ?thesis
    using assms that
    by (cases "int_or_none (map_get item [''first_slot''])";
        cases "int_or_none (map_get item [''last_slot''])";
        cases "int_or_none (map_get item [''shard''])";
        cases "int_or_none (map_get item [''lane_id''])")
      (auto simp: range_route_def Let_def d split: if_splits)
qed

lemma range_route_bounds:
  assumes "range_route lower n item = Inr (f, l, r)"
  shows "f \<le> l" "l < ROUTE_SLOT_COUNT" "0 \<le> rt_shard r" "rt_shard r < n" "0 \<le> rt_lane_id r"
    "rt_lane_id r \<le> MAX_LANE_ID"
  using assms by (auto elim!: range_route_InrE)

lemma build_ranges_iff:
  "length slots = ROUTE_SLOT_COUNT \<Longrightarrow>
   build_ranges lower n (slots, eps, shs) items = Inr st \<longleftrightarrow>
     (\<exists>rs. parse_ranges lower n items rs \<and>
        (\<forall>i < ROUTE_SLOT_COUNT. length (owners rs i) + (if slots ! i = None then 0 else 1) \<le> 1) \<and>
        st = (map (\<lambda>i. case owner rs i of None \<Rightarrow> slots ! i | Some r \<Rightarrow> Some r) [0..<ROUTE_SLOT_COUNT],
              fold (\<lambda>x eps. dict_set eps (rt_endpoint_identity (snd (snd x))) (rt_endpoint (snd (snd x)))) rs eps,
              fold (\<lambda>x shs. List.insert (rt_shard (snd (snd x))) shs) rs shs))"
proof (induction items arbitrary: slots eps shs)
  case Nil
  have "map (\<lambda>i. slots ! i) [0..<ROUTE_SLOT_COUNT] = slots"
    using Nil by (metis map_nth)
  then show ?case by (auto simp: parse_ranges_def owners_def owner_def)
next
  case (Cons item items)
  show ?case
  proof (cases "range_route lower n item")
    case (Inl e)
    then show ?thesis by (auto simp: parse_ranges_def list_all2_Cons1)
  next
    case (Inr x)
    obtain f l r where x: "x = (f, l, r)" by (cases x)
    have b: "f \<le> l" "l < ROUTE_SLOT_COUNT" using range_route_bounds [of lower n item f l r] Inr x by auto
    define m where "m = map (\<lambda>i. if i \<in> set [f..<l + 1] then Some r else slots ! i) [0..<length slots]"
    have fill: "fill_slots slots r [f..<l + 1] = Inr slots' \<longleftrightarrow>
        (\<forall>i \<in> set [f..<l + 1]. slots ! i = None) \<and> slots' = m" for slots'
      unfolding m_def using b Cons.prems by (intro fill_slots_iff) auto
    have len: "length m = ROUTE_SLOT_COUNT" using Cons.prems by (simp add: m_def)
    have mid: "m ! i = (if f \<le> i \<and> i \<le> l then Some r else slots ! i)" if "i < ROUTE_SLOT_COUNT" for i
      using that Cons.prems by (auto simp: m_def)
    have point: "length (owners (x # rs) i) + (if slots ! i = None then 0 else 1) \<le> 1 \<longleftrightarrow>
        (f \<le> i \<and> i \<le> l \<longrightarrow> slots ! i = None) \<and>
        length (owners rs i) + (if m ! i = None then 0 else 1) \<le> 1" if "i < ROUTE_SLOT_COUNT" for i rs
      by (auto simp: mid [OF that] owners_Cons x)
    have once: "(\<forall>i \<in> set [f..<l + 1]. slots ! i = None) \<and>
        (\<forall>i < ROUTE_SLOT_COUNT. length (owners rs i) + (if m ! i = None then 0 else 1) \<le> 1) \<longleftrightarrow>
        (\<forall>i < ROUTE_SLOT_COUNT. length (owners (x # rs) i) + (if slots ! i = None then 0 else 1) \<le> 1)" for rs
    proof -
      have "(\<forall>i \<in> set [f..<l + 1]. slots ! i = None) \<longleftrightarrow>
          (\<forall>i < ROUTE_SLOT_COUNT. f \<le> i \<and> i \<le> l \<longrightarrow> slots ! i = None)" using b by auto
      then show ?thesis using point by blast
    qed
    have tab: "map (\<lambda>i. case owner rs i of None \<Rightarrow> m ! i | Some r \<Rightarrow> Some r) [0..<ROUTE_SLOT_COUNT] =
        map (\<lambda>i. case owner (x # rs) i of None \<Rightarrow> slots ! i | Some r \<Rightarrow> Some r) [0..<ROUTE_SLOT_COUNT]"
      if c: "\<forall>i < ROUTE_SLOT_COUNT. length (owners (x # rs) i) + (if slots ! i = None then 0 else 1) \<le> 1" for rs
    proof (rule map_cong [OF refl])
      fix i assume "i \<in> set [0..<ROUTE_SLOT_COUNT]"
      then have i: "i < ROUTE_SLOT_COUNT" by simp
      show "(case owner rs i of None \<Rightarrow> m ! i | Some r \<Rightarrow> Some r) =
          (case owner (x # rs) i of None \<Rightarrow> slots ! i | Some r \<Rightarrow> Some r)"
        using c [rule_format, OF i] unfolding mid [OF i]
        by (auto simp: owner_def owners_Cons x split: list.splits)
    qed
    have run: "build_ranges lower n (slots, eps, shs) (item # items) = Inr st \<longleftrightarrow>
        (\<forall>i \<in> set [f..<l + 1]. slots ! i = None) \<and>
        build_ranges lower n (m, dict_set eps (rt_endpoint_identity r) (rt_endpoint r),
            List.insert (rt_shard r) shs) items = Inr st"
      using Inr x fill by (auto simp del: set_upt upt_Suc)
    have step: "(\<forall>i \<in> set [f..<l + 1]. slots ! i = None) \<and>
        (\<forall>i < ROUTE_SLOT_COUNT. length (owners rs i) + (if m ! i = None then 0 else 1) \<le> 1) \<and>
        st = (map (\<lambda>i. case owner rs i of None \<Rightarrow> m ! i | Some r \<Rightarrow> Some r) [0..<ROUTE_SLOT_COUNT], E) \<longleftrightarrow>
        (\<forall>i < ROUTE_SLOT_COUNT. length (owners (x # rs) i) + (if slots ! i = None then 0 else 1) \<le> 1) \<and>
        st = (map (\<lambda>i. case owner (x # rs) i of None \<Rightarrow> slots ! i | Some r \<Rightarrow> Some r) [0..<ROUTE_SLOT_COUNT],
              E)" for rs E
      using once [of rs] tab [of rs] by (auto simp only:)
    have parse: "parse_ranges lower n (item # items) rs' \<longleftrightarrow>
        (\<exists>rs. rs' = x # rs \<and> parse_ranges lower n items rs)" for rs'
      by (auto simp: parse_ranges_def list_all2_Cons1 Inr x)
    define E where "E rs = (fold (\<lambda>x eps. dict_set eps (rt_endpoint_identity (snd (snd x))) (rt_endpoint (snd (snd x)))) rs
          (dict_set eps (rt_endpoint_identity r) (rt_endpoint r)),
        fold (\<lambda>x shs. List.insert (rt_shard (snd (snd x))) shs) rs (List.insert (rt_shard r) shs))" for rs :: "slot_range list"
    have E: "(fold (\<lambda>x eps. dict_set eps (rt_endpoint_identity (snd (snd x))) (rt_endpoint (snd (snd x)))) (x # rs) eps,
        fold (\<lambda>x shs. List.insert (rt_shard (snd (snd x))) shs) (x # rs) shs) = E rs" for rs
      by (simp add: E_def x)
    have ex: "(\<exists>rs'. (\<exists>rs. rs' = x # rs \<and> P rs) \<and> Q rs') \<longleftrightarrow> (\<exists>rs. P rs \<and> Q (x # rs))" for P Q
      by blast
    show ?thesis
      unfolding run Cons.IH [OF len] parse ex E E_def [symmetric]
      using step [where E = "E rs" and rs = rs for rs] by blast
  qed
qed

lemma list_insert_fold:
  "set (fold (\<lambda>x shs. List.insert (g x) shs) rs shs) = set shs \<union> g ` set rs"
  "distinct shs \<Longrightarrow> distinct (fold (\<lambda>x shs. List.insert (g x) shs) rs shs)"
  by (induction rs arbitrary: shs) auto

definition table_ok :: "slot_range list \<Rightarrow> int \<Rightarrow> bool" where
  "table_ok rs n \<longleftrightarrow>
     (\<forall>i < ROUTE_SLOT_COUNT. \<exists>r. owners rs i = [r]) \<and>
     (\<forall>s. 0 \<le> s \<and> s < n \<longrightarrow> (\<exists>x \<in> set rs. rt_shard (snd (snd x)) = s))"

lemma parse_ranges_shards:
  assumes "parse_ranges lower n items rs" and "x \<in> set rs"
  shows "0 \<le> rt_shard (snd (snd x))" "rt_shard (snd (snd x)) < n"
proof -
  obtain i where "i < length rs" "x = rs ! i" using assms(2) by (metis in_set_conv_nth)
  then have "range_route lower n (items ! i) = Inr x"
    using assms(1) by (auto simp: parse_ranges_def list_all2_conv_all_nth)
  then show "0 \<le> rt_shard (snd (snd x))" "rt_shard (snd (snd x)) < n"
    using range_route_bounds [of lower n "items ! i" "fst x" "fst (snd x)" "snd (snd x)"] by auto
qed

lemma all_shards_count:
  assumes "\<And>x. x \<in> set rs \<Longrightarrow> 0 \<le> g x \<and> g x < (n :: int)" and "0 < n"
  shows "int (length (fold (\<lambda>x shs. List.insert (g x) shs) rs [])) = n \<longleftrightarrow>
    (\<forall>s. 0 \<le> s \<and> s < n \<longrightarrow> (\<exists>x \<in> set rs. g x = s))"
proof -
  let ?L = "fold (\<lambda>x shs. List.insert (g x) shs) rs []"
  have set: "set ?L = g ` set rs" and dist: "distinct ?L"
    using list_insert_fold [where g = g and rs = rs and shs = "[]"] by auto
  have len: "int (length ?L) = int (card (g ` set rs))"
    using distinct_card [OF dist] set by simp
  have sub: "g ` set rs \<subseteq> {0..<n}" using assms(1) by auto
  have "int (card (g ` set rs)) = n \<longleftrightarrow> g ` set rs = {0..<n}"
  proof
    assume "int (card (g ` set rs)) = n"
    then have "card (g ` set rs) = card {0..<n}" using assms(2) by simp
    then show "g ` set rs = {0..<n}" using sub by (intro card_subset_eq) auto
  qed (use assms(2) in simp)
  moreover have "g ` set rs = {0..<n} \<longleftrightarrow> (\<forall>s. 0 \<le> s \<and> s < n \<longrightarrow> (\<exists>x \<in> set rs. g x = s))"
    using sub by (auto simp: image_iff) (metis atLeastLessThan_iff image_iff)+
  ultimately show ?thesis by (simp add: len)
qed

lemma owners_single:
  "(\<forall>i < k. length (owners rs i) \<le> 1) \<and> \<not> list_ex (\<lambda>r. r = None) (map (owner rs) [0..<k]) \<longleftrightarrow>
   (\<forall>i < k. \<exists>r. owners rs i = [r])"
proof -
  have "length (owners rs i) \<le> 1 \<and> owner rs i \<noteq> None \<longleftrightarrow> (\<exists>r. owners rs i = [r])" for i
    by (cases "owners rs i"; cases "tl (owners rs i)") (auto simp: owner_def)
  moreover have "\<not> list_ex (\<lambda>r. r = None) (map (owner rs) [0..<k]) \<longleftrightarrow> (\<forall>i < k. owner rs i \<noteq> None)"
    by (auto simp: list_ex_iff image_iff) (metis atLeastLessThan_iff le0 not_None_eq)
  ultimately show ?thesis by blast
qed

lemma topology_build_iff:
  "topology_build lower payload = Inr t \<longleftrightarrow>
     (\<exists>ranges epoch n rs.
        map_get payload [''ranges''] = PList ranges \<and>
        map_get payload [''route_epoch''] = PInt epoch \<and> 0 \<le> epoch \<and>
        map_get payload [''shard_count''] = PInt n \<and> 0 < n \<and> n \<le> int ROUTE_SLOT_COUNT \<and>
        parse_ranges lower n ranges rs \<and> table_ok rs n \<and>
        t = \<lparr>tp_route_epoch = epoch, tp_shard_count = n,
             tp_slots = map (owner rs) [0..<ROUTE_SLOT_COUNT],
             tp_endpoints = fold (\<lambda>x eps. dict_set eps (rt_endpoint_identity (snd (snd x)))
                                   (rt_endpoint (snd (snd x)))) rs [],
             tp_route_destinations =
               map snd (destinations [] (map the (map (owner rs) [0..<ROUTE_SLOT_COUNT])))\<rparr>)"
proof -
  have hdr: "int_or_none v = Some k \<longleftrightarrow> v = PInt k" for v k
    by (auto simp: int_or_none_def split: pyval.splits)
  have own: "(\<lambda>i. case owner rs i of None \<Rightarrow> replicate ROUTE_SLOT_COUNT None ! i | Some r \<Rightarrow> Some r) i = owner rs i"
    if "i < ROUTE_SLOT_COUNT" for i rs
    using that by (auto split: option.split)
  have tab: "map (\<lambda>i. case owner rs i of None \<Rightarrow> replicate ROUTE_SLOT_COUNT None ! i | Some r \<Rightarrow> Some r)
      [0..<ROUTE_SLOT_COUNT] = map (owner rs) [0..<ROUTE_SLOT_COUNT]" for rs
    by (rule map_cong [OF refl]) (use own in auto)
  have once: "(\<forall>i < ROUTE_SLOT_COUNT. length (owners rs i) +
      (if replicate ROUTE_SLOT_COUNT (None :: route option) ! i = None then 0 else 1) \<le> 1) \<longleftrightarrow>
      (\<forall>i < ROUTE_SLOT_COUNT. length (owners rs i) \<le> 1)" for rs
    by auto
  have build: "build_ranges lower n (replicate ROUTE_SLOT_COUNT None, [], []) items = Inr st \<longleftrightarrow>
     (\<exists>rs. parse_ranges lower n items rs \<and> (\<forall>i < ROUTE_SLOT_COUNT. length (owners rs i) \<le> 1) \<and>
        st = (map (owner rs) [0..<ROUTE_SLOT_COUNT],
              fold (\<lambda>x eps. dict_set eps (rt_endpoint_identity (snd (snd x))) (rt_endpoint (snd (snd x)))) rs [],
              fold (\<lambda>x shs. List.insert (rt_shard (snd (snd x))) shs) rs []))" for n items st
    by (subst build_ranges_iff) (simp_all only: length_replicate tab once)
  have shift: "(\<exists>st. (\<exists>rs. P rs \<and> Q rs \<and> st = g rs) \<and> R st) \<longleftrightarrow> (\<exists>rs. P rs \<and> Q rs \<and> R (g rs))"
    for P Q R and g :: "slot_range list \<Rightarrow> table_state" by blast
  have count: "int (length (fold (\<lambda>x shs. List.insert (rt_shard (snd (snd x))) shs) rs [])) = n \<longleftrightarrow>
      (\<forall>s. 0 \<le> s \<and> s < n \<longrightarrow> (\<exists>x \<in> set rs. rt_shard (snd (snd x)) = s))"
    if "parse_ranges lower n items rs" "0 < n" for rs n items
    using all_shards_count [of rs "\<lambda>x. rt_shard (snd (snd x))" n] parse_ranges_shards [OF that(1)] that(2)
    by blast
  have ok: "table_ok rs n \<longleftrightarrow> (\<forall>i < ROUTE_SLOT_COUNT. length (owners rs i) \<le> 1) \<and>
      \<not> list_ex (\<lambda>r. r = None) (map (owner rs) [0..<ROUTE_SLOT_COUNT]) \<and>
      int (length (fold (\<lambda>x shs. List.insert (rt_shard (snd (snd x))) shs) rs [])) = n"
    if "parse_ranges lower n items rs" "0 < n" for rs n items
    unfolding table_ok_def count [OF that] owners_single [symmetric] by blast
  show ?thesis
  proof (cases "\<exists>ranges epoch n. map_get payload [''ranges''] = PList ranges \<and>
      map_get payload [''route_epoch''] = PInt epoch \<and> map_get payload [''shard_count''] = PInt n")
    case True
    then obtain ranges epoch n where p: "map_get payload [''ranges''] = PList ranges"
      "map_get payload [''route_epoch''] = PInt epoch" "map_get payload [''shard_count''] = PInt n" by blast
    let ?t = "\<lambda>rs. \<lparr>tp_route_epoch = epoch, tp_shard_count = n,
             tp_slots = map (owner rs) [0..<ROUTE_SLOT_COUNT],
             tp_endpoints = fold (\<lambda>x eps. dict_set eps (rt_endpoint_identity (snd (snd x)))
                                   (rt_endpoint (snd (snd x)))) rs [],
             tp_route_destinations =
               map snd (destinations [] (map the (map (owner rs) [0..<ROUTE_SLOT_COUNT])))\<rparr>"
    show ?thesis
    proof (cases "epoch < 0 \<or> n \<le> 0 \<or> n > int ROUTE_SLOT_COUNT")
      case True
      then show ?thesis by (auto simp: topology_build_def p int_or_none_def)
    next
      case False
      have "topology_build lower payload = Inr t \<longleftrightarrow>
        (\<exists>rs. parse_ranges lower n ranges rs \<and> table_ok rs n \<and> t = ?t rs)"
      proof -
        have "topology_build lower payload = Inr t \<longleftrightarrow>
          (\<exists>st. build_ranges lower n (replicate ROUTE_SLOT_COUNT None, [], []) ranges = Inr st \<and>
             \<not> list_ex (\<lambda>r. r = None) (fst st) \<and> int (length (snd (snd st))) = n \<and>
             t = \<lparr>tp_route_epoch = epoch, tp_shard_count = n, tp_slots = fst st, tp_endpoints = fst (snd st),
                  tp_route_destinations = map snd (destinations [] (map the (fst st)))\<rparr>)"
          using False
          by (cases "build_ranges lower n (replicate ROUTE_SLOT_COUNT None, [], []) ranges")
            (auto simp: topology_build_def p int_or_none_def split_def)
        also have "\<dots> \<longleftrightarrow> (\<exists>rs. parse_ranges lower n ranges rs \<and>
             ((\<forall>i < ROUTE_SLOT_COUNT. length (owners rs i) \<le> 1) \<and>
              \<not> list_ex (\<lambda>r. r = None) (map (owner rs) [0..<ROUTE_SLOT_COUNT]) \<and>
              int (length (fold (\<lambda>x shs. List.insert (rt_shard (snd (snd x))) shs) rs [])) = n) \<and>
             t = ?t rs)"
          unfolding build shift by (simp only: fst_conv snd_conv conj_assoc)
        also have "\<dots> \<longleftrightarrow> (\<exists>rs. parse_ranges lower n ranges rs \<and> table_ok rs n \<and> t = ?t rs)"
        proof -
          have "0 < n" using False by simp
          from ok [OF _ this, of ranges] show ?thesis by (simp only: cong: conj_cong)
        qed
        finally show ?thesis .
      qed
      with p False show ?thesis by auto
    qed
  next
    case False
    then show ?thesis
      by (auto simp: topology_build_def split: pyval.splits option.splits dest: hdr [THEN iffD1])
  qed
qed

text \<open>
  C15. A \<open>SHARDS\<close> payload is accepted as a topology exactly when its epoch and shard count are valid,
  every range is well formed, every one of the 1024 slots is claimed by exactly one range, and every
  shard owns at least one range; the slot table then maps each slot to the range that claims it.
\<close>

theorem topology_table_exact:
  "topology_build lower payload = Inr t \<longleftrightarrow>
     (\<exists>ranges epoch n rs.
        map_get payload [''ranges''] = PList ranges \<and>
        map_get payload [''route_epoch''] = PInt epoch \<and> 0 \<le> epoch \<and>
        map_get payload [''shard_count''] = PInt n \<and> 0 < n \<and> n \<le> int ROUTE_SLOT_COUNT \<and>
        parse_ranges lower n ranges rs \<and> table_ok rs n \<and>
        t = \<lparr>tp_route_epoch = epoch, tp_shard_count = n,
             tp_slots = map (owner rs) [0..<ROUTE_SLOT_COUNT],
             tp_endpoints = fold (\<lambda>x eps. dict_set eps (rt_endpoint_identity (snd (snd x)))
                                   (rt_endpoint (snd (snd x)))) rs [],
             tp_route_destinations =
               map snd (destinations [] (map the (map (owner rs) [0..<ROUTE_SLOT_COUNT])))\<rparr>)"
  by (rule topology_build_iff)

section \<open>Keys and slots\<close>

lemma crc32_append: "crc32 (a @ b) v = crc32 b (crc32 a v)"
  by (simp add: crc32_def)

lemma crc32_Nil [simp]: "crc32 [] v = v"
  by (simp add: crc32_def)

lemma masked_slot: "unat (x AND 1023 :: 32 word) = unat x mod 1024" "unat (x AND 1023 :: 32 word) < ROUTE_SLOT_COUNT"
proof -
  have "x AND mask 10 = x mod 2 ^ 10" by (simp only: take_bit_eq_mask [symmetric] take_bit_eq_mod)
  then have "x AND 1023 = x mod 1024" by (simp add: mask_eq_exp_minus_1)
  then have "unat (x AND 1023) = unat x mod unat (1024 :: 32 word)" by (simp add: unat_mod)
  then show "unat (x AND 1023 :: 32 word) = unat x mod 1024" by simp
  then show "unat (x AND 1023 :: 32 word) < ROUTE_SLOT_COUNT" by (simp add: ROUTE_SLOT_COUNT_def)
qed

lemma index_of_None [simp]: "index_of x xs = None \<longleftrightarrow> x \<notin> set xs"
  by (induction xs) auto

lemma index_of_append [simp]: "x \<notin> set xs \<Longrightarrow> index_of x (xs @ x # ys) = Some (length xs)"
  by (induction xs) auto

lemma index_of_Some: "index_of x xs = Some i \<Longrightarrow> xs = take i xs @ x # drop (i + 1) xs \<and> x \<notin> set (take i xs) \<and> i < length xs"
  by (induction xs arbitrary: i) (auto split: if_splits)

lemma startswith_iff: "startswith s p \<longleftrightarrow> (\<exists>r. s = p @ r)"
  unfolding startswith_def by (metis append_eq_conv_conj append_take_drop_id)

lemma flow_hash_tag_eq:
  assumes "op \<notin> set p"
  shows "flow_hash_tag op cl rest (p @ op # rest) = hash_tag_or_key op cl (p @ op # rest)"
proof -
  have "drop (Suc (length p)) (p @ op # rest) = rest" by simp
  with assms show ?thesis
    by (cases "index_of cl rest") (simp_all del: index_of_None add: flow_hash_tag_def hash_tag_or_key_def)
qed

text \<open>The two prefixes that \<open>slot_for_key\<close> tests first are instances of the general rule.\<close>

lemma slot_hash_input_eq:
  assumes "lit ''f:{'' = p @ [op]" "length p = 2" "op \<notin> set p"
    and "lit ''X:f:{'' = q @ [op]" "length q = 4" "op \<notin> set q"
  shows "slot_hash_input lit op cl key = hash_tag_or_key op cl key"
proof -
  consider r where "key = p @ op # r" | r where "key = q @ op # r"
    | "\<not> startswith key (lit ''f:{'')" "\<not> startswith key (lit ''X:f:{'')"
    using assms by (auto simp: startswith_iff)
  then show ?thesis
  proof cases
    case (1 r)
    then have "startswith key (lit ''f:{'')" "drop 3 key = r" using assms by (auto simp: startswith_iff)
    then show ?thesis using 1 flow_hash_tag_eq [OF assms(3)] by (simp add: slot_hash_input_def)
  next
    case (2 r)
    then have x: "startswith key (lit ''X:f:{'')" "drop 5 key = r" using assms by (auto simp: startswith_iff)
    have "\<not> startswith key (lit ''f:{'')"
    proof
      assume "startswith key (lit ''f:{'')"
      then obtain s where "key = p @ op # s" using assms by (auto simp: startswith_iff)
      then have "op = key ! 2" using assms(2) by (simp add: nth_append)
      also have "\<dots> = q ! 2" using 2 assms(5) by (simp add: nth_append)
      finally show False using assms(5, 6) by (metis nth_mem numeral_less_iff semiring_norm(76) semiring_norm(78))
    qed
    with x show ?thesis using 2 flow_hash_tag_eq [OF assms(6)] by (simp add: slot_hash_input_def)
  next
    case 3
    then show ?thesis by (simp add: slot_hash_input_def)
  qed
qed

definition BRACE_OPEN :: nat where "BRACE_OPEN = 123"
definition BRACE_CLOSE :: nat where "BRACE_CLOSE = 125"

lemma slot_hash_input_text:
  "slot_hash_input text_lit (of_char CHR ''{'') (of_char CHR ''}'') t = hash_tag_or_key BRACE_OPEN BRACE_CLOSE t"
  by (subst slot_hash_input_eq [of _ "text_lit ''f:''" _ "text_lit ''X:f:''"])
    (simp_all add: text_lit_def BRACE_OPEN_def BRACE_CLOSE_def)

lemma slot_hash_input_bytes:
  "slot_hash_input bytes_lit (of_char CHR ''{'') (of_char CHR ''}'') b =
   hash_tag_or_key (of_nat BRACE_OPEN) (of_nat BRACE_CLOSE) b"
  by (subst slot_hash_input_eq [of _ "bytes_lit ''f:''" _ "bytes_lit ''X:f:''"])
    (simp_all add: bytes_lit_def BRACE_OPEN_def BRACE_CLOSE_def)

text \<open>UTF-8 keeps ASCII delimiters where they are.\<close>

definition utf8_text :: "ustr \<Rightarrow> bytes" where
  "utf8_text s = concat (map utf8_char s)"

lemma utf8_text_simps [simp]:
  "utf8_text [] = []" "utf8_text (c # s) = utf8_char c @ utf8_text s" "utf8_text (s @ t) = utf8_text s @ utf8_text t"
  by (simp_all add: utf8_text_def)

lemma utf8_encode_iff: "utf8_encode s = Inr b \<longleftrightarrow> list_all (\<lambda>c. \<not> is_surrogate c) s \<and> b = utf8_text s"
  by (induction s arbitrary: b) auto

lemma utf8_text_nonempty [simp]: "utf8_text s = [] \<longleftrightarrow> s = []"
  by (cases s) (auto simp: utf8_char_def)

lemma ascii_utf8_char: "c < 128 \<Longrightarrow> utf8_char c = [of_nat c]"
  by (simp add: utf8_char_def)

lemma utf8_char_high:
  assumes "x \<in> set (utf8_char c)" and "128 \<le> c" and "c \<le> 0x10FFFF"
  shows "128 \<le> unat x"
proof -
  have "c div 262144 < 16" using assms(3) by simp
  moreover have "c \<le> 0x7FF \<Longrightarrow> c div 64 < 32" "c \<le> 0xFFFF \<Longrightarrow> c div 4096 < 16" by simp_all
  moreover have "c mod 64 < 64" "c div 64 mod 64 < 64" "c div 4096 mod 64 < 64" by simp_all
  ultimately show ?thesis
    using assms(1, 2) unfolding utf8_char_def
    by (simp add: unat_byte_of_nat del: of_nat_add split: if_splits)
      (elim disjE; simp add: unat_byte_of_nat del: of_nat_add)+
qed

lemma ascii_in_utf8_char:
  assumes "d < 128" and "c \<le> 0x10FFFF"
  shows "(of_nat d :: byte) \<in> set (utf8_char c) \<longleftrightarrow> c = d"
proof (cases "c < 128")
  case True
  then show ?thesis
    using assms by (auto simp: ascii_utf8_char word_unat_eq_iff unat_byte_of_nat)
next
  case False
  then show ?thesis
    using utf8_char_high [of "of_nat d" c] assms by (auto simp: unat_byte_of_nat)
qed

lemma index_of_utf8:
  assumes "d < 128" and "is_text s"
  shows "index_of (of_nat d) (utf8_text s) = map_option (\<lambda>i. length (utf8_text (take i s))) (index_of d s)"
  using assms(2)
proof (induction s)
  case (Cons c s)
  have skip: "x \<notin> set u \<Longrightarrow> index_of x (u @ v) = map_option (\<lambda>i. length u + i) (index_of x v)" for x :: byte and u v
    by (cases "index_of x v"; induction u) (auto simp del: index_of_None)
  show ?case
  proof (cases "c = d")
    case True
    then show ?thesis using assms(1) by (simp add: ascii_utf8_char)
  next
    case False
    then have "(of_nat d :: byte) \<notin> set (utf8_char c)" using assms(1) Cons.prems by (simp add: ascii_in_utf8_char)
    from skip [OF this] Cons False show ?thesis by (simp add: option.map_comp comp_def)
  qed
qed simp

lemma utf8_text_drop: "drop (length (utf8_text (take i s))) (utf8_text s) = utf8_text (drop i s)"
  by (metis append_eq_conv_conj append_take_drop_id utf8_text_simps(3))

lemma utf8_text_take: "take (length (utf8_text (take i s))) (utf8_text s) = utf8_text (take i s)"
  by (metis append_eq_conv_conj append_take_drop_id utf8_text_simps(3))

lemma utf8_text_drop_ascii:
  assumes "i < length s" and "s ! i < 128"
  shows "drop (Suc (length (utf8_text (take i s)))) (utf8_text s) = utf8_text (drop (Suc i) s)"
proof -
  have "drop (Suc (length (utf8_text (take i s)))) (utf8_text s) = drop 1 (utf8_text (drop i s))"
    by (simp add: utf8_text_drop [symmetric])
  also have "drop i s = s ! i # drop (Suc i) s" using assms(1) by (simp add: Cons_nth_drop_Suc)
  finally show ?thesis using assms(2) by (simp add: ascii_utf8_char)
qed

lemma index_of_nth: "index_of x xs = Some i \<Longrightarrow> i < length xs \<and> xs ! i = x"
  by (induction xs arbitrary: i) (auto split: if_splits)

lemma hash_tag_utf8:
  assumes "is_text s"
  shows "hash_tag_or_key (of_nat BRACE_OPEN) (of_nat BRACE_CLOSE) (utf8_text s) =
    utf8_text (hash_tag_or_key BRACE_OPEN BRACE_CLOSE s)"
proof (cases "index_of BRACE_OPEN s")
  case None
  then show ?thesis using index_of_utf8 [OF _ assms, of BRACE_OPEN]
    by (simp del: index_of_None add: hash_tag_or_key_def BRACE_OPEN_def)
next
  case (Some i)
  note at = index_of_nth [OF Some]
  have tail: "is_text (drop (Suc i) s)" using assms by (auto simp: is_text_def dest: in_set_dropD)
  have rest: "drop (Suc (length (utf8_text (take i s)))) (utf8_text s) = utf8_text (drop (Suc i) s)"
    by (rule utf8_text_drop_ascii) (use at in \<open>simp_all add: BRACE_OPEN_def\<close>)
  have first: "index_of (of_nat BRACE_OPEN) (utf8_text s) = Some (length (utf8_text (take i s)))"
    using index_of_utf8 [OF _ assms, of BRACE_OPEN] Some by (simp add: BRACE_OPEN_def)
  have second: "index_of (of_nat BRACE_CLOSE) (utf8_text (drop (Suc i) s)) =
      map_option (\<lambda>n. length (utf8_text (take n (drop (Suc i) s)))) (index_of BRACE_CLOSE (drop (Suc i) s))"
    using index_of_utf8 [OF _ tail, of BRACE_CLOSE] by (simp add: BRACE_CLOSE_def)
  show ?thesis
    using index_of_nth [of BRACE_CLOSE "drop (Suc i) s"]
    by (cases "index_of BRACE_CLOSE (drop (Suc i) s)")
      (auto simp del: index_of_None simp: hash_tag_or_key_def first second Some rest utf8_text_take)
qed

lemma set_hash_tag: "set (hash_tag_or_key a b s) \<subseteq> set s"
  by (auto simp: hash_tag_or_key_def dest: in_set_takeD in_set_dropD split: option.splits if_splits)

text \<open>
  A key routes to the same slot whether it is given as text or as its UTF-8 bytes.
\<close>

theorem text_and_bytes_route_alike:
  assumes "is_text s" and "utf8_encode s = Inr b"
  shows "slot_for_key (Key_text s) = slot_for_key (Key_bytes b)"
proof -
  have "list_all (\<lambda>c. \<not> is_surrogate c) (hash_tag_or_key BRACE_OPEN BRACE_CLOSE s)"
    using assms(2) set_hash_tag [of BRACE_OPEN BRACE_CLOSE s] by (auto simp: utf8_encode_iff list_all_iff)
  then have "utf8_encode (hash_tag_or_key BRACE_OPEN BRACE_CLOSE s) =
      Inr (utf8_text (hash_tag_or_key BRACE_OPEN BRACE_CLOSE s))"
    by (simp add: utf8_encode_iff)
  with assms show ?thesis
    unfolding slot_for_key_def route_key.case slot_hash_input_text slot_hash_input_bytes
    by (simp add: hash_tag_utf8 utf8_encode_iff)
qed

theorem text_and_bytes_route_alike_witness:
  "slot_for_key (Key_text [0xE9, 123, 0x20AC, 125, 49]) =
   slot_for_key (Key_bytes [0xC3, 0xA9, 0x7B, 0xE2, 0x82, 0xAC, 0x7D, 0x31])"
  by (rule text_and_bytes_route_alike) (simp_all add: is_surrogate_def utf8_char_def)

text \<open>
  A key with a non-empty tag between its first opening brace and the next closing brace routes by
  the tag alone, so keys that share a tag share a slot.
\<close>

theorem slot_of_hash_tag:
  assumes "of_nat BRACE_OPEN \<notin> set pre" and "of_nat BRACE_CLOSE \<notin> set tag" and "tag \<noteq> []"
  shows "slot_for_key (Key_bytes (pre @ of_nat BRACE_OPEN # tag @ of_nat BRACE_CLOSE # suf)) =
    Inr (unat (crc32 tag 0) mod 1024)"
proof -
  have "drop (Suc (length pre)) (pre @ of_nat BRACE_OPEN # tag @ of_nat BRACE_CLOSE # suf) =
      tag @ of_nat BRACE_CLOSE # suf" by simp
  with assms show ?thesis
    unfolding slot_for_key_def route_key.case slot_hash_input_bytes
    by (simp add: hash_tag_or_key_def masked_slot)
qed

theorem slot_of_hash_tag_witness:
  "slot_for_key (Key_bytes ([0x61] @ of_nat BRACE_OPEN # [0x74, 0x7B] @ of_nat BRACE_CLOSE # [0x62])) =
   Inr (unat (crc32 [0x74, 0x7B] 0) mod 1024)"
  by (rule slot_of_hash_tag) (simp_all add: BRACE_OPEN_def BRACE_CLOSE_def)

section \<open>Routing is total\<close>

lemma slot_for_key_bound: "slot_for_key key = Inr slot \<Longrightarrow> slot < ROUTE_SLOT_COUNT"
  by (auto simp: slot_for_key_def masked_slot ROUTE_SLOT_COUNT_def split: route_key.splits)

lemma destinations_get:
  "dict_get (destinations d rs) k =
     (case dict_get d k of Some r \<Rightarrow> Some r | None \<Rightarrow> List.find (\<lambda>r. route_destination r = k) rs)"
proof (induction rs arbitrary: d)
  case (Cons r rs)
  then show ?case
    by (cases "dict_get d (route_destination r)")
      (auto simp del: dict_get_None simp: dict_get_set split: option.splits)
qed (simp split: option.split)

lemma destinations_cover:
  assumes "r \<in> set rs"
  shows "\<exists>r' \<in> set (map snd (destinations [] rs)). route_destination r' = route_destination r"
proof -
  obtain r' where find: "List.find (\<lambda>x. route_destination x = route_destination r) rs = Some r'"
    using assms by (cases "List.find (\<lambda>x. route_destination x = route_destination r) rs")
      (auto simp: find_None_iff)
  then have "dict_get (destinations [] rs) (route_destination r) = Some r'"
    by (simp add: destinations_get)
  then have "r' \<in> set (map snd (destinations [] rs))" by (auto dest: dict_get_SomeD intro: rev_image_eqI)
  moreover have "route_destination r' = route_destination r" using find by (auto simp: find_Some_iff)
  ultimately show ?thesis by blast
qed

lemma endpoints_fold:
  "keys (fold (\<lambda>x eps. dict_set eps (f x) (g x)) rs eps) = keys eps \<union> f ` set rs"
proof (induction rs arbitrary: eps)
  case (Cons x rs)
  have "keys (dict_set eps (f x) (g x)) = insert (f x) (keys eps)"
    by (metis (no_types, lifting) dict_set_keys insert_absorb list.set_map set_append
        list.set(1) list.set(2) sup_commute insert_is_Un)
  with Cons show ?case by simp
qed simp

text \<open>
  C16. On an accepted topology every key that can be hashed is routed: to the range that owns its slot,
  whose shard is in range, whose endpoint is registered and whose destination is one of the listed ones.
\<close>

theorem accepted_topology_routes_every_key:
  assumes "topology_build lower payload = Inr t" and "slot_for_key key = Inr slot"
  shows "\<exists>r. topology_route_key t key = Inr (r, slot) \<and> tp_slots t ! slot = Some r \<and>
    0 \<le> rt_shard r \<and> rt_shard r < tp_shard_count t \<and>
    rt_endpoint_identity r \<in> keys (tp_endpoints t) \<and>
    (\<exists>r' \<in> set (tp_route_destinations t). route_destination r' = route_destination r)"
proof -
  from assms(1) obtain ranges rs where parse: "parse_ranges lower (tp_shard_count t) ranges rs"
    and ok: "table_ok rs (tp_shard_count t)"
    and slots: "tp_slots t = map (owner rs) [0..<ROUTE_SLOT_COUNT]"
    and eps: "keys (tp_endpoints t) = (\<lambda>x. rt_endpoint_identity (snd (snd x))) ` set rs"
    and dests: "tp_route_destinations t = map snd (destinations [] (map the (map (owner rs) [0..<ROUTE_SLOT_COUNT])))"
    unfolding topology_build_iff by (auto simp: endpoints_fold)
  have bound: "slot < ROUTE_SLOT_COUNT" by (rule slot_for_key_bound [OF assms(2)])
  then obtain r where r: "owners rs slot = [r]" using ok by (auto simp: table_ok_def)
  then have own: "owner rs slot = Some r" by (simp add: owner_def)
  have "r \<in> set (owners rs slot)" using r by simp
  then obtain x where x: "x \<in> set rs" "r = snd (snd x)" by (auto simp: owners_def)
  have "the (owner rs slot) \<in> set (map the (map (owner rs) [0..<ROUTE_SLOT_COUNT]))"
    using bound by auto
  then have "\<exists>r' \<in> set (tp_route_destinations t). route_destination r' = route_destination r"
    unfolding dests using destinations_cover own by fastforce
  with parse_ranges_shards [OF parse x(1)] show ?thesis
    using assms(2) bound own x by (auto simp: topology_route_key_def slots eps)
qed

definition sample_payload :: pyval where
  "sample_payload =
     PDict [(PStr (text_lit ''route_epoch''), PInt 7), (PStr (text_lit ''shard_count''), PInt 1),
       (PBytes (bytes_lit ''ranges''), PList
         [PDict [(PStr (text_lit ''first_slot''), PInt 0), (PStr (text_lit ''last_slot''), PInt 1023),
            (PStr (text_lit ''shard''), PInt 0), (PStr (text_lit ''lane_id''), PInt 3),
            (PStr (text_lit ''host''), PBytes (bytes_lit ''db'')),
            (PStr (text_lit ''native_port''), PInt 6388)]])]"

lemma sample_payload_accepted: "\<exists>t. topology_build (\<lambda>s. s) sample_payload = Inr t"
proof -
  define item where "item =
    PDict [(PStr (text_lit ''first_slot''), PInt 0), (PStr (text_lit ''last_slot''), PInt 1023),
      (PStr (text_lit ''shard''), PInt 0), (PStr (text_lit ''lane_id''), PInt 3),
      (PStr (text_lit ''host''), PBytes (bytes_lit ''db'')), (PStr (text_lit ''native_port''), PInt 6388)]"
  note lits = text_lit_def bytes_lit_def
  have "\<exists>r. range_route (\<lambda>s. s) 1 item = Inr (0, 1023, r) \<and> rt_shard r = 0"
    by (simp add: item_def range_route_def endpoint_from_range_def endpoint_key_def endpoint_identity_def
        text_or_none_def int_or_none_def valid_port_def truthy_text_def lits ROUTE_SLOT_COUNT_def MAX_LANE_ID_def
        utf8_decode.simps(2) Let_def)
  then obtain r where r: "range_route (\<lambda>s. s) 1 item = Inr (0, 1023, r)" "rt_shard r = 0" by blast
  have "parse_ranges (\<lambda>s. s) 1 [item] [(0, 1023, r)]" using r by (simp add: parse_ranges_def)
  moreover have "table_ok [(0, 1023, r)] 1"
    using r(2) by (auto simp: table_ok_def owners_def ROUTE_SLOT_COUNT_def)
  moreover have "map_get sample_payload [''ranges''] = PList [item]"
    "map_get sample_payload [''route_epoch''] = PInt 7" "map_get sample_payload [''shard_count''] = PInt 1"
    by (simp_all add: sample_payload_def item_def lits)
  ultimately show ?thesis unfolding topology_build_iff by (fastforce simp: ROUTE_SLOT_COUNT_def)
qed

theorem accepted_topology_routes_every_key_witness:
  "\<exists>t r slot. topology_build (\<lambda>s. s) sample_payload = Inr t \<and>
     topology_route_key t (Key_bytes [0x61]) = Inr (r, slot) \<and> rt_shard r < tp_shard_count t"
proof -
  obtain t where t: "topology_build (\<lambda>s. s) sample_payload = Inr t" using sample_payload_accepted by blast
  obtain slot where slot: "slot_for_key (Key_bytes [0x61]) = Inr slot" by (simp add: slot_for_key_def)
  from accepted_topology_routes_every_key [OF t slot] t show ?thesis by blast
qed

end
