(* ===== verification/Flow_Options.thy ===== *)
theory Flow_Options
  imports Topology
begin

text \<open>
  The option grammar of Flow commands: \<open>FlowOptionPlan\<close> of \<open>flow_options.py\<close>, which validates every
  suffix of an argument list from right to left, and the helpers of \<open>command_grammar.py\<close> that walk
  it. \<open>pylib\<close> collects what these modules ask of Python's own conversions: the upper-case form of a
  non-ASCII code point, \<open>str()\<close> of a value that is neither text nor bytes, and \<open>int()\<close> of a value that
  is neither an integer nor a boolean, with the exception it raises.
\<close>

section \<open>Tokens\<close>

record pylib =
  upper_char :: "nat \<Rightarrow> ustr"
  str_of :: "pyval \<Rightarrow> ustr"
  int_of :: "pyval \<Rightarrow> int result"

definition str_upper :: "pylib \<Rightarrow> ustr \<Rightarrow> ustr" where
  "str_upper L s =
     concat (map (\<lambda>c. if c < 128 then [if 97 \<le> c \<and> c \<le> 122 then c - 32 else c] else upper_char L c) s)"

definition bytes_upper :: "bytes \<Rightarrow> bytes" where
  "bytes_upper b = map (\<lambda>x. if 97 \<le> unat x \<and> unat x \<le> 122 then x - 32 else x) b"

definition py_int :: "pylib \<Rightarrow> pyval \<Rightarrow> int result" where
  "py_int L v =
     (case v of
        PInt n \<Rightarrow> Inr n
      | PBool b \<Rightarrow> Inr (if b then 1 else 0)
      | PNone \<Rightarrow> Inl (TypeErr ''int() argument must be a string or a real number'')
      | _ \<Rightarrow> int_of L v)"

text \<open>\<open>bytes.decode("utf-8", errors="replace")\<close>: one U+FFFD for each maximal ill-formed prefix.\<close>

definition REPLACEMENT :: nat where "REPLACEMENT = 0xFFFD"

fun decode_replace :: "bytes \<Rightarrow> ustr" where
  "decode_replace [] = []"
| "decode_replace (a # r) =
     (let n = unat a in
      if n \<le> 0x7F then n # decode_replace r
      else if 0xC2 \<le> n \<and> n \<le> 0xDF then
        (case r of
           b # r' \<Rightarrow>
             if continuation b then ((n - 0xC0) * 64 + (unat b - 0x80)) # decode_replace r'
             else REPLACEMENT # decode_replace (b # r')
         | [] \<Rightarrow> [REPLACEMENT])
      else if 0xE0 \<le> n \<and> n \<le> 0xEF then
        (case r of
           b # r' \<Rightarrow>
             if continuation b \<and> (n = 0xE0 \<longrightarrow> 0xA0 \<le> unat b) \<and> (n = 0xED \<longrightarrow> unat b \<le> 0x9F) then
               (case r' of
                  c # r'' \<Rightarrow>
                    if continuation c
                    then ((n - 0xE0) * 4096 + (unat b - 0x80) * 64 + (unat c - 0x80)) # decode_replace r''
                    else REPLACEMENT # decode_replace (c # r'')
                | [] \<Rightarrow> [REPLACEMENT])
             else REPLACEMENT # decode_replace (b # r')
         | [] \<Rightarrow> [REPLACEMENT])
      else if 0xF0 \<le> n \<and> n \<le> 0xF4 then
        (case r of
           b # r' \<Rightarrow>
             if continuation b \<and> (n = 0xF0 \<longrightarrow> 0x90 \<le> unat b) \<and> (n = 0xF4 \<longrightarrow> unat b \<le> 0x8F) then
               (case r' of
                  c # r'' \<Rightarrow>
                    if continuation c then
                      (case r'' of
                         d # r''' \<Rightarrow>
                           if continuation d
                           then ((n - 0xF0) * 262144 + (unat b - 0x80) * 4096 + (unat c - 0x80) * 64
                                 + (unat d - 0x80)) # decode_replace r'''
                           else REPLACEMENT # decode_replace (d # r''')
                       | [] \<Rightarrow> [REPLACEMENT])
                    else REPLACEMENT # decode_replace (c # r'')
                | [] \<Rightarrow> [REPLACEMENT])
             else REPLACEMENT # decode_replace (b # r')
         | [] \<Rightarrow> [REPLACEMENT])
      else REPLACEMENT # decode_replace r)"

declare decode_replace.simps(2) [simp del]

definition command_token :: "pylib \<Rightarrow> pyval \<Rightarrow> ustr" where
  "command_token L v =
     (case v of
        PBytes b \<Rightarrow> str_upper L (decode_replace b)
      | PStr t \<Rightarrow> str_upper L t
      | _ \<Rightarrow> str_upper L (str_of L v))"

definition FLOW_OPTION_FIELD_NAMES :: "(string \<times> string) list" where
  "FLOW_OPTION_FIELD_NAMES =
     [(''AFTER_MS'', ''after_ms''), (''ACTUAL_AMOUNT'', ''actual_amount''),
      (''AMOUNT'', ''amount''), (''APPROVER'', ''approver''), (''ASSIGNEES'', ''assignees''),
      (''AT_MS'', ''at_ms''), (''ATTRIBUTE'', ''attribute''), (''ATTRIBUTES'', ''attributes''),
      (''ATTRIBUTES_DELETE'', ''attributes_delete''), (''ATTRIBUTES_MERGE'', ''attributes_merge''),
      (''BACKOFF'', ''backoff''), (''BASE_MS'', ''base_ms''), (''BLOCK'', ''block_ms''),
      (''CONSISTENT_PROJECTION'', ''consistent_projection''),
      (''CORRELATION_ID'', ''correlation_id''), (''COUNT'', ''count''), (''CRON'', ''cron''),
      (''DELAY_MS'', ''delay_ms''), (''ERROR'', ''error''), (''ERROR_CLASS'', ''error_class''),
      (''ERROR_CLASSES'', ''error_classes''), (''ERROR_REF'', ''error_ref''),
      (''EFFECT_KEY'', ''effect_key''), (''EFFECT_TYPE'', ''effect_type''),
      (''END_AT_MS'', ''end_at_ms''), (''EVENT'', ''event''), (''EVERY_MS'', ''every_ms''),
      (''EXHAUSTED_TO'', ''exhausted_to''), (''EXPIRES_AT_MS'', ''expires_at_ms''),
      (''EXPECT_STATE'', ''expect_state''), (''EXTERNAL_ID'', ''external_id''),
      (''FENCING'', ''fencing_token''), (''FENCING_TOKEN'', ''fencing_token''),
      (''FAILURE'', ''failure''), (''FAILURE_RATE_PCT'', ''failure_rate_pct''),
      (''FROM_EVENT'', ''from_event''), (''FROM_MS'', ''from_ms''),
      (''FROM_STATE'', ''from_state''), (''FROM_VERSION'', ''from_version''), (''FULL'', ''full''),
      (''FAILURE_THRESHOLD'', ''failure_threshold''), (''FLOW_ID'', ''flow_id''),
      (''FIRE_AT_MS'', ''fire_at_ms''), (''GROUP'', ''group_id''), (''GROUP_ID'', ''group_id''),
      (''GOVERNANCE_SCOPE'', ''governance_scope''),
      (''HALF_OPEN_MAX_PROBES'', ''half_open_max_probes''),
      (''HALF_OPEN_SUCCESS_THRESHOLD'', ''half_open_success_threshold''),
      (''HISTORY_HOT_MAX_EVENTS'', ''history_hot_max_events''),
      (''HISTORY_MAX_EVENTS'', ''history_max_events''), (''IDEMPOTENT'', ''idempotent''),
      (''IDEMPOTENCY'', ''idempotency_key''), (''IDEMPOTENCY_KEY'', ''idempotency_key''),
      (''INCLUDE_COLD'', ''include_cold''), (''INDEPENDENT'', ''independent''),
      (''INDEXED_STATE_META'', ''indexed_state_meta''), (''IF_STATE'', ''if_state''),
      (''INITIAL_STATE'', ''initial_state''), (''ITEMS'', ''items''),
      (''JITTER_PCT'', ''jitter_pct''), (''KIND'', ''kind''), (''LATENCY_MS'', ''latency_ms''),
      (''LATENCY_THRESHOLD_MS'', ''latency_threshold_ms''), (''LEASE_MS'', ''lease_ms''),
      (''LEASE_TOKEN'', ''lease_token''), (''LIMIT'', ''limit''),
      (''LOCAL_CACHE'', ''local_cache''), (''MAX_FIRES'', ''max_fires''),
      (''MAX_ATTEMPTS'', ''max_attempts''), (''MAX_ACTIVE_MS'', ''max_active_ms''),
      (''MAX_BYTES'', ''max_bytes''), (''MAXBYTES'', ''payload_max_bytes''),
      (''MAX_MS'', ''max_ms''), (''MAX_RETRIES'', ''max_retries''), (''MIN_CALLS'', ''min_calls''),
      (''NAME'', ''name''), (''NOW'', ''now_ms''), (''OLDER_THAN'', ''older_than_ms''),
      (''ON_CHILD_FAILED'', ''on_child_failed''), (''ON_PARENT_CLOSED'', ''on_parent_closed''),
      (''OPEN_MS'', ''open_ms''), (''OPERATION_DIGEST'', ''operation_digest''),
      (''OVERRIDE'', ''override''), (''CATCHUP_POLICY'', ''catchup_policy''),
      (''OVERLAP_POLICY'', ''overlap_policy''), (''OVERLAP_RETRY_MS'', ''overlap_retry_ms''),
      (''OVERWRITE'', ''overwrite''), (''OWNER_FLOW_ID'', ''owner_flow_id''),
      (''PARENT_FLOW_ID'', ''parent_flow_id''), (''PARTITION'', ''partition_key''),
      (''PAYLOAD'', ''payload''), (''PAYLOAD_MAX_BYTES'', ''payload_max_bytes''),
      (''PAYLOAD_REF'', ''payload_ref''), (''PRIORITY'', ''priority''),
      (''POLICY_HASH'', ''policy_hash''), (''POLICY_VERSION'', ''policy_version''),
      (''REASON'', ''reason''), (''REASON_REF'', ''reason_ref''),
      (''REQUESTED_BY'', ''requested_by''), (''RESERVATION_ID'', ''reservation_id''),
      (''RESERVATION_IDS'', ''reservation_ids''), (''RECLAIM_EXPIRED'', ''reclaim_expired''),
      (''RECLAIM_RATIO'', ''reclaim_ratio''), (''RESULT'', ''result''),
      (''RESULT_REF'', ''result_ref''), (''RETENTION_TTL_MS'', ''retention_ttl_ms''),
      (''RETENTION_TTL'', ''retention_ttl_ms''), (''REV'', ''rev''),
      (''ROOT_FLOW_ID'', ''root_flow_id''), (''RUN_AT'', ''run_at_ms''),
      (''RUN_AT_MS'', ''run_at_ms''), (''SIGNAL'', ''signal''), (''SHARD_ID'', ''shard_id''),
      (''SCOPE'', ''scope''), (''STATE'', ''state''), (''STATE_META'', ''state_meta''),
      (''STATUS'', ''status''), (''STATES'', ''states''), (''START_AT_MS'', ''start_at_ms''),
      (''STEPS'', ''steps''), (''SUCCESS'', ''success''), (''TERMINAL_ONLY'', ''terminal_only''),
      (''TERMINAL_LOCAL_ONLY'', ''terminal_local_only''), (''TO_EVENT'', ''to_event''),
      (''TO_MS'', ''to_ms''), (''TO_STATE'', ''to_state''), (''TO_VERSION'', ''to_version''),
      (''TARGET'', ''target''), (''TARGET_TYPE'', ''target_type''),
      (''TRANSITION_TO'', ''transition_to''), (''TTL'', ''ttl_ms''), (''TTL_MS'', ''ttl_ms''),
      (''TIMEOUT_MS'', ''timeout_ms''), (''TIMEZONE'', ''timezone''), (''TYPE'', ''type''),
      (''USAGE'', ''usage''), (''VALUE_MAX_BYTES'', ''value_max_bytes''), (''VALUES'', ''values''),
      (''WAIT'', ''wait''), (''WAIT_STATE'', ''wait_state''), (''WINDOW_MS'', ''window_ms''),
      (''WORKER'', ''worker'')]"

definition FLOW_THREE_VALUE_OPTIONS :: "string list" where
  "FLOW_THREE_VALUE_OPTIONS =
     [''ATTRIBUTE'', ''ATTRIBUTE_MERGE'', ''STATE_META'', ''VALUE'', ''VALUE_REF'']"


definition FLOW_OPTION_TOKENS :: "string list" where
  "FLOW_OPTION_TOKENS =
     map fst FLOW_OPTION_FIELD_NAMES @
     [''ATTRIBUTE_DELETE'', ''ATTRIBUTE_MERGE'', ''DROP_VALUE'', ''ITEMS_EXT'', ''ITEMS_EXT_V2'',
      ''NOPAYLOAD'', ''OVERRIDE_VALUE'', ''PARTITIONS'', ''RETURN'', ''VALUE'', ''VALUE_REF'']"

definition MAX_FLOW_OPTION_TOKEN_BYTES :: nat where
  "MAX_FLOW_OPTION_TOKEN_BYTES = fold max (map length FLOW_OPTION_TOKENS) 0"

definition ITEM_MARKERS :: "string list" where
  "ITEM_MARKERS = [''ITEMS'', ''ITEMS_EXT'', ''ITEMS_EXT_V2'']"

definition option_token :: "pylib \<Rightarrow> pyval \<Rightarrow> string option" where
  "option_token L v =
     (case v of
        PBytes b \<Rightarrow>
          if length b > MAX_FLOW_OPTION_TOKEN_BYTES then None
          else List.find (\<lambda>t. bytes_lit t = bytes_upper b) FLOW_OPTION_TOKENS
      | PStr s \<Rightarrow>
          if length s > MAX_FLOW_OPTION_TOKEN_BYTES then None
          else List.find (\<lambda>t. text_lit t = str_upper L s) FLOW_OPTION_TOKENS
      | _ \<Rightarrow> None)"

text \<open>
  \<open>int(value)\<close> under \<open>except (TypeError, ValueError)\<close>: \<open>None\<close> for those, and any other exception
  (an infinite float raises \<open>OverflowError\<close>) goes through.
\<close>

definition caught_int :: "pylib \<Rightarrow> pyval \<Rightarrow> int option result" where
  "caught_int L v =
     (case py_int L v of
        Inr n \<Rightarrow> Inr (if n \<ge> 0 then Some n else None)
      | Inl (TypeErr _) \<Rightarrow> Inr None
      | Inl (ValueError _) \<Rightarrow> Inr None
      | Inl e \<Rightarrow> Inl e)"

definition non_negative_int :: "pylib \<Rightarrow> pyval \<Rightarrow> int option result" where
  "non_negative_int L v = (case v of PBool _ \<Rightarrow> Inr None | _ \<Rightarrow> caught_int L v)"

section \<open>The option plan\<close>

record option_plan =
  pl_args :: "pyval list"
  pl_tokens :: "string option list"
  pl_valid :: "bool list"

definition valid_suffix :: "bool list \<Rightarrow> nat \<Rightarrow> bool" where
  "valid_suffix valid i \<longleftrightarrow> i < length valid \<and> valid ! i"

definition arg_or_none :: "pyval list \<Rightarrow> nat \<Rightarrow> pyval" where
  "arg_or_none args i = (if i < length args then args ! i else PNone)"

definition is_str :: "pyval \<Rightarrow> bool" where
  "is_str v = (case v of PStr _ \<Rightarrow> True | _ \<Rightarrow> False)"

text \<open>One iteration of the loop of \<open>FlowOptionPlan.__init__\<close>: the entry of \<open>valid\<close> at \<open>index\<close>.\<close>

definition plan_entry ::
    "pylib \<Rightarrow> pyval list \<Rightarrow> string option list \<Rightarrow> bool list \<Rightarrow> nat \<Rightarrow> bool result" where
  "plan_entry L args tokens valid index =
     (case tokens ! index of
        None \<Rightarrow> Inr False
      | Some t \<Rightarrow>
          if t \<in> set ITEM_MARKERS then Inr True
          else if t \<notin> set FLOW_OPTION_TOKENS then Inr False
          else if t = ''NOPAYLOAD'' then Inr (valid_suffix valid (index + 1))
          else if t = ''PAYLOAD'' then
            if index + 1 \<ge> length args then Inr True
            else
              let next_value = args ! (index + 1);
                  next_is_option = (case tokens ! (index + 1) of None \<Rightarrow> False
                                      | Some u \<Rightarrow> u \<in> set FLOW_OPTION_TOKENS)
              in if is_str next_value \<and> next_is_option then Inr (valid_suffix valid (index + 1))
                 else if next_is_option
                 then Inr (valid_suffix valid (index + 1) \<or> valid_suffix valid (index + 2))
                 else Inr (valid_suffix valid (index + 2))
          else if t = ''PARTITIONS'' then
            and_then (non_negative_int L (arg_or_none args (index + 1))) (\<lambda>count.
              case count of
                None \<Rightarrow> Inr False
              | Some c \<Rightarrow> Inr (valid_suffix valid (index + 2 + nat c)))
          else Inr (valid_suffix valid (index + (if t \<in> set FLOW_THREE_VALUE_OPTIONS then 3 else 2))))"

fun plan_loop ::
    "pylib \<Rightarrow> pyval list \<Rightarrow> string option list \<Rightarrow> nat \<Rightarrow> bool list \<Rightarrow> bool list result" where
  "plan_loop L args tokens 0 valid = Inr valid"
| "plan_loop L args tokens (Suc index) valid =
     and_then (plan_entry L args tokens valid index) (\<lambda>b.
       plan_loop L args tokens index (valid[index := b]))"

definition flow_option_plan :: "pylib \<Rightarrow> pyval list \<Rightarrow> option_plan result" where
  "flow_option_plan L args =
     (let tokens = map (option_token L) args;
          n = length args
      in and_then (plan_loop L args tokens n ((replicate (n + 1) False)[n := True])) (\<lambda>valid.
           Inr \<lparr>pl_args = args, pl_tokens = tokens, pl_valid = valid\<rparr>))"

definition suffix_is_valid :: "option_plan \<Rightarrow> nat \<Rightarrow> bool" where
  "suffix_is_valid p start = valid_suffix (pl_valid p) start"

definition payload_is_flag :: "option_plan \<Rightarrow> nat \<Rightarrow> bool" where
  "payload_is_flag p index =
     (if index + 1 \<ge> length (pl_args p) then True
      else
        case pl_tokens p ! (index + 1) of
          None \<Rightarrow> False
        | Some t \<Rightarrow>
            if t \<notin> set FLOW_OPTION_TOKENS then False
            else if is_str (pl_args p ! (index + 1)) then True
            else suffix_is_valid p (index + 1) \<and> \<not> suffix_is_valid p (index + 2))"

definition option_width :: "pylib \<Rightarrow> option_plan \<Rightarrow> nat \<Rightarrow> nat option result" where
  "option_width L p index =
     (if index \<ge> length (pl_tokens p) then Inl IndexError
      else
        case pl_tokens p ! index of
          None \<Rightarrow> Inr None
        | Some t \<Rightarrow>
            if t \<notin> set FLOW_OPTION_TOKENS \<or> t \<in> {''ITEMS'', ''ITEMS_EXT''} then Inr None
            else if t = ''NOPAYLOAD'' \<or> (t = ''PAYLOAD'' \<and> payload_is_flag p index) then Inr (Some 1)
            else if t = ''PARTITIONS'' then
              and_then (non_negative_int L (arg_or_none (pl_args p) (index + 1))) (\<lambda>count.
                Inr (map_option (\<lambda>c. 2 + nat c) count))
            else Inr (Some (if t \<in> set FLOW_THREE_VALUE_OPTIONS then 3 else 2)))"

section \<open>The plan decides the grammar\<close>

text \<open>
  The option grammar itself, on the remaining arguments: options with their values, \<open>PAYLOAD\<close> as a
  flag or with a value, \<open>PARTITIONS\<close> with its count, up to the end or an items marker.
\<close>

inductive option_suffix :: "pylib \<Rightarrow> pyval list \<Rightarrow> bool" for L where
  finish: "option_suffix L []"
| items: "option_token L v = Some t \<Longrightarrow> t \<in> set ITEM_MARKERS \<Longrightarrow> option_suffix L (v # r)"
| nopayload: "option_token L v = Some ''NOPAYLOAD'' \<Longrightarrow> option_suffix L r \<Longrightarrow> option_suffix L (v # r)"
| payload_last: "option_token L v = Some ''PAYLOAD'' \<Longrightarrow> option_suffix L [v]"
| payload_flag: "option_token L v = Some ''PAYLOAD'' \<Longrightarrow> option_token L w \<noteq> None \<Longrightarrow>
     option_suffix L (w # r) \<Longrightarrow> option_suffix L (v # w # r)"
| payload_value: "option_token L v = Some ''PAYLOAD'' \<Longrightarrow> \<not> (is_str w \<and> option_token L w \<noteq> None) \<Longrightarrow>
     option_suffix L r \<Longrightarrow> option_suffix L (v # w # r)"
| partitions: "option_token L v = Some ''PARTITIONS'' \<Longrightarrow> non_negative_int L w = Inr (Some n) \<Longrightarrow>
     nat n \<le> length r \<Longrightarrow> option_suffix L (drop (nat n) r) \<Longrightarrow> option_suffix L (v # w # r)"
| three: "option_token L v = Some t \<Longrightarrow> t \<in> set FLOW_THREE_VALUE_OPTIONS \<Longrightarrow> option_suffix L r \<Longrightarrow>
     option_suffix L (v # a # b # r)"
| two: "option_token L v = Some t \<Longrightarrow> t \<notin> set ITEM_MARKERS \<Longrightarrow>
     t \<notin> {''NOPAYLOAD'', ''PAYLOAD'', ''PARTITIONS''} \<Longrightarrow> t \<notin> set FLOW_THREE_VALUE_OPTIONS \<Longrightarrow>
     option_suffix L r \<Longrightarrow> option_suffix L (v # a # r)"

inductive_simps option_suffix_Nil [simp]: "option_suffix L []"
inductive_simps option_suffix_Cons: "option_suffix L (v # r)"

lemma option_token_known: "option_token L v = Some t \<Longrightarrow> t \<in> set FLOW_OPTION_TOKENS"
  by (auto simp: option_token_def find_Some_iff split: pyval.splits if_splits)

lemma special_tokens [simp]:
  "''PAYLOAD'' \<notin> set ITEM_MARKERS" "''NOPAYLOAD'' \<notin> set ITEM_MARKERS" "''PARTITIONS'' \<notin> set ITEM_MARKERS"
  "''PAYLOAD'' \<notin> set FLOW_THREE_VALUE_OPTIONS" "''NOPAYLOAD'' \<notin> set FLOW_THREE_VALUE_OPTIONS"
  "''PARTITIONS'' \<notin> set FLOW_THREE_VALUE_OPTIONS" "''ITEMS'' \<in> set ITEM_MARKERS" "''ITEMS_EXT'' \<in> set ITEM_MARKERS"
  by (simp_all add: ITEM_MARKERS_def FLOW_THREE_VALUE_OPTIONS_def)

lemma three_not_marker: "t \<in> set FLOW_THREE_VALUE_OPTIONS \<Longrightarrow> t \<notin> set ITEM_MARKERS"
  by (auto simp: ITEM_MARKERS_def FLOW_THREE_VALUE_OPTIONS_def)

lemma suffix_marker:
  "option_token L v = Some t \<Longrightarrow> t \<in> set ITEM_MARKERS \<Longrightarrow> option_suffix L (v # r)"
  by (rule option_suffix.items)

lemma suffix_unknown: "option_token L v = None \<Longrightarrow> \<not> option_suffix L (v # r)"
  by (subst option_suffix_Cons) simp

lemma suffix_nopayload:
  "option_token L v = Some ''NOPAYLOAD'' \<Longrightarrow> option_suffix L (v # r) \<longleftrightarrow> option_suffix L r"
  by (subst option_suffix_Cons) auto

lemma suffix_payload:
  "option_token L v = Some ''PAYLOAD'' \<Longrightarrow>
   option_suffix L (v # r) \<longleftrightarrow>
     (case r of
        [] \<Rightarrow> True
      | w # r' \<Rightarrow> (option_token L w \<noteq> None \<and> option_suffix L r) \<or>
                  (\<not> (is_str w \<and> option_token L w \<noteq> None) \<and> option_suffix L r'))"
  by (subst option_suffix_Cons) (auto split: list.split)

lemma suffix_partitions:
  "option_token L v = Some ''PARTITIONS'' \<Longrightarrow>
   option_suffix L (v # r) \<longleftrightarrow>
     (\<exists>w r' n. r = w # r' \<and> non_negative_int L w = Inr (Some n) \<and> nat n \<le> length r' \<and>
        option_suffix L (drop (nat n) r'))"
  by (subst option_suffix_Cons) auto

definition plain_width :: "string \<Rightarrow> nat" where
  "plain_width t = (if t \<in> set FLOW_THREE_VALUE_OPTIONS then 3 else 2)"

lemma suffix_plain:
  assumes "option_token L v = Some t" "t \<notin> set ITEM_MARKERS" "t \<notin> {''NOPAYLOAD'', ''PAYLOAD'', ''PARTITIONS''}"
  shows "option_suffix L (v # r) \<longleftrightarrow> plain_width t \<le> length r + 1 \<and> option_suffix L (drop (plain_width t - 1) r)"
proof (cases "t \<in> set FLOW_THREE_VALUE_OPTIONS")
  case True
  then have "option_suffix L (v # r) \<longleftrightarrow> (\<exists>a b r'. r = a # b # r' \<and> option_suffix L r')"
    using assms by (subst option_suffix_Cons) auto
  also have "\<dots> \<longleftrightarrow> 3 \<le> length r + 1 \<and> option_suffix L (drop 2 r)"
    by (cases r; cases "tl r") auto
  finally show ?thesis using True by (simp add: plain_width_def)
next
  case False
  then have "option_suffix L (v # r) \<longleftrightarrow> (\<exists>a r'. r = a # r' \<and> option_suffix L r')"
    using assms by (subst option_suffix_Cons) auto
  also have "\<dots> \<longleftrightarrow> 2 \<le> length r + 1 \<and> option_suffix L (drop 1 r)"
    by (cases r) auto
  finally show ?thesis using False by (simp add: plain_width_def)
qed

text \<open>The entry computed from the suffixes to its right.\<close>

lemma non_negative_int_range: "non_negative_int L v = Inr (Some n) \<Longrightarrow> 0 \<le> n"
  by (auto simp: non_negative_int_def caught_int_def split: pyval.splits sum.splits py_error.splits if_splits)

lemma non_negative_int_None [simp]: "non_negative_int L PNone = Inr None"
  by (simp add: non_negative_int_def caught_int_def py_int_def)

lemma plan_entry_correct:
  assumes i: "i < length args" and len: "length valid = length args + 1"
    and right: "\<And>j. i < j \<Longrightarrow> j \<le> length args \<Longrightarrow> valid ! j \<longleftrightarrow> option_suffix L (drop j args)"
    and entry: "plan_entry L args (map (option_token L) args) valid i = Inr b"
  shows "b \<longleftrightarrow> option_suffix L (drop i args)"
proof -
  obtain v r where vr: "drop i args = v # r" "v = args ! i" "r = drop (i + 1) args"
    using i by (metis Cons_nth_drop_Suc Suc_eq_plus1)
  have suffix: "valid_suffix valid (i + k) \<longleftrightarrow> k \<le> length r + 1 \<and> option_suffix L (drop (k - 1) r)"
    if "0 < k" for k
  proof -
    have "drop (k - 1) r = drop (i + k) args" using that by (simp add: vr add.commute)
    moreover have "length r + 1 = length args - i" using i by (simp add: vr)
    ultimately show ?thesis using right [of "i + k"] len that i by (auto simp: valid_suffix_def)
  qed
  note s1 = suffix [of 1, simplified] and s2 = suffix [of 2, simplified]
  have len_r: "length args = i + 1 + length r" using i by (simp add: vr)
  have nth: "args ! (i + 1) = w" "option_token L (args ! Suc i) = option_token L w" if "r = w # r'" for w r'
    using that vr(3) by (metis Suc_eq_plus1 list.distinct(1) drop_all not_le nth_via_drop)+
  show ?thesis
  proof (cases "option_token L v")
    case None
    then show ?thesis using entry i by (simp add: plan_entry_def vr suffix_unknown)
  next
    case (Some t)
    note known = option_token_known [OF Some]
    note start = entry [unfolded plan_entry_def] and tok = Some [unfolded vr(2)]
    consider "t \<in> set ITEM_MARKERS" | "t = ''NOPAYLOAD''" | "t = ''PAYLOAD''" | "t = ''PARTITIONS''"
      | "t \<notin> set ITEM_MARKERS" "t \<notin> {''NOPAYLOAD'', ''PAYLOAD'', ''PARTITIONS''}" by blast
    then show ?thesis
    proof cases
      case 1
      then show ?thesis using start i tok suffix_marker [OF Some] by (simp add: vr(1))
    next
      case 2
      then show ?thesis using start i tok known s1 Some by (simp add: vr(1) suffix_nopayload)
    next
      case 3
      show ?thesis
      proof (cases r)
        case Nil
        then show ?thesis using start i tok known Some 3 len_r by (simp add: vr(1) suffix_payload)
      next
        case (Cons w r')
        have "(case option_token L w of None \<Rightarrow> False | Some u \<Rightarrow> u \<in> set FLOW_OPTION_TOKENS) \<longleftrightarrow>
            option_token L w \<noteq> None"
          using option_token_known [of L w] by (auto split: option.split)
        then show ?thesis
          using start i tok known Some 3 len_r s1 s2 Cons nth [OF Cons]
          by (auto simp: vr(1) suffix_payload Let_def split: if_splits)
      qed
    next
      case 4
      show ?thesis
      proof (cases r)
        case Nil
        then show ?thesis using start i tok known Some 4 len_r
          by (simp add: vr(1) suffix_partitions arg_or_none_def)
      next
        case (Cons w r')
        then show ?thesis
          using start i tok known Some 4 len_r nth [OF Cons] suffix [of "2 + nat n" for n] non_negative_int_range [of L w]
          by (auto simp: vr(1) suffix_partitions arg_or_none_def add.assoc [symmetric] split: option.splits)
      qed
    next
      case 5
      then show ?thesis
        using start i tok known suffix [of "plain_width t"] suffix_plain [OF Some 5]
        by (auto simp: vr(1) plain_width_def split: if_splits)
    qed
  qed
qed

lemma plan_loop_correct:
  assumes "n \<le> length args" and "length valid = length args + 1"
    and "\<And>j. n \<le> j \<Longrightarrow> j \<le> length args \<Longrightarrow> valid ! j \<longleftrightarrow> option_suffix L (drop j args)"
    and "plan_loop L args (map (option_token L) args) n valid = Inr valid'"
  shows "length valid' = length args + 1 \<and> (\<forall>j \<le> length args. valid' ! j \<longleftrightarrow> option_suffix L (drop j args))"
  using assms
proof (induction n arbitrary: valid)
  case (Suc n)
  from Suc.prems(4) obtain b where b: "plan_entry L args (map (option_token L) args) valid n = Inr b"
    and rest: "plan_loop L args (map (option_token L) args) n (valid[n := b]) = Inr valid'" by auto
  have entry: "b \<longleftrightarrow> option_suffix L (drop n args)"
    by (rule plan_entry_correct [OF _ Suc.prems(2) _ b]) (use Suc.prems in auto)
  show ?case
    by (rule Suc.IH [OF _ _ _ rest]) (use Suc.prems entry in \<open>auto simp: nth_list_update\<close>)
qed auto

lemma flow_option_plan_Inr:
  assumes "flow_option_plan L args = Inr p"
  shows "pl_args p = args" "pl_tokens p = map (option_token L) args"
    "suffix_is_valid p start \<longleftrightarrow> start \<le> length args \<and> option_suffix L (drop start args)"
proof -
  from assms obtain valid where loop: "plan_loop L args (map (option_token L) args) (length args)
      ((replicate (length args + 1) False)[length args := True]) = Inr valid"
    and p: "p = \<lparr>pl_args = args, pl_tokens = map (option_token L) args, pl_valid = valid\<rparr>"
    by (auto simp: flow_option_plan_def Let_def)
  show "pl_args p = args" "pl_tokens p = map (option_token L) args" by (simp_all add: p)
  have "length valid = length args + 1 \<and> (\<forall>j \<le> length args. valid ! j \<longleftrightarrow> option_suffix L (drop j args))"
    by (rule plan_loop_correct [OF _ _ _ loop]) (auto simp del: replicate_Suc simp: nth_list_update)
  then show "suffix_is_valid p start \<longleftrightarrow> start \<le> length args \<and> option_suffix L (drop start args)"
    by (auto simp: suffix_is_valid_def valid_suffix_def p)
qed

text \<open>
  C17. The right-to-left table of a plan decides the option grammar: a suffix is marked valid exactly
  when it is a sequence of well-formed options up to the end or an items marker.
\<close>

theorem option_plan_decides_grammar:
  assumes "flow_option_plan L args = Inr p"
  shows "suffix_is_valid p start \<longleftrightarrow> start \<le> length args \<and> option_suffix L (drop start args)"
  using assms by (rule flow_option_plan_Inr)

definition ascii_lib :: pylib where
  "ascii_lib = \<lparr>upper_char = (\<lambda>c. [c]), str_of = (\<lambda>_. []), int_of = (\<lambda>_. Inl (TypeErr ''int''))\<rparr>"

definition sample_options :: "pyval list" where
  "sample_options =
     [PStr (text_lit ''after_ms''), PInt 4, PBytes (bytes_lit ''Count''), PInt 1]"

definition sample_plan :: option_plan where
  "sample_plan =
     \<lparr>pl_args = sample_options,
      pl_tokens = [Some ''AFTER_MS'', None, Some ''COUNT'', None], pl_valid = [True, False, True, False, True]\<rparr>"

lemma sample_plan_ok: "flow_option_plan ascii_lib sample_options = Inr sample_plan"
  by code_simp

theorem option_plan_decides_grammar_witness:
  "suffix_is_valid sample_plan 2 \<longleftrightarrow>
     2 \<le> length sample_options \<and> option_suffix ascii_lib (drop 2 sample_options)"
  using option_plan_decides_grammar [OF sample_plan_ok, of 2] by simp

section \<open>Command grammar helpers\<close>

definition require_nonnegative_count :: "pyval \<Rightarrow> int result" where
  "require_nonnegative_count v =
     (case v of
        PInt n \<Rightarrow>
          if n < 0 then Inl (InvalidCommandError ''count must be a non-negative integer'') else Inr n
      | _ \<Rightarrow> Inl (InvalidCommandError ''count must be a non-negative integer''))"

record counted_arguments =
  ca_values :: "pyval list"
  ca_next_index :: nat
  ca_count :: nat

definition consume_counted_arguments :: "pyval list \<Rightarrow> nat \<Rightarrow> nat \<Rightarrow> counted_arguments result" where
  "consume_counted_arguments args count_index width =
     (if count_index \<ge> length args then Inl (InvalidCommandError ''requires a count'')
      else
        and_then (require_nonnegative_count (args ! count_index)) (\<lambda>count.
        let start = count_index + 1;
            finish = start + nat count * width
        in if finish > length args
           then Inl (InvalidCommandError ''count exceeds the remaining arguments'')
           else Inr \<lparr>ca_values = drop start (take finish args), ca_next_index = finish,
                     ca_count = nat count\<rparr>))"

definition split_flow_value_mget :: "pylib \<Rightarrow> pyval list \<Rightarrow> pyval list \<times> int option" where
  "split_flow_value_mget L values =
     (if length values \<ge> 2 \<and>
         command_token L (values ! (length values - 2)) \<in> {text_lit ''MAX_BYTES'', text_lit ''MAXBYTES''}
      then
        (case last values of
           PInt n \<Rightarrow> (take (length values - 2) values, Some n)
         | _ \<Rightarrow> (values, None))
      else (values, None))"

lemma option_width_pos: "option_width L p i = Inr (Some w) \<Longrightarrow> 1 \<le> w"
  by (auto simp: option_width_def split: if_splits option.splits)

function marker_walk ::
    "pylib \<Rightarrow> option_plan \<Rightarrow> pyval list \<Rightarrow> nat \<Rightarrow> (nat \<times> ustr) option result" where
  "marker_walk L plan args index =
     (if index < length args then
        let token = command_token L (args ! index) in
        if token \<in> set (map text_lit ITEM_MARKERS) then Inr (Some (index, token))
        else
          and_then (option_width L plan index) (\<lambda>width.
            case width of
              None \<Rightarrow> Inr None
            | Some w \<Rightarrow>
                if index + w > length args then Inr None else marker_walk L plan args (index + w))
      else Inr None)"
  by pat_completeness auto

termination
  by (relation "measure (\<lambda>(L, plan, args, index). length args - index)")
    (auto dest: option_width_pos)

declare marker_walk.simps [simp del]

definition find_flow_many_item_marker ::
    "pylib \<Rightarrow> pyval list \<Rightarrow> nat \<Rightarrow> (nat \<times> ustr) option result" where
  "find_flow_many_item_marker L args start =
     and_then (flow_option_plan L args) (\<lambda>plan. marker_walk L plan args start)"

definition flow_create_many_item_count :: "pylib \<Rightarrow> pyval list \<Rightarrow> int option result" where
  "flow_create_many_item_count L values =
     (if values = [] then Inr None
      else
        and_then (find_flow_many_item_marker L values 1) (\<lambda>marker.
          case marker of
            None \<Rightarrow> Inr None
          | Some (marker_index, marker_token) \<Rightarrow>
              if marker_token \<in> {text_lit ''ITEMS_EXT'', text_lit ''ITEMS_EXT_V2''} then
                if marker_index + 1 \<ge> length values then Inr None
                else
                  (case values ! (marker_index + 1) of
                     PInt n \<Rightarrow> Inr (if n \<ge> 0 then Some n else None)
                   | _ \<Rightarrow> Inr None)
              else
                let width = (if command_token L (values ! 0) = text_lit ''MIXED'' then 3 else 2);
                    item_values = length values - marker_index - 1
                in Inr (if item_values mod width = 0 then Some (int (item_values div width)) else None)))"

section \<open>Walking a valid option list\<close>

inductive option_chain :: "pylib \<Rightarrow> option_plan \<Rightarrow> nat \<Rightarrow> nat \<Rightarrow> bool" for L p where
  here: "option_chain L p i i"
| step: "option_width L p i = Inr (Some w) \<Longrightarrow> i + w \<le> length (pl_args p) \<Longrightarrow>
     (\<forall>t \<in> set ITEM_MARKERS. pl_tokens p ! i \<noteq> Some t) \<Longrightarrow>
     option_chain L p (i + w) j \<Longrightarrow> option_chain L p i j"

definition ascii_string :: "string \<Rightarrow> bool" where
  "ascii_string s \<longleftrightarrow> list_all (\<lambda>c. (of_char c :: nat) < 128 \<and> \<not> (97 \<le> (of_char c :: nat) \<and> (of_char c :: nat) \<le> 122)) s"

lemma flow_tokens_ascii: "list_all ascii_string FLOW_OPTION_TOKENS"
  by (simp add: FLOW_OPTION_TOKENS_def FLOW_OPTION_FIELD_NAMES_def ascii_string_def)

lemma upper_byte:
  assumes "(if 97 \<le> unat x \<and> unat x \<le> 122 then x - 32 else x) = (of_char c :: byte)" and "(of_char c :: nat) < 128"
  shows "unat x < 128" "(if 97 \<le> unat x \<and> unat x \<le> 122 then unat x - 32 else unat x) = of_char c"
proof -
  have c: "unat (of_char c :: byte) = of_char c"
  proof -
    have "(of_char c :: byte) = of_nat (of_char c)" by (cases c) (simp add: of_char_def)
    then have "unat (of_char c :: byte) = of_char c mod 256" by (simp only: unat_byte_of_nat)
    then show ?thesis using assms(2) by simp
  qed
  have sub: "unat (x - 32) = unat x - 32" if "97 \<le> unat x"
    using that by (subst unat_sub) (simp_all add: word_le_nat_alt)
  show "unat x < 128" "(if 97 \<le> unat x \<and> unat x \<le> 122 then unat x - 32 else unat x) = of_char c"
    using assms c sub by (auto split: if_splits)
qed

lemma decode_replace_ascii: "list_all (\<lambda>x. unat x < 128) b \<Longrightarrow> decode_replace b = map unat b"
  by (induction b) (simp_all add: decode_replace.simps(2) Let_def)

lemma token_bytes_text:
  assumes "bytes_lit t = bytes_upper b" and "list_all (\<lambda>c. (of_char c :: nat) < 128) t"
  shows "str_upper L (decode_replace b) = text_lit t"
proof -
  have "list_all (\<lambda>x. unat x < 128) b \<and> str_upper L (map unat b) = text_lit t"
    using assms
  proof (induction b arbitrary: t)
    case (Cons x b)
    then obtain c t' where t: "t = c # t'" by (cases t) (auto simp: bytes_lit_def bytes_upper_def)
    with Cons.prems have "(if 97 \<le> unat x \<and> unat x \<le> 122 then x - 32 else x) = (of_char c :: byte)"
      "(of_char c :: nat) < 128" and tail: "bytes_lit t' = bytes_upper b" "list_all (\<lambda>c. (of_char c :: nat) < 128) t'"
      by (auto simp: bytes_lit_def bytes_upper_def)
    from upper_byte [OF this(1,2)] Cons.IH [OF tail] show ?case
      by (simp add: t str_upper_def text_lit_def)
  qed (simp add: bytes_lit_def bytes_upper_def str_upper_def text_lit_def)
  then show ?thesis by (simp add: decode_replace_ascii)
qed

lemma command_token_of_option:
  assumes "option_token L v = Some t"
  shows "command_token L v = text_lit t"
proof -
  have "list_all (\<lambda>c. (of_char c :: nat) < 128) t"
    using option_token_known [OF assms] flow_tokens_ascii by (auto simp: list_all_iff ascii_string_def)
  with assms show ?thesis
    by (auto simp: option_token_def command_token_def find_Some_iff token_bytes_text split: pyval.splits if_splits)
qed

lemma text_lit_inj: "text_lit s = text_lit t \<longleftrightarrow> s = t"
  by (auto simp: text_lit_def inj_map_eq_map [OF inj_of_char] intro: injI)

lemma valid_step:
  assumes plan: "flow_option_plan L args = Inr p" and i: "i < length args"
    and valid: "option_suffix L (drop i args)" and marker: "\<forall>t \<in> set ITEM_MARKERS. pl_tokens p ! i \<noteq> Some t"
  shows "\<exists>w. option_width L p i = Inr (Some w) \<and> i + w \<le> length args \<and> option_suffix L (drop (i + w) args)"
proof -
  note p = flow_option_plan_Inr [OF plan]
  obtain v r where vr: "drop i args = v # r" "v = args ! i" "r = drop (i + 1) args"
    using i by (metis Cons_nth_drop_Suc Suc_eq_plus1)
  have len_r: "length args = i + 1 + length r" using i by (simp add: vr)
  have nth: "args ! (i + 1) = w" "option_token L (args ! Suc i) = option_token L w" if "r = w # r'" for w r'
    using that vr(3) by (metis Suc_eq_plus1 list.distinct(1) drop_all not_le nth_via_drop)+
  have r: "drop (i + 1 + k) args = drop k r" for k by (simp add: vr add.commute)
  obtain t where t: "option_token L v = Some t" using valid vr suffix_unknown by (cases "option_token L v") auto
  have tok: "pl_tokens p ! i = Some t" "\<not> length (pl_tokens p) \<le> i" using i t by (simp_all add: p vr(2))
  have nm: "t \<notin> set ITEM_MARKERS" using marker tok by auto
  then have ni: "t \<noteq> ''ITEMS''" "t \<noteq> ''ITEMS_EXT''" by auto
  note known = option_token_known [OF t]
  note width = option_width_def [of L p i] tok known ni p(1)
  consider "t = ''NOPAYLOAD''" | "t = ''PAYLOAD''" | "t = ''PARTITIONS''"
    | "t \<notin> {''NOPAYLOAD'', ''PAYLOAD'', ''PARTITIONS''}" by blast
  then show ?thesis
  proof cases
    case 1
    then show ?thesis using valid t i r [of 0] known tok by (simp add: width vr(1) suffix_nopayload)
  next
    case 2
    show ?thesis
    proof (cases r)
      case Nil
      then show ?thesis using 2 r [of 0] len_r known tok by (simp add: width payload_is_flag_def)
    next
      case (Cons w r')
      have tok': "pl_tokens p ! Suc i = option_token L w" using nth(2) [OF Cons] len_r Cons by (simp add: p)
      have flag: "payload_is_flag p i \<longleftrightarrow> option_token L w \<noteq> None \<and>
          (is_str w \<or> option_suffix L r \<and> \<not> option_suffix L r')"
        using nth(1) [OF Cons] len_r Cons r [of 0] r [of 1] option_token_known [of L w]
        by (auto simp: payload_is_flag_def p tok' split: option.split)
      from valid [unfolded vr(1) suffix_payload [OF t [unfolded 2]]] Cons
      have "(option_token L w \<noteq> None \<and> option_suffix L r) \<or>
          (\<not> (is_str w \<and> option_token L w \<noteq> None) \<and> option_suffix L r')" by simp
      then have ok: "option_suffix L (if payload_is_flag p i then r else r')" using flag by auto
      have "option_width L p i = Inr (Some (if payload_is_flag p i then 1 else 2))"
        using 2 known tok by (simp add: width)
      moreover have "drop (i + (if payload_is_flag p i then 1 else 2)) args = (if payload_is_flag p i then r else r')"
        using r [of 0] r [of 1] Cons by simp
      ultimately show ?thesis using ok len_r Cons by (intro exI [of _ "if payload_is_flag p i then 1 else 2"]) simp
    qed
  next
    case 3
    with valid t obtain w r' n where *: "r = w # r'" "non_negative_int L w = Inr (Some n)" "nat n \<le> length r'"
      "option_suffix L (drop (nat n) r')" by (auto simp: vr(1) suffix_partitions)
    then show ?thesis
      using 3 r [of "1 + nat n"] len_r nth(1) [OF *(1)] known tok by (simp add: width arg_or_none_def)
  next
    case 4
    from valid suffix_plain [OF t nm 4] have "plain_width t \<le> length r + 1" "option_suffix L (drop (plain_width t - 1) r)"
      by (simp_all add: vr(1))
    then show ?thesis using 4 r [of "plain_width t - 1"] len_r
      by (auto simp: width plain_width_def split: if_splits)
  qed
qed

lemma marker_walk_valid:
  assumes plan: "flow_option_plan L args = Inr p" and "i \<le> length args" and "option_suffix L (drop i args)"
  shows "\<exists>j. option_chain L p i j \<and>
    (j = length args \<and> marker_walk L p args i = Inr None \<or>
     j < length args \<and> (\<exists>t \<in> set ITEM_MARKERS. pl_tokens p ! j = Some t \<and>
       marker_walk L p args i = Inr (Some (j, text_lit t))))"
  using assms(2, 3)
proof (induction "length args - i" arbitrary: i rule: less_induct)
  case less
  note p = flow_option_plan_Inr [OF plan]
  show ?case
  proof (cases "i = length args")
    case True
    then show ?thesis by (auto simp: marker_walk.simps [of L p args "length args"] intro: option_chain.here)
  next
    case False
    with less.prems have i: "i < length args" by simp
    obtain t where t: "option_token L (args ! i) = Some t"
      using less.prems(2) suffix_unknown i by (cases "option_token L (args ! i)") (auto simp: Cons_nth_drop_Suc [symmetric])
    note ct = command_token_of_option [OF t]
    have mem: "text_lit t \<in> set (map text_lit ITEM_MARKERS) \<longleftrightarrow> t \<in> set ITEM_MARKERS"
      by (auto simp: text_lit_inj)
    show ?thesis
    proof (cases "t \<in> set ITEM_MARKERS")
      case True
      with mem i t show ?thesis
        by (intro exI [of _ i]) (auto simp: marker_walk.simps [of L p args i] ct p Let_def intro: option_chain.here)
    next
      case nm: False
      then have "\<forall>t \<in> set ITEM_MARKERS. pl_tokens p ! i \<noteq> Some t" using t i by (auto simp: p)
      note this' = this
      from valid_step [OF plan i less.prems(2) this]
      obtain w where w: "option_width L p i = Inr (Some w)" "i + w \<le> length args" "option_suffix L (drop (i + w) args)" by blast
      have walk: "marker_walk L p args i = marker_walk L p args (i + w)"
        using w i nm mem by (simp add: marker_walk.simps [of L p args i] ct Let_def)
      have "length args - (i + w) < length args - i" using option_width_pos [OF w(1)] i w(2) by simp
      from less.hyps [OF this w(2,3)] show ?thesis
        unfolding walk using option_chain.step [of L p i w] w this' by (auto simp: p)
    qed
  qed
qed

text \<open>
  On a valid option list the search for the items marker never stops early: it follows the options
  from one to the next and ends exactly at the first items marker, or at the end of the arguments.
\<close>

theorem marker_search_follows_options:
  assumes "flow_option_plan L args = Inr p" and "suffix_is_valid p start"
  shows "\<exists>j. option_chain L p start j \<and>
    (j = length args \<and> find_flow_many_item_marker L args start = Inr None \<or>
     j < length args \<and> (\<exists>t \<in> set ITEM_MARKERS. pl_tokens p ! j = Some t \<and>
       find_flow_many_item_marker L args start = Inr (Some (j, text_lit t))))"
  using marker_walk_valid [OF assms(1), of start] assms
  by (simp add: find_flow_many_item_marker_def flow_option_plan_Inr(3) [OF assms(1)])

theorem marker_search_follows_options_witness:
  "\<exists>j. option_chain ascii_lib sample_plan 0 j \<and>
    (j = length sample_options \<and> find_flow_many_item_marker ascii_lib sample_options 0 = Inr None \<or>
     j < length sample_options \<and> (\<exists>t \<in> set ITEM_MARKERS. pl_tokens sample_plan ! j = Some t \<and>
       find_flow_many_item_marker ascii_lib sample_options 0 = Inr (Some (j, text_lit t))))"
  by (rule marker_search_follows_options [OF sample_plan_ok])
    (simp add: sample_plan_def suffix_is_valid_def valid_suffix_def)

section \<open>Two corners of the code\<close>

text \<open>
  \<open>option_width\<close> refuses two of the three items markers; the third gets the width of a plain option.
\<close>

lemma items_marker_has_width:
  assumes "i < length (pl_tokens p)"
  shows "pl_tokens p ! i = Some ''ITEMS'' \<Longrightarrow> option_width L p i = Inr None"
    and "pl_tokens p ! i = Some ''ITEMS_EXT'' \<Longrightarrow> option_width L p i = Inr None"
    and "pl_tokens p ! i = Some ''ITEMS_EXT_V2'' \<Longrightarrow> option_width L p i = Inr (Some 2)"
  using assms by (simp_all add: option_width_def FLOW_OPTION_TOKENS_def FLOW_THREE_VALUE_OPTIONS_def)

text \<open>An exception of \<open>int()\<close> other than the two that are caught goes through.\<close>

lemma infinite_count_escapes:
  "int_of L (PFloat x) = Inl OverflowError \<Longrightarrow> non_negative_int L (PFloat x) = Inl OverflowError"
  by (simp add: non_negative_int_def caught_int_def py_int_def)

end
