(* ===== verification/Flow_Query.thy ===== *)
theory Flow_Query
  imports Topology "HOL-Library.List_Lexorder"
begin

text \<open>
  Requests of the \<open>FLOW.QUERY\<close> command: \<open>flow_query_request.py\<close> with its bounds from
  \<open>flow_query_limits.py\<close>. The builder turns a query and its named parameters into command arguments;
  the protocol layer turns the arguments back into the payload that is encoded. Strings are ordered by
  code points, as Python's \<open>sorted\<close> orders them. \<open>has_explain_prefix\<close>, which needs Unicode case
  folding, is not modelled.
\<close>

section \<open>Bounds and validators\<close>

definition FLOW_QUERY_MAX_BYTES :: nat where "FLOW_QUERY_MAX_BYTES = 16 * 1024"
definition FLOW_QUERY_MAX_PARAMETERS :: nat where "FLOW_QUERY_MAX_PARAMETERS = 64"
definition FLOW_QUERY_MAX_PARAMETER_NAME_BYTES :: nat where "FLOW_QUERY_MAX_PARAMETER_NAME_BYTES = 128"
definition FLOW_QUERY_MAX_PARTITION_BYTES :: nat where "FLOW_QUERY_MAX_PARTITION_BYTES = 65535"
definition FLOW_QUERY_MAX_PARAMETER_VALUE_BYTES :: nat where
  "FLOW_QUERY_MAX_PARAMETER_VALUE_BYTES = FLOW_QUERY_MAX_PARTITION_BYTES"
definition FLOW_QUERY_LANGUAGE_VERSION :: ustr where "FLOW_QUERY_LANGUAGE_VERSION = text_lit ''FQL1''"

lemmas query_limits = FLOW_QUERY_MAX_BYTES_def FLOW_QUERY_MAX_PARAMETERS_def
  FLOW_QUERY_MAX_PARAMETER_NAME_BYTES_def FLOW_QUERY_MAX_PARTITION_BYTES_def
  FLOW_QUERY_MAX_PARAMETER_VALUE_BYTES_def

definition is_alnum_ascii :: "nat \<Rightarrow> bool" where
  "is_alnum_ascii c \<longleftrightarrow> 65 \<le> c \<and> c \<le> 90 \<or> 97 \<le> c \<and> c \<le> 122 \<or> 48 \<le> c \<and> c \<le> 57"

definition PARAMETER_NAME :: "ustr \<Rightarrow> bool" where
  "PARAMETER_NAME s \<longleftrightarrow>
     s \<noteq> [] \<and> list_all (\<lambda>c. is_alnum_ascii c \<or> c \<in> set (text_lit ''_.-'')) s"

definition INDEX_ID :: "ustr \<Rightarrow> bool" where
  "INDEX_ID s \<longleftrightarrow>
     1 \<le> length s \<and> length s \<le> 64 \<and>
     list_all (\<lambda>c. is_alnum_ascii c \<or> c \<in> set (text_lit ''_.:-'')) s"

definition validate_flow_query_text :: "pyval \<Rightarrow> unit result" where
  "validate_flow_query_text q =
     (case q of
        PStr query \<Rightarrow>
          if length query > FLOW_QUERY_MAX_BYTES then Inl (ValueError ''FLOW.QUERY query exceeds bytes'')
          else if str_strip query = [] then Inl (ValueError ''FLOW.QUERY query must not be empty'')
          else
            (case utf8_encode query of
               Inl _ \<Rightarrow> Inl (ValueError ''FLOW.QUERY query must be valid UTF-8'')
             | Inr b \<Rightarrow>
                 if length b > FLOW_QUERY_MAX_BYTES then Inl (ValueError ''FLOW.QUERY query exceeds bytes'')
                 else Inr ())
      | _ \<Rightarrow> Inl (TypeErr ''FLOW.QUERY query must be text''))"

definition validate_flow_query_parameter_name :: "ustr \<Rightarrow> unit result" where
  "validate_flow_query_parameter_name name =
     (if length name > FLOW_QUERY_MAX_PARAMETER_NAME_BYTES
      then Inl (ValueError ''FLOW.QUERY parameter names must be 1..128 bytes'')
      else
        (case utf8_encode name of
           Inl _ \<Rightarrow> Inl (ValueError ''FLOW.QUERY parameter names must be valid UTF-8'')
         | Inr b \<Rightarrow>
             if length b = 0 \<or> length b > FLOW_QUERY_MAX_PARAMETER_NAME_BYTES
             then Inl (ValueError ''FLOW.QUERY parameter names must be 1..128 bytes'')
             else if \<not> PARAMETER_NAME name
             then Inl (ValueError ''FLOW.QUERY parameter names may contain only ASCII letters, digits'')
             else Inr ()))"

definition validate_flow_query_index_id :: "pyval \<Rightarrow> unit result" where
  "validate_flow_query_index_id index_id =
     (case index_id of
        PStr s \<Rightarrow>
          if INDEX_ID s then Inr () else Inl (ValueError ''query index id must be 1..64 ASCII letters, digits'')
      | _ \<Rightarrow> Inl (TypeErr ''query index id must be text''))"

definition float_isfinite :: "64 word \<Rightarrow> bool" where
  "float_isfinite x \<longleftrightarrow> (unat x div 2 ^ 52) mod 2 ^ 11 \<noteq> 2 ^ 11 - 1"

definition normalize_flow_query_parameter :: "pyval \<Rightarrow> pyval result" where
  "normalize_flow_query_parameter v =
     (case v of
        PStr s \<Rightarrow>
          if length s > FLOW_QUERY_MAX_PARAMETER_VALUE_BYTES then Inl (ValueError ''FLOW.QUERY parameter exceeds bytes'')
          else
            (case utf8_encode s of
               Inl _ \<Rightarrow> Inl (ValueError ''FLOW.QUERY parameter must be valid UTF-8'')
             | Inr b \<Rightarrow>
                 if length b > FLOW_QUERY_MAX_PARAMETER_VALUE_BYTES
                 then Inl (ValueError ''FLOW.QUERY parameter exceeds bytes'') else Inr v)
      | PBytes b \<Rightarrow>
          if length b > FLOW_QUERY_MAX_PARAMETER_VALUE_BYTES
          then Inl (ValueError ''FLOW.QUERY parameter exceeds bytes'') else Inr v
      | PBool _ \<Rightarrow> Inr v
      | PInt n \<Rightarrow>
          if - (2 ^ 63) \<le> n \<and> n \<le> 2 ^ 63 - 1 then Inr v
          else Inl (TypeErr ''FLOW.QUERY parameter must be text, bytes, boolean, a finite float'')
      | PFloat x \<Rightarrow>
          if float_isfinite x then Inr v
          else Inl (TypeErr ''FLOW.QUERY parameter must be text, bytes, boolean, a finite float'')
      | _ \<Rightarrow> Inl (TypeErr ''FLOW.QUERY parameter must be text, bytes, boolean, a finite float''))"

definition normalize_flow_query_deadline :: "pyval \<Rightarrow> int result" where
  "normalize_flow_query_deadline v =
     (case v of
        PInt n \<Rightarrow>
          if 0 \<le> n \<and> n \<le> U64_MAX then Inr n
          else Inl (ValueError ''FLOW.QUERY deadline_ms must be an unsigned 64-bit integer'')
      | _ \<Rightarrow> Inl (TypeErr ''FLOW.QUERY deadline_ms must be an integer''))"

definition normalize_flow_query_routing_key :: "pyval \<Rightarrow> pyval result" where
  "normalize_flow_query_routing_key v =
     (case v of
        PNone \<Rightarrow> Inr PNone
      | PStr s \<Rightarrow> if s = [] then Inl (ValueError ''FLOW.QUERY routing key must be non-empty text or bytes'') else Inr v
      | PBytes b \<Rightarrow> if b = [] then Inl (ValueError ''FLOW.QUERY routing key must be non-empty text or bytes'') else Inr v
      | _ \<Rightarrow> Inl (ValueError ''FLOW.QUERY routing key must be non-empty text or bytes''))"

fun normalize_params_loop ::
    "nat \<Rightarrow> (pyval \<times> pyval) list \<Rightarrow> (ustr \<times> pyval) list \<Rightarrow> (ustr \<times> pyval) list result" where
  "normalize_params_loop index [] normalized = Inr normalized"
| "normalize_params_loop index ((name, v) # items) normalized =
     (if index \<ge> FLOW_QUERY_MAX_PARAMETERS then Inl (ValueError ''FLOW.QUERY accepts at most 64 parameters'')
      else
        case name of
          PStr n \<Rightarrow>
            and_then (validate_flow_query_parameter_name n) (\<lambda>_.
            and_then (normalize_flow_query_parameter v) (\<lambda>v.
              normalize_params_loop (index + 1) items (dict_set normalized n v)))
        | _ \<Rightarrow> Inl (TypeErr ''FLOW.QUERY parameter names must be strings''))"

definition normalize_flow_query_params :: "pyval \<Rightarrow> (ustr \<times> pyval) list result" where
  "normalize_flow_query_params params =
     (case params of
        PNone \<Rightarrow> Inr []
      | PDict items \<Rightarrow>
          if length items > FLOW_QUERY_MAX_PARAMETERS
          then Inl (ValueError ''FLOW.QUERY accepts at most 64 parameters'')
          else normalize_params_loop 0 items []
      | _ \<Rightarrow> Inl (TypeErr ''FLOW.QUERY params must be a mapping''))"

section \<open>Arguments and payload\<close>

definition build_flow_query_args :: "pyval \<Rightarrow> pyval \<Rightarrow> pyval list result" where
  "build_flow_query_args query params =
     and_then (validate_flow_query_text query) (\<lambda>_.
     and_then (normalize_flow_query_params params) (\<lambda>normalized.
       Inr ([PStr (text_lit ''FLOW.QUERY''), PStr FLOW_QUERY_LANGUAGE_VERSION, query] @
            concat (map (\<lambda>name. [PStr name, the (dict_get normalized name)]) (sort (map fst normalized))))))"

definition is_query_options :: "pyval \<Rightarrow> bool" where
  "is_query_options v = (case v of PQueryOptions _ _ \<Rightarrow> True | _ \<Rightarrow> False)"

definition with_flow_query_command_options :: "pyval list \<Rightarrow> pyval \<Rightarrow> pyval \<Rightarrow> pyval list result" where
  "with_flow_query_command_options args deadline_ms routing_key =
     (if list_ex is_query_options args then Inl (ValueError ''FLOW.QUERY command options are already present'')
      else
        and_then (if deadline_ms = PNone then Inr None
                  else and_then (normalize_flow_query_deadline deadline_ms) (\<lambda>n. Inr (Some n))) (\<lambda>deadline.
        and_then (normalize_flow_query_routing_key routing_key) (\<lambda>route.
          if deadline = None \<and> route = PNone then Inr args
          else Inr (args @ [PQueryOptions deadline route]))))"

definition query_command_text :: "pyval \<Rightarrow> ustr result" where
  "query_command_text v =
     (case v of
        PStr s \<Rightarrow> Inr s
      | PBytes b \<Rightarrow> (case utf8_decode b of Inl _ \<Rightarrow> Inl (ValueError ''must be valid UTF-8'') | Inr s \<Rightarrow> Inr s)
      | _ \<Rightarrow> Inl (TypeErr ''must be text''))"

fun payload_params :: "pyval list \<Rightarrow> (ustr \<times> pyval) list \<Rightarrow> (ustr \<times> pyval) list result" where
  "payload_params (name_arg # v # rest) params =
     and_then (query_command_text name_arg) (\<lambda>name.
     and_then (validate_flow_query_parameter_name name) (\<lambda>_.
       if dict_get params name \<noteq> None then Inl (ValueError ''FLOW.QUERY parameter is duplicated'')
       else and_then (normalize_flow_query_parameter v) (\<lambda>v. payload_params rest (dict_set params name v))))"
| "payload_params _ params = Inr params"

definition build_flow_query_payload :: "pyval list \<Rightarrow> pyval result" where
  "build_flow_query_payload args =
     (let (options, command_args) =
            (if args \<noteq> [] \<and> is_query_options (last args) then (last args, butlast args) else (PNone, args))
      in
      if list_ex is_query_options command_args then Inl (ValueError ''FLOW.QUERY command options must be last'')
      else if length command_args < 2 then Inl (ValueError ''FLOW.QUERY requires version and query'')
      else if (length command_args - 2) mod 2 \<noteq> 0 then Inl (ValueError ''FLOW.QUERY parameters must be name/value pairs'')
      else
        and_then (query_command_text (command_args ! 0)) (\<lambda>version.
        if version \<noteq> FLOW_QUERY_LANGUAGE_VERSION then Inl (ValueError ''FLOW.QUERY requires version FQL1'')
        else
          and_then (query_command_text (command_args ! 1)) (\<lambda>query.
          and_then (validate_flow_query_text (PStr query)) (\<lambda>_.
          if (length command_args - 2) div 2 > FLOW_QUERY_MAX_PARAMETERS
          then Inl (ValueError ''FLOW.QUERY accepts at most 64 parameters'')
          else
            and_then (payload_params (drop 2 command_args) []) (\<lambda>params.
              Inr (PDict
                ([(PStr (text_lit ''version''), PStr version), (PStr (text_lit ''query''), PStr query)] @
                 (if params = [] then []
                  else [(PStr (text_lit ''params''), PDict (map (\<lambda>(n, v). (PStr n, v)) params))]) @
                 (case options of
                    PQueryOptions (Some deadline) _ \<Rightarrow> [(PStr (text_lit ''deadline_ms''), PInt deadline)]
                  | _ \<Rightarrow> []))))))))"

definition flow_query_command_routing_key :: "pyval list \<Rightarrow> pyval" where
  "flow_query_command_routing_key args =
     (if args \<noteq> [] then (case last args of PQueryOptions _ k \<Rightarrow> k | _ \<Rightarrow> PNone) else PNone)"

section \<open>Round trip\<close>

lemma normalize_parameter_id: "normalize_flow_query_parameter v = Inr w \<Longrightarrow> w = v"
  by (auto simp: normalize_flow_query_parameter_def split: pyval.splits if_splits sum.splits)

lemma normalize_parameter_not_options: "normalize_flow_query_parameter v = Inr w \<Longrightarrow> \<not> is_query_options w"
  by (auto simp: normalize_flow_query_parameter_def is_query_options_def split: pyval.splits if_splits sum.splits)

definition param_ok :: "ustr \<times> pyval \<Rightarrow> bool" where
  "param_ok p \<longleftrightarrow> validate_flow_query_parameter_name (fst p) = Inr () \<and>
     normalize_flow_query_parameter (snd p) = Inr (snd p)"

lemma normalize_params_loop_Inr:
  assumes "normalize_params_loop i items acc = Inr d" and "distinct (map fst acc)" and "\<forall>p \<in> set acc. param_ok p"
  shows "distinct (map fst d) \<and> (\<forall>p \<in> set d. param_ok p) \<and> length d \<le> length acc + length items"
  using assms
proof (induction i items acc rule: normalize_params_loop.induct)
  case (2 i name v items acc)
  then obtain n where n: "name = PStr n" by (auto split: if_splits pyval.splits)
  from 2 n obtain w where w: "validate_flow_query_parameter_name n = Inr ()" "normalize_flow_query_parameter v = Inr w"
    "normalize_params_loop (i + 1) items (dict_set acc n w) = Inr d" and i: "\<not> i \<ge> FLOW_QUERY_MAX_PARAMETERS"
    by (auto split: if_splits)
  have ok: "\<forall>p \<in> set (dict_set acc n w). param_ok p"
    using 2(4) set_dict_set_subset [of acc n w] w normalize_parameter_id [OF w(2)] by (auto simp: param_ok_def)
  have len: "length (dict_set acc n w) \<le> length acc + 1"
    by (induction acc) auto
  from "2.IH" [OF i n w(1,2,3) distinct_dict_set [OF 2(3)] ok] len show ?case by simp
qed simp

lemma normalize_params_Inr:
  assumes "normalize_flow_query_params params = Inr d"
  shows "distinct (map fst d)" "\<forall>p \<in> set d. param_ok p" "length d \<le> FLOW_QUERY_MAX_PARAMETERS"
  using assms normalize_params_loop_Inr [of 0 _ "[]" d]
  by (auto simp: normalize_flow_query_params_def split: pyval.splits if_splits)
    (meson not_le order.trans)

lemma dict_set_new: "n \<notin> fst ` set d \<Longrightarrow> dict_set d n v = d @ [(n, v)]"
  by (induction d) auto

lemma payload_params_pairs:
  assumes "distinct (map fst acc @ ns)" and "\<And>n. n \<in> set ns \<Longrightarrow> param_ok (n, f n)"
  shows "payload_params (concat (map (\<lambda>n. [PStr n, f n]) ns)) acc = Inr (acc @ map (\<lambda>n. (n, f n)) ns)"
  using assms
proof (induction ns arbitrary: acc)
  case (Cons n ns)
  then have "n \<notin> fst ` set acc" by auto
  with Cons.IH [of "acc @ [(n, f n)]"] Cons.prems show ?case
    by (simp add: query_command_text_def param_ok_def dict_set_new)
qed simp

text \<open>
  C18. What the builder writes the protocol layer reads back: the payload of a built and annotated command
  has the query, the parameters in name order and the deadline, and the command's routing key is the one
  given.
\<close>

theorem flow_query_roundtrip:
  assumes "build_flow_query_args (PStr q) params = Inr args"
    and "normalize_flow_query_params params = Inr ps"
    and "with_flow_query_command_options args deadline route = Inr args'"
  shows "build_flow_query_payload (tl args') =
     Inr (PDict ([(PStr (text_lit ''version''), PStr FLOW_QUERY_LANGUAGE_VERSION), (PStr (text_lit ''query''), PStr q)] @
       (if ps = [] then []
        else [(PStr (text_lit ''params''),
               PDict (map (\<lambda>n. (PStr n, the (dict_get ps n))) (sort (map fst ps))))]) @
       (case deadline of PInt n \<Rightarrow> [(PStr (text_lit ''deadline_ms''), PInt n)] | _ \<Rightarrow> []))) \<and>
     flow_query_command_routing_key (tl args') = route"
proof -
  define ns where "ns = sort (map fst ps)"
  define f where "f n = the (dict_get ps n)" for n
  define pairs where "pairs = concat (map (\<lambda>n. [PStr n, f n]) ns)"
  note ps = normalize_params_Inr [OF assms(2)]
  have ok: "param_ok (n, f n)" if "n \<in> set ns" for n
  proof -
    from that have "n \<in> fst ` set ps" by (simp add: ns_def)
    then obtain v where "dict_get ps n = Some v" by (cases "dict_get ps n") auto
    then show ?thesis using ps(2) by (auto simp: f_def dest: dict_get_SomeD)
  qed
  have len: "length pairs = 2 * length ps" unfolding pairs_def ns_def by (simp add: length_concat comp_def sum_list_triv)
  have opts: "\<not> is_query_options v" if "v \<in> set pairs" for v
    using that ok normalize_parameter_not_options
    by (auto simp: pairs_def param_ok_def is_query_options_def [of "PStr _"])
  have read: "payload_params pairs [] = Inr (map (\<lambda>n. (n, f n)) ns)"
    unfolding pairs_def using payload_params_pairs [of "[]" ns f] ok ps(1) by (simp add: ns_def)
  have args: "args = PStr (text_lit ''FLOW.QUERY'') # PStr FLOW_QUERY_LANGUAGE_VERSION # PStr q # pairs"
    and query: "validate_flow_query_text (PStr q) = Inr ()"
    using assms(1, 2) by (auto simp: build_flow_query_args_def pairs_def ns_def f_def)
  define cmd where "cmd = PStr FLOW_QUERY_LANGUAGE_VERSION # PStr q # pairs"
  have clean: "\<not> list_ex is_query_options cmd"
    using opts by (auto simp: cmd_def list_ex_iff is_query_options_def [of "PStr _"])
  have payload: "build_flow_query_payload (cmd @ opt) =
      Inr (PDict ([(PStr (text_lit ''version''), PStr FLOW_QUERY_LANGUAGE_VERSION), (PStr (text_lit ''query''), PStr q)] @
       (if ps = [] then [] else [(PStr (text_lit ''params''), PDict (map (\<lambda>n. (PStr n, f n)) ns))]) @
       (case opt of [PQueryOptions (Some n) _] \<Rightarrow> [(PStr (text_lit ''deadline_ms''), PInt n)] | _ \<Rightarrow> [])))"
    if "opt = [] \<or> (\<exists>d k. opt = [PQueryOptions d k])" for opt
  proof -
    have ne: "ns = [] \<longleftrightarrow> ps = []" by (metis ns_def length_0_conv length_map length_sort)
    have "\<not> is_query_options (last cmd)"
      using clean by (metis cmd_def last_in_set list.distinct(1) list_ex_iff)
    then have split: "(if cmd @ opt \<noteq> [] \<and> is_query_options (last (cmd @ opt))
        then (last (cmd @ opt), butlast (cmd @ opt)) else (PNone, cmd @ opt)) = (if opt = [] then PNone else hd opt, cmd)"
      using that by (auto simp: is_query_options_def [of "PQueryOptions _ _"])
    have parts: "length cmd = 2 + 2 * length ps" "cmd ! 0 = PStr FLOW_QUERY_LANGUAGE_VERSION" "cmd ! 1 = PStr q"
      "drop 2 cmd = pairs" using len by (simp_all add: cmd_def)
    have read': "payload_params (drop 2 cmd) [] = Inr (map (\<lambda>n. (n, f n)) ns)" by (simp only: parts read)
    have few: "\<not> FLOW_QUERY_MAX_PARAMETERS < length ps" using ps(3) by simp
    have txt_eq: "query_command_text (PStr s) = Inr s" for s by (simp add: query_command_text_def)
    have mods: "(2 + 2 * length ps - 2) mod 2 = 0" "(2 + 2 * length ps - 2) div 2 = length ps" "\<not> 2 + 2 * length ps < 2" by simp_all
    have head: "build_flow_query_payload (cmd @ opt) =
      Inr (PDict ([(PStr (text_lit ''version''), PStr FLOW_QUERY_LANGUAGE_VERSION), (PStr (text_lit ''query''), PStr q)] @
       (if map (\<lambda>n. (n, f n)) ns = [] then []
        else [(PStr (text_lit ''params''), PDict (map (\<lambda>(n, v). (PStr n, v)) (map (\<lambda>n. (n, f n)) ns)))]) @
       (case (if opt = [] then PNone else hd opt) of
          PQueryOptions (Some n) _ \<Rightarrow> [(PStr (text_lit ''deadline_ms''), PInt n)] | _ \<Rightarrow> [])))"
      unfolding build_flow_query_payload_def split Let_def prod.case
      by (simp only: clean parts(1,2,3) read' txt_eq query few mods and_then_simps if_False if_True simp_thms)
    show ?thesis unfolding head using that ne by (auto simp: comp_def split: option.split)
  qed
  from assms(3) obtain d where route: "normalize_flow_query_routing_key route = Inr route"
    and d: "(d = None \<and> deadline = PNone) \<or> (\<exists>n. d = Some n \<and> deadline = PInt n)"
    and args': "args' = args @ (if d = None \<and> route = PNone then [] else [PQueryOptions d route])"
    by (auto simp: with_flow_query_command_options_def normalize_flow_query_deadline_def
        normalize_flow_query_routing_key_def split: if_splits pyval.splits)
  have "tl args' = cmd @ (if d = None \<and> route = PNone then [] else [PQueryOptions d route])"
    by (simp add: args' args cmd_def)
  moreover have "flow_query_command_routing_key cmd = PNone"
    using clean by (auto simp: flow_query_command_routing_key_def is_query_options_def cmd_def list_ex_iff
        split: pyval.splits dest!: last_in_set)
  moreover have "flow_query_command_routing_key (cmd @ [PQueryOptions d route]) = route"
    by (simp add: flow_query_command_routing_key_def)
  ultimately show ?thesis
    using d payload [of "[]"] payload [of "[PQueryOptions d route]"] by (auto simp: f_def ns_def)
qed

definition sample_params :: pyval where
  "sample_params = PDict [(PStr (text_lit ''z''), PInt 1), (PStr (text_lit ''a.b''), PBool True)]"

theorem flow_query_roundtrip_witness:
  "\<exists>args args'. build_flow_query_args (PStr (text_lit ''FROM x'')) sample_params = Inr args \<and>
     with_flow_query_command_options args (PInt 250) (PStr (text_lit ''k'')) = Inr args' \<and>
     flow_query_command_routing_key (tl args') = PStr (text_lit ''k'')"
proof -
  have name: "validate_flow_query_parameter_name (text_lit ''z'') = Inr ()"
    "validate_flow_query_parameter_name (text_lit ''a.b'') = Inr ()"
    by (simp_all add: validate_flow_query_parameter_name_def text_lit_def query_limits is_surrogate_def
        utf8_char_def PARAMETER_NAME_def is_alnum_ascii_def)
  have ps: "normalize_flow_query_params sample_params =
      Inr [(text_lit ''z'', PInt 1), (text_lit ''a.b'', PBool True)]"
    by (simp add: normalize_flow_query_params_def sample_params_def query_limits name
        normalize_flow_query_parameter_def) (simp add: text_lit_def)
  have "validate_flow_query_text (PStr (text_lit ''FROM x'')) = Inr ()"
    by (simp add: validate_flow_query_text_def text_lit_def query_limits is_surrogate_def utf8_char_def
        str_strip_def is_py_space_def)
  then obtain args where args: "build_flow_query_args (PStr (text_lit ''FROM x'')) sample_params = Inr args"
    and shape: "args = [PStr (text_lit ''FLOW.QUERY''), PStr FLOW_QUERY_LANGUAGE_VERSION, PStr (text_lit ''FROM x''),
      PStr (text_lit ''a.b''), PBool True, PStr (text_lit ''z''), PInt 1]"
    using ps by (simp add: build_flow_query_args_def) (simp add: text_lit_def)
  obtain args' where "with_flow_query_command_options args (PInt 250) (PStr (text_lit ''k'')) = Inr args'"
    by (simp add: with_flow_query_command_options_def shape is_query_options_def normalize_flow_query_deadline_def
        normalize_flow_query_routing_key_def int_limits) (simp add: text_lit_def)
  with flow_query_roundtrip [OF args ps this] args show ?thesis by blast
qed

section \<open>Accepted queries can be sent\<close>

lemma payload_params_Inr:
  assumes "payload_params xs acc = Inr ps" and "distinct (map fst acc)" and "\<forall>p \<in> set acc. param_ok p"
  shows "distinct (map fst ps) \<and> (\<forall>p \<in> set ps. param_ok p) \<and> length ps \<le> length acc + length xs div 2"
  using assms
proof (induction xs acc rule: payload_params.induct)
  case (1 name_arg v rest params)
  from 1(2) obtain name w where w: "query_command_text name_arg = Inr name"
    "validate_flow_query_parameter_name name = Inr ()" "dict_get params name = None"
    "normalize_flow_query_parameter v = Inr w" "payload_params rest (dict_set params name w) = Inr ps"
    by (auto simp del: dict_get_None split: if_splits)
  have ok: "\<forall>p \<in> set (dict_set params name w). param_ok p"
    using 1(4) set_dict_set_subset [of params name w] w normalize_parameter_id [OF w(4)] by (auto simp: param_ok_def)
  have len: "length (dict_set params name w) \<le> length params + 1"
    by (induction params) auto
  from "1.IH" [OF w(1,2) _ w(4,5) distinct_dict_set [OF 1(3)] ok] w(3) len show ?case
    by (simp del: dict_get_None)
qed simp_all

lemma encodable_text:
  assumes "utf8_encode s = Inr b" and "length b < 2 ^ 32" and "d \<le> MAX_VALUE_NESTING"
  shows "encodable (PStr s) d"
  using assms utf8_encode_str_wire by (auto simp: small_def)

lemma param_encodable: "normalize_flow_query_parameter v = Inr w \<Longrightarrow> d \<le> MAX_VALUE_NESTING \<Longrightarrow> encodable v d"
  by (auto simp: normalize_flow_query_parameter_def query_limits small_def int_limits utf8_encode_str_wire
      split: pyval.splits if_splits sum.splits)

lemma validated_name:
  assumes "validate_flow_query_parameter_name n = Inr u"
  shows "key_ok (PStr n)" "key_wire (PStr n) = utf8_text n" "small (length (key_wire (PStr n)))" "is_text n"
proof -
  from assms obtain b where b: "utf8_encode n = Inr b" "length b \<le> 128" "PARAMETER_NAME n"
    by (auto simp: validate_flow_query_parameter_name_def query_limits split: if_splits sum.splits)
  then show "key_ok (PStr n)" "small (length (key_wire (PStr n)))"
    by (simp_all add: key_ok_def key_wire_def key_bytes_def small_def)
  show "is_text n" using b(3) by (auto simp: is_text_def PARAMETER_NAME_def list_all_iff is_alnum_ascii_def text_lit_def)
  show "key_wire (PStr n) = utf8_text n" using b utf8_encode_iff [of n b] by (auto simp: key_wire_def key_bytes_def)
qed

lemma utf8_text_inj: "is_text s \<Longrightarrow> is_text t \<Longrightarrow> list_all (\<lambda>c. \<not> is_surrogate c) s \<Longrightarrow>
   list_all (\<lambda>c. \<not> is_surrogate c) t \<Longrightarrow> utf8_text s = utf8_text t \<Longrightarrow> s = t"
  using utf8_encode_inj [of s t "utf8_text s"] by (simp add: utf8_encode_iff)

lemma validated_name_inj:
  assumes "validate_flow_query_parameter_name m = Inr u" and "validate_flow_query_parameter_name n = Inr w"
    and "key_wire (PStr m) = key_wire (PStr n)"
  shows "m = n"
proof -
  have "list_all (\<lambda>c. \<not> is_surrogate c) m" "list_all (\<lambda>c. \<not> is_surrogate c) n"
    using assms by (auto simp: validate_flow_query_parameter_name_def utf8_encode_iff split: if_splits sum.splits)
  then show ?thesis
    using utf8_text_inj assms(3) validated_name [OF assms(1)] validated_name [OF assms(2)] by metis
qed

lemma params_encodable:
  assumes "distinct (map fst ps)" and "\<forall>p \<in> set ps. param_ok p" and "d \<le> MAX_VALUE_NESTING"
    and "\<forall>n \<in> fst ` set ps. key_wire (PStr n) \<notin> set ks"
  shows "encodable_entries (map (\<lambda>(n, v). (PStr n, v)) ps) ks d"
  using assms
proof (induction ps arbitrary: ks)
  case (Cons p ps)
  obtain n v where p: "p = (n, v)" by fastforce
  then have name: "validate_flow_query_parameter_name n = Inr ()" and v: "normalize_flow_query_parameter v = Inr v"
    using Cons.prems(2) by (auto simp: param_ok_def)
  have "key_wire (PStr m) \<noteq> key_wire (PStr n)" if "m \<in> fst ` set ps" for m
  proof
    assume eq: "key_wire (PStr m) = key_wire (PStr n)"
    have "validate_flow_query_parameter_name m = Inr ()" using that Cons.prems(2) by (auto simp: param_ok_def)
    from validated_name_inj [OF this name eq] that Cons.prems(1) p show False by simp
  qed
  then have "encodable_entries (map (\<lambda>(n, v). (PStr n, v)) ps) (key_wire (PStr n) # ks) d"
    using Cons.prems by (intro Cons.IH) auto
  then show ?case using validated_name [OF name] param_encodable [OF v Cons.prems(3)] Cons.prems(4) by (simp add: p)
qed simp

lemma field_key:
  "field \<in> {''version'', ''query'', ''params'', ''deadline_ms''} \<Longrightarrow>
   key_ok (PStr (text_lit field)) \<and> key_wire (PStr (text_lit field)) = bytes_lit field \<and> small (length (bytes_lit field))"
  by (auto simp: key_ok_def key_wire_def key_bytes_def text_lit_def bytes_lit_def small_def is_surrogate_def utf8_char_def)

lemmas field_keys = field_key [of "''version''", simplified] field_key [of "''query''", simplified]
  field_key [of "''params''", simplified] field_key [of "''deadline_ms''", simplified]

text \<open>
  C19. Every \<open>FLOW.QUERY\<close> payload the protocol layer accepts can be encoded: no query, parameter name,
  parameter value or deadline that passes validation makes the codec fail.
\<close>

theorem accepted_query_encodes:
  assumes "build_flow_query_payload args = Inr p"
    and "\<And>d k. PQueryOptions (Some d) k \<in> set args \<Longrightarrow> 0 \<le> d \<and> d \<le> U64_MAX"
  shows "\<exists>bs. encode_value p PNone = Inr bs"
proof -
  from assms(1) obtain opts cmd query ps where
    split: "(if args \<noteq> [] \<and> is_query_options (last args) then (last args, butlast args) else (PNone, args)) = (opts, cmd)"
    and few: "\<not> FLOW_QUERY_MAX_PARAMETERS < (length cmd - 2) div 2"
    and query: "validate_flow_query_text (PStr query) = Inr ()" and ps: "payload_params (drop 2 cmd) [] = Inr ps"
    and p: "p = PDict
         ([(PStr (text_lit ''version''), PStr FLOW_QUERY_LANGUAGE_VERSION), (PStr (text_lit ''query''), PStr query)] @
          (if ps = [] then [] else [(PStr (text_lit ''params''), PDict (map (\<lambda>(n, v). (PStr n, v)) ps))]) @
          (case opts of PQueryOptions (Some deadline) _ \<Rightarrow> [(PStr (text_lit ''deadline_ms''), PInt deadline)] | _ \<Rightarrow> []))"
    unfolding build_flow_query_payload_def Let_def by (auto split: if_splits)
  have opts: "0 \<le> d \<and> d \<le> U64_MAX" if "opts = PQueryOptions (Some d) k" for d k
  proof -
    have "PQueryOptions (Some d) k \<in> set args"
      using split that by (auto split: if_splits) (metis last_in_set)
    then show ?thesis by (rule assms(2))
  qed
  have ok: "distinct (map fst ps) \<and> (\<forall>p \<in> set ps. param_ok p) \<and> length ps \<le> FLOW_QUERY_MAX_PARAMETERS"
    using payload_params_Inr [OF ps] few by auto
  have q: "encodable (PStr query) 1"
    using query by (auto simp: validate_flow_query_text_def query_limits small_def utf8_encode_str_wire
        MAX_VALUE_NESTING_def split: if_splits sum.splits)
  have v: "encodable (PStr FLOW_QUERY_LANGUAGE_VERSION) 1"
    by (rule encodable_text [of _ "bytes_lit ''FQL1''"])
      (simp_all add: FLOW_QUERY_LANGUAGE_VERSION_def text_lit_def bytes_lit_def is_surrogate_def utf8_char_def MAX_VALUE_NESTING_def)
  have params: "encodable (PDict (map (\<lambda>(n, v). (PStr n, v)) ps)) 1"
    using params_encodable [of ps "Suc (Suc 0)" "[]"] ok by (simp add: small_def query_limits MAX_VALUE_NESTING_def)
  have "encodable p 0"
    unfolding p using q v params opts
    by (auto simp: field_keys small_def int_limits bytes_lit_def MAX_VALUE_NESTING_def simp del: encodable.simps(4)
        split: pyval.split option.split)
  then show ?thesis using encode_value_iff [of p None] by (simp add: limit_arg_def)
qed

theorem accepted_query_encodes_witness:
  "\<exists>bs. encode_value (PDict [(PStr (text_lit ''version''), PStr FLOW_QUERY_LANGUAGE_VERSION),
       (PStr (text_lit ''query''), PStr (text_lit ''FROM x'')), (PStr (text_lit ''deadline_ms''), PInt 250)]) PNone = Inr bs"
proof (rule accepted_query_encodes)
  show "build_flow_query_payload [PBytes (bytes_lit ''FQL1''), PStr (text_lit ''FROM x''), PQueryOptions (Some 250) PNone] =
    Inr (PDict [(PStr (text_lit ''version''), PStr FLOW_QUERY_LANGUAGE_VERSION),
       (PStr (text_lit ''query''), PStr (text_lit ''FROM x'')), (PStr (text_lit ''deadline_ms''), PInt 250)])"
    by (simp add: build_flow_query_payload_def is_query_options_def query_command_text_def bytes_lit_def text_lit_def
        utf8_decode.simps(2) Let_def FLOW_QUERY_LANGUAGE_VERSION_def validate_flow_query_text_def query_limits
        is_surrogate_def utf8_char_def str_strip_def is_py_space_def)
qed (auto simp: int_limits)

end
