(* ===== verification/Flow_Routing.thy ===== *)
theory Flow_Routing
  imports Flow_Options Flow_Query
begin

text \<open>
  Physical routing keys of Flow commands: \<open>flow_routing.py\<close>. A key is a value that
  \<open>RoutingTopology.slot_for_key\<close> hashes. SHA-256 is a parameter \<open>sha\<close> of the definitions that use it;
  a hasher is the bytes it has been fed, so \<open>update\<close> appends and \<open>digest\<close> applies \<open>sha\<close>. The bounded
  cache in front of the partition keys holds results of a pure function and is not part of the model.
\<close>

section \<open>Tables\<close>

definition FLOW_AUTO_PARTITION_PREFIX :: string where "FLOW_AUTO_PARTITION_PREFIX = ''__flow_auto__:''"
definition FLOW_AUTO_PARTITION_BUCKETS :: nat where "FLOW_AUTO_PARTITION_BUCKETS = 256"
definition FLOW_PARTITION_ROUTE_CACHE_MAX_KEY_BYTES :: nat where "FLOW_PARTITION_ROUTE_CACHE_MAX_KEY_BYTES = 4096"
definition FLOW_ROUTING_TEXT_CHUNK_CHARS :: nat where "FLOW_ROUTING_TEXT_CHUNK_CHARS = 4096"
definition FLOW_GLOBAL_ROUTE_KEY :: pyval where "FLOW_GLOBAL_ROUTE_KEY = PStr (text_lit ''f:{f}:route'')"

definition FLOW_ROUTE_SELECTORS :: "string list" where
  "FLOW_ROUTE_SELECTORS = [''AUTO'', ''ANY'', ''GLOBAL'', ''MIXED'', ''NONE'']"

definition FLOW_GLOBAL_COMMANDS :: "string list" where
  "FLOW_GLOBAL_COMMANDS =
     [''FLOW.POLICY.GET'', ''FLOW.POLICY.SET'']"

definition FLOW_POSITIONAL_PARTITION_COMMANDS :: "string list" where
  "FLOW_POSITIONAL_PARTITION_COMMANDS =
     [''FLOW.CANCEL_MANY'', ''FLOW.COMPLETE_MANY'', ''FLOW.CREATE_MANY'', ''FLOW.FAIL_MANY'',
      ''FLOW.RETRY_MANY'', ''FLOW.TRANSITION_MANY'']"

definition FLOW_STATE_ID_COMMANDS :: "string list" where
  "FLOW_STATE_ID_COMMANDS =
     [''FLOW.CANCEL'', ''FLOW.COMPLETE'', ''FLOW.CREATE'', ''FLOW.EFFECT.COMPENSATE'',
      ''FLOW.EFFECT.CONFIRM'', ''FLOW.EFFECT.FAIL'', ''FLOW.EFFECT.GET'', ''FLOW.EFFECT.RESERVE'',
      ''FLOW.EXTEND_LEASE'', ''FLOW.FAIL'', ''FLOW.GET'', ''FLOW.GOVERNANCE.LEDGER'',
      ''FLOW.HISTORY'', ''FLOW.RETRY'', ''FLOW.REWIND'', ''FLOW.SIGNAL'', ''FLOW.SPAWN_CHILDREN'',
      ''FLOW.START_AND_CLAIM'', ''FLOW.STEP_CONTINUE'', ''FLOW.TRANSITION'']"

definition FLOW_SCHEDULE_COMMANDS :: "string list" where
  "FLOW_SCHEDULE_COMMANDS =
     [''FLOW.SCHEDULE.CREATE'', ''FLOW.SCHEDULE.DELETE'', ''FLOW.SCHEDULE.FIRE'',
      ''FLOW.SCHEDULE.FIRE_DUE'', ''FLOW.SCHEDULE.GET'', ''FLOW.SCHEDULE.LIST'',
      ''FLOW.SCHEDULE.PAUSE'', ''FLOW.SCHEDULE.RESUME'']"

definition FLOW_APPROVAL_ID_COMMANDS :: "string list" where
  "FLOW_APPROVAL_ID_COMMANDS =
     [''FLOW.APPROVAL.APPROVE'', ''FLOW.APPROVAL.GET'', ''FLOW.APPROVAL.REJECT'',
      ''FLOW.APPROVAL.REQUEST'']"

definition FLOW_GOVERNANCE_SCOPE_COMMANDS :: "string list" where
  "FLOW_GOVERNANCE_SCOPE_COMMANDS =
     [''FLOW.BUDGET.COMMIT'', ''FLOW.BUDGET.GET'', ''FLOW.BUDGET.RELEASE'', ''FLOW.BUDGET.RESERVE'',
      ''FLOW.CIRCUIT.CLOSE'', ''FLOW.CIRCUIT.GET'', ''FLOW.CIRCUIT.OPEN'', ''FLOW.LIMIT.GET'',
      ''FLOW.LIMIT.LEASE'', ''FLOW.LIMIT.RELEASE'', ''FLOW.LIMIT.SPEND'']"

definition FLOW_OPTION_STARTS :: "(string \<times> nat) list" where
  "FLOW_OPTION_STARTS =
     [(''FLOW.APPROVAL.LIST'', 0), (''FLOW.ATTRIBUTE_VALUES'', 2), (''FLOW.ATTRIBUTES'', 1),
      (''FLOW.BUDGET.LIST'', 0), (''FLOW.CANCEL'', 1), (''FLOW.CLAIM_DUE'', 1),
      (''FLOW.COMPLETE'', 2), (''FLOW.CREATE'', 1), (''FLOW.EFFECT.COMPENSATE'', 1),
      (''FLOW.EFFECT.CONFIRM'', 1), (''FLOW.EFFECT.FAIL'', 1), (''FLOW.EFFECT.GET'', 1),
      (''FLOW.EFFECT.RESERVE'', 1), (''FLOW.EXTEND_LEASE'', 2), (''FLOW.FAIL'', 2),
      (''FLOW.GET'', 1), (''FLOW.GOVERNANCE.LEDGER'', 1), (''FLOW.GOVERNANCE.OVERVIEW'', 0),
      (''FLOW.HISTORY'', 1), (''FLOW.INFO'', 1), (''FLOW.LIMIT.LIST'', 0), (''FLOW.RECLAIM'', 1),
      (''FLOW.RETRY'', 2), (''FLOW.REWIND'', 1), (''FLOW.RUN_STEPS_MANY'', 0), (''FLOW.SIGNAL'', 1),
      (''FLOW.SPAWN_CHILDREN'', 1), (''FLOW.START_AND_CLAIM'', 1), (''FLOW.STATS'', 1),
      (''FLOW.STEP_CONTINUE'', 4), (''FLOW.TRANSITION'', 3)]"

definition FLOW_CLAIM_COMMANDS :: "string list" where
  "FLOW_CLAIM_COMMANDS =
     [''FLOW.CLAIM_DUE'', ''FLOW.RECLAIM'']"

definition FLOW_GLOBAL_DEFAULT_PARTITION_COMMANDS :: "string list" where
  "FLOW_GLOBAL_DEFAULT_PARTITION_COMMANDS = []"

definition named :: "ustr \<Rightarrow> string list \<Rightarrow> bool" where
  "named name table \<longleftrightarrow> name \<in> set (map text_lit table)"

section \<open>Formatting and digests\<close>

fun decimal :: "nat \<Rightarrow> ustr" where
  "decimal n = (if n < 10 then [48 + n] else decimal (n div 10) @ [48 + n mod 10])"

declare decimal.simps [simp del]

definition FLOW_AUTO_PARTITION_MAX_KEY_BYTES :: nat where
  "FLOW_AUTO_PARTITION_MAX_KEY_BYTES =
     length (text_lit FLOW_AUTO_PARTITION_PREFIX @ decimal (FLOW_AUTO_PARTITION_BUCKETS - 1))"

definition b64_char :: "nat \<Rightarrow> nat" where
  "b64_char i =
     (if i < 26 then 65 + i else if i < 52 then 97 + (i - 26) else if i < 62 then 48 + (i - 52)
      else if i = 62 then 45 else 95)"

text \<open>\<open>base64.urlsafe_b64encode(data).rstrip(b"=").decode()\<close>.\<close>

fun urlsafe_b64 :: "bytes \<Rightarrow> ustr" where
  "urlsafe_b64 [] = []"
| "urlsafe_b64 [a] = (let n = unat a * 65536 in [b64_char (n div 262144), b64_char (n div 4096 mod 64)])"
| "urlsafe_b64 [a, b] =
     (let n = unat a * 65536 + unat b * 256 in
      [b64_char (n div 262144), b64_char (n div 4096 mod 64), b64_char (n div 64 mod 64)])"
| "urlsafe_b64 (a # b # c # r) =
     (let n = unat a * 65536 + unat b * 256 + unat c in
      [b64_char (n div 262144), b64_char (n div 4096 mod 64), b64_char (n div 64 mod 64), b64_char (n mod 64)] @
      urlsafe_b64 r)"

definition route_text :: "string \<Rightarrow> ustr \<Rightarrow> pyval" where
  "route_text tag body = PStr (text_lit ''f:{'' @ text_lit tag @ body @ text_lit ''}:route'')"

section \<open>Keys of identifiers and partitions\<close>

text \<open>\<open>_routing_crc32\<close>: text is hashed chunk by chunk.\<close>

function routing_crc32_text :: "ustr \<Rightarrow> 32 word \<Rightarrow> 32 word result" where
  "routing_crc32_text s checksum =
     (if s = [] then Inr checksum
      else
        and_then (utf8_encode (take FLOW_ROUTING_TEXT_CHUNK_CHARS s)) (\<lambda>b.
          routing_crc32_text (drop FLOW_ROUTING_TEXT_CHUNK_CHARS s) (crc32 b checksum)))"
  by pat_completeness auto

termination
  by (relation "measure (\<lambda>(s, _). length s)") (auto simp: FLOW_ROUTING_TEXT_CHUNK_CHARS_def)

declare routing_crc32_text.simps [simp del]

definition routing_crc32 :: "pyval \<Rightarrow> 32 word option result" where
  "routing_crc32 v =
     (case v of
        PBytes b \<Rightarrow> Inr (Some (crc32 b 0))
      | PStr s \<Rightarrow> and_then (routing_crc32_text s 0) (\<lambda>c. Inr (Some c))
      | _ \<Rightarrow> Inr None)"

definition flow_auto_id_routing_key :: "pyval \<Rightarrow> pyval option result" where
  "flow_auto_id_routing_key v =
     and_then (routing_crc32 v) (\<lambda>checksum.
       Inr (map_option (\<lambda>c. route_text ''fa:'' (decimal (unat (c AND 0xFF)))) checksum))"

definition is_digit :: "nat \<Rightarrow> bool" where "is_digit c \<longleftrightarrow> 48 \<le> c \<and> c \<le> 57"

definition digits_value :: "ustr \<Rightarrow> nat" where "digits_value s = foldl (\<lambda>n c. n * 10 + (c - 48)) 0 s"

text \<open>\<open>_AUTO_PARTITION_RE\<close>: the bucket number of a full match.\<close>

definition auto_partition_match :: "ustr \<Rightarrow> nat option" where
  "auto_partition_match t =
     (let p = text_lit FLOW_AUTO_PARTITION_PREFIX; rest = drop (length p) t in
      if startswith t p \<and>
         (rest = [48] \<or>
          (rest \<noteq> [] \<and> 49 \<le> hd rest \<and> hd rest \<le> 57 \<and> length (tl rest) \<le> 2 \<and> list_all is_digit (tl rest)))
      then Some (digits_value rest) else None)"

definition logical_partition_routing_key :: "(bytes \<Rightarrow> bytes) \<Rightarrow> bytes \<Rightarrow> pyval" where
  "logical_partition_routing_key sha encoded =
     (let t = (if length encoded \<le> FLOW_AUTO_PARTITION_MAX_KEY_BYTES
               then (case ascii_decode encoded of Inr t \<Rightarrow> t | Inl _ \<Rightarrow> []) else []);
          hashed = route_text ''f:'' (urlsafe_b64 (sha encoded))
      in case auto_partition_match t of
           None \<Rightarrow> hashed
         | Some bucket \<Rightarrow>
             if bucket < FLOW_AUTO_PARTITION_BUCKETS then route_text ''fa:'' (decimal bucket) else hashed)"

function hasher_update_text :: "ustr \<Rightarrow> bytes \<Rightarrow> bytes result" where
  "hasher_update_text s fed =
     (if s = [] then Inr fed
      else
        and_then (utf8_encode (take FLOW_ROUTING_TEXT_CHUNK_CHARS s)) (\<lambda>b.
          hasher_update_text (drop FLOW_ROUTING_TEXT_CHUNK_CHARS s) (fed @ b)))"
  by pat_completeness auto

termination
  by (relation "measure (\<lambda>(s, _). length s)") (auto simp: FLOW_ROUTING_TEXT_CHUNK_CHARS_def)

declare hasher_update_text.simps [simp del]

definition logical_partition_text_routing_key :: "(bytes \<Rightarrow> bytes) \<Rightarrow> ustr \<Rightarrow> pyval result" where
  "logical_partition_text_routing_key sha s =
     and_then (hasher_update_text s []) (\<lambda>fed. Inr (route_text ''f:'' (urlsafe_b64 (sha fed))))"

definition flow_logical_partition_routing_key :: "(bytes \<Rightarrow> bytes) \<Rightarrow> pyval \<Rightarrow> pyval option result" where
  "flow_logical_partition_routing_key sha v =
     (case v of
        PStr s \<Rightarrow>
          if length s > FLOW_PARTITION_ROUTE_CACHE_MAX_KEY_BYTES
          then and_then (logical_partition_text_routing_key sha s) (\<lambda>k. Inr (Some k))
          else and_then (utf8_encode s) (\<lambda>b. Inr (Some (logical_partition_routing_key sha b)))
      | PBytes b \<Rightarrow> Inr (Some (logical_partition_routing_key sha b))
      | _ \<Rightarrow> Inr None)"

section \<open>Keys of commands\<close>

definition route_selector_token :: "pylib \<Rightarrow> pyval \<Rightarrow> string option" where
  "route_selector_token L v =
     (case v of
        PBytes b \<Rightarrow>
          if length b > 6 then None else List.find (\<lambda>t. bytes_lit t = bytes_upper b) FLOW_ROUTE_SELECTORS
      | PStr s \<Rightarrow>
          if length s > 6 then None else List.find (\<lambda>t. text_lit t = str_upper L s) FLOW_ROUTE_SELECTORS
      | _ \<Rightarrow> None)"

definition claim_partition_routing_key :: "pylib \<Rightarrow> (bytes \<Rightarrow> bytes) \<Rightarrow> pyval \<Rightarrow> pyval option result" where
  "claim_partition_routing_key L sha v =
     (let selector = route_selector_token L v in
      if selector = Some ''AUTO'' \<or> selector = Some ''ANY'' then Inr None
      else if selector = Some ''GLOBAL'' then Inr (Some FLOW_GLOBAL_ROUTE_KEY)
      else flow_logical_partition_routing_key sha v)"

definition single_logical_partition_key :: "(bytes \<Rightarrow> bytes) \<Rightarrow> pyval \<Rightarrow> pyval list result" where
  "single_logical_partition_key sha v =
     and_then (flow_logical_partition_routing_key sha v) (\<lambda>key.
       Inr (case key of None \<Rightarrow> [] | Some k \<Rightarrow> [k]))"

definition is_text_or_bytes :: "pyval \<Rightarrow> bool" where
  "is_text_or_bytes v = (case v of PStr _ \<Rightarrow> True | PBytes _ \<Rightarrow> True | _ \<Rightarrow> False)"

definition value_mget_route_keys :: "pylib \<Rightarrow> pyval list \<Rightarrow> pyval list" where
  "value_mget_route_keys L args =
     (let (refs, max_bytes) = split_flow_value_mget L args in
      if refs = [] \<or> list_ex (\<lambda>ref. \<not> is_text_or_bytes ref) refs then [] else refs)"

fun map_keys :: "(pyval \<Rightarrow> pyval option result) \<Rightarrow> pyval list \<Rightarrow> pyval option list result" where
  "map_keys f [] = Inr []"
| "map_keys f (v # vs) = and_then (f v) (\<lambda>k. and_then (map_keys f vs) (\<lambda>ks. Inr (k # ks)))"

function partition_option_walk ::
    "pylib \<Rightarrow> (bytes \<Rightarrow> bytes) \<Rightarrow> option_plan \<Rightarrow> pyval list \<Rightarrow> bool \<Rightarrow> nat \<Rightarrow> pyval list option result" where
  "partition_option_walk L sha plan args claim index =
     (let mapper = (if claim then claim_partition_routing_key L sha else flow_logical_partition_routing_key sha) in
      if index < length args then
        let token = pl_tokens plan ! index in
        if token = Some ''PARTITION'' then
          if index + 1 \<ge> length args then Inr (Some [])
          else and_then (mapper (args ! (index + 1))) (\<lambda>key.
                 Inr (Some (case key of None \<Rightarrow> [] | Some k \<Rightarrow> [k])))
        else if token = Some ''PARTITIONS'' then
          and_then (non_negative_int L (arg_or_none args (index + 1))) (\<lambda>count.
            case count of
              None \<Rightarrow> Inr (Some [])
            | Some c \<Rightarrow>
                if index + 2 + nat c > length args then Inr (Some [])
                else
                  and_then (map_keys mapper (take (nat c) (drop (index + 2) args))) (\<lambda>keys.
                    Inr (Some (if keys = [] \<or> list_ex (\<lambda>k. k = None) keys then [] else map the keys))))
        else if token \<in> Some ` set ITEM_MARKERS then Inr None
        else
          and_then (option_width L plan index) (\<lambda>width.
            case width of
              None \<Rightarrow> Inr (Some [])
            | Some w \<Rightarrow>
                if index + w > length args then Inr (Some [])
                else partition_option_walk L sha plan args claim (index + w))
      else Inr None)"
  by pat_completeness auto

termination
  by (relation "measure (\<lambda>(L, sha, plan, args, claim, index). length args - index)")
    (auto dest: option_width_pos)

declare partition_option_walk.simps [simp del]

definition partition_option_route_keys ::
    "pylib \<Rightarrow> (bytes \<Rightarrow> bytes) \<Rightarrow> pyval list \<Rightarrow> nat \<Rightarrow> bool \<Rightarrow> pyval list option result" where
  "partition_option_route_keys L sha args start claim =
     and_then (flow_option_plan L args) (\<lambda>plan. partition_option_walk L sha plan args claim start)"

function option_value_walk :: "pylib \<Rightarrow> option_plan \<Rightarrow> pyval list \<Rightarrow> string \<Rightarrow> nat \<Rightarrow> pyval result" where
  "option_value_walk L plan args wanted index =
     (if index < length args then
        if pl_tokens plan ! index = Some wanted then Inr (arg_or_none args (index + 1))
        else
          and_then (option_width L plan index) (\<lambda>width.
            case width of
              None \<Rightarrow> Inr PNone
            | Some w \<Rightarrow>
                if index + w > length args then Inr PNone
                else option_value_walk L plan args wanted (index + w))
      else Inr PNone)"
  by pat_completeness auto

termination
  by (relation "measure (\<lambda>(L, plan, args, wanted, index). length args - index)")
    (auto dest: option_width_pos)

declare option_value_walk.simps [simp del]

definition option_value :: "pylib \<Rightarrow> pyval list \<Rightarrow> nat \<Rightarrow> string \<Rightarrow> pyval result" where
  "option_value L args start wanted =
     and_then (flow_option_plan L args) (\<lambda>plan. option_value_walk L plan args wanted start)"

text \<open>The end of \<open>flow_command_route_keys\<close>, reached when no partition option decided.\<close>

definition auto_id_keys :: "pyval \<Rightarrow> pyval list result" where
  "auto_id_keys v =
     and_then (flow_auto_id_routing_key v) (\<lambda>key. Inr (case key of None \<Rightarrow> [] | Some k \<Rightarrow> [k]))"

definition flow_value_put_route_keys :: "pylib \<Rightarrow> (bytes \<Rightarrow> bytes) \<Rightarrow> pyval list \<Rightarrow> pyval list result" where
  "flow_value_put_route_keys L sha values =
     and_then (partition_option_route_keys L sha values 1 False) (\<lambda>partition_keys.
       case partition_keys of
         Some ks \<Rightarrow> Inr ks
       | None \<Rightarrow>
           and_then (option_value L values 1 ''OWNER_FLOW_ID'') (\<lambda>owner.
           and_then (option_value L values 1 ''NAME'') (\<lambda>value_name.
             if is_text_or_bytes owner \<and> is_text_or_bytes value_name then auto_id_keys owner
             else Inr [FLOW_GLOBAL_ROUTE_KEY])))"

definition flow_command_route_keys ::
    "pylib \<Rightarrow> (bytes \<Rightarrow> bytes) \<Rightarrow> ustr \<Rightarrow> pyval list \<Rightarrow> pyval list result" where
  "flow_command_route_keys L sha name values =
     (if values = [] then Inr []
      else if named name FLOW_SCHEDULE_COMMANDS then Inr []
      else if named name FLOW_GLOBAL_COMMANDS then Inr [FLOW_GLOBAL_ROUTE_KEY]
      else if name = text_lit ''FLOW.QUERY'' then
        (let routing_key = flow_query_command_routing_key values in
         Inr (if routing_key = PNone then [] else [routing_key]))
      else if name = text_lit ''FLOW.VALUE.MGET'' then Inr (value_mget_route_keys L values)
      else if named name FLOW_APPROVAL_ID_COMMANDS then single_logical_partition_key sha (values ! 0)
      else if named name FLOW_GOVERNANCE_SCOPE_COMMANDS then single_logical_partition_key sha (values ! 0)
      else if named name FLOW_POSITIONAL_PARTITION_COMMANDS then
        if route_selector_token L (values ! 0) \<in> {Some ''AUTO'', Some ''MIXED'', Some ''NONE''} then Inr []
        else single_logical_partition_key sha (values ! 0)
      else
        and_then
          (case dict_get (map (\<lambda>(k, v). (text_lit k, v)) FLOW_OPTION_STARTS) name of
             None \<Rightarrow> Inr None
           | Some option_start \<Rightarrow>
               and_then (partition_option_route_keys L sha values option_start (named name FLOW_CLAIM_COMMANDS)) (\<lambda>keys.
                 Inr (if keys = None \<and> named name FLOW_GLOBAL_DEFAULT_PARTITION_COMMANDS
                      then Some [FLOW_GLOBAL_ROUTE_KEY] else keys)))
          (\<lambda>option_keys.
             case option_keys of
               Some ks \<Rightarrow> Inr ks
             | None \<Rightarrow>
                 if name = text_lit ''FLOW.VALUE.PUT'' then flow_value_put_route_keys L sha values
                 else if named name FLOW_STATE_ID_COMMANDS then auto_id_keys (values ! 0)
                 else Inr []))"

section \<open>Text and bytes agree\<close>

lemma utf8_encode_append:
  "utf8_encode (s @ t) = and_then (utf8_encode s) (\<lambda>a. and_then (utf8_encode t) (\<lambda>b. Inr (a @ b)))"
  by (induction s; cases "utf8_encode t") (auto simp: and_then_assoc)

text \<open>
  The contract of an incremental hash fed with chunks of text: feeding in two steps is feeding the
  concatenation. The loop then feeds the UTF-8 form of the whole text, or fails where that has none.
\<close>

locale chunked_update =
  fixes step :: "'h \<Rightarrow> bytes \<Rightarrow> 'h"
    and loop :: "ustr \<Rightarrow> 'h \<Rightarrow> 'h result"
  assumes step_Nil: "step h [] = h"
    and step_append: "step h (a @ b) = step (step h a) b"
    and loop_rec: "loop s h =
      (if s = [] then Inr h
       else and_then (utf8_encode (take FLOW_ROUTING_TEXT_CHUNK_CHARS s)) (\<lambda>b.
              loop (drop FLOW_ROUTING_TEXT_CHUNK_CHARS s) (step h b)))"
begin

lemma loop_whole: "loop s h = and_then (utf8_encode s) (\<lambda>b. Inr (step h b))"
proof (induction "length s" arbitrary: s h rule: less_induct)
  case less
  show ?case
  proof (cases "s = []")
    case True
    then show ?thesis using loop_rec [of "[]" h] by (simp add: step_Nil)
  next
    case False
    have "utf8_encode s = and_then (utf8_encode (take FLOW_ROUTING_TEXT_CHUNK_CHARS s)) (\<lambda>a.
        and_then (utf8_encode (drop FLOW_ROUTING_TEXT_CHUNK_CHARS s)) (\<lambda>b. Inr (a @ b)))"
      using utf8_encode_append [of "take FLOW_ROUTING_TEXT_CHUNK_CHARS s" "drop FLOW_ROUTING_TEXT_CHUNK_CHARS s"]
      by simp
    moreover have "loop (drop FLOW_ROUTING_TEXT_CHUNK_CHARS s) h' =
        and_then (utf8_encode (drop FLOW_ROUTING_TEXT_CHUNK_CHARS s)) (\<lambda>b. Inr (step h' b))" for h'
      using False by (intro less.hyps) (simp add: FLOW_ROUTING_TEXT_CHUNK_CHARS_def)
    ultimately show ?thesis
      using False by (cases "utf8_encode (take FLOW_ROUTING_TEXT_CHUNK_CHARS s)")
        (simp_all add: loop_rec [of s] and_then_assoc step_append)
  qed
qed

end

interpretation crc: chunked_update "\<lambda>c b. crc32 b c" routing_crc32_text
  by (unfold_locales; (rule routing_crc32_text.simps)?; simp add: crc32_append)

interpretation hasher: chunked_update "(@)" hasher_update_text
  by (unfold_locales; (rule hasher_update_text.simps)?; simp)

lemma utf8_encode_length: "utf8_encode s = Inr b \<Longrightarrow> length s \<le> length b"
proof (induction s arbitrary: b)
  case (Cons c s)
  then obtain r where "utf8_encode s = Inr r" "b = utf8_char c @ r" by (auto split: if_splits)
  with Cons.IH [of r] utf8_width_pos(1) [of c] show ?case by simp
qed simp

lemma long_partition_key:
  "length b > FLOW_PARTITION_ROUTE_CACHE_MAX_KEY_BYTES \<Longrightarrow>
   logical_partition_routing_key sha b = route_text ''f:'' (urlsafe_b64 (sha b))"
  by (simp add: logical_partition_routing_key_def FLOW_PARTITION_ROUTE_CACHE_MAX_KEY_BYTES_def
      FLOW_AUTO_PARTITION_MAX_KEY_BYTES_def FLOW_AUTO_PARTITION_PREFIX_def FLOW_AUTO_PARTITION_BUCKETS_def
      decimal.simps auto_partition_match_def startswith_def text_lit_def Let_def)

text \<open>
  The chunked hashing of text identifiers and partitions is that of their UTF-8 bytes: text and bytes
  give the same routing key, on both the short and the long path, and text that has no UTF-8 form fails.
\<close>

theorem flow_keys_of_text:
  "flow_auto_id_routing_key (PStr s) = and_then (utf8_encode s) (\<lambda>b. flow_auto_id_routing_key (PBytes b)) \<and>
   flow_logical_partition_routing_key sha (PStr s) =
     and_then (utf8_encode s) (\<lambda>b. flow_logical_partition_routing_key sha (PBytes b))"
proof (cases "utf8_encode s")
  case (Inr b)
  then show ?thesis
    using utf8_encode_length [OF Inr] long_partition_key [of b sha]
    by (auto simp: flow_auto_id_routing_key_def routing_crc32_def crc.loop_whole
        flow_logical_partition_routing_key_def logical_partition_text_routing_key_def hasher.loop_whole)
qed (simp add: flow_auto_id_routing_key_def routing_crc32_def crc.loop_whole
  flow_logical_partition_routing_key_def logical_partition_text_routing_key_def hasher.loop_whole)

section \<open>Physical keys\<close>

definition physical_key :: "pyval \<Rightarrow> ustr \<Rightarrow> bool" where
  "physical_key k tag \<longleftrightarrow>
     k = PStr (text_lit ''f:{'' @ tag @ text_lit ''}:route'') \<and> tag \<noteq> [] \<and> list_all (\<lambda>c. c < 123) tag"

lemma decimal_chars: "list_all (\<lambda>c. 48 \<le> c \<and> c \<le> 57) (decimal n)"
proof (induction n rule: decimal.induct)
  case (1 n)
  then show ?case by (auto simp: decimal.simps [of n])
qed

lemma b64_chars: "list_all (\<lambda>c. c < 123) (urlsafe_b64 b)"
proof -
  have "b64_char i < 123" for i unfolding b64_char_def by presburger
  then show ?thesis by (induction b rule: urlsafe_b64.induct) (simp_all add: Let_def)
qed

lemma route_text_physical:
  "tag \<in> {''f:'', ''fa:''} \<Longrightarrow> list_all (\<lambda>c. c < 123) body \<Longrightarrow> \<exists>t. physical_key (route_text tag body) t"
  by (rule exI [of _ "text_lit tag @ body"]) (auto simp: physical_key_def route_text_def text_lit_def)

lemma global_physical: "\<exists>t. physical_key FLOW_GLOBAL_ROUTE_KEY t"
  by (rule exI [of _ "text_lit ''f''"]) (auto simp: physical_key_def FLOW_GLOBAL_ROUTE_KEY_def text_lit_def)

lemma decimal_physical: "\<exists>t. physical_key (route_text ''fa:'' (decimal n)) t"
  by (rule route_text_physical) (use decimal_chars [of n] in \<open>auto simp: list_all_iff\<close>)

lemma digest_physical: "\<exists>t. physical_key (route_text ''f:'' (urlsafe_b64 b)) t"
  by (rule route_text_physical) (use b64_chars in auto)

definition all_physical :: "pyval list \<Rightarrow> bool" where
  "all_physical ks \<longleftrightarrow> (\<forall>k \<in> set ks. \<exists>t. physical_key k t)"

lemma all_physical_simps [simp]:
  "all_physical []" "all_physical (k # ks) \<longleftrightarrow> (\<exists>t. physical_key k t) \<and> all_physical ks"
  by (simp_all add: all_physical_def)

lemma partition_key_physical:
  "flow_logical_partition_routing_key sha v = Inr (Some k) \<Longrightarrow> \<exists>t. physical_key k t"
  using digest_physical decimal_physical
  by (auto simp: flow_logical_partition_routing_key_def logical_partition_text_routing_key_def
      logical_partition_routing_key_def Let_def split: pyval.splits if_splits option.splits)

lemma claim_key_physical: "claim_partition_routing_key L sha v = Inr (Some k) \<Longrightarrow> \<exists>t. physical_key k t"
  using global_physical partition_key_physical
  by (auto simp: claim_partition_routing_key_def Let_def split: if_splits)

lemma auto_id_physical: "auto_id_keys v = Inr ks \<Longrightarrow> all_physical ks"
  using decimal_physical
  by (auto simp: auto_id_keys_def flow_auto_id_routing_key_def split: option.splits)

lemma single_partition_physical: "single_logical_partition_key sha v = Inr ks \<Longrightarrow> all_physical ks"
  using partition_key_physical by (auto simp: single_logical_partition_key_def split: option.splits)

lemma map_keys_set: "map_keys f vs = Inr ks \<Longrightarrow> Some k \<in> set ks \<Longrightarrow> \<exists>v \<in> set vs. f v = Inr (Some k)"
  by (induction vs arbitrary: ks) auto

lemma partition_walk_physical:
  "partition_option_walk L sha plan args claim i = Inr (Some ks) \<Longrightarrow> all_physical ks"
proof (induction L sha plan args claim i rule: partition_option_walk.induct)
  case (1 L sha plan args claim i)
  define mapper where "mapper = (if claim then claim_partition_routing_key L sha else flow_logical_partition_routing_key sha)"
  have m: "mapper v = Inr (Some k) \<Longrightarrow> \<exists>t. physical_key k t" for v k
    using claim_key_physical partition_key_physical by (auto simp: mapper_def split: if_splits)
  have mk: "all_physical (map the keys)" if run: "map_keys mapper vs = Inr keys" and some: "\<not> list_ex (\<lambda>k. k = None) keys" for vs keys
  proof -
    have "\<exists>t. physical_key (the k) t" if k: "k \<in> set keys" for k
    proof -
      have "k \<noteq> None"
      proof
        assume "k = None"
        then show False using k some unfolding list_ex_iff by (metis (full_types))
      qed
      then obtain x where x: "k = Some x" by blast
      with map_keys_set [OF run, of x] m k show ?thesis by auto
    qed
    then show ?thesis by (auto simp: all_physical_def)
  qed
  show ?case
    using "1.prems" "1.IH" m mk
    unfolding partition_option_walk.simps [of L sha plan args claim i] Let_def mapper_def [symmetric]
    by (auto split: if_splits option.splits)
qed

lemma partition_keys_physical:
  "partition_option_route_keys L sha args i claim = Inr (Some ks) \<Longrightarrow> all_physical ks"
  by (auto simp: partition_option_route_keys_def dest: partition_walk_physical)

lemma value_put_physical: "flow_value_put_route_keys L sha values = Inr ks \<Longrightarrow> all_physical ks"
  using global_physical
  by (auto simp: flow_value_put_route_keys_def dest: partition_keys_physical auto_id_physical
      split: option.splits if_splits)

lemma flow_keys_physical:
  assumes "flow_command_route_keys L sha name values = Inr ks"
    and "name \<noteq> text_lit ''FLOW.QUERY''" and "name \<noteq> text_lit ''FLOW.VALUE.MGET''"
  shows "all_physical ks"
proof -
  have none: "FLOW_GLOBAL_DEFAULT_PARTITION_COMMANDS = []" by (simp add: FLOW_GLOBAL_DEFAULT_PARTITION_COMMANDS_def)
  show ?thesis
    using assms global_physical single_partition_physical auto_id_physical value_put_physical partition_keys_physical
    unfolding flow_command_route_keys_def none named_def [of name "[]"]
    by (auto split: if_splits option.splits)
qed

lemma hash_tag_found:
  assumes "op \<notin> set pre" and "cl \<notin> set tag" and "tag \<noteq> []"
  shows "hash_tag_or_key op cl (pre @ op # tag @ cl # suf) = tag"
proof -
  have "drop (Suc (length pre)) (pre @ op # tag @ cl # suf) = tag @ cl # suf" by simp
  with assms show ?thesis by (simp add: hash_tag_or_key_def)
qed

lemma ascii_utf8_encode: "list_all (\<lambda>c. c < 123) s \<Longrightarrow> utf8_encode s = Inr (map of_nat s)"
  by (induction s) (auto simp: is_surrogate_def ascii_utf8_char)



end
