(* ===== verification/Command_Keys.thy ===== *)
theory Command_Keys
  imports Flow_Routing
begin

text \<open>
  Routing keys of every command: the command tables and \<open>command_route_keys\<close> of \<open>command_core.py\<close>, and
  the stream-read grammar of \<open>command_grammar.py\<close>.
\<close>

section \<open>Command tables\<close>

definition CONTROL_COMMANDS :: "string list" where
  "CONTROL_COMMANDS =
     [''AUTH'', ''BACKPRESSURE'', ''CLIENT'', ''CLIENT.INFO'', ''CLIENT.SETNAME'', ''COMMAND'',
      ''DBSIZE'', ''DISCARD'', ''ECHO'', ''EXEC'', ''FLUSHALL'', ''FLUSHDB'', ''HELLO'', ''INFO'',
      ''KEYS'', ''LATENCY'', ''MULTI'', ''OPTIONS'', ''PING'', ''PSUBSCRIBE'', ''PUBSUB'',
      ''PUBLISH'', ''PUNSUBSCRIBE'', ''QUIT'', ''RANDOMKEY'', ''ROUTE'', ''ROUTE_BATCH'', ''SCAN'',
      ''SELECT'', ''SHARDS'', ''SLOWLOG'', ''SPUBLISH'', ''SSUBSCRIBE'', ''STARTUP'', ''SUBSCRIBE'',
      ''SUNSUBSCRIBE'', ''TIME'', ''UNSUBSCRIBE'', ''UNWATCH'', ''WINDOW_UPDATE'']"

definition ALL_KEYS_COMMANDS :: "string list" where
  "ALL_KEYS_COMMANDS =
     [''DEL'', ''EXISTS'', ''MGET'', ''PFCOUNT'', ''PFMERGE'', ''SDIFF'', ''SDIFFSTORE'',
      ''SINTER'', ''SINTERSTORE'', ''SUNION'', ''SUNIONSTORE'', ''TOUCH'', ''UNLINK'', ''WATCH'']"

definition PAIR_KEYS_COMMANDS :: "string list" where
  "PAIR_KEYS_COMMANDS =
     [''MSET'', ''MSETNX'']"

definition COUNTED_KEYS_COMMANDS :: "string list" where
  "COUNTED_KEYS_COMMANDS =
     [''BLMPOP'', ''BZMPOP'', ''LMPOP'', ''SINTERCARD'', ''ZDIFF'', ''ZINTER'', ''ZINTERCARD'',
      ''ZMPOP'', ''ZUNION'']"

definition DESTINATION_COUNTED_KEYS_COMMANDS :: "string list" where
  "DESTINATION_COUNTED_KEYS_COMMANDS =
     [''CMS.MERGE'', ''TDIGEST.MERGE'', ''ZDIFFSTORE'', ''ZINTERSTORE'', ''ZUNIONSTORE'']"

definition TWO_KEYS_COMMANDS :: "string list" where
  "TWO_KEYS_COMMANDS =
     [''BLMOVE'', ''COPY'', ''GEOSEARCHSTORE'', ''LCS'', ''LMOVE'', ''RENAME'', ''RENAMENX'',
      ''RPOPLPUSH'', ''SMOVE'', ''ZRANGESTORE'']"

definition FIRST_KEY_COMMANDS :: "string list" where
  "FIRST_KEY_COMMANDS =
     [''APPEND'', ''BF.ADD'', ''BF.CARD'', ''BF.EXISTS'', ''BF.INFO'', ''BF.INSERT'', ''BF.MADD'',
      ''BF.MEXISTS'', ''BF.RESERVE'', ''BITCOUNT'', ''BITFIELD'', ''BITFIELD_RO'', ''BITPOS'',
      ''CF.ADD'', ''CF.ADDNX'', ''CF.COUNT'', ''CF.DEL'', ''CF.EXISTS'', ''CF.INFO'', ''CF.INSERT'',
      ''CF.INSERTNX'', ''CF.MEXISTS'', ''CF.RESERVE'', ''CMS.INCRBY'', ''CMS.INFO'',
      ''CMS.INITBYDIM'', ''CMS.INITBYPROB'', ''CMS.QUERY'', ''DECR'', ''DECRBY'', ''EXPIRE'',
      ''EXPIREAT'', ''EXPIRETIME'', ''GEOADD'', ''GEODIST'', ''GEOHASH'', ''GEOPOS'', ''GEOSEARCH'',
      ''GET'', ''GETBIT'', ''GETDEL'', ''GETEX'', ''GETRANGE'', ''GETSET'', ''HDEL'', ''HEXISTS'',
      ''HEXPIRE'', ''HEXPIREAT'', ''HEXPIRETIME'', ''HGET'', ''HGETALL'', ''HGETDEL'', ''HGETEX'',
      ''HINCRBY'', ''HINCRBYFLOAT'', ''HKEYS'', ''HLEN'', ''HMGET'', ''HMSET'', ''HPERSIST'',
      ''HPEXPIRE'', ''HPEXPIREAT'', ''HPEXPIRETIME'', ''HPTTL'', ''HRANDFIELD'', ''HSCAN'',
      ''HSET'', ''HSETEX'', ''HSETNX'', ''HSTRLEN'', ''HTTL'', ''HVALS'', ''INCR'', ''INCRBY'',
      ''INCRBYFLOAT'', ''LINDEX'', ''LINSERT'', ''LLEN'', ''LPOP'', ''LPOS'', ''LPUSH'', ''LPUSHX'',
      ''LRANGE'', ''LREM'', ''LSET'', ''LTRIM'', ''PERSIST'', ''PEXPIRE'', ''PEXPIREAT'',
      ''PEXPIRETIME'', ''PFADD'', ''PSETEX'', ''PTTL'', ''RPOP'', ''RPUSH'', ''RPUSHX'', ''SADD'',
      ''SCARD'', ''SET'', ''SETBIT'', ''SETEX'', ''SETNX'', ''SETRANGE'', ''SISMEMBER'',
      ''SMEMBERS'', ''SMISMEMBER'', ''SORT_RO'', ''SPOP'', ''SRANDMEMBER'', ''SREM'', ''SSCAN'',
      ''STRLEN'', ''TDIGEST.ADD'', ''TDIGEST.BYRANK'', ''TDIGEST.BYREVRANK'', ''TDIGEST.CDF'',
      ''TDIGEST.CREATE'', ''TDIGEST.INFO'', ''TDIGEST.MAX'', ''TDIGEST.MIN'', ''TDIGEST.QUANTILE'',
      ''TDIGEST.RANK'', ''TDIGEST.RESET'', ''TDIGEST.REVRANK'', ''TDIGEST.TRIMMED_MEAN'',
      ''TOPK.ADD'', ''TOPK.COUNT'', ''TOPK.INCRBY'', ''TOPK.INFO'', ''TOPK.LIST'', ''TOPK.QUERY'',
      ''TOPK.RESERVE'', ''TTL'', ''TYPE'', ''XACK'', ''XADD'', ''XAUTOCLAIM'', ''XCLAIM'', ''XDEL'',
      ''XLEN'', ''XPENDING'', ''XRANGE'', ''XREVRANGE'', ''XSETID'', ''XTRIM'', ''ZADD'', ''ZCARD'',
      ''ZCOUNT'', ''ZINCRBY'', ''ZLEXCOUNT'', ''ZMSCORE'', ''ZPOPMAX'', ''ZPOPMIN'',
      ''ZRANDMEMBER'', ''ZRANGE'', ''ZRANGEBYLEX'', ''ZRANGEBYSCORE'', ''ZRANK'', ''ZREM'',
      ''ZREMRANGEBYLEX'', ''ZREMRANGEBYRANK'', ''ZREMRANGEBYSCORE'', ''ZREVRANGE'',
      ''ZREVRANGEBYLEX'', ''ZREVRANGEBYSCORE'', ''ZREVRANK'', ''ZSCAN'', ''ZSCORE'']"

section \<open>Stream reads\<close>

record stream_read_grammar =
  sr_keys :: "pyval list"
  sr_block :: "pyval option"
  sr_valid :: bool

definition invalid_read :: "pyval option \<Rightarrow> stream_read_grammar" where
  "invalid_read block = \<lparr>sr_keys = [], sr_block = block, sr_valid = False\<rparr>"

text \<open>The loop of \<open>parse_stream_read\<close> on the arguments from \<open>index\<close> on.\<close>

fun stream_options :: "pylib \<Rightarrow> pyval option \<Rightarrow> pyval list \<Rightarrow> stream_read_grammar" where
  "stream_options L block [] = invalid_read block"
| "stream_options L block (v # rest) =
     (let token = command_token L v in
      if token = text_lit ''STREAMS'' then
        if rest = [] \<or> length rest mod 2 \<noteq> 0 then invalid_read block
        else \<lparr>sr_keys = take (length rest div 2) rest, sr_block = block, sr_valid = True\<rparr>
      else if token = text_lit ''NOACK'' then stream_options L block rest
      else if token \<notin> {text_lit ''BLOCK'', text_lit ''COUNT''} then invalid_read block
      else
        (case rest of
           [] \<Rightarrow> invalid_read block
         | w # rest' \<Rightarrow>
             stream_options L (if token = text_lit ''BLOCK'' then Some w else block) rest'))"

definition parse_stream_read :: "pylib \<Rightarrow> pyval list \<Rightarrow> bool \<Rightarrow> stream_read_grammar" where
  "parse_stream_read L values read_group =
     (if read_group then
        if length values < 3 \<or> command_token L (values ! 0) \<noteq> text_lit ''GROUP'' then invalid_read None
        else stream_options L None (drop 3 values)
      else stream_options L None values)"

definition stream_keys :: "pylib \<Rightarrow> pyval list \<Rightarrow> bool \<Rightarrow> pyval list" where
  "stream_keys L args read_group =
     (let parsed = parse_stream_read L args read_group in if sr_valid parsed then sr_keys parsed else [])"

section \<open>Keys of a command\<close>

definition normalize_command_name :: "pylib \<Rightarrow> pyval \<Rightarrow> ustr" where
  "normalize_command_name L v =
     (case v of
        PBytes b \<Rightarrow> str_upper L (decode_replace b)
      | PStr t \<Rightarrow> str_upper L t
      | _ \<Rightarrow> str_upper L (str_of L v))"

fun evens :: "'a list \<Rightarrow> 'a list" where
  "evens (x # _ # r) = x # evens r"
| "evens xs = xs"

text \<open>The loop of \<open>_sort_keys\<close> after the key itself.\<close>

function sort_store_keys :: "pylib \<Rightarrow> pyval list \<Rightarrow> pyval list" where
  "sort_store_keys L [] = []"
| "sort_store_keys L (v # rest) =
     (let token = normalize_command_name L v in
      if token = text_lit ''STORE'' \<and> rest \<noteq> [] then hd rest # sort_store_keys L (drop 1 rest)
      else if token \<in> {text_lit ''BY'', text_lit ''GET''} then sort_store_keys L (drop 1 rest)
      else if token = text_lit ''LIMIT'' then sort_store_keys L (drop 2 rest)
      else sort_store_keys L rest)"
  by pat_completeness auto

termination
  by (relation "measure (\<lambda>(L, args). length args)") (auto simp: less_Suc_eq_le)

definition sort_keys :: "pylib \<Rightarrow> pyval list \<Rightarrow> pyval list" where
  "sort_keys L args = (case args of [] \<Rightarrow> [] | k # rest \<Rightarrow> k # sort_store_keys L rest)"

definition command_route_keys ::
    "pylib \<Rightarrow> (bytes \<Rightarrow> bytes) \<Rightarrow> pyval \<Rightarrow> pyval list \<Rightarrow> pyval list result" where
  "command_route_keys L sha name values =
     (let normalized = normalize_command_name L name in
      if startswith normalized (text_lit ''FLOW.'') then flow_command_route_keys L sha normalized values
      else if named normalized CONTROL_COMMANDS then Inr []
      else if named normalized PAIR_KEYS_COMMANDS then Inr (evens values)
      else if named normalized ALL_KEYS_COMMANDS then Inr values
      else if named normalized TWO_KEYS_COMMANDS then Inr (take 2 values)
      else if named normalized [''BLPOP'', ''BRPOP'', ''BZPOPMIN'', ''BZPOPMAX''] then Inr (butlast values)
      else if normalized = text_lit ''BITOP'' then Inr (drop 1 values)
      else if named normalized COUNTED_KEYS_COMMANDS then
        (let timeout_first = named normalized [''BLMPOP'', ''BZMPOP''];
             offset = (if timeout_first then 2 else 1);
             count_index = (if timeout_first then 1 else 0)
         in and_then (caught_int L (arg_or_none values count_index)) (\<lambda>count.
              Inr (case count of None \<Rightarrow> [] | Some c \<Rightarrow> take (nat c) (drop offset values))))
      else if named normalized [''XREAD'', ''XREADGROUP''] then
        Inr (stream_keys L values (normalized = text_lit ''XREADGROUP''))
      else if named normalized DESTINATION_COUNTED_KEYS_COMMANDS then
        and_then (caught_int L (arg_or_none values 1)) (\<lambda>count.
          Inr (case count of None \<Rightarrow> [] | Some c \<Rightarrow> take 1 values @ take (nat c) (drop 2 values)))
      else if named normalized [''OBJECT'', ''XGROUP'', ''XINFO''] then Inr (take 1 (drop 1 values))
      else if normalized = text_lit ''MEMORY'' then
        Inr (if values \<noteq> [] \<and> normalize_command_name L (values ! 0) = text_lit ''USAGE''
             then take 1 (drop 1 values) else [])
      else if normalized = text_lit ''SORT'' then Inr (sort_keys L values)
      else if named normalized FIRST_KEY_COMMANDS then Inr (take 1 values)
      else Inr [])"

section \<open>Stream reads are parsed exactly\<close>

text \<open>The options of a stream read: \<open>NOACK\<close>, and \<open>BLOCK\<close> or \<open>COUNT\<close> with any value.\<close>

inductive stream_prefix :: "pylib \<Rightarrow> pyval list \<Rightarrow> bool" for L where
  start: "stream_prefix L []"
| noack: "command_token L v = text_lit ''NOACK'' \<Longrightarrow> stream_prefix L r \<Longrightarrow> stream_prefix L (v # r)"
| valued: "command_token L v \<in> {text_lit ''BLOCK'', text_lit ''COUNT''} \<Longrightarrow> stream_prefix L r \<Longrightarrow>
     stream_prefix L (v # w # r)"

inductive_simps stream_prefix_Nil [simp]: "stream_prefix L []"
inductive_simps stream_prefix_Cons: "stream_prefix L (v # r)"

definition stream_shape :: "pylib \<Rightarrow> pyval list \<Rightarrow> pyval list \<Rightarrow> bool" where
  "stream_shape L args ks \<longleftrightarrow>
     (\<exists>pre v ids. args = pre @ v # ks @ ids \<and> stream_prefix L pre \<and> command_token L v = text_lit ''STREAMS'' \<and>
        length ids = length ks \<and> ks \<noteq> [])"

lemma stream_shape_Nil [simp]: "\<not> stream_shape L [] ks"
  by (simp add: stream_shape_def)

lemma stream_shape_Cons:
  "stream_shape L (v # rest) ks \<longleftrightarrow>
     (command_token L v = text_lit ''STREAMS'' \<and> (\<exists>ids. rest = ks @ ids \<and> length ids = length ks \<and> ks \<noteq> [])) \<or>
     (command_token L v = text_lit ''NOACK'' \<and> stream_shape L rest ks) \<or>
     (command_token L v \<in> {text_lit ''BLOCK'', text_lit ''COUNT''} \<and> (\<exists>w r. rest = w # r \<and> stream_shape L r ks))"
  (is "?L \<longleftrightarrow> ?A \<or> ?B \<or> ?C")
proof
  assume ?L
  then obtain pre x ids where p: "v # rest = pre @ x # ks @ ids" "stream_prefix L pre"
    "command_token L x = text_lit ''STREAMS''" "length ids = length ks" "ks \<noteq> []"
    by (auto simp: stream_shape_def)
  show "?A \<or> ?B \<or> ?C"
  proof (cases pre)
    case Nil
    then show ?thesis using p by auto
  next
    case (Cons u r)
    with p(1) have u: "u = v" and rest: "rest = r @ x # ks @ ids" by auto
    have "?B \<or> ?C"
      using p(2) [unfolded Cons u stream_prefix_Cons] p(3-5) rest unfolding stream_shape_def by auto
    then show ?thesis by blast
  qed
next
  assume "?A \<or> ?B \<or> ?C"
  then consider ?A | ?B | ?C by blast
  then show ?L
  proof cases
    case 1
    then show ?thesis unfolding stream_shape_def by (intro exI [of _ "[]"]) auto
  next
    case 2
    then obtain pre x ids where "rest = pre @ x # ks @ ids" "stream_prefix L pre"
      "command_token L x = text_lit ''STREAMS''" "length ids = length ks" "ks \<noteq> []" by (auto simp: stream_shape_def)
    with 2 show ?thesis unfolding stream_shape_def by (intro exI [of _ "v # pre"]) (auto intro: stream_prefix.noack)
  next
    case 3
    then obtain w r pre x ids where "rest = w # r" "r = pre @ x # ks @ ids" "stream_prefix L pre"
      "command_token L x = text_lit ''STREAMS''" "length ids = length ks" "ks \<noteq> []" by (auto simp: stream_shape_def)
    with 3 show ?thesis unfolding stream_shape_def by (intro exI [of _ "v # w # pre"]) (auto intro: stream_prefix.valued)
  qed
qed

lemma stream_words [simp]:
  "text_lit ''STREAMS'' \<noteq> text_lit ''NOACK''" "text_lit ''STREAMS'' \<noteq> text_lit ''BLOCK''"
  "text_lit ''STREAMS'' \<noteq> text_lit ''COUNT''" "text_lit ''NOACK'' \<noteq> text_lit ''BLOCK''"
  "text_lit ''NOACK'' \<noteq> text_lit ''COUNT''" "text_lit ''NOACK'' \<noteq> text_lit ''STREAMS''"
  "text_lit ''BLOCK'' \<noteq> text_lit ''STREAMS''" "text_lit ''COUNT'' \<noteq> text_lit ''STREAMS''"
  "text_lit ''BLOCK'' \<noteq> text_lit ''NOACK''" "text_lit ''COUNT'' \<noteq> text_lit ''NOACK''"
  by (simp_all add: text_lit_inj)

lemma halves:
  "(\<exists>ids. rest = ks @ ids \<and> length ids = length ks \<and> ks \<noteq> []) \<longleftrightarrow>
     rest \<noteq> [] \<and> length rest mod 2 = 0 \<and> ks = take (length rest div 2) rest"
proof
  assume "rest \<noteq> [] \<and> length rest mod 2 = 0 \<and> ks = take (length rest div 2) rest"
  then show "\<exists>ids. rest = ks @ ids \<and> length ids = length ks \<and> ks \<noteq> []"
    by (intro exI [of _ "drop (length rest div 2) rest"]) (auto elim!: evenE intro: Nat.gr0I)
qed auto

lemma stream_options_valid:
  "sr_valid (stream_options L block args) \<and> sr_keys (stream_options L block args) = ks \<longleftrightarrow> stream_shape L args ks"
proof (induction L block args rule: stream_options.induct)
  case (1 L block)
  then show ?case by (simp add: invalid_read_def)
next
  case (2 L block v rest)
  show ?case
    using 2 by (cases rest) (auto simp: stream_shape_Cons [of L v] halves invalid_read_def Let_def)
qed

text \<open>
  A stream read is accepted exactly when a \<open>STREAMS\<close> keyword, found by consuming the options before
  it (after \<open>GROUP\<close>, group and consumer for a group read), is followed by as many stream names as
  identifiers; the names are the routing keys. Option values are never mistaken for keywords.
\<close>

theorem stream_read_exact:
  "sr_valid (parse_stream_read L args read_group) \<and> sr_keys (parse_stream_read L args read_group) = ks \<longleftrightarrow>
     (if read_group
      then \<exists>g group consumer rest. args = g # group # consumer # rest \<and>
             command_token L g = text_lit ''GROUP'' \<and> stream_shape L rest ks
      else stream_shape L args ks)"
proof (cases read_group)
  case True
  have "\<not> length args < 3 \<longleftrightarrow> (\<exists>g group consumer rest. args = g # group # consumer # rest)"
    by (cases args; cases "tl args"; cases "tl (tl args)") auto
  with True show ?thesis
    using stream_options_valid [of L None "drop 3 args" ks]
    by (auto simp: parse_stream_read_def invalid_read_def)
qed (simp add: parse_stream_read_def stream_options_valid)

section \<open>Routing keys are arguments\<close>

lemma set_evens: "set (evens xs) \<subseteq> set xs"
  by (induction xs rule: evens.induct) auto

lemma set_sort_store_keys: "set (sort_store_keys L xs) \<subseteq> set xs"
proof (induction L xs rule: sort_store_keys.induct)
  case (2 L v rest)
  have "set (drop k rest) \<subseteq> set rest" for k by (rule set_drop_subset)
  moreover have "hd rest \<in> set rest" if "rest \<noteq> []" using that by simp
  ultimately show ?case using 2 unfolding sort_store_keys.simps Let_def by (auto split: if_splits) blast+
qed simp

lemma set_stream_keys: "set (stream_keys L args g) \<subseteq> set args"
proof -
  have "set ks \<subseteq> set xs" if "stream_shape L xs ks" for xs ks using that by (auto simp: stream_shape_def)
  then have "sr_valid (stream_options L None xs) \<Longrightarrow> set (sr_keys (stream_options L None xs)) \<subseteq> set xs" for xs
    using stream_options_valid [of L None xs] by blast
  from this [of args] this [of "drop 3 args"] set_drop_subset [of 3 args] show ?thesis
    by (auto simp: stream_keys_def parse_stream_read_def invalid_read_def Let_def split: if_splits)
qed

definition keys_within :: "pyval list result \<Rightarrow> pyval list \<Rightarrow> bool" where
  "keys_within r args \<longleftrightarrow> (\<forall>ks. r = Inr ks \<longrightarrow> set ks \<subseteq> set args)"

lemma keys_within_Inr: "set ks \<subseteq> set args \<Longrightarrow> keys_within (Inr ks) args"
  by (simp add: keys_within_def)

lemma keys_within_if: "keys_within a args \<Longrightarrow> keys_within b args \<Longrightarrow> keys_within (if c then a else b) args"
  by simp

lemma keys_within_and_then: "(\<And>x. keys_within (f x) args) \<Longrightarrow> keys_within (and_then m f) args"
  by (auto simp: keys_within_def)

lemma keys_within_command:
  assumes "\<not> startswith (normalize_command_name L name) (text_lit ''FLOW.'')"
  shows "keys_within (command_route_keys L sha name args) args"
proof -
  have sub: "set (take k (drop j args)) \<subseteq> set args" "set (take k args) \<subseteq> set args" "set (drop j args) \<subseteq> set args"
    "set (butlast args) \<subseteq> set args" for j k
    by (auto dest: in_set_takeD in_set_dropD in_set_butlastD)
  have sort: "set (sort_keys L args) \<subseteq> set args"
    using set_sort_store_keys by (fastforce simp: sort_keys_def split: list.splits)
  have counted: "set (case c of None \<Rightarrow> [] | Some c \<Rightarrow> take (nat c) (drop j args)) \<subseteq> set args"
    "set (case c of None \<Rightarrow> [] | Some c \<Rightarrow> take 1 args @ take (nat c) (drop j args)) \<subseteq> set args" for c j
    by (auto split: option.split dest: in_set_takeD in_set_dropD)
  have usage: "set (if b then take 1 (drop 1 args) else []) \<subseteq> set args" for b
    using sub by auto
  show ?thesis
    unfolding command_route_keys_def Let_def if_not_P [OF assms]
    by (intro keys_within_if keys_within_and_then keys_within_Inr empty_subsetI order_refl sub sort counted usage
        set_evens set_stream_keys) simp_all
qed

text \<open>
  The routing keys of a command outside the Flow family are arguments of the command: routing never
  invents a key, and for the commands that take only keys it takes all of them.
\<close>

theorem routing_keys_are_arguments:
  assumes "command_route_keys L sha name args = Inr ks"
    and "\<not> startswith (normalize_command_name L name) (text_lit ''FLOW.'')"
  shows "set ks \<subseteq> set args \<and> (named (normalize_command_name L name) ALL_KEYS_COMMANDS \<longrightarrow> ks = args)"
proof -
  define n where "n = normalize_command_name L name"
  have all: "\<not> named n CONTROL_COMMANDS \<and> \<not> named n PAIR_KEYS_COMMANDS" if "named n ALL_KEYS_COMMANDS"
    using that unfolding named_def ALL_KEYS_COMMANDS_def CONTROL_COMMANDS_def PAIR_KEYS_COMMANDS_def
    by (auto simp: text_lit_inj)
  note keys = assms(1) [unfolded command_route_keys_def Let_def n_def [symmetric] if_not_P [OF assms(2) [folded n_def]]]
  have "set ks \<subseteq> set args"
    using keys_within_command [OF assms(2)] assms(1) by (auto simp: keys_within_def)
  moreover have "ks = args" if "named n ALL_KEYS_COMMANDS"
    using keys all [OF that] that by simp
  ultimately show ?thesis by (simp add: n_def)
qed

theorem routing_keys_are_arguments_witness:
  "\<exists>ks. command_route_keys ascii_lib (\<lambda>b. b) (PStr (text_lit ''mget'')) [PStr [97], PBytes [98]] = Inr ks \<and>
     ks = [PStr [97], PBytes [98]]"
proof -
  have n: "normalize_command_name ascii_lib (PStr (text_lit ''mget'')) = text_lit ''MGET''"
    by (simp add: normalize_command_name_def str_upper_def text_lit_def)
  have all: "named (text_lit ''MGET'') ALL_KEYS_COMMANDS" by (simp add: named_def ALL_KEYS_COMMANDS_def)
  have flow: "\<not> startswith (text_lit ''MGET'') (text_lit ''FLOW.'')" by (simp add: startswith_def text_lit_def)
  have "\<exists>ks. command_route_keys ascii_lib (\<lambda>b. b) (PStr (text_lit ''mget'')) [PStr [97], PBytes [98]] = Inr ks"
    using all flow by (simp add: command_route_keys_def n Let_def named_def [of _ CONTROL_COMMANDS]
        named_def [of _ PAIR_KEYS_COMMANDS] CONTROL_COMMANDS_def PAIR_KEYS_COMMANDS_def text_lit_inj)
  then obtain ks where ks: "command_route_keys ascii_lib (\<lambda>b. b) (PStr (text_lit ''mget'')) [PStr [97], PBytes [98]] = Inr ks" ..
  from routing_keys_are_arguments [OF this] flow all show ?thesis by (simp add: n ks)
qed

end
