(* ===== verification/Compact_Requests.thy ===== *)
theory Compact_Requests
  imports Compact_Responses Request_Body Command_Keys
begin

text \<open>
  Compact request payloads of key-value commands: the per-transport encoding policy, the exact wire
  size of a value measured without encoding it, the payload budget of \<open>protocol_compact_budget.py\<close>, the
  length-prefixed sequences of \<open>protocol_pipeline_raw.py\<close>, and the parser of compact MSET payloads in
  \<open>protocol_mset.py\<close>. The active policy, a context variable of the source, is an argument.
\<close>

section \<open>Policies and wire sizes\<close>

record compact_policy =
  cp_enabled :: bool
  cp_max_payload_bytes :: "int option"
  cp_pending_limit :: "int option"

definition unbounded_policy :: compact_policy where
  "unbounded_policy = \<lparr>cp_enabled = True, cp_max_payload_bytes = None, cp_pending_limit = None\<rparr>"

definition compact_payload_budget :: "int option \<Rightarrow> string \<Rightarrow> (bool \<times> int option) result" where
  "compact_payload_budget max_pending_request_bytes compression =
     (case max_pending_request_bytes of
        None \<Rightarrow> Inr (True, None)
      | Some m \<Rightarrow>
          if compression = ''zlib'' then Inr (False, None)
          else if m - int HEADER_SIZE < 0 then Inl pending_request_capacity_error
          else Inr (True, Some (m - int HEADER_SIZE)))"

definition transport_compact_encoding_policy :: "int option \<Rightarrow> string \<Rightarrow> compact_policy result" where
  "transport_compact_encoding_policy max_pending_request_bytes compression =
     and_then (compact_payload_budget max_pending_request_bytes compression) (\<lambda>(enabled, limit).
       Inr \<lparr>cp_enabled = enabled, cp_max_payload_bytes = limit,
            cp_pending_limit = max_pending_request_bytes\<rparr>)"

fun wire_scan :: "nat \<Rightarrow> ustr \<Rightarrow> nat option" where
  "wire_scan sz [] = Some sz"
| "wire_scan sz (c # cs) =
     (if c \<le> 0x7F then wire_scan (sz + 1) cs
      else if c \<le> 0x7FF then wire_scan (sz + 2) cs
      else if 0xD800 \<le> c \<and> c \<le> 0xDFFF then None
      else if c \<le> 0xFFFF then wire_scan (sz + 3) cs
      else wire_scan (sz + 4) cs)"

definition binary_wire_size :: "pyval \<Rightarrow> nat option" where
  "binary_wire_size value =
     (case value of
        PBytes b \<Rightarrow> Some (4 + length b)
      | PStr s \<Rightarrow> if str_isascii s then Some (4 + length s) else wire_scan 4 s
      | _ \<Rightarrow> None)"

section \<open>\<open>_CompactPayloadBudget\<close>\<close>

record compact_budget =
  cb_max_payload_bytes :: "int option"
  cb_pending_limit :: "int option"
  cb_size :: int

definition cb_reserve :: "compact_budget \<Rightarrow> int \<Rightarrow> compact_budget result" where
  "cb_reserve B n =
     (if n < 0 then Inl (ValueError ''compact payload reservation must be non-negative'')
      else if (case cb_max_payload_bytes B of None \<Rightarrow> False | Some m \<Rightarrow> n > m - cb_size B)
      then Inl pending_request_capacity_error
      else Inr (B\<lparr>cb_size := cb_size B + n\<rparr>))"

definition make_compact_budget ::
    "compact_policy \<Rightarrow> int option \<Rightarrow> int option \<Rightarrow> int \<Rightarrow> compact_budget result" where
  "make_compact_budget active max_payload_bytes pending_limit initial_size =
     cb_reserve
       \<lparr>cb_max_payload_bytes =
          (case max_payload_bytes of None \<Rightarrow> cp_max_payload_bytes active | Some m \<Rightarrow> Some m),
        cb_pending_limit = (case pending_limit of None \<Rightarrow> cp_pending_limit active | Some m \<Rightarrow> Some m),
        cb_size = 0\<rparr> initial_size"

definition cb_can_reserve :: "compact_budget \<Rightarrow> int \<Rightarrow> bool" where
  "cb_can_reserve B n = (case cb_max_payload_bytes B of None \<Rightarrow> True | Some m \<Rightarrow> n \<le> m - cb_size B)"

text \<open>
  \<open>_bounded_maybe_bytes\<close> with a budget, and below without one, where the limit is the one passed or the
  active policy's. Text is encoded first when even four bytes per character fit, and measured first
  otherwise.
\<close>

definition reserve_maybe_bytes ::
    "compact_budget \<Rightarrow> pyval \<Rightarrow> (bytes option \<times> compact_budget) result" where
  "reserve_maybe_bytes B value =
     (case value of
        PBytes b \<Rightarrow> and_then (cb_reserve B (int (4 + length b))) (\<lambda>B. Inr (Some b, B))
      | PStr s \<Rightarrow>
          if cb_can_reserve B (int (4 + 4 * length s)) then
            and_then (utf8_encode s) (\<lambda>encoded.
            and_then (cb_reserve B (int (4 + length encoded))) (\<lambda>B. Inr (Some encoded, B)))
          else
            (case binary_wire_size value of
               None \<Rightarrow> and_then (utf8_encode s) (\<lambda>_. Inr (None, B))
             | Some wire_size \<Rightarrow>
                 and_then (cb_reserve B (int wire_size)) (\<lambda>B.
                 and_then (utf8_encode s) (\<lambda>encoded. Inr (Some encoded, B))))
      | _ \<Rightarrow> Inr (None, B))"

definition admit_bytes ::
    "compact_policy \<Rightarrow> int option \<Rightarrow> nat \<Rightarrow> bytes result \<Rightarrow> bytes option result" where
  "admit_bytes active max_payload_bytes wire_size encoded =
     (case max_payload_bytes of
        Some m \<Rightarrow> if int wire_size > m then Inl pending_request_capacity_error else returns encoded
      | None \<Rightarrow>
          if \<not> cp_enabled active then Inr None
          else
            (case cp_max_payload_bytes active of
               Some m \<Rightarrow> if int wire_size > m then Inl pending_request_capacity_error else returns encoded
             | None \<Rightarrow> returns encoded))"

definition bounded_maybe_bytes :: "compact_policy \<Rightarrow> pyval \<Rightarrow> int option \<Rightarrow> bytes option result" where
  "bounded_maybe_bytes active value max_payload_bytes =
     (case value of
        PBytes b \<Rightarrow> admit_bytes active max_payload_bytes (4 + length b) (Inr b)
      | PStr s \<Rightarrow>
          let maximum_wire_size = int (4 + 4 * length s) in
          if max_payload_bytes = None \<and> \<not> cp_enabled active then Inr None
          else if (case max_payload_bytes of
                 Some m \<Rightarrow> maximum_wire_size \<le> m
               | None \<Rightarrow> (case cp_max_payload_bytes active of None \<Rightarrow> True | Some m \<Rightarrow> maximum_wire_size \<le> m))
          then and_then (utf8_encode s) (\<lambda>encoded.
                 admit_bytes active max_payload_bytes (4 + length encoded) (Inr encoded))
          else
            (case binary_wire_size value of
               None \<Rightarrow> and_then (utf8_encode s) (\<lambda>_. Inr None)
             | Some wire_size \<Rightarrow> admit_bytes active max_payload_bytes wire_size (utf8_encode s))
      | _ \<Rightarrow> Inr None)"

definition maybe_bytes :: "compact_policy \<Rightarrow> pyval \<Rightarrow> bytes option result" where
  "maybe_bytes active value = bounded_maybe_bytes active value None"

text \<open>\<open>_bounded_optional_bytes\<close> answers None for an absent value, False for one it declines, or bytes.\<close>

datatype optional_bytes = Absent | Declined | Present bytes

definition reserve_optional_bytes ::
    "compact_budget \<Rightarrow> pyval \<Rightarrow> (optional_bytes \<times> compact_budget) result" where
  "reserve_optional_bytes B value =
     (if value = PNone then Inr (Absent, B)
      else and_then (reserve_maybe_bytes B value) (\<lambda>(encoded, B).
        Inr (case encoded of None \<Rightarrow> Declined | Some x \<Rightarrow> Present x, B)))"

section \<open>Length-prefixed sequences\<close>

definition COMPACT_PIPELINE_REQUEST :: int where "COMPACT_PIPELINE_REQUEST = 0x94"

definition pipeline_header :: "int \<Rightarrow> nat \<Rightarrow> bytes result" where
  "pipeline_header mode n =
     and_then (pack_uint 1 COMPACT_PIPELINE_REQUEST) (\<lambda>m.
     and_then (pack_uint 1 mode) (\<lambda>md.
     and_then (pack_u32 (int n)) (\<lambda>c. Inr (m @ md @ c))))"

definition compact_binary :: "bytes \<Rightarrow> bytes result" where
  "compact_binary x = and_then (pack_u32 (int (length x))) (\<lambda>p. Inr (p @ x))"

fun sequence_unbounded :: "pyval list \<Rightarrow> bytes \<Rightarrow> bytes option result" where
  "sequence_unbounded [] acc = Inr (Some acc)"
| "sequence_unbounded (arg # args) acc =
     (case arg of
        PBytes b \<Rightarrow> and_then (compact_binary b) (\<lambda>p. sequence_unbounded args (acc @ p))
      | PStr s \<Rightarrow>
          and_then (utf8_encode s) (\<lambda>x.
          and_then (compact_binary x) (\<lambda>p. sequence_unbounded args (acc @ p)))
      | _ \<Rightarrow> Inr None)"

definition sequence_text :: "ustr \<Rightarrow> int \<Rightarrow> (bytes \<times> int) option result" where
  "sequence_text s remaining =
     (if int (4 + length s) > remaining then Inl pending_request_capacity_error
      else if int (4 + 4 * length s) > remaining then
        (case binary_wire_size (PStr s) of
           None \<Rightarrow> and_then (utf8_encode s) (\<lambda>_. Inr None)
         | Some n \<Rightarrow>
             if int n > remaining then Inl pending_request_capacity_error
             else and_then (utf8_encode s) (\<lambda>x. Inr (Some (x, int n))))
      else and_then (utf8_encode s) (\<lambda>x. Inr (Some (x, int (4 + length x)))))"

fun sequence_bounded :: "pyval list \<Rightarrow> int \<Rightarrow> bytes \<Rightarrow> bytes option result" where
  "sequence_bounded [] remaining acc = Inr (Some acc)"
| "sequence_bounded (arg # args) remaining acc =
     opt_then
       (case arg of
          PBytes b \<Rightarrow> Inr (Some (b, int (4 + length b)))
        | PStr s \<Rightarrow> sequence_text s remaining
        | _ \<Rightarrow> Inr None) (\<lambda>(x, wire_size).
     if wire_size > remaining then Inl pending_request_capacity_error
     else and_then (compact_binary x) (\<lambda>p. sequence_bounded args (remaining - wire_size) (acc @ p)))"

definition compact_binary_sequence :: "compact_policy \<Rightarrow> pyval list \<Rightarrow> int \<Rightarrow> nat \<Rightarrow> bytes option result" where
  "compact_binary_sequence policy args mode n_items =
     (if \<not> cp_enabled policy then Inr None
      else and_then (pipeline_header mode n_items) (\<lambda>header.
        case cp_max_payload_bytes policy of
          None \<Rightarrow> sequence_unbounded args header
        | Some remaining \<Rightarrow>
            if 6 > remaining then Inl pending_request_capacity_error
            else sequence_bounded args (remaining - 6) header))"

definition compact_kv_set_pairs_payload :: "compact_policy \<Rightarrow> pyval list \<Rightarrow> int \<Rightarrow> bytes option result" where
  "compact_kv_set_pairs_payload policy args mode =
     (if args = [] \<or> odd (length args) then Inr None
      else compact_binary_sequence policy args mode (length args div 2))"

definition compact_kv_keys_payload :: "compact_policy \<Rightarrow> pyval list \<Rightarrow> int \<Rightarrow> bytes option result" where
  "compact_kv_keys_payload policy args mode =
     (if args = [] then Inr None else compact_binary_sequence policy args mode (length args))"

fun keys_value_loop ::
    "pyval list \<Rightarrow> bool \<Rightarrow> bytes \<Rightarrow> compact_budget \<Rightarrow> bytes \<Rightarrow> bytes option result" where
  "keys_value_loop [] first value B payload = Inr (Some payload)"
| "keys_value_loop (key_arg # ks) first value B payload =
     and_then (reserve_maybe_bytes B key_arg) (\<lambda>(key, B).
     case key of
       None \<Rightarrow> Inr None
     | Some key \<Rightarrow>
         and_then (if first then Inr B else cb_reserve B (int (4 + length value))) (\<lambda>B.
         and_then (compact_binary key) (\<lambda>k.
         and_then (compact_binary value) (\<lambda>v.
           keys_value_loop ks False value B (payload @ k @ v)))))"

definition compact_kv_set_keys_value_payload ::
    "compact_policy \<Rightarrow> pyval list \<Rightarrow> pyval \<Rightarrow> int \<Rightarrow> bytes option result" where
  "compact_kv_set_keys_value_payload policy ks value_arg mode =
     (if ks = [] \<or> \<not> cp_enabled policy then Inr None
      else
        and_then (make_compact_budget policy None None 6) (\<lambda>B.
        and_then (reserve_maybe_bytes B value_arg) (\<lambda>(v, B).
        case v of
          None \<Rightarrow> Inr None
        | Some value \<Rightarrow>
            and_then (pipeline_header mode (length ks)) (\<lambda>header.
            and_then (pack_u32 (int (length value))) (\<lambda>_.
              keys_value_loop ks True value B header)))))"

section \<open>Compact MSET payloads\<close>

definition invalid_compact_mset :: py_error where
  "invalid_compact_mset = InvalidCommandError ''MSET payload must be a valid compact key/value payload''"

definition mset_chunk :: "bytes \<Rightarrow> nat \<Rightarrow> (bytes \<times> nat) result" where
  "mset_chunk payload off =
     (if off + 4 > length payload then Inl invalid_compact_mset
      else
        let n = be_decode (bytes_slice payload off 4); off = off + 4 in
        if off + n > length payload then Inl invalid_compact_mset
        else Inr (bytes_slice payload off n, off + n))"

fun mset_loop :: "bytes \<Rightarrow> nat \<Rightarrow> nat \<Rightarrow> (bytes list \<times> nat) result" where
  "mset_loop payload 0 off = Inr ([], off)"
| "mset_loop payload (Suc n) off =
     and_then (mset_chunk payload off) (\<lambda>(key, off).
     and_then (mset_chunk payload off) (\<lambda>(_, off).
     and_then (mset_loop payload n off) (\<lambda>(ks, off). Inr (key # ks, off))))"

definition parse_compact_mset_payload :: "pyval \<Rightarrow> bytes list result" where
  "parse_compact_mset_payload value =
     (case value of
        PBytes payload \<Rightarrow>
          if length payload < 6 then Inl invalid_compact_mset
          else
            let marker = payload ! 0; mode = payload ! 1; n = be_decode (bytes_slice payload 2 4) in
            if marker \<noteq> 0x94 \<or> mode \<noteq> 1 \<or> n = 0 then Inl invalid_compact_mset
            else and_then (mset_loop payload n 6) (\<lambda>(ks, off).
              if off \<noteq> length payload then Inl invalid_compact_mset else Inr ks)
      | _ \<Rightarrow> Inl invalid_compact_mset)"

fun slots_equal :: "nat \<Rightarrow> route_key list \<Rightarrow> bool result" where
  "slots_equal slot [] = Inr True"
| "slots_equal slot (k # ks) =
     and_then (slot_for_key k) (\<lambda>s. if s \<noteq> slot then Inr False else slots_equal slot ks)"

definition validate_mset_slots :: "route_key list \<Rightarrow> unit result" where
  "validate_mset_slots ks =
     (case ks of
        k # k' # rest \<Rightarrow>
          and_then (slot_for_key k) (\<lambda>first_slot.
          and_then (slots_equal first_slot (k' # rest)) (\<lambda>same.
          if same then Inr ()
          else Inl (InvalidCommandError ''MSET and MSETNX keys must hash to the same slot'')))
      | _ \<Rightarrow> Inr ())"

definition validate_compact_mset_payload :: "pyval \<Rightarrow> bytes list result" where
  "validate_compact_mset_payload value =
     and_then (parse_compact_mset_payload value) (\<lambda>ks.
     and_then (validate_mset_slots (map Key_bytes ks)) (\<lambda>_. Inr ks))"

section \<open>Measured and encoded sizes agree\<close>

text \<open>What the encoders mean by the bytes of an argument: declined unless it is text or bytes.\<close>

definition encode_arg :: "pyval \<Rightarrow> bytes option result" where
  "encode_arg v = (case v of PBytes b \<Rightarrow> Inr (Some b) | PStr s \<Rightarrow> returns (utf8_encode s) | _ \<Rightarrow> Inr None)"

definition admits_size :: "int option \<Rightarrow> int \<Rightarrow> bool" where
  "admits_size limit n = (case limit of None \<Rightarrow> True | Some m \<Rightarrow> n \<le> m)"

lemma admits_size_mono: "admits_size limit n \<Longrightarrow> m \<le> n \<Longrightarrow> admits_size limit m"
  by (auto simp: admits_size_def split: option.splits)

lemma wire_scan_eq:
  "wire_scan n s = (case utf8_encode s of Inl _ \<Rightarrow> None | Inr b \<Rightarrow> Some (n + length b))"
proof (induction s arbitrary: n)
  case (Cons c s)
  then show ?case
    by (cases "utf8_encode s") (simp_all add: is_surrogate_def utf8_width_def)
qed simp

lemma utf8_encode_ascii: "str_isascii s \<Longrightarrow> \<exists>b. utf8_encode s = Inr b"
  by (induction s) (auto simp: str_isascii_def is_surrogate_def)

lemma utf8_encode_declined: "utf8_encode s = Inl e \<Longrightarrow> e = UnicodeEncodeError"
  by (induction s arbitrary: e) (auto simp: and_then_eq_Inl split: if_splits)

lemma binary_wire_size_str:
  "binary_wire_size (PStr s) = (case utf8_encode s of Inl _ \<Rightarrow> None | Inr b \<Rightarrow> Some (4 + length b))"
proof (cases "str_isascii s")
  case True
  then obtain b where "utf8_encode s = Inr b" using utf8_encode_ascii by blast
  then show ?thesis
    using True length_utf8_encode [of s b] sum_utf8_width_ascii [of s] by (simp add: binary_wire_size_def)
next
  case False
  then show ?thesis by (simp add: binary_wire_size_def wire_scan_eq)
qed

lemma cb_reserve_nat:
  "cb_reserve B (int n) =
     (if admits_size (cb_max_payload_bytes B) (cb_size B + int n) then Inr (B\<lparr>cb_size := cb_size B + int n\<rparr>)
      else Inl pending_request_capacity_error)"
  by (auto simp: cb_reserve_def admits_size_def split: option.splits)

lemma reserve_maybe_bytes_eq:
  "reserve_maybe_bytes B v =
     and_then (encode_arg v) (\<lambda>x. case x of
         None \<Rightarrow> Inr (None, B)
       | Some x \<Rightarrow> and_then (cb_reserve B (int (4 + length x))) (\<lambda>B. Inr (Some x, B)))"
  by (cases v)
    (auto simp: reserve_maybe_bytes_def encode_arg_def binary_wire_size_str returns_def split: sum.splits)

lemma bounded_maybe_bytes_eq:
  "bounded_maybe_bytes active v m =
     (if m = None \<and> \<not> cp_enabled active then Inr None
      else opt_then (encode_arg v) (\<lambda>x.
        if admits_size (case m of None \<Rightarrow> cp_max_payload_bytes active | Some m \<Rightarrow> Some m) (int (4 + length x))
        then Inr (Some x) else Inl pending_request_capacity_error))"
  by (cases v; cases m; cases "cp_max_payload_bytes active")
    (auto simp: bounded_maybe_bytes_def admit_bytes_def encode_arg_def binary_wire_size_str returns_def
      admits_size_def Let_def and_then_def split: sum.splits)

section \<open>Exactness of the sequence encoders\<close>

definition pipeline_head :: "int \<Rightarrow> nat \<Rightarrow> bytes" where
  "pipeline_head mode n = be_encode 1 0x94 @ be_encode 1 (nat mode) @ u32_bytes n"

definition mode_ok :: "int \<Rightarrow> bool" where
  "mode_ok mode \<longleftrightarrow> 0 \<le> mode \<and> mode < 256"

definition arg_as :: "pyval \<Rightarrow> bytes \<Rightarrow> bool" where
  "arg_as a x \<longleftrightarrow> encode_arg a = Inr (Some x) \<and> small (length x)"

definition wires :: "bytes list \<Rightarrow> bytes" where
  "wires xs = concat (map compact_wire xs)"

lemma wires_simps [simp]:
  "wires [] = []" "wires (x # xs) = compact_wire x @ wires xs" "wires (xs @ ys) = wires xs @ wires ys"
  by (simp_all add: wires_def)

lemma length_compact_wire [simp]: "length (compact_wire x) = 4 + length x"
  by (simp add: compact_wire_def)

lemma length_pipeline_head [simp]: "length (pipeline_head mode n) = 6"
  by (simp add: pipeline_head_def)

lemma pipeline_header_Inr:
  "pipeline_header mode n = Inr h \<longleftrightarrow> mode_ok mode \<and> small n \<and> h = pipeline_head mode n"
  by (auto simp: pipeline_header_def pack_uint_Inr mode_ok_def small_def pipeline_head_def
      COMPACT_PIPELINE_REQUEST_def simp del: be_encode.simps split: if_splits)

lemma compact_binary_Inr: "compact_binary x = Inr p \<longleftrightarrow> small (length x) \<and> p = compact_wire x"
  by (auto simp: compact_binary_def small_def compact_wire_def split: if_splits)

lemma ex_list_all2_Cons:
  "(\<exists>xs. list_all2 R (a # args) xs \<and> P xs) \<longleftrightarrow> (\<exists>x xs. R a x \<and> list_all2 R args xs \<and> P (x # xs))"
  by (auto simp: list_all2_Cons1)

lemma sequence_unbounded_Cons:
  "sequence_unbounded (a # args) acc = Inr (Some p) \<longleftrightarrow>
     (\<exists>x. arg_as a x \<and> sequence_unbounded args (acc @ compact_wire x) = Inr (Some p))"
  by (cases a) (auto simp: arg_as_def encode_arg_def compact_binary_Inr)

lemma sequence_unbounded_exact:
  "sequence_unbounded args acc = Inr (Some p) \<longleftrightarrow> (\<exists>xs. list_all2 arg_as args xs \<and> p = acc @ wires xs)"
proof (induction args arbitrary: acc)
  case (Cons a args)
  show ?case
    unfolding ex_list_all2_Cons sequence_unbounded_Cons Cons.IH by auto
qed auto

lemma sequence_text_Some:
  "sequence_text s r = Inr (Some (x, n)) \<and> n \<le> r \<longleftrightarrow>
     encode_arg (PStr s) = Inr (Some x) \<and> n = 4 + int (length x) \<and> n \<le> r"
  using length_utf8_encode [of s] sum_utf8_width_ge [of s]
  by (auto simp: sequence_text_def binary_wire_size_str encode_arg_def split: sum.splits)

lemma sequence_bounded_Cons:
  "sequence_bounded (a # args) r acc = Inr (Some p) \<longleftrightarrow>
     (\<exists>x. arg_as a x \<and> 4 + int (length x) \<le> r \<and>
        sequence_bounded args (r - (4 + int (length x))) (acc @ compact_wire x) = Inr (Some p))"
proof (cases a)
  case (PStr s)
  have "sequence_bounded (a # args) r acc = Inr (Some p) \<longleftrightarrow>
    (\<exists>x n. (sequence_text s r = Inr (Some (x, n)) \<and> n \<le> r) \<and> small (length x) \<and>
       sequence_bounded args (r - n) (acc @ compact_wire x) = Inr (Some p))"
    by (auto simp: PStr compact_binary_Inr not_less split: if_splits)
  then show ?thesis
    unfolding sequence_text_Some by (auto simp: PStr arg_as_def)
qed (auto simp: arg_as_def encode_arg_def compact_binary_Inr split: if_splits)

lemma sequence_bounded_exact:
  assumes "0 \<le> r"
  shows "sequence_bounded args r acc = Inr (Some p) \<longleftrightarrow>
     (\<exists>xs. list_all2 arg_as args xs \<and> p = acc @ wires xs \<and> int (length (wires xs)) \<le> r)"
  using assms
proof (induction args arbitrary: r acc)
  case (Cons a args)
  have "sequence_bounded (a # args) r acc = Inr (Some p) \<longleftrightarrow>
    (\<exists>x. arg_as a x \<and> 4 + int (length x) \<le> r \<and>
      (\<exists>xs. list_all2 arg_as args xs \<and> p = acc @ compact_wire x @ wires xs \<and>
         int (length (wires xs)) \<le> r - (4 + int (length x))))"
    unfolding sequence_bounded_Cons using Cons.IH by (intro ex_cong1 conj_cong refl) simp
  also have "\<dots> \<longleftrightarrow> (\<exists>x xs. arg_as a x \<and> list_all2 arg_as args xs \<and> p = acc @ wires (x # xs) \<and>
      int (length (wires (x # xs))) \<le> r)"
    by fastforce
  finally show ?case
    unfolding ex_list_all2_Cons .
qed auto

lemma compact_binary_sequence_exact:
  "compact_binary_sequence policy args mode n = Inr (Some p) \<longleftrightarrow>
     cp_enabled policy \<and> mode_ok mode \<and> small n \<and>
     (\<exists>xs. list_all2 arg_as args xs \<and> p = pipeline_head mode n @ wires xs) \<and>
     admits_size (cp_max_payload_bytes policy) (int (length p))"
proof (cases "cp_max_payload_bytes policy")
  case None
  then show ?thesis
    by (auto simp: compact_binary_sequence_def pipeline_header_Inr sequence_unbounded_exact admits_size_def)
next
  case (Some m)
  show ?thesis
  proof (cases "6 \<le> m")
    case True
    with Some show ?thesis
      by (auto simp: compact_binary_sequence_def pipeline_header_Inr sequence_bounded_exact admits_size_def)
  next
    case False
    with Some show ?thesis
      by (auto simp: compact_binary_sequence_def admits_size_def)
  qed
qed

section \<open>Exactness of repeated-value payloads\<close>

lemma reserve_maybe_bytes_Some:
  "reserve_maybe_bytes B v = Inr (Some x, B') \<longleftrightarrow>
     encode_arg v = Inr (Some x) \<and>
     admits_size (cb_max_payload_bytes B) (cb_size B + int (length (compact_wire x))) \<and>
     B' = B\<lparr>cb_size := cb_size B + int (length (compact_wire x))\<rparr>"
  by (auto simp: reserve_maybe_bytes_eq cb_reserve_nat simp del: of_nat_add split: option.splits if_splits)

lemma make_compact_budget_policy:
  "make_compact_budget policy None None (int n) =
     (if admits_size (cp_max_payload_bytes policy) (int n)
      then Inr \<lparr>cb_max_payload_bytes = cp_max_payload_bytes policy,
                cb_pending_limit = cp_pending_limit policy, cb_size = int n\<rparr>
      else Inl pending_request_capacity_error)"
  by (simp add: make_compact_budget_def cb_reserve_nat)

definition repeated :: "bytes \<Rightarrow> bytes list \<Rightarrow> bytes" where
  "repeated v ks = concat (map (\<lambda>k. compact_wire k @ compact_wire v) ks)"

lemma repeated_simps [simp]:
  "repeated v [] = []" "repeated v (k # ks) = compact_wire k @ compact_wire v @ repeated v ks"
  by (simp_all add: repeated_def)

lemma keys_value_loop_Cons:
  assumes "small (length v)"
  shows "keys_value_loop (a # ks) first v B payload = Inr (Some p) \<longleftrightarrow>
     (\<exists>k B'. arg_as a k \<and>
        B' = B\<lparr>cb_size := cb_size B + int (length (compact_wire k)) +
                 (if first then 0 else int (length (compact_wire v)))\<rparr> \<and>
        admits_size (cb_max_payload_bytes B') (cb_size B') \<and>
        keys_value_loop ks False v B' (payload @ compact_wire k @ compact_wire v) = Inr (Some p))"
  (is "?l = ?r")
proof
  assume ?l
  then show ?r
    using assms
    by (auto simp: arg_as_def reserve_maybe_bytes_Some cb_reserve_nat compact_binary_Inr
        simp del: of_nat_add split: option.splits if_splits)
next
  assume ?r
  then obtain k B' where k: "arg_as a k"
    and B': "B' = B\<lparr>cb_size := cb_size B + int (length (compact_wire k)) +
                 (if first then 0 else int (length (compact_wire v)))\<rparr>"
    and ad: "admits_size (cb_max_payload_bytes B') (cb_size B')"
    and l: "keys_value_loop ks False v B' (payload @ compact_wire k @ compact_wire v) = Inr (Some p)"
    by blast
  have "reserve_maybe_bytes B a = Inr (Some k, B\<lparr>cb_size := cb_size B + int (length (compact_wire k))\<rparr>)"
    using k ad B' by (auto simp: reserve_maybe_bytes_Some arg_as_def elim: admits_size_mono)
  moreover have "compact_binary k = Inr (compact_wire k)" "compact_binary v = Inr (compact_wire v)"
    using k assms by (simp_all add: compact_binary_Inr arg_as_def)
  ultimately show ?l
    using ad l B' by (cases first) (simp_all add: cb_reserve_nat del: of_nat_add)
qed

lemma keys_value_loop_exact:
  assumes "small (length v)" and "admits_size (cb_max_payload_bytes B) (cb_size B)"
  shows "keys_value_loop args False v B payload = Inr (Some p) \<longleftrightarrow>
     (\<exists>xs. list_all2 arg_as args xs \<and> p = payload @ repeated v xs \<and>
        admits_size (cb_max_payload_bytes B) (cb_size B + int (length (repeated v xs))))"
  using assms(2)
proof (induction args arbitrary: B payload)
  case Nil
  then show ?case by auto
next
  case (Cons a args)
  let ?B = "\<lambda>k. B\<lparr>cb_size := cb_size B + int (length (compact_wire k)) + int (length (compact_wire v))\<rparr>"
  have total: "cb_size (?B k) + int (length (repeated v xs)) = cb_size B + int (length (repeated v (k # xs)))"
    for k xs by simp
  have less: "admits_size m (cb_size B + int (length (repeated v (k # xs)))) \<Longrightarrow> admits_size m (cb_size (?B k))"
    for m k xs by (erule admits_size_mono) simp
  have "keys_value_loop (a # args) False v B payload = Inr (Some p) \<longleftrightarrow>
    (\<exists>k. arg_as a k \<and> admits_size (cb_max_payload_bytes B) (cb_size (?B k)) \<and>
      (\<exists>xs. list_all2 arg_as args xs \<and> p = payload @ repeated v (k # xs) \<and>
        admits_size (cb_max_payload_bytes B) (cb_size (?B k) + int (length (repeated v xs)))))"
    unfolding keys_value_loop_Cons [OF assms(1)]
    using Cons.IH [of "?B _"] by (simp cong: conj_cong)
  also have "\<dots> \<longleftrightarrow> (\<exists>x xs. arg_as a x \<and> list_all2 arg_as args xs \<and> p = payload @ repeated v (x # xs) \<and>
      admits_size (cb_max_payload_bytes B) (cb_size B + int (length (repeated v (x # xs)))))"
    unfolding total using less by blast
  finally show ?case
    unfolding ex_list_all2_Cons .
qed

lemma keys_value_loop_first:
  assumes "small (length v)" and "length h = 6" and "args \<noteq> []"
  shows "keys_value_loop args True v
      \<lparr>cb_max_payload_bytes = m, cb_pending_limit = l, cb_size = 6 + int (length (compact_wire v))\<rparr> h = Inr (Some p) \<longleftrightarrow>
     (\<exists>xs. list_all2 arg_as args xs \<and> p = h @ repeated v xs \<and> admits_size m (int (length p)))"
proof -
  obtain a as where args: "args = a # as" using assms(3) by (cases args) auto
  let ?B = "\<lambda>n. \<lparr>cb_max_payload_bytes = m, cb_pending_limit = l, cb_size = n\<rparr>"
  let ?n = "\<lambda>k. 6 + int (length (compact_wire v)) + int (length (compact_wire k))"
  have total: "?n k + int (length (repeated v xs)) = int (length (h @ repeated v (k # xs)))" for k xs
    using assms(2) by simp
  have less: "admits_size m (int (length (h @ repeated v (k # xs)))) \<Longrightarrow> admits_size m (?n k)" for k xs
    using assms(2) by (elim admits_size_mono) simp
  have "keys_value_loop args True v (?B (6 + int (length (compact_wire v)))) h = Inr (Some p) \<longleftrightarrow>
    (\<exists>k. arg_as a k \<and> admits_size m (?n k) \<and>
      (\<exists>xs. list_all2 arg_as as xs \<and> p = h @ repeated v (k # xs) \<and>
        admits_size m (?n k + int (length (repeated v xs)))))"
    unfolding args keys_value_loop_Cons [OF assms(1)]
    using keys_value_loop_exact [OF assms(1), of "?B (?n _)"] by (simp cong: conj_cong)
  also have "\<dots> \<longleftrightarrow> (\<exists>k xs. arg_as a k \<and> list_all2 arg_as as xs \<and> p = h @ repeated v (k # xs) \<and>
      admits_size m (int (length p)))"
    unfolding total using less by blast
  finally show ?thesis
    unfolding args ex_list_all2_Cons .
qed

definition policy_budget :: "compact_policy \<Rightarrow> int \<Rightarrow> compact_budget" where
  "policy_budget policy n =
     \<lparr>cb_max_payload_bytes = cp_max_payload_bytes policy, cb_pending_limit = cp_pending_limit policy,
      cb_size = n\<rparr>"

lemma policy_budget_simps [simp]:
  "cb_max_payload_bytes (policy_budget policy n) = cp_max_payload_bytes policy"
  "cb_size (policy_budget policy n) = n"
  "policy_budget policy n\<lparr>cb_size := k\<rparr> = policy_budget policy k"
  by (simp_all add: policy_budget_def)

lemma keys_value_payload_step:
  fixes policy :: compact_policy and ks :: "pyval list" and mode :: int
  defines "n v \<equiv> 6 + int (length (compact_wire v))" and "h \<equiv> pipeline_head mode (length ks)"
  assumes "ks \<noteq> []" and "cp_enabled policy"
  shows "compact_kv_set_keys_value_payload policy ks value_arg mode = Inr (Some p) \<longleftrightarrow>
    (\<exists>v. admits_size (cp_max_payload_bytes policy) 6 \<and>
       reserve_maybe_bytes (policy_budget policy 6) value_arg = Inr (Some v, policy_budget policy (n v)) \<and>
       pipeline_header mode (length ks) = Inr h \<and> small (length v) \<and>
       keys_value_loop ks True v (policy_budget policy (n v)) h = Inr (Some p))"
proof (cases "admits_size (cp_max_payload_bytes policy) 6")
  case True
  then have mk: "make_compact_budget policy None None 6 = Inr (policy_budget policy 6)"
    using make_compact_budget_policy [of policy 6] by (simp add: policy_budget_def)
  show ?thesis
  proof (cases "\<exists>v. reserve_maybe_bytes (policy_budget policy 6) value_arg = Inr (Some v, policy_budget policy (n v))")
    case True
    then show ?thesis
      using assms mk \<open>admits_size _ 6\<close>
      by (cases "pipeline_header mode (length ks)")
        (auto simp: compact_kv_set_keys_value_payload_def pipeline_header_Inr small_def split: if_splits)
  next
    case False
    then have "\<nexists>v B. reserve_maybe_bytes (policy_budget policy 6) value_arg = Inr (Some v, B)"
      by (auto simp: reserve_maybe_bytes_Some n_def)
    then show ?thesis
      using assms mk by (auto simp: compact_kv_set_keys_value_payload_def split: option.splits)
  qed
next
  case False
  then show ?thesis
    using assms make_compact_budget_policy [of policy 6]
    by (simp add: compact_kv_set_keys_value_payload_def)
qed

lemma keys_value_payload_exact:
  "compact_kv_set_keys_value_payload policy ks value_arg mode = Inr (Some p) \<longleftrightarrow>
     ks \<noteq> [] \<and> cp_enabled policy \<and> mode_ok mode \<and> small (length ks) \<and>
     (\<exists>v xs. arg_as value_arg v \<and> list_all2 arg_as ks xs \<and>
        p = pipeline_head mode (length ks) @ repeated v xs) \<and>
     admits_size (cp_max_payload_bytes policy) (int (length p))" (is "?l = ?r")
proof (cases "ks = [] \<or> \<not> cp_enabled policy")
  case False
  let ?n = "\<lambda>v. 6 + int (length (compact_wire v))"
  let ?head = "pipeline_head mode (length ks)"
  note step = keys_value_payload_step [of ks policy value_arg mode p]
  note first = keys_value_loop_first [of _ ?head ks "cp_max_payload_bytes policy" "cp_pending_limit policy" p,
      folded policy_budget_def]
  show ?thesis
  proof
    assume ?l
    then obtain v where "arg_as value_arg v" "pipeline_header mode (length ks) = Inr ?head"
      "keys_value_loop ks True v (policy_budget policy (?n v)) ?head = Inr (Some p)"
      using step False by (auto simp: reserve_maybe_bytes_Some arg_as_def)
    then show ?r
      using False first [of v] by (auto simp: pipeline_header_Inr arg_as_def)
  next
    assume r: ?r
    then obtain v xs where v: "arg_as value_arg v" and xs: "list_all2 arg_as ks xs"
      and p: "p = ?head @ repeated v xs" by blast
    have "?n v \<le> int (length p)"
      using xs False unfolding p by (cases xs) auto
    then have "admits_size (cp_max_payload_bytes policy) (?n v)" "admits_size (cp_max_payload_bytes policy) 6"
      using r by (auto elim!: admits_size_mono)
    moreover from this v
    have "reserve_maybe_bytes (policy_budget policy 6) value_arg = Inr (Some v, policy_budget policy (?n v))"
      by (simp add: reserve_maybe_bytes_Some arg_as_def)
    moreover have "keys_value_loop ks True v (policy_budget policy (?n v)) ?head = Inr (Some p)"
      using False v r xs p first [of v] by (auto simp: arg_as_def)
    ultimately show ?l
      using step r v by (auto simp: pipeline_header_Inr arg_as_def)
  qed
qed (auto simp: compact_kv_set_keys_value_payload_def)

section \<open>Compact MSET payloads parse back\<close>

definition pair_small :: "bytes \<times> bytes \<Rightarrow> bool" where
  "pair_small p \<longleftrightarrow> small (length (fst p)) \<and> small (length (snd p))"

lemma pair_forms:
  "pair_wire (k, v) = compact_wire k @ compact_wire v"
  "pair_small (k, v) \<longleftrightarrow> small (length k) \<and> small (length v)"
  by (simp_all add: pair_wire_def pair_small_def)

lemma mset_chunk_Inr:
  "mset_chunk payload off = Inr (x, off') \<longleftrightarrow>
     small (length x) \<and> occurs payload off (compact_wire x) \<and> off' = off + length (compact_wire x)"
proof -
  have "mset_chunk payload off = Inr (x, off') \<longleftrightarrow>
    (\<exists>n. (off + 4 \<le> length payload \<and> be_decode (bytes_slice payload off 4) = n) \<and>
       off + 4 + n \<le> length payload \<and> x = bytes_slice payload (off + 4) n \<and> off' = off + 4 + n)"
    by (auto simp: mset_chunk_def Let_def)
  also have "\<dots> \<longleftrightarrow> (\<exists>n. n < 2 ^ 32 \<and> occurs payload off (u32_bytes n) \<and>
       length x = n \<and> occurs payload (off + 4) x \<and> off' = off + 4 + n)"
    unfolding occurs_u32 by (auto simp: occurs_def length_bytes_slice)
  finally show ?thesis
    by (auto simp: small_def compact_wire_def occurs_append)
qed

lemma mset_loop_exact:
  assumes "off \<le> length payload"
  shows "mset_loop payload n off = Inr (ks, off') \<longleftrightarrow>
     (\<exists>d. length d = n \<and> list_all pair_small d \<and> occurs payload off (concat (map pair_wire d)) \<and>
        off' = off + length (concat (map pair_wire d)) \<and> ks = map fst d)"
  using assms
proof (induction n arbitrary: off ks)
  case (Suc n)
  show ?case (is "?l = ?r")
  proof
    assume ?l
    then obtain k v ks' o1 o2 where k: "mset_chunk payload off = Inr (k, o1)"
      and v: "mset_chunk payload o1 = Inr (v, o2)" and l: "mset_loop payload n o2 = Inr (ks', off')"
      and ks: "ks = k # ks'" by auto
    have "o2 \<le> length payload"
      using v occurs_le [of payload o1 "compact_wire v"] by (simp add: mset_chunk_Inr)
    from Suc.IH [OF this, of ks'] l obtain d where "length d = n" "list_all pair_small d"
      "occurs payload o2 (concat (map pair_wire d))" "off' = o2 + length (concat (map pair_wire d))"
      "ks' = map fst d" by auto
    then show ?r
      using k v ks
      by (intro exI [of _ "(k, v) # d"])
        (auto simp: mset_chunk_Inr pair_forms occurs_append add.assoc)
  next
    assume ?r
    then obtain k v d where d: "length d = n" "pair_small (k, v)" "list_all pair_small d"
      "occurs payload off (pair_wire (k, v) @ concat (map pair_wire d))"
      "off' = off + length (pair_wire (k, v)) + length (concat (map pair_wire d))" "ks = k # map fst d"
      by (auto simp: length_Suc_conv)
    let ?o1 = "off + length (compact_wire k)" and ?o2 = "off + length (pair_wire (k, v))"
    have c: "mset_chunk payload off = Inr (k, ?o1)" "mset_chunk payload ?o1 = Inr (v, ?o2)"
      using d by (simp_all add: mset_chunk_Inr pair_small_def pair_wire_def occurs_append)
    have "?o2 \<le> length payload"
      using d(4) occurs_le [of payload off "pair_wire (k, v)"] by (simp add: occurs_append)
    from Suc.IH [OF this, of "map fst d"] have "mset_loop payload n ?o2 = Inr (map fst d, off')"
      using d by (auto simp: occurs_append intro!: exI [of _ d])
    then show ?l using c d by simp
  qed
qed auto

lemma pipeline_head_1: "pipeline_head 1 n = [0x94, 0x01] @ u32_bytes n"
  by (simp add: pipeline_head_def)

lemma parse_compact_mset_exact:
  "parse_compact_mset_payload (PBytes p) = Inr ks \<longleftrightarrow>
     (\<exists>d. d \<noteq> [] \<and> small (length d) \<and> list_all pair_small d \<and>
        p = pipeline_head 1 (length d) @ concat (map pair_wire d) \<and> ks = map fst d)" (is "?l = ?r")
proof
  assume l: ?l
  then have len: "6 \<le> length p" by (auto simp: parse_compact_mset_payload_def not_less split: if_splits)
  define n where "n = be_decode (bytes_slice p 2 4)"
  have u: "n < 2 ^ 32" "occurs p 2 (u32_bytes n)"
    using occurs_u32 [of 2 p n] len by (simp_all add: n_def)
  from l len have m: "p ! 0 = 0x94" "p ! 1 = 1" "n \<noteq> 0" and loop: "mset_loop p n 6 = Inr (ks, length p)"
    by (auto simp: parse_compact_mset_payload_def Let_def n_def split: if_splits)
  from loop len mset_loop_exact [of 6 p n ks "length p"]
  obtain d where d: "length d = n" "list_all pair_small d" "occurs p 6 (concat (map pair_wire d))"
    "length p = 6 + length (concat (map pair_wire d))" "ks = map fst d" by auto
  have "occurs p 0 (pipeline_head 1 n @ concat (map pair_wire d))"
    using len m u d by (simp add: pipeline_head_1 occurs_Cons occurs_append numeral_2_eq_2)
  then have "p = pipeline_head 1 n @ concat (map pair_wire d)"
    using occurs_to_end [of p 0 "pipeline_head 1 n @ concat (map pair_wire d)"] d(4) by simp
  with d u m show ?r by (intro exI [of _ d]) (auto simp: small_def)
next
  assume ?r
  then obtain d where d: "d \<noteq> []" "small (length d)" "list_all pair_small d" "ks = map fst d"
    and p: "p = pipeline_head 1 (length d) @ concat (map pair_wire d)" by blast
  have o: "occurs p 0 (pipeline_head 1 (length d) @ concat (map pair_wire d))"
    using occurs_to_end [of p 0 p] by (simp add: p)
  then have "occurs p 2 (u32_bytes (length d))" "occurs p 6 (concat (map pair_wire d))"
    "p ! 0 = 0x94" "p ! 1 = 1"
    by (simp_all add: pipeline_head_1 occurs_Cons occurs_append numeral_2_eq_2)
  moreover from this(1) have "be_decode (bytes_slice p 2 4) = length d"
    using occurs_u32 [of 2 p "length d"] d by (simp add: small_def)
  moreover have "mset_loop p (length d) 6 = Inr (ks, length p)"
    using calculation(2) d mset_loop_exact [of 6 p "length d" ks "length p"]
    by (auto simp: p intro!: exI [of _ d])
  ultimately show ?l
    using d by (simp add: parse_compact_mset_payload_def p)
qed

fun pairs_of :: "'a list \<Rightarrow> ('a \<times> 'a) list" where
  "pairs_of (x # y # r) = (x, y) # pairs_of r"
| "pairs_of _ = []"

lemma pairs_of_facts:
  assumes "even (length xs)"
  shows "map fst (pairs_of xs) = evens xs" and "length (pairs_of xs) = length xs div 2"
    and "concat (map pair_wire (pairs_of xs)) = wires xs"
    and "list_all pair_small (pairs_of xs) \<longleftrightarrow> list_all (\<lambda>x. small (length x)) xs"
  using assms by (induction xs rule: pairs_of.induct) (auto simp: pair_wire_def pair_small_def)

lemma slots_equal_True:
  "slots_equal slot ks = Inr True \<longleftrightarrow> (\<forall>k\<in>set ks. slot_for_key k = Inr slot)"
  by (induction ks) (auto split: if_splits)

lemma slot_for_bytes: "\<exists>s. slot_for_key (Key_bytes b) = Inr s"
  by (simp add: slot_for_key_def)

lemma validate_compact_mset_exact:
  "validate_compact_mset_payload v = Inr ks \<longleftrightarrow>
     parse_compact_mset_payload v = Inr ks \<and>
     (\<exists>s. \<forall>k\<in>set ks. slot_for_key (Key_bytes k) = Inr s)"
proof (cases "parse_compact_mset_payload v")
  case (Inr ks')
  have "validate_mset_slots (map Key_bytes ks') = Inr () \<longleftrightarrow>
     (\<exists>s. \<forall>k\<in>set ks'. slot_for_key (Key_bytes k) = Inr s)"
  proof (cases ks')
    case (Cons k r)
    obtain s where s: "slot_for_key (Key_bytes k) = Inr s" using slot_for_bytes by blast
    then show ?thesis
      using slots_equal_True [of s "map Key_bytes r"]
      by (cases r) (auto simp: Cons validate_mset_slots_def split: if_splits)
  qed (simp add: validate_mset_slots_def)
  then show ?thesis
    by (auto simp: Inr validate_compact_mset_payload_def)
qed (simp add: validate_compact_mset_payload_def)

lemma set_pairs_exact:
  "compact_kv_set_pairs_payload policy args mode = Inr (Some p) \<longleftrightarrow>
     args \<noteq> [] \<and> even (length args) \<and> cp_enabled policy \<and> mode_ok mode \<and> small (length args div 2) \<and>
     (\<exists>xs. list_all2 arg_as args xs \<and> p = pipeline_head mode (length args div 2) @ wires xs) \<and>
     admits_size (cp_max_payload_bytes policy) (int (length p))"
  by (auto simp: compact_kv_set_pairs_payload_def compact_binary_sequence_exact)

lemma pairs_of_keys_value:
  assumes "arg_as v x"
  shows "list_all2 arg_as (concat (map (\<lambda>k. [k, v]) ks)) zs \<longleftrightarrow>
     (\<exists>xs. list_all2 arg_as ks xs \<and> zs = concat (map (\<lambda>y. [y, x]) xs))"
proof (induction ks arbitrary: zs)
  case (Cons k ks)
  have "arg_as v y \<longleftrightarrow> y = x" for y using assms by (auto simp: arg_as_def)
  with Cons show ?case by (fastforce simp: list_all2_Cons1)
qed auto

lemma wires_repeated: "wires (concat (map (\<lambda>y. [y, x]) xs)) = repeated x xs"
  by (induction xs) auto

lemma keys_value_as_pairs:
  assumes "ks \<noteq> []"
  shows "(\<exists>xs. list_all2 arg_as (concat (map (\<lambda>k. [k, v]) ks)) xs \<and> q = h @ wires xs) \<longleftrightarrow>
     (\<exists>x xs. arg_as v x \<and> list_all2 arg_as ks xs \<and> q = h @ repeated x xs)"
proof -
  have "list_all2 arg_as (concat (map (\<lambda>k. [k, v]) ks)) zs \<Longrightarrow> \<exists>x. arg_as v x" for zs
    using assms by (cases ks) (auto simp: list_all2_Cons1)
  then show ?thesis
    by (metis (no_types, lifting) pairs_of_keys_value wires_repeated)
qed

text \<open>
  C30. The compact SET, key-list and repeated-value payloads are exact: one is produced exactly when
  the policy allows compact encoding, every argument is text or bytes that encodes, and the length of
  the finished payload respects the transport's byte limit; it is the six-byte header followed by the
  length-prefixed arguments. The repeated-value encoder produces what the pair encoder produces for
  the same keys and value written out as pairs.
\<close>
theorem compact_kv_payloads_exact:
  "(compact_kv_set_pairs_payload policy args mode = Inr (Some p) \<longleftrightarrow>
      args \<noteq> [] \<and> even (length args) \<and> cp_enabled policy \<and> mode_ok mode \<and> small (length args div 2) \<and>
      (\<exists>xs. list_all2 arg_as args xs \<and> p = pipeline_head mode (length args div 2) @ wires xs) \<and>
      admits_size (cp_max_payload_bytes policy) (int (length p))) \<and>
   (compact_kv_keys_payload policy args mode = Inr (Some p) \<longleftrightarrow>
      args \<noteq> [] \<and> cp_enabled policy \<and> mode_ok mode \<and> small (length args) \<and>
      (\<exists>xs. list_all2 arg_as args xs \<and> p = pipeline_head mode (length args) @ wires xs) \<and>
      admits_size (cp_max_payload_bytes policy) (int (length p))) \<and>
   (compact_kv_set_keys_value_payload policy args value_arg mode = Inr (Some p) \<longleftrightarrow>
      compact_kv_set_pairs_payload policy (concat (map (\<lambda>k. [k, value_arg]) args)) mode = Inr (Some p))"
proof (intro conjI)
  have len: "length (concat (map (\<lambda>k. [k, value_arg]) args)) = 2 * length args"
    by (induction args) auto
  show "compact_kv_set_keys_value_payload policy args value_arg mode = Inr (Some p) \<longleftrightarrow>
      compact_kv_set_pairs_payload policy (concat (map (\<lambda>k. [k, value_arg]) args)) mode = Inr (Some p)"
    by (cases "args = []") (simp_all add: set_pairs_exact keys_value_payload_exact len keys_value_as_pairs)
qed (auto simp: set_pairs_exact compact_kv_keys_payload_def compact_binary_sequence_exact)

text \<open>
  A compact MSET payload round-trips: the payload the SET-pair encoder builds in mode 1 parses to
  the encoded keys in order, and passes validation exactly when those keys hash to one slot.
\<close>
theorem mset_payload_roundtrip:
  assumes "compact_kv_set_pairs_payload policy args 1 = Inr (Some p)"
  shows "\<exists>xs. list_all2 arg_as args xs \<and>
     parse_compact_mset_payload (PBytes p) = Inr (evens xs) \<and>
     (validate_compact_mset_payload (PBytes p) = Inr (evens xs) \<longleftrightarrow>
        (\<exists>s. \<forall>k\<in>set (evens xs). slot_for_key (Key_bytes k) = Inr s))"
proof -
  from assms obtain xs where xs: "list_all2 arg_as args xs" and a: "args \<noteq> []" "even (length args)"
    "small (length args div 2)" and p: "p = pipeline_head 1 (length args div 2) @ wires xs"
    by (auto simp: set_pairs_exact)
  have len: "length xs = length args" using xs by (simp add: list_all2_lengthD)
  have sm: "list_all (\<lambda>x. small (length x)) xs"
    using xs by (induction rule: list_all2_induct) (auto simp: arg_as_def)
  have "pairs_of xs \<noteq> []"
    using a len pairs_of_facts(2) [of xs] by (cases xs rule: pairs_of.cases) auto
  then have "parse_compact_mset_payload (PBytes p) = Inr (evens xs)"
    unfolding parse_compact_mset_exact
    using a len sm p pairs_of_facts [of xs] by (intro exI [of _ "pairs_of xs"]) simp
  then show ?thesis
    using xs by (auto simp: validate_compact_mset_exact)
qed

theorem mset_payload_roundtrip_witness:
  "\<exists>xs. list_all2 arg_as [PStr [0x6B], PBytes [0x76, 0x77]] xs \<and>
     parse_compact_mset_payload (PBytes (pipeline_head 1 1 @ wires [[0x6B], [0x76, 0x77]])) = Inr (evens xs) \<and>
     (validate_compact_mset_payload (PBytes (pipeline_head 1 1 @ wires [[0x6B], [0x76, 0x77]])) = Inr (evens xs) \<longleftrightarrow>
        (\<exists>s. \<forall>k\<in>set (evens xs). slot_for_key (Key_bytes k) = Inr s))"
proof (rule mset_payload_roundtrip)
  show "compact_kv_set_pairs_payload \<lparr>cp_enabled = True, cp_max_payload_bytes = Some 17, cp_pending_limit = Some 41\<rparr>
      [PStr [0x6B], PBytes [0x76, 0x77]] 1 =
    Inr (Some (pipeline_head 1 1 @ wires [[0x6B], [0x76, 0x77]]))"
    unfolding set_pairs_exact
    by (auto simp: arg_as_def encode_arg_def small_def mode_ok_def admits_size_def is_surrogate_def
        utf8_char_def intro!: exI [of _ "[[0x6B], [0x76, 0x77]]"])
qed

end
