(* ===== verification/Flow_Payloads.thy ===== *)
theory Flow_Payloads
  imports Compact_Requests Response_Decoding Request_Outcome
begin

text \<open>
  Compact payloads of Flow requests: the builders of \<open>protocol_flow_codec.py\<close> for the batch commands,
  claims and value writes, and \<open>_expected_payload_collection_items\<close> of \<open>protocol_pipeline_codec.py\<close>, which
  recovers from a finished payload how many items its response must have. A payload is a Python
  dictionary from text to values; \<open>tr\<close> is the truth value of an object outside the modelled types, by
  type name.
\<close>

section \<open>Values of a payload\<close>

definition py_bool :: "(string \<Rightarrow> bool) \<Rightarrow> pyval \<Rightarrow> bool" where
  "py_bool tr v =
     (case v of
        PNone \<Rightarrow> False
      | PBool b \<Rightarrow> b
      | PInt n \<Rightarrow> n \<noteq> 0
      | PFloat x \<Rightarrow> unat x mod 2 ^ 63 \<noteq> 0
      | PStr s \<Rightarrow> s \<noteq> []
      | PBytes b \<Rightarrow> b \<noteq> []
      | PByteArray b \<Rightarrow> b \<noteq> []
      | PList l \<Rightarrow> l \<noteq> []
      | PTuple l \<Rightarrow> l \<noteq> []
      | PDict d \<Rightarrow> d \<noteq> []
      | PObject t \<Rightarrow> tr t
      | PQueryOptions _ _ \<Rightarrow> True)"

fun py_hashable :: "pyval \<Rightarrow> bool" where
  "py_hashable (PByteArray _) = False"
| "py_hashable (PList _) = False"
| "py_hashable (PDict _) = False"
| "py_hashable (PTuple l) = list_all py_hashable l"
| "py_hashable _ = True"

definition payload_find :: "(pyval \<times> pyval) list \<Rightarrow> string \<Rightarrow> pyval option" where
  "payload_find d k = dict_get d (PStr (text_lit k))"

definition payload_get :: "(pyval \<times> pyval) list \<Rightarrow> string \<Rightarrow> pyval" where
  "payload_get d k = (case payload_find d k of None \<Rightarrow> PNone | Some v \<Rightarrow> v)"

definition payload_get_or :: "(pyval \<times> pyval) list \<Rightarrow> string \<Rightarrow> pyval \<Rightarrow> pyval" where
  "payload_get_or d k dflt = (case payload_find d k of None \<Rightarrow> dflt | Some v \<Rightarrow> v)"

definition only_fields :: "(pyval \<times> pyval) list \<Rightarrow> string list \<Rightarrow> bool" where
  "only_fields d ks = list_all (\<lambda>(k, _). k \<in> set (map (\<lambda>f. PStr (text_lit f)) ks)) d"

definition new_compact_budget :: "compact_policy \<Rightarrow> nat \<Rightarrow> compact_budget option result" where
  "new_compact_budget policy initial_size =
     (if \<not> cp_enabled policy then Inr None
      else returns (make_compact_budget policy None None (int initial_size)))"

definition compact_i64 :: "pyval \<Rightarrow> int option" where
  "compact_i64 v =
     (case v of PInt n \<Rightarrow> if n < I64_MIN \<or> n > I64_MAX then None else Some n | _ \<Rightarrow> None)"

definition compact_optional_binary :: "bytes option \<Rightarrow> bytes result" where
  "compact_optional_binary v =
     (case v of None \<Rightarrow> pack_u32 (int NULL_U32) | Some x \<Rightarrow> compact_binary x)"

definition compact_bool_marker :: "(string \<Rightarrow> bool) \<Rightarrow> pyval \<Rightarrow> int" where
  "compact_bool_marker tr v = (if v = PNone then 0 else if py_bool tr v then 2 else 1)"

definition compact_terminal_independent_marker :: "(string \<Rightarrow> bool) \<Rightarrow> (pyval \<times> pyval) list \<Rightarrow> int" where
  "compact_terminal_independent_marker tr d =
     (if py_bool tr (payload_get d ''terminal_local_only'') then
        (if payload_get d ''independent'' = PBool True then 3 else 4)
      else compact_bool_marker tr (payload_get d ''independent''))"

definition compact_return_mode :: "pyval \<Rightarrow> int option result" where
  "compact_return_mode v =
     (if v = PNone then Inr (Some 0)
      else if \<not> py_hashable v then Inl (TypeErr ''unhashable type'')
      else
        case v of
          PStr s \<Rightarrow>
            if s \<in> set (map text_lit [''jobs_compact'', ''JOBS_COMPACT'']) then Inr (Some 1)
            else if s \<in> set (map text_lit [''jobs_compact_state'', ''JOBS_COMPACT_STATE'']) then Inr (Some 2)
            else if s \<in> set (map text_lit
                [''jobs_compact_attrs'', ''JOBS_COMPACT_ATTRS'',
                 ''jobs_compact_attributes'', ''JOBS_COMPACT_ATTRIBUTES'']) then Inr (Some 3)
            else if s \<in> set (map text_lit
                [''jobs_compact_state_attrs'', ''JOBS_COMPACT_STATE_ATTRS'',
                 ''jobs_compact_with_state_attrs'', ''JOBS_COMPACT_WITH_STATE_ATTRS'',
                 ''jobs_compact_state_attributes'', ''JOBS_COMPACT_STATE_ATTRIBUTES'',
                 ''jobs_compact_with_state_attributes'', ''JOBS_COMPACT_WITH_STATE_ATTRIBUTES'']) then Inr (Some 4)
            else Inr None
        | _ \<Rightarrow> Inr None)"

definition compact_create_many_return_mode :: "compact_policy \<Rightarrow> pyval \<Rightarrow> int option result" where
  "compact_create_many_return_mode policy v =
     (if v = PNone then Inr (Some 0)
      else opt_then (maybe_bytes policy v) (\<lambda>normalized.
        Inr (if bytes_upper normalized = bytes_lit ''OK_ON_SUCCESS'' then Some 1 else None)))"

text \<open>The request kind of a batch: the plain one, the one for \<open>OK_ON_SUCCESS\<close>, or none.\<close>

definition batch_request_kind :: "pylib \<Rightarrow> pyval \<Rightarrow> int \<Rightarrow> int \<Rightarrow> int option" where
  "batch_request_kind L return_mode request_kind ok_request_kind =
     (if return_mode = PNone then Some request_kind
      else
        let return_mode_text =
          (case return_mode of PBytes b \<Rightarrow> decode_replace b | PStr s \<Rightarrow> s | _ \<Rightarrow> str_of L return_mode) in
        if str_upper L return_mode_text \<noteq> text_lit ''OK_ON_SUCCESS'' then None else Some ok_request_kind)"

fun pack_all :: "bytes result list \<Rightarrow> bytes result" where
  "pack_all [] = Inr []"
| "pack_all (r # rs) = and_then r (\<lambda>b. and_then (pack_all rs) (\<lambda>c. Inr (b @ c)))"

text \<open>A loop that encodes one item per round and gives up at the first item it declines.\<close>

fun each_item ::
    "(compact_budget \<Rightarrow> 'a \<Rightarrow> (bytes \<times> compact_budget) option result) \<Rightarrow> compact_budget \<Rightarrow> 'a list \<Rightarrow>
      (bytes \<times> compact_budget) option result" where
  "each_item f B [] = Inr (Some ([], B))"
| "each_item f B (x # xs) =
     opt_then (f B x) (\<lambda>(w, B).
     opt_then (each_item f B xs) (\<lambda>(ws, B). Inr (Some (w @ ws, B))))"

definition reserve_if :: "bool \<Rightarrow> compact_budget \<Rightarrow> int \<Rightarrow> compact_budget result" where
  "reserve_if c B n = (if c then cb_reserve B n else Inr B)"

definition key_of :: "optional_bytes \<Rightarrow> bytes option" where
  "key_of v = (case v of Present x \<Rightarrow> Some x | _ \<Rightarrow> None)"

section \<open>Creating flows\<close>

definition create_many_item ::
    "bool \<Rightarrow> compact_budget \<Rightarrow> pyval \<Rightarrow> (bytes \<times> compact_budget) option result" where
  "create_many_item mixed B item =
     (case item of
        PList l \<Rightarrow>
          if length l \<noteq> (if mixed then 3 else 2) then Inr None
          else
            and_then (reserve_maybe_bytes B (l ! 0)) (\<lambda>(item_id, B).
            and_then (reserve_maybe_bytes B (if mixed then l ! 2 else l ! 1)) (\<lambda>(item_payload, B).
            case (item_id, item_payload) of
              (Some i, Some p) \<Rightarrow>
                if mixed then
                  and_then (compact_binary i) (\<lambda>iw.
                  and_then (reserve_maybe_bytes B (l ! 1)) (\<lambda>(item_partition, B).
                  case item_partition of
                    None \<Rightarrow> Inr None
                  | Some q \<Rightarrow>
                      and_then (pack_all [compact_binary q, compact_binary p]) (\<lambda>w.
                        Inr (Some (iw @ w, B)))))
                else and_then (pack_all [compact_binary i, compact_binary p]) (\<lambda>w. Inr (Some (w, B)))
            | _ \<Rightarrow> Inr None))
      | _ \<Rightarrow> Inr None)"

definition is_mixed :: "pyval list \<Rightarrow> bool" where
  "is_mixed items = list_all (\<lambda>it. case it of PList l \<Rightarrow> length l = 3 | _ \<Rightarrow> False) items"

definition compact_flow_create_many_payload ::
    "(string \<Rightarrow> bool) \<Rightarrow> compact_policy \<Rightarrow> (pyval \<times> pyval) list \<Rightarrow> bytes option result" where
  "compact_flow_create_many_payload tr policy d =
     (if \<not> only_fields d [''type'', ''state'', ''partition_key'', ''now_ms'', ''run_at_ms'', ''independent'',
          ''items'', ''return''] then Inr None
      else
        case payload_get d ''items'' of
          PList items \<Rightarrow>
            opt_then (new_compact_budget policy (1 + 22)) (\<lambda>B.
            and_then (reserve_maybe_bytes B (payload_get d ''type'')) (\<lambda>(type_value, B).
            and_then (reserve_maybe_bytes B (payload_get d ''state'')) (\<lambda>(state, B).
            case (type_value, state, compact_i64 (payload_get d ''now_ms''), compact_i64 (payload_get d ''run_at_ms'')) of
              (Some type_value, Some state, Some now_ms, Some run_at_ms) \<Rightarrow>
                opt_then (compact_create_many_return_mode policy (payload_get d ''return'')) (\<lambda>return_mode.
                and_then (reserve_optional_bytes B (payload_get d ''partition_key'')) (\<lambda>(partition_value, B).
                if partition_value = Declined then Inr None
                else
                  let partition_key = key_of partition_value;
                      mixed = (partition_key = None \<and> is_mixed items) in
                  and_then (pack_all
                    ([pack_uint 1 (if mixed then 0x9E else if partition_key = None then 0x90 else 0x96),
                      compact_binary type_value, compact_binary state] @
                     (if partition_key = None then [] else [compact_optional_binary partition_key]) @
                     [pack_i64 now_ms, pack_i64 run_at_ms,
                      pack_uint 1 (compact_bool_marker tr (payload_get d ''independent'')),
                      pack_uint 1 return_mode, pack_u32 (int (length items))])) (\<lambda>head.
                  opt_then (each_item (create_many_item mixed) B items) (\<lambda>(body, _).
                    Inr (Some (head @ body))))))
            | _ \<Rightarrow> Inr None)))
        | _ \<Rightarrow> Inr None)"

section \<open>Claiming due flows\<close>

definition binary_item :: "compact_budget \<Rightarrow> pyval \<Rightarrow> (bytes \<times> compact_budget) option result" where
  "binary_item B v =
     and_then (reserve_maybe_bytes B v) (\<lambda>(encoded, B).
     case encoded of
       None \<Rightarrow> Inr None
     | Some x \<Rightarrow> and_then (compact_binary x) (\<lambda>w. Inr (Some (w, B))))"

definition compact_partition_request ::
    "compact_budget \<Rightarrow> (pyval \<times> pyval) list \<Rightarrow> (int \<times> bytes \<times> compact_budget) option result" where
  "compact_partition_request B d =
     (case payload_find d ''partition_key'' of
        Some v \<Rightarrow> opt_then (binary_item B v) (\<lambda>(w, B). Inr (Some (1, w, B)))
      | None \<Rightarrow>
          (case payload_find d ''partition_keys'' of
             Some (PList vs) \<Rightarrow>
               and_then (cb_reserve B 4) (\<lambda>B.
               and_then (pack_u32 (int (length vs))) (\<lambda>n.
               opt_then (each_item binary_item B vs) (\<lambda>(w, B). Inr (Some (2, n @ w, B)))))
           | Some _ \<Rightarrow> Inr None
           | None \<Rightarrow> Inr (Some (0, [], B))))"

definition compact_flow_claim_due_payload ::
    "(string \<Rightarrow> bool) \<Rightarrow> compact_policy \<Rightarrow> (pyval \<times> pyval) list \<Rightarrow> bytes option result" where
  "compact_flow_claim_due_payload tr policy d =
     (if \<not> only_fields d [''type'', ''state'', ''worker'', ''lease_ms'', ''limit'', ''partition_key'',
          ''partition_keys'', ''return'', ''block_ms'', ''reclaim_expired'', ''reclaim_ratio'', ''priority'']
        \<or> (payload_find d ''partition_key'' \<noteq> None \<and> payload_find d ''partition_keys'' \<noteq> None) then Inr None
      else
        opt_then (new_compact_budget policy (1 + 43)) (\<lambda>B.
        and_then (reserve_maybe_bytes B (payload_get d ''type'')) (\<lambda>(type_value, B).
        and_then (reserve_optional_bytes B (payload_get d ''state'')) (\<lambda>(state, B).
        and_then (reserve_if (state = Absent) B 4) (\<lambda>B.
        and_then (reserve_maybe_bytes B (payload_get d ''worker'')) (\<lambda>(worker, B).
        if state = Declined then Inr None
        else
          case (type_value, worker, compact_i64 (payload_get d ''lease_ms''), compact_i64 (payload_get d ''limit''),
                compact_i64 (payload_get_or d ''block_ms'' (PInt (- 1))),
                compact_i64 (payload_get_or d ''reclaim_ratio'' (PInt 25)),
                compact_i64 (payload_get_or d ''priority'' (PInt I64_MIN))) of
            (Some type_value, Some worker, Some lease_ms, Some limit, Some block_ms, Some reclaim_ratio,
             Some priority) \<Rightarrow>
              opt_then (compact_return_mode (payload_get d ''return'')) (\<lambda>return_mode.
              opt_then (compact_partition_request B d) (\<lambda>(partition_mode, partition_body, _).
              and_then (pack_all
                [pack_uint 1 0x91, compact_binary type_value, compact_optional_binary (key_of state),
                 compact_binary worker, pack_i64 lease_ms, pack_i64 limit, pack_i64 block_ms,
                 pack_uint 1 (if py_bool tr (payload_get_or d ''reclaim_expired'' (PBool True)) then 1 else 0),
                 pack_i64 reclaim_ratio, pack_i64 priority, pack_uint 1 return_mode,
                 pack_uint 1 partition_mode]) (\<lambda>head.
                Inr (Some (head @ partition_body)))))
          | _ \<Rightarrow> Inr None))))))"

section \<open>Batches of claimed flows\<close>

definition claimed_parts ::
    "compact_budget \<Rightarrow> pyval list \<Rightarrow> (bytes option \<times> bytes option \<times> pyval \<times> compact_budget) option result" where
  "claimed_parts B l =
     (if length l = 4 then
        and_then (reserve_maybe_bytes B (l ! 1)) (\<lambda>(item_partition, B).
        if item_partition = None then Inr None
        else and_then (reserve_maybe_bytes B (l ! 2)) (\<lambda>(lease_token, B).
          Inr (Some (item_partition, lease_token, l ! 3, B))))
      else
        and_then (reserve_maybe_bytes B (l ! 1)) (\<lambda>(lease_token, B).
          Inr (Some (None, lease_token, l ! 2, B))))"

definition claimed_many_item :: "compact_budget \<Rightarrow> pyval \<Rightarrow> (bytes \<times> compact_budget) option result" where
  "claimed_many_item B item =
     (case item of
        PList l \<Rightarrow>
          if length l \<noteq> 3 \<and> length l \<noteq> 4 then Inr None
          else
            and_then (reserve_maybe_bytes B (l ! 0)) (\<lambda>(item_id, B).
            opt_then (claimed_parts B l) (\<lambda>(item_partition, lease_token, fencing_token, B).
            case (item_id, lease_token, compact_i64 fencing_token) of
              (Some item_id, Some lease_token, Some fencing_token) \<Rightarrow>
                and_then (reserve_if (item_partition = None) B 4) (\<lambda>B.
                and_then (cb_reserve B 8) (\<lambda>B.
                and_then (pack_all
                  [compact_binary item_id, compact_optional_binary item_partition,
                   compact_binary lease_token, pack_i64 fencing_token]) (\<lambda>w. Inr (Some (w, B)))))
            | _ \<Rightarrow> Inr None))
      | _ \<Rightarrow> Inr None)"

definition compact_flow_claimed_many_payload ::
    "pylib \<Rightarrow> (string \<Rightarrow> bool) \<Rightarrow> compact_policy \<Rightarrow> (pyval \<times> pyval) list \<Rightarrow> int \<Rightarrow> int \<Rightarrow> string list \<Rightarrow>
      bytes option result" where
  "compact_flow_claimed_many_payload L tr policy d request_kind ok_request_kind extra_allowed =
     (if \<not> only_fields d ([''partition_key'', ''now_ms'', ''independent'', ''items'', ''return''] @ extra_allowed)
      then Inr None
      else
        case (compact_i64 (payload_get d ''now_ms''), payload_get d ''items'') of
          (Some now_ms, PList items) \<Rightarrow>
            opt_then (new_compact_budget policy (1 + (if ''run_at_ms'' \<in> set extra_allowed then 21 else 13))) (\<lambda>B.
            case batch_request_kind L (payload_get d ''return'') request_kind ok_request_kind of
              None \<Rightarrow> Inr None
            | Some request_kind \<Rightarrow>
                and_then (reserve_optional_bytes B (payload_get d ''partition_key'')) (\<lambda>(partition_value, B).
                if partition_value = Declined then Inr None
                else
                  and_then (reserve_if (key_of partition_value = None) B 4) (\<lambda>B.
                  and_then (pack_all [pack_uint 1 request_kind, compact_optional_binary (key_of partition_value)]) (\<lambda>front.
                  opt_then
                    (if ''run_at_ms'' \<in> set extra_allowed then
                       (case compact_i64 (payload_get d ''run_at_ms'') of
                          None \<Rightarrow> Inr None
                        | Some run_at_ms \<Rightarrow>
                            returns (pack_all
                              [pack_i64 now_ms, pack_i64 run_at_ms,
                               pack_uint 1 (compact_bool_marker tr (payload_get d ''independent'')),
                               pack_u32 (int (length items))]))
                     else
                       returns (pack_all
                         [pack_i64 now_ms, pack_uint 1 (compact_terminal_independent_marker tr d),
                          pack_u32 (int (length items))])) (\<lambda>fixed.
                  opt_then (each_item claimed_many_item B items) (\<lambda>(body, _).
                    Inr (Some (front @ fixed @ body))))))))
        | _ \<Rightarrow> Inr None)"

definition compact_flow_complete_many_payload ::
    "pylib \<Rightarrow> (string \<Rightarrow> bool) \<Rightarrow> compact_policy \<Rightarrow> (pyval \<times> pyval) list \<Rightarrow> bytes option result" where
  "compact_flow_complete_many_payload L tr policy d =
     compact_flow_claimed_many_payload L tr policy d 0x92 0x93 [''terminal_local_only'']"

definition cancel_many_item :: "compact_budget \<Rightarrow> pyval \<Rightarrow> (bytes \<times> compact_budget) option result" where
  "cancel_many_item B item =
     (case item of
        PDict it \<Rightarrow>
          and_then (reserve_maybe_bytes B (payload_get it ''id'')) (\<lambda>(item_id, B).
          and_then (reserve_optional_bytes B (payload_get it ''partition_key'')) (\<lambda>(item_partition, B).
          if item_partition = Declined then Inr None
          else
            case (item_id, compact_i64 (payload_get it ''fencing_token'')) of
              (Some item_id, Some fencing_token) \<Rightarrow>
                and_then (reserve_if (item_partition = Absent) B 4) (\<lambda>B.
                and_then (cb_reserve B 8) (\<lambda>B.
                and_then (pack_all
                  [compact_binary item_id, compact_optional_binary (key_of item_partition),
                   pack_i64 fencing_token]) (\<lambda>w. Inr (Some (w, B)))))
            | _ \<Rightarrow> Inr None))
      | _ \<Rightarrow> Inr None)"

definition compact_flow_cancel_many_payload ::
    "pylib \<Rightarrow> (string \<Rightarrow> bool) \<Rightarrow> compact_policy \<Rightarrow> (pyval \<times> pyval) list \<Rightarrow> bytes option result" where
  "compact_flow_cancel_many_payload L tr policy d =
     (if \<not> only_fields d [''partition_key'', ''now_ms'', ''independent'', ''items'', ''return''] then Inr None
      else
        case (compact_i64 (payload_get d ''now_ms''), payload_get d ''items'') of
          (Some now_ms, PList items) \<Rightarrow>
            opt_then (new_compact_budget policy (1 + 13)) (\<lambda>B.
            case batch_request_kind L (payload_get d ''return'') 0x99 0x9A of
              None \<Rightarrow> Inr None
            | Some request_kind \<Rightarrow>
                and_then (reserve_optional_bytes B (payload_get d ''partition_key'')) (\<lambda>(partition_key, B).
                if partition_key = Declined then Inr None
                else
                  and_then (reserve_if (partition_key = Absent) B 4) (\<lambda>B.
                  and_then (pack_all
                    [pack_uint 1 request_kind, compact_optional_binary (key_of partition_key), pack_i64 now_ms,
                     pack_uint 1 (compact_bool_marker tr (payload_get d ''independent'')),
                     pack_u32 (int (length items))]) (\<lambda>head.
                  opt_then (each_item cancel_many_item B items) (\<lambda>(body, _).
                    Inr (Some (head @ body)))))))
        | _ \<Rightarrow> Inr None)"

definition transition_many_item :: "compact_budget \<Rightarrow> pyval \<Rightarrow> (bytes \<times> compact_budget) option result" where
  "transition_many_item B item =
     (case item of
        PDict it \<Rightarrow>
          and_then (reserve_maybe_bytes B (payload_get it ''id'')) (\<lambda>(item_id, B).
          and_then (reserve_optional_bytes B (payload_get it ''partition_key'')) (\<lambda>(item_partition, B).
          and_then (reserve_optional_bytes B (payload_get it ''lease_token'')) (\<lambda>(lease_token, B).
          if item_partition = Declined \<or> lease_token = Declined then Inr None
          else
            case (item_id, compact_i64 (payload_get it ''fencing_token'')) of
              (Some item_id, Some fencing_token) \<Rightarrow>
                and_then (reserve_if (item_partition = Absent) B 4) (\<lambda>B.
                and_then (reserve_if (lease_token = Absent) B 4) (\<lambda>B.
                and_then (cb_reserve B 8) (\<lambda>B.
                and_then (pack_all
                  [compact_binary item_id, compact_optional_binary (key_of item_partition),
                   pack_i64 fencing_token, compact_optional_binary (key_of lease_token)]) (\<lambda>w.
                  Inr (Some (w, B))))))
            | _ \<Rightarrow> Inr None)))
      | _ \<Rightarrow> Inr None)"

definition compact_flow_transition_many_payload ::
    "pylib \<Rightarrow> (string \<Rightarrow> bool) \<Rightarrow> compact_policy \<Rightarrow> (pyval \<times> pyval) list \<Rightarrow> bytes option result" where
  "compact_flow_transition_many_payload L tr policy d =
     (if \<not> only_fields d [''partition_key'', ''from_state'', ''to_state'', ''now_ms'', ''run_at_ms'',
          ''independent'', ''items'', ''return''] then Inr None
      else
        opt_then (new_compact_budget policy (1 + 21)) (\<lambda>B.
        and_then (reserve_maybe_bytes B (payload_get d ''from_state'')) (\<lambda>(from_state, B).
        and_then (reserve_maybe_bytes B (payload_get d ''to_state'')) (\<lambda>(to_state, B).
        case (from_state, to_state, compact_i64 (payload_get d ''now_ms''), compact_i64 (payload_get d ''run_at_ms''),
              payload_get d ''items'') of
          (Some from_state, Some to_state, Some now_ms, Some run_at_ms, PList items) \<Rightarrow>
            (case batch_request_kind L (payload_get d ''return'') 0x9B 0x9C of
               None \<Rightarrow> Inr None
             | Some request_kind \<Rightarrow>
                 and_then (reserve_optional_bytes B (payload_get d ''partition_key'')) (\<lambda>(partition_key, B).
                 if partition_key = Declined then Inr None
                 else
                   and_then (reserve_if (partition_key = Absent) B 4) (\<lambda>B.
                   and_then (pack_all
                     [pack_uint 1 request_kind, compact_binary from_state, compact_binary to_state,
                      compact_optional_binary (key_of partition_key), pack_i64 now_ms, pack_i64 run_at_ms,
                      pack_uint 1 (compact_bool_marker tr (payload_get d ''independent'')),
                      pack_u32 (int (length items))]) (\<lambda>head.
                   opt_then (each_item transition_many_item B items) (\<lambda>(body, _).
                     Inr (Some (head @ body)))))))
        | _ \<Rightarrow> Inr None))))"

section \<open>Reading and writing values\<close>

definition compact_flow_value_mget_payload ::
    "compact_policy \<Rightarrow> (pyval \<times> pyval) list \<Rightarrow> bytes option result" where
  "compact_flow_value_mget_payload policy d =
     (if \<not> only_fields d [''refs'', ''max_bytes''] then Inr None
      else
        case (payload_get d ''refs'', compact_i64 (payload_get_or d ''max_bytes'' (PInt I64_MIN))) of
          (PList refs, Some max_bytes_value) \<Rightarrow>
            opt_then (new_compact_budget policy (1 + 12)) (\<lambda>B.
            and_then (pack_all [pack_uint 1 0x9D, pack_i64 max_bytes_value, pack_u32 (int (length refs))]) (\<lambda>head.
            opt_then (each_item binary_item B refs) (\<lambda>(body, _). Inr (Some (head @ body)))))
        | _ \<Rightarrow> Inr None)"

definition value_put_item ::
    "compact_budget \<Rightarrow> (pyval \<times> pyval) list \<Rightarrow> (bytes \<times> compact_budget) option result" where
  "value_put_item B it =
     (case compact_i64 (payload_get it ''now_ms'') of
        None \<Rightarrow> Inr None
      | Some now_ms \<Rightarrow>
          and_then (reserve_maybe_bytes B (payload_get it ''value'')) (\<lambda>(value, B).
          case value of
            None \<Rightarrow> Inr None
          | Some value \<Rightarrow>
              and_then (cb_reserve B 8) (\<lambda>B.
              and_then (pack_all [compact_binary value, pack_i64 now_ms]) (\<lambda>w. Inr (Some (w, B))))))"

definition owned_value_put_item ::
    "compact_budget \<Rightarrow> (pyval \<times> pyval) list \<Rightarrow> (bytes \<times> compact_budget) option result" where
  "owned_value_put_item B it =
     (case compact_i64 (payload_get it ''now_ms'') of
        None \<Rightarrow> Inr None
      | Some now_ms \<Rightarrow>
          and_then (reserve_maybe_bytes B (payload_get it ''value'')) (\<lambda>(value, B).
          and_then (reserve_maybe_bytes B (payload_get it ''owner_flow_id'')) (\<lambda>(owner_flow_id, B).
          and_then (reserve_maybe_bytes B (payload_get it ''name'')) (\<lambda>(name, B).
          and_then (reserve_optional_bytes B (payload_get it ''partition_key'')) (\<lambda>(partition_value, B).
          if partition_value = Declined then Inr None
          else
            case (value, owner_flow_id, name) of
              (Some value, Some owner_flow_id, Some name) \<Rightarrow>
                and_then (reserve_if (partition_value = Absent) B 4) (\<lambda>B.
                and_then (cb_reserve B 8) (\<lambda>B.
                and_then (pack_all
                  [compact_binary value, compact_binary owner_flow_id, compact_binary name,
                   compact_optional_binary (key_of partition_value), pack_i64 now_ms]) (\<lambda>w.
                  Inr (Some (w, B)))))
            | _ \<Rightarrow> Inr None)))))"

text \<open>The mode byte is \<open>0x80 | mode\<close>; the two families of modes are 7, 15 and 8, 14.\<close>

definition compact_flow_value_put_payload ::
    "compact_policy \<Rightarrow> nat \<Rightarrow> (pyval \<times> pyval) list list \<Rightarrow> bytes option result" where
  "compact_flow_value_put_payload policy mode items =
     (if items = [] then Inr None
      else
        opt_then (new_compact_budget policy 6) (\<lambda>B.
        and_then (pipeline_header (int (0x80 OR mode)) (length items)) (\<lambda>head.
        if mode = 7 \<or> mode = 15 then
          opt_then (each_item value_put_item B items) (\<lambda>(body, _). Inr (Some (head @ body)))
        else if mode = 8 \<or> mode = 14 then
          opt_then (each_item owned_value_put_item B items) (\<lambda>(body, _). Inr (Some (head @ body)))
        else Inr None)))"

section \<open>The items a response must have\<close>

definition OP_MGET :: int where "OP_MGET = 0x0104"
definition OP_FLOW_CREATE_MANY :: int where "OP_FLOW_CREATE_MANY = 0x020F"
definition OP_FLOW_COMPLETE_MANY :: int where "OP_FLOW_COMPLETE_MANY = 0x0210"
definition OP_FLOW_TRANSITION_MANY :: int where "OP_FLOW_TRANSITION_MANY = 0x0211"
definition OP_FLOW_RETRY_MANY :: int where "OP_FLOW_RETRY_MANY = 0x0212"
definition OP_FLOW_FAIL_MANY :: int where "OP_FLOW_FAIL_MANY = 0x0213"
definition OP_FLOW_CANCEL_MANY :: int where "OP_FLOW_CANCEL_MANY = 0x0214"
definition OP_FLOW_VALUE_MGET :: int where "OP_FLOW_VALUE_MGET = 0x020C"

lemmas flow_opcodes = OP_FLOW_CREATE_MANY_def OP_FLOW_COMPLETE_MANY_def OP_FLOW_TRANSITION_MANY_def
  OP_FLOW_RETRY_MANY_def OP_FLOW_FAIL_MANY_def OP_FLOW_CANCEL_MANY_def OP_FLOW_VALUE_MGET_def

definition skip_binary :: "bytes \<Rightarrow> nat \<Rightarrow> nat option" where
  "skip_binary payload off =
     (if off + 4 > length payload then None
      else
        let sz = be_decode (bytes_slice payload off 4) in
        if sz = NULL_U32 then Some (off + 4)
        else if off + 4 + sz \<le> length payload then Some (off + 4 + sz) else None)"

definition read_count :: "bytes \<Rightarrow> nat \<Rightarrow> nat option" where
  "read_count payload off =
     (if off + 4 > length payload then None else Some (be_decode (bytes_slice payload off 4)))"

definition expected_bytes_items :: "int \<Rightarrow> bytes \<Rightarrow> nat option" where
  "expected_bytes_items opcode payload =
     (if length payload \<ge> 6 \<and> payload ! 0 = 0x94 \<and> (opcode = OP_PIPELINE \<or> opcode = OP_MGET)
      then Some (be_decode (bytes_slice payload 2 4))
      else if opcode = OP_FLOW_VALUE_MGET \<and> length payload \<ge> 13 \<and> payload ! 0 = 0x9D
      then Some (be_decode (bytes_slice payload 9 4))
      else
        let marker = (if payload = [] then None else Some (payload ! 0)) in
        if opcode = OP_FLOW_CREATE_MANY \<and> marker \<in> {Some 0x90, Some 0x96, Some 0x9E} then
          Option.bind (skip_binary payload 1) (\<lambda>off.
          Option.bind (skip_binary payload off) (\<lambda>off.
          Option.bind (if marker = Some 0x96 then skip_binary payload off else Some off) (\<lambda>off.
            read_count payload (off + 18))))
        else if opcode \<in> {OP_FLOW_COMPLETE_MANY, OP_FLOW_RETRY_MANY, OP_FLOW_FAIL_MANY, OP_FLOW_CANCEL_MANY}
          \<and> marker \<in> {Some 0x92, Some 0x93, Some 0x97, Some 0x98, Some 0x99, Some 0x9A} then
          Option.bind (skip_binary payload 1) (\<lambda>off.
            read_count payload (off + (if opcode = OP_FLOW_RETRY_MANY then 17 else 9)))
        else if opcode = OP_FLOW_TRANSITION_MANY \<and> marker \<in> {Some 0x9B, Some 0x9C} then
          Option.bind (skip_binary payload 1) (\<lambda>off.
          Option.bind (skip_binary payload off) (\<lambda>off.
          Option.bind (skip_binary payload off) (\<lambda>off.
            read_count payload (off + 17))))
        else None)"

definition expected_payload_collection_items :: "int \<Rightarrow> pyval \<Rightarrow> nat option" where
  "expected_payload_collection_items opcode payload =
     (case payload of
        PDict d \<Rightarrow>
          if opcode = OP_PIPELINE then
            (case payload_get d ''commands'' of PList l \<Rightarrow> Some (length l) | _ \<Rightarrow> None)
          else if opcode \<in> {OP_FLOW_CREATE_MANY, OP_FLOW_COMPLETE_MANY, OP_FLOW_TRANSITION_MANY,
              OP_FLOW_RETRY_MANY, OP_FLOW_FAIL_MANY, OP_FLOW_CANCEL_MANY} then
            (case payload_get d ''items'' of PList l \<Rightarrow> Some (length l) | _ \<Rightarrow> None)
          else None
      | PBytes b \<Rightarrow> expected_bytes_items opcode b
      | _ \<Rightarrow> None)"

text \<open>
  The compact form of a batch command, by its opcode, as the builders of \<open>protocol_flow_commands.py\<close>
  request it for a parsed payload.
\<close>

definition compact_batch ::
    "pylib \<Rightarrow> (string \<Rightarrow> bool) \<Rightarrow> compact_policy \<Rightarrow> int \<Rightarrow> (pyval \<times> pyval) list \<Rightarrow> bytes option result" where
  "compact_batch L tr policy opcode d =
     (if opcode = OP_FLOW_CREATE_MANY then compact_flow_create_many_payload tr policy d
      else if opcode = OP_FLOW_COMPLETE_MANY then
        compact_flow_claimed_many_payload L tr policy d 0x92 0x93 [''terminal_local_only'']
      else if opcode = OP_FLOW_FAIL_MANY then compact_flow_claimed_many_payload L tr policy d 0x92 0x93 []
      else if opcode = OP_FLOW_RETRY_MANY then
        compact_flow_claimed_many_payload L tr policy d 0x97 0x98 [''run_at_ms'']
      else if opcode = OP_FLOW_TRANSITION_MANY then compact_flow_transition_many_payload L tr policy d
      else if opcode = OP_FLOW_CANCEL_MANY then compact_flow_cancel_many_payload L tr policy d
      else Inr None)"

section \<open>Reservations match the bytes emitted\<close>

definition grown :: "compact_budget \<Rightarrow> nat \<Rightarrow> compact_budget \<Rightarrow> bool" where
  "grown B n B' \<longleftrightarrow> B' = B\<lparr>cb_size := cb_size B + int n\<rparr> \<and>
     (n \<noteq> 0 \<longrightarrow> admits_size (cb_max_payload_bytes B) (cb_size B'))"

lemma grown_0 [simp]: "grown B 0 B' \<longleftrightarrow> B' = B"
  by (auto simp: grown_def)

lemma grown_trans: "grown B m B1 \<Longrightarrow> grown B1 n B2 \<Longrightarrow> grown B (m + n) B2"
  by (cases "n = 0") (auto simp: grown_def)

definition opt_wire :: "bytes option \<Rightarrow> bytes" where
  "opt_wire v = (case v of None \<Rightarrow> u32_bytes NULL_U32 | Some x \<Rightarrow> compact_wire x)"

lemma case_declines [simp]:
  "(case x of None \<Rightarrow> Inr None | Some y \<Rightarrow> g y) = (Inr (Some z) :: 'c option result) \<longleftrightarrow>
     (\<exists>y. x = Some y \<and> g y = Inr (Some z))"
  by (cases x) auto

lemma if_declines [simp]:
  "(if c then Inr None else r) = (Inr (Some z) :: 'c option result) \<longleftrightarrow> \<not> c \<and> r = Inr (Some z)"
  by simp

lemma case_list_declines [simp]:
  "(case v of PList l \<Rightarrow> g l | _ \<Rightarrow> Inr None) = (Inr (Some z) :: 'c option result) \<longleftrightarrow>
     (\<exists>l. v = PList l \<and> g l = Inr (Some z))"
  by (cases v) auto

lemma case_dict_declines [simp]:
  "(case v of PDict d \<Rightarrow> g d | _ \<Rightarrow> Inr None) = (Inr (Some z) :: 'c option result) \<longleftrightarrow>
     (\<exists>d. v = PDict d \<and> g d = Inr (Some z))"
  by (cases v) auto

lemma reserve_maybe_bytes_None:
  "reserve_maybe_bytes B v = Inr (None, B') \<longleftrightarrow> encode_arg v = Inr None \<and> B' = B"
  by (cases "encode_arg v") (auto simp: reserve_maybe_bytes_eq split: option.splits)

lemma reserve_maybe_bytes_grown:
  "reserve_maybe_bytes B v = Inr (Some x, B') \<Longrightarrow> grown B (length (compact_wire x)) B'"
  by (simp add: reserve_maybe_bytes_Some grown_def)

lemma reserve_optional_bytes_cases:
  "reserve_optional_bytes B v = Inr (Absent, B') \<longleftrightarrow> v = PNone \<and> B' = B"
  "reserve_optional_bytes B v = Inr (Present x, B') \<longleftrightarrow> v \<noteq> PNone \<and> reserve_maybe_bytes B v = Inr (Some x, B')"
  by (auto simp: reserve_optional_bytes_def split: option.splits)

definition present_size :: "optional_bytes \<Rightarrow> nat" where
  "present_size k = (case k of Present x \<Rightarrow> length (compact_wire x) | _ \<Rightarrow> 0)"

lemma reserve_optional_grown:
  "reserve_optional_bytes B v = Inr (k, B') \<Longrightarrow> k \<noteq> Declined \<Longrightarrow> grown B (present_size k) B'"
  by (cases k)
    (auto simp: reserve_optional_bytes_cases present_size_def simp del: length_compact_wire
      dest: reserve_maybe_bytes_grown)

lemma reserve_if_grown: "reserve_if c B 4 = Inr B' \<Longrightarrow> grown B (if c then 4 else 0) B'"
  using cb_reserve_nat [of B 4] by (auto simp: reserve_if_def grown_def split: if_splits)

lemma length_opt_wire:
  "k \<noteq> Declined \<Longrightarrow> length (opt_wire (key_of k)) = present_size k + (if k = Absent then 4 else 0)"
  by (cases k) (simp_all add: opt_wire_def key_of_def present_size_def)

lemma key_of_None: "k \<noteq> Declined \<Longrightarrow> key_of k = None \<longleftrightarrow> k = Absent"
  by (cases k) (simp_all add: key_of_def)

lemma cb_reserve_8: "cb_reserve B 8 = Inr B' \<Longrightarrow> grown B 8 B'"
  using cb_reserve_nat [of B 8] by (auto simp: grown_def split: if_splits)

lemma pack_wires:
  "compact_optional_binary v = Inr w \<Longrightarrow> w = opt_wire v"
  "pack_i64 n = Inr w \<longleftrightarrow> I64_MIN \<le> n \<and> n \<le> I64_MAX \<and> w = i64_bytes n"
  by (auto simp: compact_optional_binary_def opt_wire_def compact_binary_Inr pack_i64_def i64_bytes_def
      split: option.splits if_splits)

lemma pack_marker: "pack_uint (Suc 0) n = Inr w \<longleftrightarrow> 0 \<le> n \<and> n < 256 \<and> w = [of_int n]"
  by (auto simp: pack_uint_Inr)

lemmas packed = pack_wires compact_binary_Inr pack_marker

text \<open>Every item encoder reserves exactly the bytes it emits; the loop over items then does too.\<close>

locale sized_item =
  fixes f :: "compact_budget \<Rightarrow> 'a \<Rightarrow> (bytes \<times> compact_budget) option result"
  assumes item_sized: "f B x = Inr (Some (w, B')) \<Longrightarrow> grown B (length w) B'"
begin

lemma items_sized: "each_item f B xs = Inr (Some (w, B')) \<Longrightarrow> grown B (length w) B'"
proof (induction xs arbitrary: B w)
  case (Cons x xs)
  then show ?case
    by (auto dest!: item_sized Cons.IH intro: grown_trans)
qed simp

end

interpretation binaries: sized_item binary_item
proof
  fix B v w B'
  assume "binary_item B v = Inr (Some (w, B'))"
  then show "grown B (length w) B'"
    by (auto simp: binary_item_def packed simp del: length_compact_wire dest: reserve_maybe_bytes_grown)
qed

lemma grown_2: "grown B a B1 \<Longrightarrow> grown B1 b B2 \<Longrightarrow> n = a + b \<Longrightarrow> grown B n B2"
  using grown_trans by blast

lemma grown_3: "grown B a B1 \<Longrightarrow> grown B1 b B2 \<Longrightarrow> grown B2 c B3 \<Longrightarrow> n = a + b + c \<Longrightarrow> grown B n B3"
  using grown_trans by blast

interpretation created: sized_item "create_many_item mixed" for mixed
proof
  fix B item w B'
  assume "create_many_item mixed B item = Inr (Some (w, B'))"
  then show "grown B (length w) B'"
    by (cases mixed)
      (auto simp: create_many_item_def packed simp del: length_compact_wire
        dest!: reserve_maybe_bytes_grown intro: grown_2 grown_3)
qed

lemmas reservations = reserve_maybe_bytes_grown reserve_optional_grown reserve_if_grown cb_reserve_8

lemma claimed_parts_grown:
  "claimed_parts B l = Inr (Some (q, Some t, v, B')) \<Longrightarrow>
     grown B ((case q of None \<Rightarrow> 0 | Some x \<Rightarrow> length (compact_wire x)) + length (compact_wire t)) B'"
  by (auto simp: claimed_parts_def simp del: length_compact_wire dest!: reserve_maybe_bytes_grown
      intro: grown_2 split: if_splits)

interpretation claimed: sized_item claimed_many_item
proof
  fix B item w B'
  assume "claimed_many_item B item = Inr (Some (w, B'))"
  then obtain l i t q x f B1 B2 B3 where "reserve_maybe_bytes B (l ! 0) = Inr (Some i, B1)"
    "claimed_parts B1 l = Inr (Some (q, Some t, x, B2))" "reserve_if (q = None) B2 4 = Inr B3"
    "cb_reserve B3 8 = Inr B'" "w = compact_wire i @ opt_wire q @ compact_wire t @ i64_bytes f"
    by (auto simp: claimed_many_item_def packed dest!: pack_wires(1))
  then show "grown B (length w) B'"
    by (cases q) (auto simp: grown_def opt_wire_def dest!: reservations claimed_parts_grown)
qed

interpretation cancelled: sized_item cancel_many_item
proof
  fix B item w B'
  assume "cancel_many_item B item = Inr (Some (w, B'))"
  then show "grown B (length w) B'"
    by (auto simp: cancel_many_item_def grown_def packed length_opt_wire dest!: reservations pack_wires(1))
qed

interpretation transitioned: sized_item transition_many_item
proof
  fix B item w B'
  assume "transition_many_item B item = Inr (Some (w, B'))"
  then show "grown B (length w) B'"
    by (auto simp: transition_many_item_def grown_def packed length_opt_wire
        dest!: reservations pack_wires(1))
qed

interpretation stored: sized_item value_put_item
proof
  fix B it w B'
  assume "value_put_item B it = Inr (Some (w, B'))"
  then show "grown B (length w) B'"
    by (auto simp: value_put_item_def grown_def packed dest!: reservations)
qed

interpretation owned: sized_item owned_value_put_item
proof
  fix B it w B'
  assume "owned_value_put_item B it = Inr (Some (w, B'))"
  then show "grown B (length w) B'"
    by (auto simp: owned_value_put_item_def grown_def packed length_opt_wire
        dest!: reservations pack_wires(1))
qed

section \<open>Shape and size of the finished payloads\<close>

lemma new_compact_budget_Some:
  "new_compact_budget policy n = Inr (Some B) \<longleftrightarrow>
     cp_enabled policy \<and> admits_size (cp_max_payload_bytes policy) (int n) \<and> B = policy_budget policy (int n)"
  by (auto simp: new_compact_budget_def make_compact_budget_policy policy_budget_def)

definition admitted :: "compact_policy \<Rightarrow> bytes \<Rightarrow> bool" where
  "admitted policy p \<longleftrightarrow> cp_enabled policy \<and> admits_size (cp_max_payload_bytes policy) (int (length p))"

lemma admitted_grown:
  assumes "grown (policy_budget policy (int n)) m B" and "admits_size (cp_max_payload_bytes policy) (int n)"
    and "length p = n + m" and "cp_enabled policy"
  shows "admitted policy p"
  using assms by (cases "m = 0") (auto simp: grown_def admitted_def)

lemma value_mget_shape:
  assumes "compact_flow_value_mget_payload policy d = Inr (Some p)"
  obtains refs n body where "payload_get d ''refs'' = PList refs" and "small (length refs)"
    and "p = 0x9D # i64_bytes n @ u32_bytes (length refs) @ body" and "admitted policy p"
proof -
  from assms obtain refs n B body B' where r: "payload_get d ''refs'' = PList refs" "small (length refs)"
    and p: "p = 0x9D # i64_bytes n @ u32_bytes (length refs) @ body"
    and B: "new_compact_budget policy 13 = Inr (Some B)" "each_item binary_item B refs = Inr (Some (body, B'))"
    by (auto simp: compact_flow_value_mget_payload_def packed small_def split: if_splits)
  have "admitted policy p"
    using B binaries.items_sized [OF B(2)]
    by (auto simp: new_compact_budget_Some p intro!: admitted_grown)
  with r p that show thesis by blast
qed

lemma pack_all_append: "pack_all (rs @ qs) = and_then (pack_all rs) (\<lambda>b. and_then (pack_all qs) (\<lambda>c. Inr (b @ c)))"
  by (induction rs) (auto simp: and_then_def split: sum.splits)

lemma create_many_shape:
  assumes "compact_flow_create_many_payload tr policy d = Inr (Some p)"
  obtains items m ty st k fixed body where "payload_get d ''items'' = PList items" and "small (length items)"
    and "p = m # compact_wire ty @ compact_wire st @ (if k = None then [] else opt_wire k) @
           fixed @ u32_bytes (length items) @ body"
    and "length fixed = 18" and "m \<in> {0x90, 0x96, 0x9E}" and "m = 0x96 \<longleftrightarrow> k \<noteq> None" and "admitted policy p"
proof -
  define mk :: "bytes option \<Rightarrow> bool \<Rightarrow> int" where
    "mk k x = (if x then 0x9E else if k = None then 0x90 else 0x96)" for k x
  define part :: "bytes option \<Rightarrow> bytes result list" where
    "part k = (if k = None then [] else [compact_optional_binary k])" for k
  from assms obtain items ty st now run rm k B B1 B2 B3 B4 body head
    where i: "payload_get d ''items'' = PList items"
    and B: "new_compact_budget policy (Suc 22) = Inr (Some B)"
      "reserve_maybe_bytes B (payload_get d ''type'') = Inr (Some ty, B1)"
      "reserve_maybe_bytes B1 (payload_get d ''state'') = Inr (Some st, B2)"
      "reserve_optional_bytes B2 (payload_get d ''partition_key'') = Inr (k, B3)" "k \<noteq> Declined"
      "each_item (create_many_item (key_of k = None \<and> is_mixed items)) B3 items = Inr (Some (body, B4))"
    and h: "pack_all ([pack_uint 1 (mk (key_of k) (key_of k = None \<and> is_mixed items)), compact_binary ty, compact_binary st] @
        part (key_of k) @ [pack_i64 now, pack_i64 run,
          pack_uint 1 (compact_bool_marker tr (payload_get d ''independent'')), pack_uint 1 rm,
          pack_u32 (int (length items))]) = Inr head"
    and p: "p = head @ body"
    unfolding compact_flow_create_many_payload_def Let_def mk_def [symmetric] part_def [symmetric]
    by (auto simp del: pack_all.simps append_Cons append_Nil)
  define w where "w = (if key_of k = None then [] else opt_wire (key_of k))"
  have w: "pack_all (part (key_of k)) = Inr c \<Longrightarrow> c = w" for c
    by (auto simp: part_def w_def dest: pack_wires(1) split: if_splits)
  define m :: byte where "m = of_int (mk (key_of k) (key_of k = None \<and> is_mixed items))"
  define ind :: byte where "ind = of_int (compact_bool_marker tr (payload_get d ''independent''))"
  have head: "head = m # compact_wire ty @ compact_wire st @ w @
      (i64_bytes now @ i64_bytes run @ [ind] @ [of_int rm]) @ u32_bytes (length items)" and sm: "small (length items)"
    using h unfolding pack_all_append
    by (auto simp: packed small_def m_def ind_def dest!: w split: if_splits)
  have "grown B2 (length w) B3"
    using reserve_optional_grown [OF B(4,5)] B(5)
    by (cases k) (auto simp: w_def present_size_def key_of_def opt_wire_def)
  then have "grown B (length (compact_wire ty) + length (compact_wire st) + length w + length body) B4"
    using reserve_maybe_bytes_grown [OF B(2)] reserve_maybe_bytes_grown [OF B(3)]
      created.items_sized [OF B(6)] by (blast intro: grown_trans)
  then have "admitted policy p"
    using B(1) by (auto simp: new_compact_budget_Some p head intro!: admitted_grown [of policy 23])
  moreover have "m \<in> {0x90, 0x96, 0x9E}" "m = 0x96 \<longleftrightarrow> key_of k \<noteq> None"
    by (auto simp: m_def mk_def)
  ultimately show thesis
    using i sm that [of items m ty st "key_of k" "i64_bytes now @ i64_bytes run @ [ind] @ [of_int rm]" body]
    by (auto simp: p head w_def)
qed

lemma batch_request_kind_cases: "batch_request_kind L v a b = Some k \<Longrightarrow> k = a \<or> k = b"
  by (auto simp: batch_request_kind_def Let_def split: if_splits)

lemma transition_many_shape:
  assumes "compact_flow_transition_many_payload L tr policy d = Inr (Some p)"
  obtains items m fs ts k fixed body where "payload_get d ''items'' = PList items" and "small (length items)"
    and "p = m # compact_wire fs @ compact_wire ts @ opt_wire k @ fixed @ u32_bytes (length items) @ body"
    and "length fixed = 17" and "m \<in> {0x9B, 0x9C}" and "admitted policy p"
proof -
  define ind where "ind = compact_bool_marker tr (payload_get d ''independent'')"
  from assms obtain items fs ts now run k B B1 B2 B3 B3' B4 body head rk
    where i: "payload_get d ''items'' = PList items"
    and B: "new_compact_budget policy (Suc 21) = Inr (Some B)"
      "reserve_maybe_bytes B (payload_get d ''from_state'') = Inr (Some fs, B1)"
      "reserve_maybe_bytes B1 (payload_get d ''to_state'') = Inr (Some ts, B2)"
      "reserve_optional_bytes B2 (payload_get d ''partition_key'') = Inr (k, B3)" "k \<noteq> Declined"
      "reserve_if (k = Absent) B3 4 = Inr B3'"
      "each_item transition_many_item B3' items = Inr (Some (body, B4))"
    and rk: "batch_request_kind L (payload_get d ''return'') 0x9B 0x9C = Some rk"
    and h: "pack_all [pack_uint 1 rk, compact_binary fs, compact_binary ts, compact_optional_binary (key_of k),
        pack_i64 now, pack_i64 run, pack_uint 1 ind, pack_u32 (int (length items))] = Inr head"
    and p: "p = head @ body"
    unfolding compact_flow_transition_many_payload_def ind_def [symmetric]
    by (auto simp del: pack_all.simps)
  have head: "head = of_int rk # compact_wire fs @ compact_wire ts @ opt_wire (key_of k) @
      (i64_bytes now @ i64_bytes run @ [of_int ind]) @ u32_bytes (length items)" and sm: "small (length items)"
    using h by (auto simp: packed small_def dest!: pack_wires(1) split: if_splits)
  have "grown B (length (compact_wire fs) + length (compact_wire ts) + length (opt_wire (key_of k)) + length body) B4"
    using reservations(1) [OF B(2)] reservations(1) [OF B(3)] reservations(2) [OF B(4,5)]
      reservations(3) [OF B(6)] transitioned.items_sized [OF B(7)]
    unfolding length_opt_wire [OF B(5)] by (blast intro: grown_trans)
  then have "admitted policy p"
    using B(1) by (auto simp: new_compact_budget_Some p head intro!: admitted_grown [of policy 22])
  moreover have "of_int rk \<in> {0x9B :: byte, 0x9C}" using batch_request_kind_cases [OF rk] by auto
  ultimately show thesis
    using i sm that [of items "of_int rk" fs ts "key_of k" "i64_bytes now @ i64_bytes run @ [of_int ind]" body]
    by (auto simp: p head)
qed

lemma cancel_many_shape:
  assumes "compact_flow_cancel_many_payload L tr policy d = Inr (Some p)"
  obtains items m k fixed body where "payload_get d ''items'' = PList items" and "small (length items)"
    and "p = m # opt_wire k @ fixed @ u32_bytes (length items) @ body"
    and "length fixed = 9" and "m \<in> {0x99, 0x9A}" and "admitted policy p"
proof -
  define ind where "ind = compact_bool_marker tr (payload_get d ''independent'')"
  from assms obtain items now k B B1 B2 B3 body head rk
    where i: "payload_get d ''items'' = PList items"
    and B: "new_compact_budget policy (Suc 13) = Inr (Some B)"
      "reserve_optional_bytes B (payload_get d ''partition_key'') = Inr (k, B1)" "k \<noteq> Declined"
      "reserve_if (k = Absent) B1 4 = Inr B2"
      "each_item cancel_many_item B2 items = Inr (Some (body, B3))"
    and rk: "batch_request_kind L (payload_get d ''return'') 0x99 0x9A = Some rk"
    and h: "pack_all [pack_uint 1 rk, compact_optional_binary (key_of k), pack_i64 now, pack_uint 1 ind,
        pack_u32 (int (length items))] = Inr head"
    and p: "p = head @ body"
    unfolding compact_flow_cancel_many_payload_def ind_def [symmetric]
    by (auto simp del: pack_all.simps)
  have head: "head = of_int rk # opt_wire (key_of k) @ (i64_bytes now @ [of_int ind]) @ u32_bytes (length items)"
    and sm: "small (length items)"
    using h by (auto simp: packed small_def dest!: pack_wires(1) split: if_splits)
  have "grown B (length (opt_wire (key_of k)) + length body) B3"
    using reservations(2) [OF B(2,3)] reservations(3) [OF B(4)] cancelled.items_sized [OF B(5)]
    unfolding length_opt_wire [OF B(3)] by (blast intro: grown_trans)
  then have "admitted policy p"
    using B(1) by (auto simp: new_compact_budget_Some p head intro!: admitted_grown [of policy 14])
  moreover have "of_int rk \<in> {0x99 :: byte, 0x9A}" using batch_request_kind_cases [OF rk] by auto
  ultimately show thesis
    using i sm that [of items "of_int rk" "key_of k" "i64_bytes now @ [of_int ind]" body] by (auto simp: p head)
qed

lemma claimed_many_shape:
  assumes "compact_flow_claimed_many_payload L tr policy d a b extra = Inr (Some p)"
  obtains items m k fixed body where "payload_get d ''items'' = PList items" and "small (length items)"
    and "p = m # opt_wire k @ fixed @ u32_bytes (length items) @ body"
    and "length fixed = (if ''run_at_ms'' \<in> set extra then 17 else 9)" and "m \<in> {of_int a, of_int b}"
    and "admitted policy p"
proof -
  define run where "run \<longleftrightarrow> ''run_at_ms'' \<in> set extra"
  from assms obtain items now k B B1 B2 B3 body front mid rk
    where i: "payload_get d ''items'' = PList items"
    and B: "new_compact_budget policy (Suc (if run then 21 else 13)) = Inr (Some B)"
      "reserve_optional_bytes B (payload_get d ''partition_key'') = Inr (k, B1)" "k \<noteq> Declined"
      "reserve_if (key_of k = None) B1 4 = Inr B2"
      "each_item claimed_many_item B2 items = Inr (Some (body, B3))"
    and rk: "batch_request_kind L (payload_get d ''return'') a b = Some rk"
    and h: "pack_all [pack_uint 1 rk, compact_optional_binary (key_of k)] = Inr front"
    and m: "(if run then
               (case compact_i64 (payload_get d ''run_at_ms'') of
                  None \<Rightarrow> Inr None
                | Some run_at_ms \<Rightarrow>
                    returns (pack_all
                      [pack_i64 now, pack_i64 run_at_ms,
                       pack_uint 1 (compact_bool_marker tr (payload_get d ''independent'')),
                       pack_u32 (int (length items))]))
             else
               returns (pack_all
                 [pack_i64 now, pack_uint 1 (compact_terminal_independent_marker tr d),
                  pack_u32 (int (length items))])) = Inr (Some mid)"
    and p: "p = front @ mid @ body"
    unfolding compact_flow_claimed_many_payload_def run_def
    by (auto simp del: pack_all.simps)
  have front: "front = of_int rk # opt_wire (key_of k)"
    using h by (auto simp: packed dest!: pack_wires(1))
  obtain fixed where mid: "mid = fixed @ u32_bytes (length items)" "length fixed = (if run then 17 else 9)"
    and sm: "small (length items)"
    using m by (cases run) (auto simp: packed small_def split: if_splits)
  have "grown B (length (opt_wire (key_of k)) + length body) B3"
    using reservations(2) [OF B(2,3)] reservations(3) [OF B(4)] claimed.items_sized [OF B(5)]
    unfolding length_opt_wire [OF B(3)] key_of_None [OF B(3)] by (blast intro: grown_trans)
  then have "admitted policy p"
    using B(1) mid(2) unfolding new_compact_budget_Some
    by (cases run) (auto simp: p front mid(1) intro!: admitted_grown [of policy "if run then 22 else 14"])
  moreover have "of_int rk \<in> {of_int a :: byte, of_int b}" using batch_request_kind_cases [OF rk] by auto
  ultimately show thesis
    using i sm mid that [of items "of_int rk" "key_of k" fixed body] by (auto simp: p front run_def)
qed

lemma value_put_admitted:
  assumes "compact_flow_value_put_payload policy mode items = Inr (Some p)"
  shows "admitted policy p"
proof -
  from assms obtain B head body B' where B: "new_compact_budget policy 6 = Inr (Some B)"
    and h: "pipeline_header (int (0x80 OR mode)) (length items) = Inr head" and p: "p = head @ body"
    and e: "each_item value_put_item B items = Inr (Some (body, B')) \<or>
      each_item owned_value_put_item B items = Inr (Some (body, B'))"
    by (auto simp: compact_flow_value_put_payload_def split: if_splits)
  have "grown B (length body) B'"
    using e stored.items_sized owned.items_sized by blast
  then show ?thesis
    using B h by (auto simp: new_compact_budget_Some pipeline_header_Inr p intro!: admitted_grown [of policy 6])
qed

lemma partition_request_grown:
  assumes "compact_partition_request B d = Inr (Some (m, w, B'))"
  shows "grown B (length w) B' \<and> m \<in> {0, 1, 2}"
proof (cases "payload_find d ''partition_key''")
  case (Some v)
  with assms show ?thesis by (auto simp: compact_partition_request_def dest!: binaries.item_sized)
next
  case None
  show ?thesis
  proof (cases "\<exists>vs. payload_find d ''partition_keys'' = Some (PList vs)")
    case True
    then obtain vs where vs: "payload_find d ''partition_keys'' = Some (PList vs)" by blast
    with assms None obtain B1 n body where "cb_reserve B 4 = Inr B1" "w = n @ body" "length n = 4" "m = 2"
      "each_item binary_item B1 vs = Inr (Some (body, B'))"
      by (auto simp: compact_partition_request_def split: if_splits)
    then show ?thesis
      using reserve_if_grown [of True B B1] binaries.items_sized [of B1 vs body B']
      by (auto simp: reserve_if_def intro: grown_2)
  next
    case False
    with assms None show ?thesis
      by (auto simp: compact_partition_request_def split: option.splits pyval.splits)
  qed
qed

lemma claim_due_admitted:
  assumes "compact_flow_claim_due_payload tr policy d = Inr (Some p)"
  shows "admitted policy p"
proof -
  define recl where "recl = (if py_bool tr (payload_get_or d ''reclaim_expired'' (PBool True)) then 1 else 0 :: int)"
  from assms obtain ty k wk le li bl rr pr rm pm body B B1 B2 B2' B3 B4 head
    where B: "new_compact_budget policy (Suc 43) = Inr (Some B)"
      "reserve_maybe_bytes B (payload_get d ''type'') = Inr (Some ty, B1)"
      "reserve_optional_bytes B1 (payload_get d ''state'') = Inr (k, B2)" "k \<noteq> Declined"
      "reserve_if (k = Absent) B2 4 = Inr B2'"
      "reserve_maybe_bytes B2' (payload_get d ''worker'') = Inr (Some wk, B3)"
      "compact_partition_request B3 d = Inr (Some (pm, body, B4))"
    and h: "pack_all
                [pack_uint 1 0x91, compact_binary ty, compact_optional_binary (key_of k),
                 compact_binary wk, pack_i64 le, pack_i64 li, pack_i64 bl, pack_uint 1 recl,
                 pack_i64 rr, pack_i64 pr, pack_uint 1 rm, pack_uint 1 pm] = Inr head"
    and p: "p = head @ body"
    unfolding compact_flow_claim_due_payload_def recl_def [symmetric]
    by (auto simp del: pack_all.simps)
  have "length head = 44 + length (compact_wire ty) + length (opt_wire (key_of k)) + length (compact_wire wk)"
    using h by (auto simp: packed dest!: pack_wires(1))
  moreover have "grown B (length (compact_wire ty) + length (opt_wire (key_of k)) + length (compact_wire wk) + length body) B4"
    using reservations(1) [OF B(2)] reservations(2) [OF B(3,4)] reservations(3) [OF B(5)]
      reservations(1) [OF B(6)] partition_request_grown [OF B(7)]
    unfolding length_opt_wire [OF B(4)] by (blast intro: grown_trans)
  ultimately show ?thesis
    using B(1) by (auto simp: new_compact_budget_Some p intro!: admitted_grown [of policy 44])
qed

section \<open>The count is recovered from the payload\<close>

lemma skip_binary_wire:
  assumes "occurs p off (compact_wire x)" and "length x < NULL_U32"
  shows "skip_binary p off = Some (off + length (compact_wire x))"
proof -
  have o: "occurs p off (u32_bytes (length x))" "off + 4 + length x \<le> length p"
    using assms(1) occurs_le [of p off "compact_wire x"] by (simp_all add: compact_wire_def occurs_append)
  have "length x < 2 ^ 32" using assms(2) by (simp add: NULL_U32_def)
  with o occurs_u32 [of off p "length x"] have "be_decode (bytes_slice p off 4) = length x" by blast
  with o assms(2) show ?thesis by (simp add: skip_binary_def)
qed

lemma skip_binary_opt:
  assumes "occurs p off (opt_wire k)" and "\<forall>x. k = Some x \<longrightarrow> length x < NULL_U32"
  shows "skip_binary p off = Some (off + length (opt_wire k))"
proof (cases k)
  case None
  have "occurs p off (u32_bytes NULL_U32)" "off + 4 \<le> length p"
    using assms(1) occurs_le [of p off "opt_wire k"] by (simp_all add: opt_wire_def None)
  with occurs_u32 [of off p NULL_U32] show ?thesis
    by (simp add: skip_binary_def opt_wire_def None NULL_U32_def)
next
  case (Some x)
  with assms skip_binary_wire [of p off x] show ?thesis by (simp add: opt_wire_def)
qed

lemma read_count_occurs: "occurs p off (u32_bytes n) \<Longrightarrow> small n \<Longrightarrow> read_count p off = Some n"
  using occurs_u32 [of off p n] by (auto simp: read_count_def small_def)

lemma occurs_self: "occurs p 0 p"
  using occurs_to_end [of p 0 p] by simp

lemma part_below: "p = a @ x @ b \<Longrightarrow> a \<noteq> [] \<Longrightarrow> length p < 2 ^ 32 \<Longrightarrow> length x < NULL_U32"
  by (cases a) (auto simp: NULL_U32_def)

lemma claimed_count:
  assumes p: "p = m # opt_wire k @ fixed @ u32_bytes n @ body" and "small n" and "length p < 2 ^ 32"
    and m: "m \<in> {0x92, 0x93, 0x97, 0x98, 0x99, 0x9A}"
    and op: "opcode \<in> {OP_FLOW_COMPLETE_MANY, OP_FLOW_RETRY_MANY, OP_FLOW_FAIL_MANY, OP_FLOW_CANCEL_MANY}"
    and fixed: "length fixed = (if opcode = OP_FLOW_RETRY_MANY then 17 else 9)"
  shows "expected_bytes_items opcode p = Some n"
proof -
  have o: "occurs p 0 (m # opt_wire k @ fixed @ u32_bytes n @ body)" using occurs_self [of p] by (simp add: p)
  have "skip_binary p 1 = Some (1 + length (opt_wire k))"
    using o assms(3) by (intro skip_binary_opt) (auto simp: occurs_Cons occurs_append p opt_wire_def NULL_U32_def)
  moreover have "read_count p (1 + length (opt_wire k) + length fixed) = Some n"
    using o assms(2) by (intro read_count_occurs) (auto simp: occurs_Cons occurs_append add.assoc)
  moreover have "expected_bytes_items opcode p =
      Option.bind (skip_binary p 1) (\<lambda>off. read_count p (off + (if opcode = OP_FLOW_RETRY_MANY then 17 else 9)))"
    using op m by (auto simp: expected_bytes_items_def p flow_opcodes OP_PIPELINE_def OP_MGET_def)
  ultimately show ?thesis by (simp add: fixed)
qed

lemma transition_count:
  assumes p: "p = m # compact_wire a @ compact_wire b @ opt_wire k @ fixed @ u32_bytes n @ body"
    and "small n" and "length p < 2 ^ 32" and m: "m \<in> {0x9B, 0x9C}" and fixed: "length fixed = 17"
  shows "expected_bytes_items OP_FLOW_TRANSITION_MANY p = Some n"
proof -
  let ?o2 = "1 + length (compact_wire a)" let ?o3 = "?o2 + length (compact_wire b)"
  let ?o4 = "?o3 + length (opt_wire k)"
  have o: "occurs p 0 (m # compact_wire a @ compact_wire b @ opt_wire k @ fixed @ u32_bytes n @ body)"
    using occurs_self [of p] by (simp add: p)
  then have os: "occurs p 1 (compact_wire a)" "occurs p ?o2 (compact_wire b)" "occurs p ?o3 (opt_wire k)"
    "occurs p (?o4 + 17) (u32_bytes n)"
    using fixed by (simp_all add: occurs_Cons occurs_append add.assoc)
  have len: "length a < NULL_U32" "length b < NULL_U32" "\<forall>x. k = Some x \<longrightarrow> length x < NULL_U32"
    using assms(3) by (auto simp: p opt_wire_def NULL_U32_def)
  have "expected_bytes_items OP_FLOW_TRANSITION_MANY p =
      Option.bind (skip_binary p 1) (\<lambda>off. Option.bind (skip_binary p off) (\<lambda>off.
        Option.bind (skip_binary p off) (\<lambda>off. read_count p (off + 17))))"
    using m by (auto simp: expected_bytes_items_def p flow_opcodes OP_PIPELINE_def OP_MGET_def)
  then show ?thesis
    using skip_binary_wire [OF os(1) len(1)] skip_binary_wire [OF os(2) len(2)]
      skip_binary_opt [OF os(3) len(3)] read_count_occurs [OF os(4) assms(2)]
    by (simp del: length_compact_wire)
qed

lemma create_count:
  assumes p: "p = m # compact_wire a @ compact_wire b @ (if k = None then [] else opt_wire k) @
      fixed @ u32_bytes n @ body"
    and "small n" and "length p < 2 ^ 32" and m: "m \<in> {0x90, 0x96, 0x9E}" "m = 0x96 \<longleftrightarrow> k \<noteq> None"
    and fixed: "length fixed = 18"
  shows "expected_bytes_items OP_FLOW_CREATE_MANY p = Some n"
proof -
  let ?w = "if k = None then [] else opt_wire k"
  let ?o2 = "1 + length (compact_wire a)" let ?o3 = "?o2 + length (compact_wire b)"
  let ?o4 = "?o3 + length ?w"
  have o: "occurs p 0 (m # compact_wire a @ compact_wire b @ ?w @ fixed @ u32_bytes n @ body)"
    using occurs_self [of p] by (simp add: p)
  then have os: "occurs p 1 (compact_wire a)" "occurs p ?o2 (compact_wire b)" "occurs p ?o3 ?w"
    "occurs p (?o4 + 18) (u32_bytes n)"
    using fixed by (simp_all add: occurs_Cons occurs_append add.assoc del: if_split)
  have len: "length a < NULL_U32" "length b < NULL_U32" "\<forall>x. k = Some x \<longrightarrow> length x < NULL_U32"
    using assms(3) by (auto simp: p opt_wire_def NULL_U32_def)
  have "(if m = 0x96 then skip_binary p ?o3 else Some ?o3) = Some ?o4"
    using skip_binary_opt [of p ?o3 k] os(3) len(3) m(2) by auto
  moreover have "expected_bytes_items OP_FLOW_CREATE_MANY p =
      Option.bind (skip_binary p 1) (\<lambda>off. Option.bind (skip_binary p off) (\<lambda>off.
        Option.bind (if m = 0x96 then skip_binary p off else Some off) (\<lambda>off. read_count p (off + 18))))"
    using m by (auto simp: expected_bytes_items_def p flow_opcodes OP_PIPELINE_def OP_MGET_def)
  ultimately show ?thesis
    using skip_binary_wire [OF os(1) len(1)] skip_binary_wire [OF os(2) len(2)]
      read_count_occurs [OF os(4) assms(2)] m(2)
    by (cases "m = 0x96") (simp_all del: length_compact_wire)
qed

definition announces :: "int \<Rightarrow> (pyval \<times> pyval) list \<Rightarrow> bytes \<Rightarrow> bool" where
  "announces opcode d p \<longleftrightarrow>
     (\<exists>items. payload_get d ''items'' = PList items \<and> expected_bytes_items opcode p = Some (length items))"

lemma claimed_announces:
  assumes "compact_flow_claimed_many_payload L tr policy d a b extra = Inr (Some p)" and "length p < 2 ^ 32"
    and "{of_int a, of_int b :: byte} \<subseteq> {0x92, 0x93, 0x97, 0x98, 0x99, 0x9A}"
    and "opcode \<in> {OP_FLOW_COMPLETE_MANY, OP_FLOW_RETRY_MANY, OP_FLOW_FAIL_MANY, OP_FLOW_CANCEL_MANY}"
    and "''run_at_ms'' \<in> set extra \<longleftrightarrow> opcode = OP_FLOW_RETRY_MANY"
  shows "announces opcode d p"
  using assms(1)
proof (rule claimed_many_shape)
  fix items m k fixed body
  assume i: "payload_get d ''items'' = PList items" and "small (length items)"
    "p = m # opt_wire k @ fixed @ u32_bytes (length items) @ body"
    "length fixed = (if ''run_at_ms'' \<in> set extra then 17 else 9)" "m \<in> {of_int a, of_int b}"
  with assms have "expected_bytes_items opcode p = Some (length items)"
    by (intro claimed_count) auto
  with i show ?thesis by (simp add: announces_def)
qed

lemma cancel_announces:
  assumes "compact_flow_cancel_many_payload L tr policy d = Inr (Some p)" and "length p < 2 ^ 32"
  shows "announces OP_FLOW_CANCEL_MANY d p"
  using assms(1)
proof (rule cancel_many_shape)
  fix items m k fixed body
  assume i: "payload_get d ''items'' = PList items" and "small (length items)"
    "p = m # opt_wire k @ fixed @ u32_bytes (length items) @ body" "length fixed = 9" "m \<in> {0x99, 0x9A}"
  with assms(2) have "expected_bytes_items OP_FLOW_CANCEL_MANY p = Some (length items)"
    by (intro claimed_count) (auto simp: flow_opcodes)
  with i show ?thesis by (simp add: announces_def)
qed

lemma create_announces:
  assumes "compact_flow_create_many_payload tr policy d = Inr (Some p)" and "length p < 2 ^ 32"
  shows "announces OP_FLOW_CREATE_MANY d p"
  using assms(1)
proof (rule create_many_shape)
  fix items m ty st k fixed body
  assume i: "payload_get d ''items'' = PList items" and "small (length items)" and
    "p = m # compact_wire ty @ compact_wire st @ (if k = None then [] else opt_wire k) @
      fixed @ u32_bytes (length items) @ body" "length fixed = 18" "m \<in> {0x90, 0x96, 0x9E}" "m = 0x96 \<longleftrightarrow> k \<noteq> None"
  with assms(2) have "expected_bytes_items OP_FLOW_CREATE_MANY p = Some (length items)"
    by (intro create_count)
  with i show ?thesis by (simp add: announces_def)
qed

lemma transition_announces:
  assumes "compact_flow_transition_many_payload L tr policy d = Inr (Some p)" and "length p < 2 ^ 32"
  shows "announces OP_FLOW_TRANSITION_MANY d p"
  using assms(1)
proof (rule transition_many_shape)
  fix items m fs ts k fixed body
  assume i: "payload_get d ''items'' = PList items" and "small (length items)" and
    "p = m # compact_wire fs @ compact_wire ts @ opt_wire k @ fixed @ u32_bytes (length items) @ body"
    "length fixed = 17" "m \<in> {0x9B, 0x9C}"
  with assms(2) have "expected_bytes_items OP_FLOW_TRANSITION_MANY p = Some (length items)"
    by (intro transition_count)
  with i show ?thesis by (simp add: announces_def)
qed

lemma batch_announces:
  assumes "compact_batch L tr policy opcode d = Inr (Some p)" and "length p < 2 ^ 32"
  shows "announces opcode d p"
proof -
  have "announces opcode d p"
    if "opcode \<in> {OP_FLOW_CREATE_MANY, OP_FLOW_TRANSITION_MANY, OP_FLOW_CANCEL_MANY}"
    using assms that create_announces [of tr policy d p] transition_announces [of L tr policy d p]
      cancel_announces [of L tr policy d p]
    by (auto simp: compact_batch_def flow_opcodes)
  moreover have "announces opcode d p" if "opcode = OP_FLOW_COMPLETE_MANY"
    using assms that
    by (intro claimed_announces [of L tr policy d "0x92" "0x93" "[''terminal_local_only'']" p]) (simp_all add: compact_batch_def flow_opcodes)
  moreover have "announces opcode d p" if "opcode = OP_FLOW_FAIL_MANY"
    using assms that
    by (intro claimed_announces [of L tr policy d "0x92" "0x93" "[]" p]) (simp_all add: compact_batch_def flow_opcodes)
  moreover have "announces opcode d p" if "opcode = OP_FLOW_RETRY_MANY"
    using assms that
    by (intro claimed_announces [of L tr policy d "0x97" "0x98" "[''run_at_ms'']" p]) (simp_all add: compact_batch_def flow_opcodes)
  ultimately show ?thesis
    using assms(1) by (auto simp: compact_batch_def split: if_splits)
qed

lemma batch_admitted:
  "compact_batch L tr policy opcode d = Inr (Some p) \<Longrightarrow> admitted policy p"
  by (auto simp: compact_batch_def split: if_splits
      elim: create_many_shape claimed_many_shape transition_many_shape cancel_many_shape)

lemma kv_admitted:
  "compact_kv_set_pairs_payload policy args mode = Inr (Some p) \<Longrightarrow> admitted policy p"
  "compact_kv_keys_payload policy args mode = Inr (Some p) \<Longrightarrow> admitted policy p"
  "compact_kv_set_keys_value_payload policy args value_arg mode = Inr (Some p) \<Longrightarrow> admitted policy p"
  by (simp_all add: admitted_def set_pairs_exact keys_value_payload_exact compact_kv_keys_payload_def
      compact_binary_sequence_exact)

text \<open>
  A compact payload never outgrows the transport's pending-request limit: under the policy a
  transport with a limit of \<open>m\<close> bytes installs, every payload that a compact builder returns, for Flow
  batches, claims, value reads and writes and for key-value commands, leaves room in \<open>m\<close> for itself and
  its frame header.
\<close>
theorem compact_payloads_within_limit:
  assumes "transport_compact_encoding_policy (Some m) compression = Inr policy"
    and "Inr (Some p) \<in>
      {compact_batch L tr policy opcode d, compact_flow_claim_due_payload tr policy d,
       compact_flow_value_mget_payload policy d, compact_flow_value_put_payload policy mode puts,
       compact_kv_set_pairs_payload policy args kv_mode, compact_kv_keys_payload policy args kv_mode,
       compact_kv_set_keys_value_payload policy args value_arg kv_mode}"
  shows "int (HEADER_SIZE + length p) \<le> m"
proof -
  from assms(2) consider
      "compact_batch L tr policy opcode d = Inr (Some p)"
    | "compact_flow_claim_due_payload tr policy d = Inr (Some p)"
    | "compact_flow_value_mget_payload policy d = Inr (Some p)"
    | "compact_flow_value_put_payload policy mode puts = Inr (Some p)"
    | "compact_kv_set_pairs_payload policy args kv_mode = Inr (Some p)"
    | "compact_kv_keys_payload policy args kv_mode = Inr (Some p)"
    | "compact_kv_set_keys_value_payload policy args value_arg kv_mode = Inr (Some p)"
    by fastforce
  then have "admitted policy p"
    by cases
      (auto intro: batch_admitted claim_due_admitted value_put_admitted kv_admitted elim: value_mget_shape)
  then show ?thesis
    using assms(1)
    by (auto simp: transport_compact_encoding_policy_def compact_payload_budget_def admitted_def admits_size_def
        split: if_splits)
qed

theorem compact_payloads_within_limit_witness:
  "compact_flow_value_mget_payload
     \<lparr>cp_enabled = True, cp_max_payload_bytes = Some 40, cp_pending_limit = Some 64\<rparr>
     [(PStr (text_lit ''refs''), PList [PStr [0x61]])] =
     Inr (Some (0x9D # i64_bytes I64_MIN @ u32_bytes 1 @ compact_wire [0x61])) \<and>
   int (HEADER_SIZE + length (0x9D # i64_bytes I64_MIN @ u32_bytes 1 @ compact_wire [0x61])) \<le> 64"
proof -
  let ?P = "\<lparr>cp_enabled = True, cp_max_payload_bytes = Some 40, cp_pending_limit = Some 64\<rparr>"
  let ?d = "[(PStr (text_lit ''refs''), PList [PStr [0x61]])]"
  let ?p = "0x9D # i64_bytes I64_MIN @ u32_bytes 1 @ compact_wire [0x61]"
  have pol: "transport_compact_encoding_policy (Some 64) ''none'' = Inr ?P"
    by (simp add: transport_compact_encoding_policy_def compact_payload_budget_def HEADER_SIZE_def)
  have b: "reserve_maybe_bytes (policy_budget ?P 13) (PStr [0x61]) = Inr (Some [0x61], policy_budget ?P 18)"
    by (simp add: reserve_maybe_bytes_Some encode_arg_def admits_size_def is_surrogate_def utf8_char_def)
  have n: "new_compact_budget ?P 13 = Inr (Some (policy_budget ?P 13))"
    using new_compact_budget_Some [of ?P 13] by (simp add: admits_size_def)
  have c: "compact_binary [0x61] = Inr (compact_wire [0x61])"
    "pack_i64 I64_MIN = Inr (i64_bytes I64_MIN)" "pack_uint (Suc 0) 0x9D = Inr [0x9D]"
    "pack_u32 1 = Inr (u32_bytes 1)"
    using pack_u32_of_nat [of 1] by (simp_all add: compact_binary_Inr small_def packed int_limits)
  have g: "payload_get ?d ''refs'' = PList [PStr [0x61]]" "payload_get_or ?d ''max_bytes'' v = v" "only_fields ?d [''refs'', ''max_bytes'']" for v
    by (simp_all add: payload_get_def payload_get_or_def payload_find_def only_fields_def text_lit_def)
  have v: "compact_flow_value_mget_payload ?P ?d = Inr (Some ?p)"
    using g n b c
    by (simp add: compact_flow_value_mget_payload_def compact_i64_def binary_item_def int_limits)
  show ?thesis
    using v compact_payloads_within_limit [OF pol, of ?p undefined undefined undefined ?d undefined undefined undefined undefined undefined]
    by simp
qed

text \<open>
  C31. A compact batch payload announces its own items: for every batch command whose compact payload
  fits a frame, the count recovered from the payload's bytes, which bounds and checks the response, is
  the number of items of the dictionary payload it replaces.
\<close>
theorem compact_batch_announces_items:
  assumes "compact_batch L tr policy opcode d = Inr (Some p)" and "int (length p) \<le> U32_MAX"
  shows "\<exists>items. payload_get d ''items'' = PList items \<and>
     expected_payload_collection_items opcode (PBytes p) = Some (length items) \<and>
     expected_payload_collection_items opcode (PDict d) = Some (length items)"
proof -
  have "length p < 2 ^ 32" using assms(2) by (simp add: U32_MAX_def)
  with assms(1) have "announces opcode d p" by (rule batch_announces)
  moreover have "opcode \<in> {OP_FLOW_CREATE_MANY, OP_FLOW_COMPLETE_MANY, OP_FLOW_TRANSITION_MANY,
      OP_FLOW_RETRY_MANY, OP_FLOW_FAIL_MANY, OP_FLOW_CANCEL_MANY}"
    using assms(1) by (auto simp: compact_batch_def split: if_splits)
  ultimately show ?thesis
    by (auto simp: announces_def expected_payload_collection_items_def flow_opcodes OP_PIPELINE_def)
qed

theorem compact_batch_announces_items_witness:
  "\<exists>items. payload_get [(PStr (text_lit ''now_ms''), PInt 5),
       (PStr (text_lit ''items''), PList [PDict [(PStr (text_lit ''id''), PBytes [0x61]),
          (PStr (text_lit ''fencing_token''), PInt 7)]])] ''items'' = PList items \<and>
     expected_payload_collection_items OP_FLOW_CANCEL_MANY
       (PBytes (0x99 # u32_bytes NULL_U32 @ i64_bytes 5 @ [0] @ u32_bytes 1 @
          compact_wire [0x61] @ u32_bytes NULL_U32 @ i64_bytes 7)) = Some (length items) \<and>
     expected_payload_collection_items OP_FLOW_CANCEL_MANY
       (PDict [(PStr (text_lit ''now_ms''), PInt 5),
         (PStr (text_lit ''items''), PList [PDict [(PStr (text_lit ''id''), PBytes [0x61]),
            (PStr (text_lit ''fencing_token''), PInt 7)]])]) = Some (length items)"
proof (rule compact_batch_announces_items)
  have "pack_u32 1 = Inr (u32_bytes 1)" "pack_u32 (int NULL_U32) = Inr (u32_bytes NULL_U32)"
    using pack_u32_of_nat [of 1] pack_u32_of_nat [of NULL_U32] by (simp_all add: NULL_U32_def)
  moreover have "pack_i64 5 = Inr (i64_bytes 5)" "pack_i64 7 = Inr (i64_bytes 7)"
    "compact_binary [0x61] = Inr (compact_wire [0x61])"
    "pack_uint (Suc 0) 0x99 = Inr [0x99]" "pack_uint (Suc 0) 0 = Inr [0]"
    by (simp_all add: packed int_limits small_def)
  ultimately show "compact_batch ascii_lib (\<lambda>_. True) unbounded_policy OP_FLOW_CANCEL_MANY
      [(PStr (text_lit ''now_ms''), PInt 5),
       (PStr (text_lit ''items''), PList [PDict [(PStr (text_lit ''id''), PBytes [0x61]),
          (PStr (text_lit ''fencing_token''), PInt 7)]])] =
    Inr (Some (0x99 # u32_bytes NULL_U32 @ i64_bytes 5 @ [0] @ u32_bytes 1 @
          compact_wire [0x61] @ u32_bytes NULL_U32 @ i64_bytes 7))"
    by (simp add: compact_batch_def flow_opcodes compact_flow_cancel_many_payload_def only_fields_def
        payload_get_def payload_find_def text_lit_def compact_i64_def int_limits unbounded_policy_def
        new_compact_budget_def make_compact_budget_def cb_reserve_def batch_request_kind_def returns_def
        reserve_optional_bytes_def reserve_maybe_bytes_def reserve_if_def compact_optional_binary_def
        key_of_def compact_bool_marker_def cancel_many_item_def)
qed (simp add: U32_MAX_def NULL_U32_def)

end
