(* ===== verification/Routing.thy ===== *)
theory Routing
  imports Command_Keys
begin

text \<open>
  Routing decisions and batches: \<open>topology_core.py\<close>, and the endpoint, lane and retry helpers of
  \<open>protocol_common.py\<close>. The functions that \<open>topology_core.py\<close> receives as callbacks (\<open>slot_for_key\<close>,
  \<open>command_name\<close>) are the ones the client passes.
\<close>

section \<open>Control endpoints\<close>

definition fromkeys :: "'a list \<Rightarrow> 'a list" where
  "fromkeys xs = foldl (\<lambda>d x. if x \<in> set d then d else d @ [x]) [] xs"

record control_endpoint_selector =
  ce_seed_urls :: "ustr list"
  ce_last_good_url :: "ustr option"

definition make_selector :: "ustr list \<Rightarrow> control_endpoint_selector" where
  "make_selector seed_urls = \<lparr>ce_seed_urls = fromkeys seed_urls, ce_last_good_url = None\<rparr>"

definition mark_success :: "control_endpoint_selector \<Rightarrow> ustr \<Rightarrow> control_endpoint_selector" where
  "mark_success s url = s\<lparr>ce_last_good_url := Some url\<rparr>"

definition candidates :: "control_endpoint_selector \<Rightarrow> ustr list \<Rightarrow> ustr list" where
  "candidates s discovered_urls =
     fromkeys ((case ce_last_good_url s of None \<Rightarrow> [] | Some u \<Rightarrow> [u]) @ ce_seed_urls s @ discovered_urls)"

section \<open>Endpoints and URLs\<close>

definition url_host :: "ustr \<Rightarrow> ustr" where
  "url_host host =
     (if of_char CHR '':'' \<in> set host \<and> \<not> startswith host (text_lit ''['')
      then text_lit ''['' @ host @ text_lit '']'' else host)"

definition py_decimal :: "int \<Rightarrow> ustr" where
  "py_decimal n = (if n < 0 then text_lit ''-'' @ decimal (nat (- n)) else decimal (nat n))"

definition endpoint_ports :: "pyval \<Rightarrow> (ustr \<times> int \<times> int option) result" where
  "endpoint_ports endpoint =
     and_then (text_or_none (map_get endpoint [''host'', ''native_host''])) (\<lambda>host.
       case (host, int_or_none (map_get endpoint [''native_port''])) of
         (Some h, Some p) \<Rightarrow> Inr (h, p, int_or_none (map_get endpoint [''native_tls_port'']))
       | _ \<Rightarrow> Inl (FerricStoreError ''invalid FerricStore endpoint''))"

definition url_from_endpoint :: "pyval \<Rightarrow> bool \<Rightarrow> ustr result" where
  "url_from_endpoint endpoint tls =
     and_then (endpoint_ports endpoint) (\<lambda>(host, native_port, tls_port).
       let port = (case tls_port of Some p \<Rightarrow> if tls then p else native_port | None \<Rightarrow> native_port);
           scheme = (if tls then text_lit ''ferrics'' else text_lit ''ferric'')
       in Inr (scheme @ text_lit ''://'' @ url_host host @ text_lit '':'' @ py_decimal port))"

definition connection_endpoint_key :: "(ustr \<Rightarrow> ustr) \<Rightarrow> pyval \<Rightarrow> bool \<Rightarrow> endpoint_key result" where
  "connection_endpoint_key lower endpoint tls =
     and_then (endpoint_ports endpoint) (\<lambda>(host, native_port, tls_port).
       Inr (lower host, (case tls_port of Some p \<Rightarrow> if tls then p else native_port | None \<Rightarrow> native_port)))"

fun urls_of :: "pyval list \<Rightarrow> bool \<Rightarrow> ustr list result" where
  "urls_of [] tls = Inr []"
| "urls_of (e # es) tls = and_then (url_from_endpoint e tls) (\<lambda>u. and_then (urls_of es tls) (\<lambda>us. Inr (u # us)))"

definition topology_candidate_urls ::
    "control_endpoint_selector \<Rightarrow> ustr list \<Rightarrow> topology \<Rightarrow> bool \<Rightarrow> ustr list result" where
  "topology_candidate_urls selector seed_urls t tls =
     and_then (urls_of (map snd (tp_endpoints t)) tls) (\<lambda>discovered.
       Inr (filter (\<lambda>url. url \<in> set seed_urls \<or> url \<in> set discovered) (candidates selector discovered)))"

definition topology_update_required :: "topology \<Rightarrow> topology \<Rightarrow> bool" where
  "topology_update_required current candidate \<longleftrightarrow>
     \<not> (tp_route_epoch candidate = tp_route_epoch current \<and> tp_shard_count candidate = tp_shard_count current \<and>
        tp_slots candidate = tp_slots current \<and> set (tp_endpoints candidate) = set (tp_endpoints current) \<and>
        tp_route_destinations candidate = tp_route_destinations current)"

definition validated_route_lane :: "pyval \<Rightarrow> int option result" where
  "validated_route_lane v =
     (case v of
        PNone \<Rightarrow> Inr None
      | PInt n \<Rightarrow>
          if 0 \<le> n \<and> n \<le> MAX_LANE_ID then Inr (Some n)
          else Inl (ValueError ''route lane_id must be an unsigned 32-bit integer'')
      | _ \<Rightarrow> Inl (ValueError ''route lane_id must be an unsigned 32-bit integer''))"

definition CONTROL_OPCODES :: "int list" where "CONTROL_OPCODES = map int [0x0001 ..< 0x0013]"

definition lane_for_opcode :: "int \<Rightarrow> int" where
  "lane_for_opcode opcode = (if opcode \<in> set CONTROL_OPCODES then 0 else 1)"

section \<open>Retry classification\<close>

record ferric_exc =
  fe_retryable :: "bool option"
  fe_safe_to_retry :: "bool option"
  fe_retry_after_ms :: pyval
  fe_message :: ustr
  fe_raw :: pyval

text \<open>An exception: one of the client's errors, an \<open>OSError\<close> or timeout, or anything else.\<close>

datatype exc = Ferric ferric_exc | Transport | Other_exc

definition contains :: "'a list \<Rightarrow> 'a list \<Rightarrow> bool" where
  "contains s t \<longleftrightarrow> list_ex (\<lambda>i. startswith (drop i s) t) [0 ..< length s + 1]"

definition optional_text :: "pylib \<Rightarrow> pyval \<Rightarrow> string \<Rightarrow> ustr option result" where
  "optional_text L mapping key =
     (case map_get mapping [key] of
        PNone \<Rightarrow> Inr None
      | PBytes b \<Rightarrow> and_then (utf8_decode b) (\<lambda>t. Inr (Some t))
      | PStr t \<Rightarrow> Inr (Some t)
      | v \<Rightarrow> Inr (Some (str_of L v)))"

text \<open>The delay is kept in milliseconds; the source divides it by 1000.0.\<close>

definition server_retry_delay_ms :: "exc \<Rightarrow> int option" where
  "server_retry_delay_ms e =
     (case e of
        Ferric f \<Rightarrow>
          (case fe_retry_after_ms f of
             PNone \<Rightarrow> Some 0
           | PInt delay_ms \<Rightarrow> if 0 \<le> delay_ms \<and> delay_ms \<le> 30000 then Some delay_ms else None
           | _ \<Rightarrow> None)
      | _ \<Rightarrow> Some 0)"

definition server_allows_retry :: "exc \<Rightarrow> bool" where
  "server_allows_retry e =
     (case e of
        Ferric f \<Rightarrow> fe_retryable f = Some True \<and> fe_safe_to_retry f = Some True \<and> server_retry_delay_ms e \<noteq> None
      | Transport \<Rightarrow> True
      | Other_exc \<Rightarrow> False)"

definition is_retryable_route_error :: "pylib \<Rightarrow> (ustr \<Rightarrow> ustr) \<Rightarrow> exc \<Rightarrow> bool result" where
  "is_retryable_route_error L lower e =
     (case e of
        Transport \<Rightarrow> Inr True
      | Other_exc \<Rightarrow> Inr False
      | Ferric f \<Rightarrow>
          (case fe_retryable f of
             Some r \<Rightarrow> Inr r
           | None \<Rightarrow>
               if list_ex (\<lambda>token. contains (lower (fe_message f)) (text_lit token))
                    [''connection'', ''closed'', ''reroute'', ''leader'']
               then Inr True
               else
                 and_then (optional_text L (fe_raw f) ''reason'') (\<lambda>reason.
                   Inr (case reason of
                          None \<Rightarrow> False
                        | Some r \<Rightarrow> named (lower r) [''reroute'', ''leader_changed'', ''not_leader'']))))"

definition is_topology_refresh_error :: "pylib \<Rightarrow> (ustr \<Rightarrow> ustr) \<Rightarrow> exc \<Rightarrow> bool result" where
  "is_topology_refresh_error L lower e =
     (case e of
        Transport \<Rightarrow> Inr True
      | Other_exc \<Rightarrow> Inr False
      | Ferric f \<Rightarrow>
          and_then (optional_text L (fe_raw f) ''reason'') (\<lambda>reason.
            if (case reason of
                  None \<Rightarrow> False
                | Some r \<Rightarrow> named (lower r) [''reroute'', ''leader_changed'', ''not_leader''])
            then Inr True
            else Inr (list_ex (\<lambda>token. contains (lower (fe_message f)) (text_lit token))
                   [''reroute'', ''not leader'', ''not_leader'', ''leader changed'', ''connection closed''])))"

definition SAFE_CONTROL_RETRY_COMMANDS :: "string list" where
  "SAFE_CONTROL_RETRY_COMMANDS = [''FLOW.QUERY'', ''FLOW.QUERY.INDEXES'', ''OPTIONS'', ''PING'', ''SHARDS'']"

definition is_safe_control_retry :: "pylib \<Rightarrow> pyval list \<Rightarrow> bool" where
  "is_safe_control_retry L args \<longleftrightarrow>
     args \<noteq> [] \<and> named (normalize_command_name L (args ! 0)) SAFE_CONTROL_RETRY_COMMANDS"

definition coerce_bool :: "(ustr \<Rightarrow> ustr) \<Rightarrow> pyval \<Rightarrow> bool result" where
  "coerce_bool lower v =
     (let of_text = (\<lambda>t.
            if named (lower t) [''1'', ''true'', ''yes'', ''on''] then Inr True
            else if named (lower t) [''0'', ''false'', ''no'', ''off''] then Inr False
            else Inl (InvalidCommandError ''protocol boolean must be true/false, yes/no, on/off, or 1/0''))
      in case v of
           PBool b \<Rightarrow> Inr b
         | PBytes b \<Rightarrow>
             (case utf8_decode b of
                Inl _ \<Rightarrow> Inl (InvalidCommandError ''protocol boolean must be valid UTF-8'')
              | Inr t \<Rightarrow> of_text t)
         | PStr t \<Rightarrow> of_text t
         | PInt n \<Rightarrow>
             if n = 1 then Inr True
             else if n = 0 then Inr False
             else Inl (InvalidCommandError ''protocol boolean must be true/false, yes/no, on/off, or 1/0'')
         | _ \<Rightarrow> Inl (InvalidCommandError ''protocol boolean must be true/false, yes/no, on/off, or 1/0''))"

section \<open>Route decisions\<close>

datatype route_decision =
    Route_control
  | Route_single pyval nat
  | Route_cross nat nat

definition require_routable_key :: "route_decision \<Rightarrow> pyval result" where
  "require_routable_key d =
     (case d of
        Route_cross _ _ \<Rightarrow> Inl (InvalidCommandError ''multi-key commands require all keys to hash to the same slot'')
      | Route_single k _ \<Rightarrow> Inr k
      | Route_control \<Rightarrow> Inr PNone)"

definition is_cross :: "route_decision \<Rightarrow> bool" where
  "is_cross d = (case d of Route_cross _ _ \<Rightarrow> True | _ \<Rightarrow> False)"

definition value_slot :: "pyval \<Rightarrow> nat option result" where
  "value_slot v =
     (case v of
        PStr t \<Rightarrow> and_then (slot_for_key (Key_text t)) (\<lambda>s. Inr (Some s))
      | PBytes b \<Rightarrow> and_then (slot_for_key (Key_bytes b)) (\<lambda>s. Inr (Some s))
      | _ \<Rightarrow> Inr None)"

fun route_keys_loop :: "pyval list \<Rightarrow> (pyval \<times> nat) option \<Rightarrow> route_decision result" where
  "route_keys_loop [] first = Inr (case first of None \<Rightarrow> Route_control | Some (k, s) \<Rightarrow> Route_single k s)"
| "route_keys_loop (key # rest) first =
     and_then (value_slot key) (\<lambda>slot.
       case slot of
         None \<Rightarrow> route_keys_loop rest first
       | Some s \<Rightarrow>
           (case first of
              None \<Rightarrow> route_keys_loop rest (Some (key, s))
            | Some (k, s0) \<Rightarrow> if s \<noteq> s0 then Inr (Route_cross s0 s) else route_keys_loop rest first))"

definition route_for_keys :: "pyval list \<Rightarrow> route_decision result" where
  "route_for_keys ks = route_keys_loop ks None"

definition validate_single_slot :: "pyval list \<Rightarrow> pyval result" where
  "validate_single_slot ks = and_then (route_for_keys ks) require_routable_key"

definition PAYLOAD_KEY_FIELDS :: "string list" where
  "PAYLOAD_KEY_FIELDS =
     [''key'', ''partition_key'', ''id'', ''owner_flow_id'', ''parent_flow_id'', ''root_flow_id'',
      ''correlation_id'', ''scope'']"

fun pair_keys :: "pyval list \<Rightarrow> pyval list" where
  "pair_keys (PList (k # _) # rest) = k # pair_keys rest"
| "pair_keys (_ # rest) = pair_keys rest"
| "pair_keys [] = []"

definition route_for_payload :: "pyval \<Rightarrow> route_decision result" where
  "route_for_payload payload =
     (case payload of
        PDict m \<Rightarrow>
          (case List.find (\<lambda>field. is_text_or_bytes (mapping_value m field)) PAYLOAD_KEY_FIELDS of
             Some field \<Rightarrow> route_for_keys [mapping_value m field]
           | None \<Rightarrow>
               (case mapping_value m ''keys'' of
                  PList ks \<Rightarrow> route_for_keys ks
                | _ \<Rightarrow>
                    (case mapping_value m ''pairs'' of
                       PList ps \<Rightarrow> route_for_keys (pair_keys ps)
                     | _ \<Rightarrow> Inr Route_control)))
      | _ \<Rightarrow> Inr Route_control)"

definition route_for_command ::
    "pylib \<Rightarrow> (bytes \<Rightarrow> bytes) \<Rightarrow> pyval list \<Rightarrow> int \<Rightarrow> pyval \<Rightarrow> route_decision result" where
  "route_for_command L sha args opcode payload =
     (if args = [] then Inr Route_control
      else
        let name0 = normalize_command_name L (args ! 0) in
        if opcode \<in> set CONTROL_OPCODES \<or> named name0 [''CLUSTER.KEYSLOT'', ''SHARDS'', ''ROUTE''] then Inr Route_control
        else
          let command_args0 = drop 1 args;
              exec = (name0 = text_lit ''COMMAND_EXEC'' \<and> command_args0 \<noteq> []);
              name = (if exec then normalize_command_name L (command_args0 ! 0) else name0);
              command_args = (if exec then drop 1 command_args0 else command_args0);
              is_flow = startswith name (text_lit ''FLOW.'')
          in and_then (command_route_keys L sha (PStr name) command_args) (\<lambda>route_keys.
               if route_keys \<noteq> [] then
                 and_then (route_for_keys route_keys) (\<lambda>decision.
                   Inr (if is_flow \<and> is_cross decision then Route_control else decision))
               else if is_flow then Inr Route_control
               else route_for_payload payload))"

section \<open>Batches\<close>

record ('t, 'c) route_batch_group =
  bg_target :: 't
  bg_indexes :: "nat list"
  bg_commands :: "'c list"

record ('t, 'c) route_batch_plan =
  bp_groups :: "('t, 'c) route_batch_group list"
  bp_command_count :: nat

definition group_add ::
    "('k \<times> ('t, 'c) route_batch_group) list \<Rightarrow> 'k \<Rightarrow> 't \<Rightarrow> nat \<Rightarrow> 'c \<Rightarrow> ('k \<times> ('t, 'c) route_batch_group) list" where
  "group_add groups key target index command =
     (let g = (case dict_get groups key of
                 Some g \<Rightarrow> g
               | None \<Rightarrow> \<lparr>bg_target = target, bg_indexes = [], bg_commands = []\<rparr>)
      in dict_set groups key
           (g\<lparr>bg_indexes := bg_indexes g @ [index], bg_commands := bg_commands g @ [command]\<rparr>))"

fun build_groups ::
    "('t \<Rightarrow> 'k) \<Rightarrow> nat \<Rightarrow> ('t \<times> 'c) list \<Rightarrow> ('k \<times> ('t, 'c) route_batch_group) list \<Rightarrow>
     ('k \<times> ('t, 'c) route_batch_group) list" where
  "build_groups group_key index [] groups = groups"
| "build_groups group_key index ((target, command) # rest) groups =
     build_groups group_key (index + 1) rest (group_add groups (group_key target) target index command)"

definition batch_build :: "('t \<Rightarrow> 'k) \<Rightarrow> ('t \<times> 'c) list \<Rightarrow> ('t, 'c) route_batch_plan" where
  "batch_build group_key routed_commands =
     \<lparr>bp_groups = map snd (build_groups group_key 0 routed_commands []), bp_command_count = length routed_commands\<rparr>"

fun store_values :: "'v option list \<Rightarrow> nat list \<Rightarrow> 'v list \<Rightarrow> 'v option list" where
  "store_values results (i # is) (v # vs) = store_values (results[i := Some v]) is vs"
| "store_values results _ _ = results"

fun merge_groups ::
    "('t, 'c) route_batch_group list \<Rightarrow> 'v list list \<Rightarrow> 'v option list \<Rightarrow> 'v option list result" where
  "merge_groups (g # gs) (vs # vss) results =
     (if length vs \<noteq> length (bg_indexes g)
      then Inl (FerricStoreError ''topology batch returned invalid response cardinality'')
      else merge_groups gs vss (store_values results (bg_indexes g) vs))"
| "merge_groups _ _ results = Inr results"

definition batch_merge :: "('t, 'c) route_batch_plan \<Rightarrow> 'v list list \<Rightarrow> 'v option list result" where
  "batch_merge plan group_values =
     (if length group_values \<noteq> length (bp_groups plan)
      then Inl (FerricStoreError ''topology batch returned invalid group cardinality'')
      else merge_groups (bp_groups plan) group_values (replicate (bp_command_count plan) None))"

section \<open>Flow wake subscription\<close>

record flow_wake_subscription =
  fw_args :: "pyval list"
  fw_kwargs :: "(string \<times> pyval) list"

definition remember_wake ::
    "flow_wake_subscription option \<Rightarrow> pyval list \<Rightarrow> (string \<times> pyval) list \<Rightarrow> flow_wake_subscription option \<times> bool" where
  "remember_wake current args kwargs =
     (Some \<lparr>fw_args = args, fw_kwargs = kwargs\<rparr>,
      \<not> (case current of
           None \<Rightarrow> False
         | Some item \<Rightarrow> fw_args item = args \<and> set (fw_kwargs item) = set kwargs))"

definition snapshot_wake :: "flow_wake_subscription option \<Rightarrow> flow_wake_subscription list" where
  "snapshot_wake current = (case current of None \<Rightarrow> [] | Some item \<Rightarrow> [item])"

section \<open>One slot per command\<close>

definition routed :: "pyval list \<Rightarrow> (pyval \<times> nat) list" where
  "routed ks = List.map_filter (\<lambda>k. case value_slot k of Inr (Some s) \<Rightarrow> Some (k, s) | _ \<Rightarrow> None) ks"

lemma routed_Cons:
  "routed (k # ks) = (case value_slot k of Inr (Some s) \<Rightarrow> [(k, s)] | _ \<Rightarrow> []) @ routed ks"
  by (simp add: routed_def List.map_filter_def split: sum.split option.split)

lemma routed_Nil [simp]: "routed [] = []"
  by (simp add: routed_def List.map_filter_def)

definition hashable :: "pyval list \<Rightarrow> bool" where
  "hashable ks \<longleftrightarrow> list_all (\<lambda>k. \<not> isl (value_slot k)) ks"

lemma route_keys_loop_first:
  "hashable ks \<Longrightarrow>
   route_keys_loop ks (Some (k, s)) =
     Inr (case List.find (\<lambda>p. snd p \<noteq> s) (routed ks) of None \<Rightarrow> Route_single k s | Some p \<Rightarrow> Route_cross s (snd p))"
proof (induction ks)
  case (Cons x ks)
  then obtain r where r: "value_slot x = Inr r" by (cases "value_slot x") (auto simp: hashable_def)
  with Cons show ?case by (cases r) (auto simp: routed_Cons hashable_def)
qed simp

lemma route_keys_loop_none:
  "hashable ks \<Longrightarrow>
   route_keys_loop ks None =
     (case routed ks of
        [] \<Rightarrow> Inr Route_control
      | (k, s) # r \<Rightarrow>
          Inr (case List.find (\<lambda>p. snd p \<noteq> s) r of None \<Rightarrow> Route_single k s | Some p \<Rightarrow> Route_cross s (snd p)))"
proof (induction ks)
  case (Cons x ks)
  then obtain r where r: "value_slot x = Inr r" by (cases "value_slot x") (auto simp: hashable_def)
  with Cons show ?case
    by (cases r) (auto simp: routed_Cons hashable_def route_keys_loop_first [unfolded hashable_def])
qed simp

text \<open>
  C23. Keys that can be hashed are routed together exactly when those that are text or bytes all fall in
  one slot; the command then goes by the first of them, and keys of two slots are refused.
\<close>

theorem single_slot_exact:
  assumes "hashable ks"
  shows "validate_single_slot ks = Inr k \<longleftrightarrow>
    (case routed ks of [] \<Rightarrow> k = PNone | (k0, s) # r \<Rightarrow> k = k0 \<and> (\<forall>p \<in> set r. snd p = s))"
  unfolding validate_single_slot_def route_for_keys_def route_keys_loop_none [OF assms]
  by (auto simp: require_routable_key_def find_None_iff find_Some_iff split: list.split option.split)

theorem single_slot_exact_witness:
  "validate_single_slot [PBytes [0x61], PInt 3, PBytes [0x7B, 0x61, 0x7D]] = Inr (PBytes [0x61])"
proof -
  have "hashable [PBytes [0x61], PInt 3, PBytes [0x7B, 0x61, 0x7D]]"
    by (simp add: hashable_def value_slot_def slot_for_key_def)
  moreover have "routed [PBytes [0x61], PInt 3, PBytes [0x7B, 0x61, 0x7D]] =
      [(PBytes [0x61], unat (crc32 [0x61] 0 AND 1023)), (PBytes [0x7B, 0x61, 0x7D], unat (crc32 [0x61] 0 AND 1023))]"
    by (simp add: routed_Cons value_slot_def slot_for_key_def slot_hash_input_def hash_tag_or_key_def startswith_def
        bytes_lit_def)
  ultimately show ?thesis using single_slot_exact by fastforce
qed

section \<open>Batches keep their order\<close>

definition group_ok :: "('t \<Rightarrow> 'k) \<Rightarrow> ('t \<times> 'c) list \<Rightarrow> 'k \<Rightarrow> ('t, 'c) route_batch_group \<Rightarrow> bool" where
  "group_ok group_key rc k g \<longleftrightarrow>
     (\<forall>i \<in> set (bg_indexes g). i < length rc \<and> group_key (fst (rc ! i)) = k) \<and>
     bg_commands g = map (\<lambda>i. snd (rc ! i)) (bg_indexes g) \<and> group_key (bg_target g) = k"

definition groups_ok :: "('t \<Rightarrow> 'k) \<Rightarrow> ('t \<times> 'c) list \<Rightarrow> ('k \<times> ('t, 'c) route_batch_group) list \<Rightarrow> bool" where
  "groups_ok group_key rc d \<longleftrightarrow>
     distinct (map fst d) \<and> (\<forall>(k, g) \<in> set d. group_ok group_key rc k g) \<and>
     (\<forall>i < length rc. \<exists>(k, g) \<in> set d. i \<in> set (bg_indexes g))"

lemma group_ok_snoc: "group_ok group_key rc k g \<Longrightarrow> group_ok group_key (rc @ x) k g"
  by (auto simp: group_ok_def nth_append)

lemma group_add_ok:
  assumes "groups_ok group_key rc d"
  shows "groups_ok group_key (rc @ [(target, command)]) (group_add d (group_key target) target (length rc) command)"
proof -
  define k where "k = group_key target"
  define g where "g = (case dict_get d k of Some g \<Rightarrow> g | None \<Rightarrow> \<lparr>bg_target = target, bg_indexes = [], bg_commands = []\<rparr>)"
  define g' where "g' = g\<lparr>bg_indexes := bg_indexes g @ [length rc], bg_commands := bg_commands g @ [command]\<rparr>"
  have g: "group_ok group_key rc k g"
    using assms by (auto simp: g_def groups_ok_def group_ok_def k_def simp del: dict_get_None
        split: option.split dest!: dict_get_SomeD)
  have g': "group_ok group_key (rc @ [(target, command)]) k g'"
    using g by (auto simp: group_ok_def g'_def nth_append k_def)
  have add: "group_add d (group_key target) target (length rc) command = dict_set d k g'"
    by (simp add: group_add_def g'_def g_def k_def Let_def)
  have mem: "(j, h) \<in> set (dict_set d k g')" if "(j, h) \<in> set d" "j \<noteq> k" for j h
    using that by (induction d) auto
  have new: "(k, g') \<in> set (dict_set d k g')"
    by (metis dict_get_SomeD dict_get_set)
  have cover: "\<exists>(j, h) \<in> set (dict_set d k g'). i \<in> set (bg_indexes h)" if "i < length rc + 1" for i
  proof (cases "i = length rc")
    case True
    then have "i \<in> set (bg_indexes g')" by (simp add: g'_def)
    then show ?thesis using new by blast
  next
    case False
    with that have "i < length rc" by simp
    then obtain j h where jh: "(j, h) \<in> set d" "i \<in> set (bg_indexes h)"
      using assms by (auto simp: groups_ok_def)
    show ?thesis
    proof (cases "j = k")
      case True
      then have "dict_get d k = Some h" using jh(1) assms by (simp add: groups_ok_def dict_get_map_of)
      then have "i \<in> set (bg_indexes g')" using jh(2) by (simp add: g'_def g_def)
      then show ?thesis using new by blast
    next
      case False
      then show ?thesis using mem [OF jh(1)] jh(2) by blast
    qed
  qed
  have "group_ok group_key (rc @ [(target, command)]) j h" if jh: "(j, h) \<in> set (dict_set d k g')" for j h
  proof -
    from jh have "(j, h) = (k, g') \<or> (j, h) \<in> set d" using set_dict_set_subset [of d k g'] by blast
    then show ?thesis using g' assms group_ok_snoc [of group_key rc j h] by (auto simp: groups_ok_def)
  qed
  then show ?thesis
    unfolding add groups_ok_def using assms cover by (auto simp: groups_ok_def)
qed

lemma build_groups_ok:
  "groups_ok group_key rc d \<Longrightarrow>
   groups_ok group_key (rc @ rest) (build_groups group_key (length rc) rest d)"
proof (induction rest arbitrary: rc d)
  case (Cons x rest)
  obtain t c where x: "x = (t, c)" by fastforce
  from Cons.IH [OF group_add_ok [OF Cons.prems, of t c]] show ?case by (simp add: x)
qed simp

lemma store_values_map:
  "\<forall>i \<in> set is. i < length results \<Longrightarrow>
   store_values results is (map F is) =
     map (\<lambda>i. if i \<in> set is then Some (F i) else results ! i) [0..<length results]"
proof (induction "is" arbitrary: results)
  case Nil
  then show ?case by (auto simp: map_nth)
next
  case (Cons i "is")
  then show ?case by (auto simp: nth_list_update)
qed

lemma merge_groups_map:
  assumes "\<forall>g \<in> set gs. \<forall>i \<in> set (bg_indexes g). i < length results"
  shows "merge_groups gs (map (\<lambda>g. map F (bg_indexes g)) gs) results =
    Inr (map (\<lambda>i. if \<exists>g \<in> set gs. i \<in> set (bg_indexes g) then Some (F i) else results ! i) [0..<length results])"
  using assms
proof (induction gs arbitrary: results)
  case Nil
  then show ?case by (auto simp: map_nth)
next
  case (Cons g gs)
  define r where "r = store_values results (bg_indexes g) (map F (bg_indexes g))"
  have r: "r = map (\<lambda>i. if i \<in> set (bg_indexes g) then Some (F i) else results ! i) [0..<length results]"
    unfolding r_def using Cons.prems by (intro store_values_map) auto
  then have "length r = length results" by simp
  with Cons.IH [of r] Cons.prems have "merge_groups gs (map (\<lambda>g. map F (bg_indexes g)) gs) r =
      Inr (map (\<lambda>i. if \<exists>g \<in> set gs. i \<in> set (bg_indexes g) then Some (F i) else r ! i) [0..<length results])" by simp
  then show ?case by (auto simp: r_def [symmetric] r)
qed

text \<open>
  C24. Splitting a routed batch by target and merging the answers restores the batch: when every group
  answers its own commands in order, the merged answers are those of the original commands, each at its
  index, and a group holds exactly commands routed to its target.
\<close>

theorem batch_merge_restores_order:
  "batch_merge (batch_build group_key rc)
     (map (\<lambda>g. map f (bg_commands g)) (bp_groups (batch_build group_key rc))) =
     Inr (map (\<lambda>p. Some (f (snd p))) rc) \<and>
   (\<forall>g \<in> set (bp_groups (batch_build group_key rc)). \<forall>i \<in> set (bg_indexes g).
      i < length rc \<and> group_key (fst (rc ! i)) = group_key (bg_target g))"
proof -
  define d where "d = build_groups group_key 0 rc []"
  have ok: "groups_ok group_key rc d"
    using build_groups_ok [of group_key "[]" "[]" rc] by (simp add: d_def groups_ok_def)
  define gs where "gs = map snd d"
  have g: "\<exists>k. group_ok group_key rc k g" if "g \<in> set gs" for g
    using that ok unfolding gs_def groups_ok_def by fastforce
  have cover: "\<exists>g \<in> set gs. i \<in> set (bg_indexes g)" if "i < length rc" for i
    using that ok by (force simp: gs_def groups_ok_def)
  define F where "F i = f (snd (rc ! i))" for i
  have vals: "map (\<lambda>g. map f (bg_commands g)) gs = map (\<lambda>g. map F (bg_indexes g)) gs"
    using g by (auto simp: group_ok_def F_def)
  have "merge_groups gs (map (\<lambda>g. map F (bg_indexes g)) gs) (replicate (length rc) None) =
      Inr (map (\<lambda>i. if \<exists>g \<in> set gs. i \<in> set (bg_indexes g) then Some (F i) else replicate (length rc) None ! i)
        [0..<length rc])"
    using g merge_groups_map [of gs "replicate (length rc) None" F] by (auto simp: group_ok_def)
  also have "\<dots> = Inr (map (\<lambda>p. Some (f (snd p))) rc)"
    using cover by (auto simp: F_def intro: nth_equalityI)
  finally have merged: "merge_groups gs (map (\<lambda>g. map f (bg_commands g)) gs) (replicate (length rc) None) =
      Inr (map (\<lambda>p. Some (f (snd p))) rc)"
    unfolding vals .
  have groups: "bp_groups (batch_build group_key rc) = gs" "bp_command_count (batch_build group_key rc) = length rc"
    by (simp_all add: batch_build_def d_def gs_def)
  show ?thesis
    using merged g unfolding batch_merge_def groups by (auto simp: group_ok_def)
qed

theorem batch_merge_restores_order_witness:
  "batch_merge (batch_build (\<lambda>t. t) [(1 :: nat, 10 :: int), (2, 20), (1, 30)])
     (map (\<lambda>g. map (\<lambda>x. x + 1) (bg_commands g)) (bp_groups (batch_build (\<lambda>t. t) [(1 :: nat, 10 :: int), (2, 20), (1, 30)]))) =
   Inr [Some 11, Some 21, Some 31]"
  using batch_merge_restores_order [of "\<lambda>t. t" "[(1 :: nat, 10 :: int), (2, 20), (1, 30)]" "\<lambda>x. x + 1"] by simp

section \<open>Candidate endpoints\<close>

lemma fromkeys_step:
  "distinct d \<Longrightarrow> distinct (foldl (\<lambda>d x. if x \<in> set d then d else d @ [x]) d xs) \<and>
   set (foldl (\<lambda>d x. if x \<in> set d then d else d @ [x]) d xs) = set d \<union> set xs"
  by (induction xs arbitrary: d) auto

lemma fromkeys_prefix: "\<exists>r. foldl (\<lambda>d x. if x \<in> set d then d else d @ [x]) d xs = d @ r"
proof (induction xs arbitrary: d)
  case (Cons x xs)
  from Cons.IH [of d] Cons.IH [of "d @ [x]"] show ?case by (auto simp only: foldl_Cons append.assoc split: if_split)
qed simp

lemma fromkeys_props: "distinct (fromkeys xs)" "set (fromkeys xs) = set xs" "xs \<noteq> [] \<Longrightarrow> hd (fromkeys xs) = hd xs"
proof -
  show "distinct (fromkeys xs)" "set (fromkeys xs) = set xs"
    using fromkeys_step [of "[]" xs] by (simp_all add: fromkeys_def)
  show "hd (fromkeys xs) = hd xs" if "xs \<noteq> []"
    using that fromkeys_prefix [of "[hd xs]" "tl xs"] by (cases xs) (auto simp: fromkeys_def)
qed

text \<open>
  The control endpoints tried are, without repetition, the seeds, the discovered ones and the last
  one that answered, which is tried first.
\<close>

theorem candidates_cover_endpoints:
  "distinct (candidates s urls) \<and>
   set (candidates s urls) = set_option (ce_last_good_url s) \<union> set (ce_seed_urls s) \<union> set urls \<and>
   hd (candidates (mark_success s u) urls) = u"
  unfolding candidates_def mark_success_def by (auto simp: fromkeys_props split: option.split)

end
