(* ===== verification/Raw_Pipelines.thy ===== *)
theory Raw_Pipelines
  imports Flow_Payloads Routing Flow_Query
begin

text \<open>
  Compact pipelines built from raw commands: the per-command encoders of \<open>protocol_pipeline_raw.py\<close>,
  \<open>protocol_pipeline_mutations.py\<close> and \<open>protocol_pipeline_codec.py\<close>, the sizes that
  \<open>protocol_compact_commands.py\<close> measures before it encodes, and its dispatcher. A raw command is the list
  of its arguments. \<open>wire_lib\<close> adds \<open>str.lower\<close> and \<open>float()\<close> of a value that is not a float to the
  conversions of \<open>pylib\<close>; \<open>active\<close> is the compact encoding policy in force.
\<close>

section \<open>Commands of one kind\<close>

record wire_lib =
  wl_py :: pylib
  wl_lower :: "ustr \<Rightarrow> ustr"
  wl_float :: "pyval \<Rightarrow> 64 word result"

text \<open>\<open>except (OverflowError, TypeError, ValueError)\<close>; the Unicode errors are value errors.\<close>

fun conversion_error :: "py_error \<Rightarrow> bool" where
  "conversion_error (TypeErr _) = True"
| "conversion_error (ValueError _) = True"
| "conversion_error OverflowError = True"
| "conversion_error UnicodeEncodeError = True"
| "conversion_error UnicodeDecodeError = True"
| "conversion_error _ = False"

definition raw_int :: "pylib \<Rightarrow> pyval \<Rightarrow> int option result" where
  "raw_int L v =
     (case v of
        PInt n \<Rightarrow> Inr (Some n)
      | PStr _ \<Rightarrow> none_on conversion_error (returns (int_of L v))
      | PBytes _ \<Rightarrow> none_on conversion_error (returns (int_of L v))
      | _ \<Rightarrow> Inr None)"

definition raw_i64 :: "pylib \<Rightarrow> pyval \<Rightarrow> int option result" where
  "raw_i64 L v = opt_then (raw_int L v) (\<lambda>n. Inr (compact_i64 (PInt n)))"

definition finite_score :: "wire_lib \<Rightarrow> pyval \<Rightarrow> 64 word option result" where
  "finite_score W v =
     (case v of
        PBool _ \<Rightarrow> Inr None
      | PFloat x \<Rightarrow> Inr (if float_isfinite x then Some x else None)
      | _ \<Rightarrow> opt_then (none_on conversion_error (returns (wl_float W v))) (\<lambda>x.
               Inr (if float_isfinite x then Some x else None)))"

definition named_as :: "pylib \<Rightarrow> pyval \<Rightarrow> string \<Rightarrow> bool" where
  "named_as L raw_name name \<longleftrightarrow>
     raw_name = PStr (text_lit name) \<or> normalize_command_name L raw_name = text_lit name"

fun raw_items :: "('a \<Rightarrow> bytes option result) \<Rightarrow> 'a list \<Rightarrow> bytes option result" where
  "raw_items f [] = Inr (Some [])"
| "raw_items f (c # cs) = opt_then (f c) (\<lambda>w. opt_then (raw_items f cs) (\<lambda>ws. Inr (Some (w @ ws))))"

definition raw_pipeline :: "(pyval list \<Rightarrow> bytes option result) \<Rightarrow> int \<Rightarrow> pyval list list \<Rightarrow> bytes option result" where
  "raw_pipeline f mode commands =
     and_then (pipeline_header mode (length commands)) (\<lambda>head.
     opt_then (raw_items f commands) (\<lambda>body. Inr (Some (head @ body))))"

definition set_item :: "pylib \<Rightarrow> pyval list \<Rightarrow> bytes option result" where
  "set_item L c =
     (if length c \<noteq> 3 \<or> \<not> named_as L (c ! 0) ''SET'' then Inr None
      else opt_then (encode_arg (c ! 1)) (\<lambda>key. opt_then (encode_arg (c ! 2)) (\<lambda>value.
        returns (pack_all [compact_binary key, compact_binary value]))))"

definition key_item :: "pylib \<Rightarrow> string \<Rightarrow> pyval list \<Rightarrow> bytes option result" where
  "key_item L name c =
     (if length c \<noteq> 2 \<or> \<not> named_as L (c ! 0) name then Inr None
      else opt_then (encode_arg (c ! 1)) (\<lambda>key. returns (compact_binary key)))"

text \<open>The arguments of a command as \<open>_maybe_bytes\<close> gives them, all evaluated before any is rejected.\<close>

fun maybe_all :: "compact_policy \<Rightarrow> pyval list \<Rightarrow> bytes option list result" where
  "maybe_all active [] = Inr []"
| "maybe_all active (v # vs) =
     and_then (maybe_bytes active v) (\<lambda>x. and_then (maybe_all active vs) (\<lambda>xs. Inr (x # xs)))"

definition all_bytes :: "compact_policy \<Rightarrow> pyval list \<Rightarrow> bytes list option result" where
  "all_bytes active vs =
     and_then (maybe_all active vs) (\<lambda>xs. Inr (if None \<in> set xs then None else Some (map the xs)))"

definition two_binary_item :: "pylib \<Rightarrow> compact_policy \<Rightarrow> string \<Rightarrow> pyval list \<Rightarrow> bytes option result" where
  "two_binary_item L active name c =
     (if length c \<noteq> 3 \<or> \<not> named_as L (c ! 0) name then Inr None
      else opt_then (all_bytes active [c ! 1, c ! 2]) (\<lambda>xs. returns (pack_all (map compact_binary xs))))"

definition hset_item :: "pylib \<Rightarrow> compact_policy \<Rightarrow> pyval list \<Rightarrow> bytes option result" where
  "hset_item L active c =
     (if length c \<noteq> 4 \<or> \<not> named_as L (c ! 0) ''HSET'' then Inr None
      else opt_then (all_bytes active [c ! 1, c ! 2, c ! 3]) (\<lambda>xs. returns (pack_all (map compact_binary xs))))"

definition hmget_item :: "pylib \<Rightarrow> compact_policy \<Rightarrow> pyval list \<Rightarrow> bytes option result" where
  "hmget_item L active c =
     (if length c < 3 \<or> \<not> named_as L (c ! 0) ''HMGET'' then Inr None
      else
        opt_then (maybe_bytes active (c ! 1)) (\<lambda>key.
        opt_then (all_bytes active (drop 2 c)) (\<lambda>fields.
          returns (pack_all (compact_binary key # pack_u32 (int (length fields)) # map compact_binary fields)))))"

definition zadd_item :: "wire_lib \<Rightarrow> compact_policy \<Rightarrow> pyval list \<Rightarrow> bytes option result" where
  "zadd_item W active c =
     (if length c \<noteq> 4 \<or> \<not> named_as (wl_py W) (c ! 0) ''ZADD'' then Inr None
      else
        opt_then (all_bytes active [c ! 1, c ! 3]) (\<lambda>xs.
        opt_then (finite_score W (c ! 2)) (\<lambda>score.
          returns (pack_all [compact_binary (xs ! 0), Inr (pack_f64 score), compact_binary (xs ! 1)]))))"

definition range_item :: "pylib \<Rightarrow> compact_policy \<Rightarrow> string \<Rightarrow> pyval list \<Rightarrow> bytes option result" where
  "range_item L active name c =
     (if c = [] \<or> normalize_command_name L (c ! 0) \<noteq> text_lit name then Inr None
      else if name = ''LRANGE'' \<and> length c \<noteq> 4 then Inr None
      else if name \<noteq> ''LRANGE'' \<and> length c \<noteq> 4 \<and> length c \<noteq> 5 then Inr None
      else if name \<noteq> ''LRANGE'' \<and> length c = 5 \<and> normalize_command_name L (c ! 4) \<noteq> text_lit ''WITHSCORES''
      then Inr None
      else
        opt_then (maybe_bytes active (c ! 1)) (\<lambda>key.
        and_then (raw_i64 L (c ! 2)) (\<lambda>start.
        and_then (raw_i64 L (c ! 3)) (\<lambda>stop.
        case (start, stop) of
          (Some start, Some stop) \<Rightarrow>
            returns (pack_all ([compact_binary key, pack_i64 start, pack_i64 stop] @
              (if name = ''ZRANGE'' then [Inr [if length c = 5 then 1 else 0]] else [])))
        | _ \<Rightarrow> Inr None))))"

text \<open>\<open>_RAW_COMPACT_PIPELINE_SPECS\<close>: the mode of a command and the encoder of one occurrence of it.\<close>

definition raw_pipeline_specs ::
    "wire_lib \<Rightarrow> compact_policy \<Rightarrow> (string \<times> nat \<times> (pyval list \<Rightarrow> bytes option result)) list" where
  "raw_pipeline_specs W active =
     (let L = wl_py W; two = two_binary_item L active in
        [(''SET'', 1, set_item L), (''GET'', 2, key_item L ''GET''), (''HGET'', 18, two ''HGET''),
         (''HMGET'', 28, hmget_item L active), (''HGETALL'', 30, key_item L ''HGETALL''),
         (''SMEMBERS'', 27, key_item L ''SMEMBERS''), (''SISMEMBER'', 19, two ''SISMEMBER''),
         (''LRANGE'', 20, range_item L active ''LRANGE''), (''ZRANGE'', 21, range_item L active ''ZRANGE''),
         (''ZSCORE'', 29, two ''ZSCORE''), (''HSET'', 22, hset_item L active),
         (''LPUSH'', 23, two ''LPUSH''), (''RPUSH'', 24, two ''RPUSH''), (''SADD'', 25, two ''SADD''),
         (''SREM'', 31, two ''SREM''), (''ZADD'', 26, zadd_item W active), (''ZREM'', 32, two ''ZREM''),
         (''PUBLISH'', 35, two ''PUBLISH'')])"

definition raw_pipeline_spec ::
    "wire_lib \<Rightarrow> compact_policy \<Rightarrow> ustr \<Rightarrow> (string \<times> nat \<times> (pyval list \<Rightarrow> bytes option result)) option" where
  "raw_pipeline_spec W active name = find (\<lambda>(n, _). name = text_lit n) (raw_pipeline_specs W active)"

section \<open>Sizes measured before encoding\<close>

fun add_binaries :: "pyval list \<Rightarrow> nat option" where
  "add_binaries [] = Some 0"
| "add_binaries (v # vs) =
     (case binary_wire_size v of None \<Rightarrow> None | Some n \<Rightarrow> map_option (\<lambda>m. n + m) (add_binaries vs))"

definition standard_item_size :: "pylib \<Rightarrow> string \<Rightarrow> pyval list \<Rightarrow> nat option" where
  "standard_item_size L name c =
     (if c = [] \<or> normalize_command_name L (c ! 0) \<noteq> text_lit name then None
      else if name = ''SET'' then (if length c \<noteq> 3 then None else add_binaries [c ! 1, c ! 2])
      else if name \<in> {''GET'', ''HGETALL'', ''SMEMBERS''} then
        (if length c \<noteq> 2 then None else add_binaries [c ! 1])
      else if name = ''HMGET'' then
        (if length c < 3 then None
         else map_option (\<lambda>n. n + 4) (add_binaries (c ! 1 # drop 2 c)))
      else if name \<in> {''HGET'', ''SISMEMBER'', ''ZSCORE'', ''LPUSH'', ''RPUSH'', ''SADD'', ''SREM'', ''ZREM'', ''PUBLISH''} then
        (if length c \<noteq> 3 then None else add_binaries [c ! 1, c ! 2])
      else if name \<in> {''LRANGE'', ''ZRANGE''} then
        (if length c \<noteq> 4 \<and> (name = ''LRANGE'' \<or> length c \<noteq> 5) then None
         else map_option (\<lambda>n. n + 16 + (if name = ''ZRANGE'' then 1 else 0)) (add_binaries [c ! 1]))
      else if name = ''HSET'' then (if length c \<noteq> 4 then None else add_binaries [c ! 1, c ! 2, c ! 3])
      else if name = ''ZADD'' then
        (if length c \<noteq> 4 then None else map_option (\<lambda>n. n + 8) (add_binaries [c ! 1, c ! 3]))
      else None)"

fun sum_sizes :: "('a \<Rightarrow> nat option) \<Rightarrow> nat \<Rightarrow> 'a list \<Rightarrow> nat option" where
  "sum_sizes f sz [] = Some sz"
| "sum_sizes f sz (c # cs) = (case f c of None \<Rightarrow> None | Some n \<Rightarrow> sum_sizes f (sz + n) cs)"

definition raw_standard_pipeline_size :: "pylib \<Rightarrow> pyval list list \<Rightarrow> string \<Rightarrow> nat option" where
  "raw_standard_pipeline_size L commands name = sum_sizes (standard_item_size L name) 6 commands"

definition text_or_bytes :: "pyval \<Rightarrow> bool" where
  "text_or_bytes v = (case v of PStr _ \<Rightarrow> True | PBytes _ \<Rightarrow> True | _ \<Rightarrow> False)"

fun mixed_size :: "pylib \<Rightarrow> pyval list list \<Rightarrow> pyval list \<Rightarrow> pyval list \<Rightarrow> nat \<Rightarrow> nat option" where
  "mixed_size L [] read_keys written_keys sz = Some sz"
| "mixed_size L (c # cs) read_keys written_keys sz =
     (if c = [] then None
      else
        let name = normalize_command_name L (c ! 0) in
        if name = text_lit ''GET'' \<and> length c = 2 \<and> text_or_bytes (c ! 1) then
          if c ! 1 \<in> set written_keys then None
          else
            (case binary_wire_size (c ! 1) of
               None \<Rightarrow> None
             | Some n \<Rightarrow> mixed_size L cs (c ! 1 # read_keys) written_keys (sz + (1 + n)))
        else if name = text_lit ''SET'' \<and> length c = 3 \<and> text_or_bytes (c ! 1) then
          if c ! 1 \<in> set read_keys \<or> c ! 1 \<in> set written_keys then None
          else
            (case (binary_wire_size (c ! 1), binary_wire_size (c ! 2)) of
               (Some n, Some m) \<Rightarrow> mixed_size L cs read_keys (c ! 1 # written_keys) (sz + (1 + n + m))
             | _ \<Rightarrow> None)
        else None)"

definition raw_mixed_pipeline_size :: "pylib \<Rightarrow> pyval list list \<Rightarrow> nat option" where
  "raw_mixed_pipeline_size L commands = mixed_size L commands [] [] 6"

fun mixed_items ::
    "pylib \<Rightarrow> compact_policy \<Rightarrow> pyval list list \<Rightarrow> bytes list \<Rightarrow> bytes list \<Rightarrow> bytes \<Rightarrow> bytes option result" where
  "mixed_items L active [] read_keys written_keys acc = Inr (Some acc)"
| "mixed_items L active (c # cs) read_keys written_keys acc =
     (if c = [] then Inr None
      else
        let name = normalize_command_name L (c ! 0) in
        if name = text_lit ''GET'' then
          if length c \<noteq> 2 then Inr None
          else opt_then (maybe_bytes active (c ! 1)) (\<lambda>key.
            if key \<in> set written_keys then Inr None
            else and_then (compact_binary key) (\<lambda>kw.
              mixed_items L active cs (key # read_keys) written_keys (acc @ [0x02] @ kw)))
        else if name = text_lit ''SET'' then
          if length c \<noteq> 3 then Inr None
          else opt_then (all_bytes active [c ! 1, c ! 2]) (\<lambda>xs.
            let key = xs ! 0; value = xs ! 1 in
            if key \<in> set read_keys \<or> key \<in> set written_keys then Inr None
            else and_then (compact_binary key) (\<lambda>kw.
                 and_then (compact_binary value) (\<lambda>vw.
              mixed_items L active cs read_keys (key # written_keys) (acc @ [0x01] @ kw @ vw))))
        else Inr None)"

definition compact_mixed_pipeline_payload_from_raw ::
    "pylib \<Rightarrow> compact_policy \<Rightarrow> pyval list list \<Rightarrow> bytes option result" where
  "compact_mixed_pipeline_payload_from_raw L active commands =
     and_then (pipeline_header 5 (length commands)) (\<lambda>head. mixed_items L active commands [] [] head)"

section \<open>Flow pipelines\<close>

definition text_value :: "pylib \<Rightarrow> pyval \<Rightarrow> ustr result" where
  "text_value L v = (case v of PBytes b \<Rightarrow> utf8_decode b | PStr s \<Rightarrow> Inr s | _ \<Rightarrow> Inr (str_of L v))"

definition meta_return :: "wire_lib \<Rightarrow> pyval \<Rightarrow> bool result" where
  "meta_return W v =
     and_then (text_value (wl_py W) v) (\<lambda>t. Inr (wl_lower W t = text_lit ''meta''))"

fun flow_get_options :: "wire_lib \<Rightarrow> pyval list \<Rightarrow> pyval \<Rightarrow> bool \<Rightarrow> (pyval \<times> bool) option result" where
  "flow_get_options W [] partition_arg meta = Inr (Some (partition_arg, meta))"
| "flow_get_options W [_] partition_arg meta = Inr None"
| "flow_get_options W (t # v # rest) partition_arg meta =
     (let opt = normalize_command_name (wl_py W) t in
      if opt = text_lit ''PARTITION'' \<or> opt = text_lit ''PARTITION_KEY'' then flow_get_options W rest v meta
      else if opt = text_lit ''RETURN'' then
        and_then (meta_return W v) (\<lambda>ok. if ok then flow_get_options W rest partition_arg True else Inr None)
      else Inr None)"

fun flow_get_items ::
    "wire_lib \<Rightarrow> pyval list list \<Rightarrow> bool \<Rightarrow> compact_budget \<Rightarrow>
      ((bytes \<times> bytes option) list \<times> bool \<times> compact_budget) option result" where
  "flow_get_items W [] meta B = Inr (Some ([], meta, B))"
| "flow_get_items W (c # cs) meta B =
     (if length c < 2 \<or> normalize_command_name (wl_py W) (c ! 0) \<noteq> text_lit ''FLOW.GET'' then Inr None
      else
        and_then (reserve_maybe_bytes B (c ! 1)) (\<lambda>(flow_id, B).
        case flow_id of
          None \<Rightarrow> Inr None
        | Some flow_id \<Rightarrow>
            opt_then (flow_get_options W (drop 2 c) PNone meta) (\<lambda>(partition_arg, meta).
            and_then (reserve_optional_bytes B partition_arg) (\<lambda>(partition_value, B).
            if partition_value = Declined then Inr None
            else opt_then (flow_get_items W cs meta B) (\<lambda>(items, meta, B).
              Inr (Some ((flow_id, key_of partition_value) # items, meta, B)))))))"

definition values_mode :: "nat \<Rightarrow> bool \<Rightarrow> int" where
  "values_mode mode values_only = int (if values_only then mode OR 0x80 else mode)"

definition compact_flow_get_pipeline_payload_from_raw ::
    "wire_lib \<Rightarrow> compact_policy \<Rightarrow> pyval list list \<Rightarrow> bool \<Rightarrow> int option \<Rightarrow> int option \<Rightarrow> bytes option result" where
  "compact_flow_get_pipeline_payload_from_raw W active commands values_only max_payload_bytes pending_limit =
     and_then (make_compact_budget active max_payload_bytes pending_limit 6) (\<lambda>B.
     opt_then (flow_get_items W commands False B) (\<lambda>(items, meta, B).
     let has_partition = list_ex (\<lambda>(_, k). k \<noteq> None) items;
         with_keys = (has_partition \<or> meta);
         mode = values_mode (if meta then 17 else if has_partition then 16 else 9) values_only in
     and_then (reserve_if with_keys B (4 * int (length (filter (\<lambda>(_, k). k = None) items)))) (\<lambda>_.
     and_then (pipeline_header mode (length items)) (\<lambda>head.
     opt_then (raw_items (\<lambda>(i, k). returns (pack_all
         (compact_binary i # (if with_keys then [compact_optional_binary k] else [])))) items) (\<lambda>body.
       Inr (Some (head @ body)))))))"

record history_request =
  hr_partition :: pyval
  hr_count :: int
  hr_include_cold :: bool
  hr_consistent :: bool

fun history_options :: "wire_lib \<Rightarrow> pyval list \<Rightarrow> history_request \<Rightarrow> history_request option result" where
  "history_options W [] r = Inr (Some r)"
| "history_options W [_] r = Inr None"
| "history_options W (t # v # rest) r =
     (let opt = normalize_command_name (wl_py W) t in
      if opt = text_lit ''COUNT'' then
        opt_then (raw_i64 (wl_py W) v) (\<lambda>n. history_options W rest (r\<lparr>hr_count := n\<rparr>))
      else if opt = text_lit ''PARTITION'' \<or> opt = text_lit ''PARTITION_KEY'' then
        history_options W rest (r\<lparr>hr_partition := v\<rparr>)
      else if opt = text_lit ''INCLUDE_COLD'' then
        and_then (coerce_bool (wl_lower W) v) (\<lambda>b. history_options W rest (r\<lparr>hr_include_cold := b\<rparr>))
      else if opt = text_lit ''CONSISTENT_PROJECTION'' then
        and_then (coerce_bool (wl_lower W) v) (\<lambda>b. history_options W rest (r\<lparr>hr_consistent := b\<rparr>))
      else Inr None)"

fun flow_history_items ::
    "wire_lib \<Rightarrow> pyval list list \<Rightarrow> (int \<times> bool \<times> bool) option \<Rightarrow> compact_budget \<Rightarrow>
      ((bytes \<times> bytes option) list \<times> (int \<times> bool \<times> bool) option \<times> compact_budget) option result" where
  "flow_history_items W [] shared B = Inr (Some ([], shared, B))"
| "flow_history_items W (c # cs) shared B =
     (if length c < 2 \<or> normalize_command_name (wl_py W) (c ! 0) \<noteq> text_lit ''FLOW.HISTORY'' then Inr None
      else
        and_then (reserve_maybe_bytes B (c ! 1)) (\<lambda>(flow_id, B).
        case flow_id of
          None \<Rightarrow> Inr None
        | Some flow_id \<Rightarrow>
            opt_then (history_options W (drop 2 c)
              \<lparr>hr_partition = PNone, hr_count = 100, hr_include_cold = False, hr_consistent = True\<rparr>) (\<lambda>r.
            and_then (reserve_optional_bytes B (hr_partition r)) (\<lambda>(partition_value, B).
            if partition_value = Declined then Inr None
            else
              and_then (reserve_if (partition_value = Absent) B 4) (\<lambda>B.
              let here = (hr_count r, hr_include_cold r, hr_consistent r) in
              if shared \<noteq> None \<and> shared \<noteq> Some here then Inr None
              else opt_then (flow_history_items W cs (Some here) B) (\<lambda>(items, shared, B).
                Inr (Some ((flow_id, key_of partition_value) # items, shared, B))))))))"

definition bool_marker :: "bool \<Rightarrow> int" where
  "bool_marker b = (if b then 2 else 1)"

definition compact_flow_history_pipeline_payload_from_raw ::
    "wire_lib \<Rightarrow> compact_policy \<Rightarrow> pyval list list \<Rightarrow> bool \<Rightarrow> int option \<Rightarrow> int option \<Rightarrow> bytes option result" where
  "compact_flow_history_pipeline_payload_from_raw W active commands values_only max_payload_bytes pending_limit =
     and_then (make_compact_budget active max_payload_bytes pending_limit (6 + 10)) (\<lambda>B.
     opt_then (flow_history_items W commands None B) (\<lambda>(items, shared, _).
     case shared of
       None \<Rightarrow> Inr None
     | Some (history_count, include_cold, consistent_projection) \<Rightarrow>
         and_then (pipeline_header (values_mode 10 values_only) (length items)) (\<lambda>head.
         and_then (pack_all [pack_i64 history_count, pack_uint 1 (bool_marker include_cold),
             pack_uint 1 (bool_marker consistent_projection)]) (\<lambda>fixed.
         opt_then (raw_items (\<lambda>(i, k). returns (pack_all [compact_binary i, compact_optional_binary k])) items) (\<lambda>body.
           Inr (Some (head @ fixed @ body)))))))"

record protocol_command =
  pc_opcode :: int
  pc_payload :: pyval
  pc_lane :: int
  pc_flags :: int

definition OP_FLOW_SIGNAL :: int where "OP_FLOW_SIGNAL = 0x020D"

definition signal_bytes ::
    "compact_policy \<Rightarrow> int option \<Rightarrow> bool \<Rightarrow> compact_budget \<Rightarrow> pyval \<Rightarrow> (bytes option \<times> compact_budget) result" where
  "signal_bytes active max_payload_bytes shared B v =
     (if shared then reserve_maybe_bytes B v
      else and_then (bounded_maybe_bytes active v max_payload_bytes) (\<lambda>x. Inr (x, B)))"

fun flow_signal_items ::
    "compact_policy \<Rightarrow> int option \<Rightarrow> protocol_command result list \<Rightarrow> (bytes \<times> bytes \<times> bytes) option \<Rightarrow>
      compact_budget \<Rightarrow>
      ((bytes \<times> bytes option \<times> int) list \<times> (bytes \<times> bytes \<times> bytes) option \<times> compact_budget) option result" where
  "flow_signal_items active m [] signal B = Inr (Some ([], signal, B))"
| "flow_signal_items active m (r # cs) signal B =
     and_then r (\<lambda>c.
      case pc_payload c of
        PDict d \<Rightarrow>
          if pc_opcode c \<noteq> OP_FLOW_SIGNAL \<or> pc_flags c \<noteq> 0 \<or>
            \<not> only_fields d [''id'', ''signal'', ''partition_key'', ''if_state'', ''transition_to'', ''now_ms'']
          then Inr None
          else
            and_then (reserve_maybe_bytes B (payload_get d ''id'')) (\<lambda>(flow_id, B).
            and_then (signal_bytes active m (signal = None) B (payload_get d ''signal'')) (\<lambda>(item_signal, B).
            and_then (signal_bytes active m (signal = None) B (payload_get d ''if_state'')) (\<lambda>(item_if_state, B).
            and_then (signal_bytes active m (signal = None) B (payload_get d ''transition_to'')) (\<lambda>(item_to, B).
            and_then (reserve_optional_bytes B (payload_get d ''partition_key'')) (\<lambda>(partition_key, B).
            if partition_key = Declined then Inr None
            else
              case (flow_id, item_signal, item_if_state, item_to, compact_i64 (payload_get d ''now_ms'')) of
                (Some flow_id, Some item_signal, Some item_if_state, Some item_to, Some now_ms) \<Rightarrow>
                  and_then (reserve_if (partition_key = Absent) B 4) (\<lambda>B.
                  and_then (cb_reserve B 8) (\<lambda>B.
                  if signal \<noteq> None \<and> signal \<noteq> Some (item_signal, item_if_state, item_to) then Inr None
                  else opt_then (flow_signal_items active m cs (Some (item_signal, item_if_state, item_to)) B)
                    (\<lambda>(items, signal, B). Inr (Some ((flow_id, key_of partition_key, now_ms) # items, signal, B)))))
              | _ \<Rightarrow> Inr None)))))
      | _ \<Rightarrow> Inr None)"

text \<open>
  The commands are already built when \<open>protocol_commands\<close> is passed; otherwise \<open>build\<close> stands for
  \<open>build_protocol_command\<close>, called on each command when the loop reaches it.
\<close>

definition compact_flow_signal_pipeline_payload_from_raw ::
    "(pyval list \<Rightarrow> protocol_command result) \<Rightarrow> compact_policy \<Rightarrow> pyval list list \<Rightarrow> bool \<Rightarrow>
      protocol_command list option \<Rightarrow> int option \<Rightarrow> int option \<Rightarrow> bytes option result" where
  "compact_flow_signal_pipeline_payload_from_raw build active commands values_only protocol_commands
       max_payload_bytes pending_limit =
     and_then (make_compact_budget active max_payload_bytes pending_limit 6) (\<lambda>B.
     if (case protocol_commands of None \<Rightarrow> False | Some pcs \<Rightarrow> length pcs \<noteq> length commands) then Inr None
     else
       opt_then (flow_signal_items active max_payload_bytes
         (case protocol_commands of None \<Rightarrow> map build commands | Some pcs \<Rightarrow> map Inr pcs) None B)
         (\<lambda>(items, signal, _).
       case signal of
         None \<Rightarrow> Inr None
       | Some (signal, if_state, transition_to) \<Rightarrow>
           and_then (pipeline_header (values_mode 11 values_only) (length items)) (\<lambda>head.
           and_then (pack_all [compact_binary signal, compact_binary if_state, compact_binary transition_to]) (\<lambda>fixed.
           opt_then (raw_items (\<lambda>(i, k, now_ms).
               returns (pack_all [compact_binary i, compact_optional_binary k, pack_i64 now_ms])) items) (\<lambda>body.
             Inr (Some (head @ fixed @ body)))))))"

section \<open>Stream appends\<close>

definition compact_stream_xadd_pair_count :: "pylib \<Rightarrow> pyval list \<Rightarrow> nat option" where
  "compact_stream_xadd_pair_count L c =
     (if length c < 5 \<or> odd (length c - 3) \<or> \<not> named_as L (c ! 0) ''XADD'' then None
      else if c ! 2 \<noteq> PStr (text_lit ''*'') \<and> c ! 2 \<noteq> PBytes (bytes_lit ''*'') then None
      else if (length c - 3) div 2 \<le> 0xFFFF then Some ((length c - 3) div 2) else None)"

definition xadd_item :: "pylib \<Rightarrow> compact_budget \<Rightarrow> pyval list \<Rightarrow> (bytes \<times> compact_budget) option result" where
  "xadd_item L B c =
     (case compact_stream_xadd_pair_count L c of
        None \<Rightarrow> Inr None
      | Some pair_count \<Rightarrow>
          and_then (reserve_maybe_bytes B (c ! 1)) (\<lambda>(key, B).
          case key of
            None \<Rightarrow> Inr None
          | Some key \<Rightarrow>
              and_then (cb_reserve B 2) (\<lambda>B.
              and_then (pack_all [compact_binary key, pack_uint 2 (int pair_count)]) (\<lambda>front.
              opt_then (each_item binary_item B (drop 3 c)) (\<lambda>(body, B). Inr (Some (front @ body, B)))))))"

definition compact_pipeline_stream_xadd_payload_from_raw ::
    "pylib \<Rightarrow> compact_policy \<Rightarrow> pyval list list \<Rightarrow> int \<Rightarrow> int option \<Rightarrow> int option \<Rightarrow> bytes option result" where
  "compact_pipeline_stream_xadd_payload_from_raw L active commands mode max_payload_bytes pending_limit =
     and_then (make_compact_budget active max_payload_bytes pending_limit 6) (\<lambda>B.
     and_then (pipeline_header mode (length commands)) (\<lambda>head.
     opt_then (each_item (xadd_item L) B commands) (\<lambda>(body, _). Inr (Some (head @ body)))))"

section \<open>The dispatcher\<close>

definition magnitude_error :: "py_error \<Rightarrow> bool" where
  "magnitude_error e \<longleftrightarrow> e = OverflowError \<or> e = StructError"

definition compact_pipeline_payload_from_raw ::
    "wire_lib \<Rightarrow> (pyval list \<Rightarrow> protocol_command result) \<Rightarrow> compact_policy \<Rightarrow> pyval list list \<Rightarrow> bool \<Rightarrow>
      protocol_command list option \<Rightarrow> int option \<Rightarrow> int option \<Rightarrow> bool \<Rightarrow> bool \<Rightarrow> bytes option result" where
  "compact_pipeline_payload_from_raw W build active commands values_only protocol_commands max_payload_bytes
       pending_limit allow_stream_xadd allow_pubsub_publish =
     (if commands = [] \<or> hd commands = [] then Inr None
      else
        let L = wl_py W; name = normalize_command_name L (hd commands ! 0) in
        if name = text_lit ''FLOW.HISTORY'' then
          compact_flow_history_pipeline_payload_from_raw W active commands values_only max_payload_bytes pending_limit
        else if name = text_lit ''FLOW.SIGNAL'' then
          compact_flow_signal_pipeline_payload_from_raw build active commands values_only protocol_commands
            max_payload_bytes pending_limit
        else if name = text_lit ''FLOW.GET'' then
          compact_flow_get_pipeline_payload_from_raw W active commands values_only max_payload_bytes pending_limit
        else if name = text_lit ''XADD'' then
          (if \<not> allow_stream_xadd then Inr None
           else none_on magnitude_error
             (compact_pipeline_stream_xadd_payload_from_raw L active commands (values_mode 34 values_only)
               max_payload_bytes pending_limit))
        else if name = text_lit ''PUBLISH'' \<and> \<not> allow_pubsub_publish then Inr None
        else
          let spec = raw_pipeline_spec W active name;
              standard_size = (case spec of None \<Rightarrow> None | Some (n, _) \<Rightarrow> raw_standard_pipeline_size L commands n);
              mixed_sz = (if standard_size = None then raw_mixed_pipeline_size L commands else None);
              payload_size = (if standard_size \<noteq> None then standard_size else mixed_sz) in
          if max_payload_bytes \<noteq> None \<and> payload_size = None then Inr None
          else if (case (max_payload_bytes, payload_size) of (Some m, Some n) \<Rightarrow> int n > m | _ \<Rightarrow> False)
          then Inl pending_request_capacity_error
          else if standard_size = None then
            (if mixed_sz = None then Inr None
             else compact_mixed_pipeline_payload_from_raw L active commands)
          else
            (case spec of
               None \<Rightarrow> Inr None
             | Some (_, mode, f) \<Rightarrow>
                 none_on magnitude_error (raw_pipeline f (values_mode mode values_only) commands)))"

section \<open>Measured sizes are exact\<close>

lemma encode_arg_size: "encode_arg v = Inr (Some x) \<Longrightarrow> binary_wire_size v = Some (length (compact_wire x))"
proof (cases v)
  case (PBytes b)
  then show "encode_arg v = Inr (Some x) \<Longrightarrow> ?thesis" by (simp add: encode_arg_def binary_wire_size_def)
qed (auto simp: encode_arg_def binary_wire_size_str)

lemma maybe_bytes_Some: "maybe_bytes active v = Inr (Some x) \<Longrightarrow> encode_arg v = Inr (Some x)"
  by (auto simp: maybe_bytes_def bounded_maybe_bytes_eq split: if_splits)

lemma maybe_all_Some:
  "maybe_all active vs = Inr (map Some xs) \<Longrightarrow> list_all2 (\<lambda>v x. encode_arg v = Inr (Some x)) vs xs"
proof (induction vs arbitrary: xs)
  case (Cons v vs)
  then show ?case by (cases xs) (auto dest: maybe_bytes_Some)
qed simp

lemma all_bytes_Some:
  assumes "all_bytes active vs = Inr (Some xs)"
  shows "list_all2 (\<lambda>v x. encode_arg v = Inr (Some x)) vs xs"
proof -
  from assms obtain ys where ys: "maybe_all active vs = Inr ys" "None \<notin> set ys" "xs = map the ys"
    by (auto simp: all_bytes_def split: if_splits)
  then have "ys = map Some xs" by (auto intro!: nth_equalityI simp: in_set_conv_nth)
  with ys(1) show ?thesis using maybe_all_Some [of active vs xs] by simp
qed

lemma add_binaries_size:
  "list_all2 (\<lambda>v x. encode_arg v = Inr (Some x)) vs xs \<Longrightarrow> add_binaries vs = Some (length (wires xs))"
  by (induction rule: list_all2_induct) (auto simp: encode_arg_size)

lemma pack_binaries: "pack_all (map compact_binary xs) = Inr w \<Longrightarrow> w = wires xs"
  by (induction xs arbitrary: w) (auto simp: compact_binary_Inr)

lemma named_as_normalize:
  assumes "str_upper L (text_lit name) = text_lit name" and "named_as L raw name"
  shows "normalize_command_name L raw = text_lit name"
  using assms by (auto simp: named_as_def normalize_command_name_def)

lemma upper_names:
  "list_all (\<lambda>(n, _). str_upper L (text_lit n) = text_lit n) (raw_pipeline_specs W active)"
  by (simp add: raw_pipeline_specs_def Let_def str_upper_def text_lit_def)

definition sized_encoder :: "pylib \<Rightarrow> string \<Rightarrow> (pyval list \<Rightarrow> bytes option result) \<Rightarrow> bool" where
  "sized_encoder L n f \<longleftrightarrow> (\<forall>c w. f c = Inr (Some w) \<longrightarrow> standard_item_size L n c = Some (length w))"

lemma set_item_sized:
  assumes "str_upper L (text_lit ''SET'') = text_lit ''SET''"
  shows "sized_encoder L ''SET'' (set_item L)"
  using named_as_normalize [OF assms]
  by (auto simp: sized_encoder_def set_item_def standard_item_size_def encode_arg_size compact_binary_Inr)

lemma key_item_sized:
  assumes "str_upper L (text_lit n) = text_lit n" and "n \<in> {''GET'', ''HGETALL'', ''SMEMBERS''}"
  shows "sized_encoder L n (key_item L n)"
  using named_as_normalize [OF assms(1)] assms(2)
  by (auto simp: sized_encoder_def key_item_def standard_item_size_def encode_arg_size compact_binary_Inr)

lemma standard_size_two:
  assumes "n \<in> {''HGET'', ''SISMEMBER'', ''ZSCORE'', ''LPUSH'', ''RPUSH'', ''SADD'', ''SREM'', ''ZREM'', ''PUBLISH''}"
  shows "standard_item_size L n c =
    (if c = [] \<or> normalize_command_name L (c ! 0) \<noteq> text_lit n \<or> length c \<noteq> 3 then None
     else add_binaries [c ! 1, c ! 2])"
  using assms by (elim insertE emptyE) (simp_all add: standard_item_size_def)

lemma two_binary_item_sized:
  assumes "str_upper L (text_lit n) = text_lit n"
    and "n \<in> {''HGET'', ''SISMEMBER'', ''ZSCORE'', ''LPUSH'', ''RPUSH'', ''SADD'', ''SREM'', ''ZREM'', ''PUBLISH''}"
  shows "sized_encoder L n (two_binary_item L active n)"
  unfolding sized_encoder_def standard_size_two [OF assms(2)]
proof (intro allI impI)
  fix c w
  assume "two_binary_item L active n c = Inr (Some w)"
  then obtain xs where c: "length c = 3" "named_as L (c ! 0) n" and xs: "all_bytes active [c ! 1, c ! 2] = Inr (Some xs)"
    and w: "pack_all (map compact_binary xs) = Inr w" by (auto simp: two_binary_item_def split: if_splits)
  have "add_binaries [c ! 1, c ! 2] = Some (length w)"
    unfolding pack_binaries [OF w] by (rule add_binaries_size [OF all_bytes_Some [OF xs]])
  with c named_as_normalize [OF assms(1) c(2)]
  show "(if c = [] \<or> normalize_command_name L (c ! 0) \<noteq> text_lit n \<or> length c \<noteq> 3 then None
     else add_binaries [c ! 1, c ! 2]) = Some (length w)" by auto
qed

lemma hset_item_sized:
  assumes "str_upper L (text_lit ''HSET'') = text_lit ''HSET''"
  shows "sized_encoder L ''HSET'' (hset_item L active)"
  unfolding sized_encoder_def
proof (intro allI impI)
  fix c w
  assume "hset_item L active c = Inr (Some w)"
  then obtain xs where c: "length c = 4" "named_as L (c ! 0) ''HSET''"
    and xs: "all_bytes active [c ! 1, c ! 2, c ! 3] = Inr (Some xs)"
    and w: "pack_all (map compact_binary xs) = Inr w" by (auto simp: hset_item_def split: if_splits)
  have "add_binaries [c ! 1, c ! 2, c ! 3] = Some (length w)"
    unfolding pack_binaries [OF w] by (rule add_binaries_size [OF all_bytes_Some [OF xs]])
  with c named_as_normalize [OF assms c(2)] show "standard_item_size L ''HSET'' c = Some (length w)"
    by (auto simp: standard_item_size_def)
qed

lemma hmget_item_sized:
  assumes "str_upper L (text_lit ''HMGET'') = text_lit ''HMGET''"
  shows "sized_encoder L ''HMGET'' (hmget_item L active)"
  unfolding sized_encoder_def
proof (intro allI impI)
  fix c w
  assume "hmget_item L active c = Inr (Some w)"
  then obtain key xs n v where c: "3 \<le> length c" "named_as L (c ! 0) ''HMGET''"
    and key: "maybe_bytes active (c ! 1) = Inr (Some key)" and xs: "all_bytes active (drop 2 c) = Inr (Some xs)"
    and w: "w = compact_wire key @ n @ v" "length n = 4" "pack_all (map compact_binary xs) = Inr v"
    by (auto simp: hmget_item_def not_less compact_binary_Inr split: if_splits)
  have "add_binaries (c ! 1 # drop 2 c) = Some (length (compact_wire key) + length v)"
    using add_binaries_size [OF all_bytes_Some [OF xs]] encode_arg_size [OF maybe_bytes_Some [OF key]]
      pack_binaries [OF w(3)] by simp
  with c w named_as_normalize [OF assms c(2)] show "standard_item_size L ''HMGET'' c = Some (length w)"
    by (auto simp: standard_item_size_def)
qed

lemma zadd_item_sized:
  assumes "str_upper (wl_py W) (text_lit ''ZADD'') = text_lit ''ZADD''"
  shows "sized_encoder (wl_py W) ''ZADD'' (zadd_item W active)"
  unfolding sized_encoder_def
proof (intro allI impI)
  fix c w
  assume "zadd_item W active c = Inr (Some w)"
  then obtain xs score where c: "length c = 4" "named_as (wl_py W) (c ! 0) ''ZADD''"
    and xs: "all_bytes active [c ! 1, c ! 3] = Inr (Some xs)"
    and w: "w = compact_wire (xs ! 0) @ pack_f64 score @ compact_wire (xs ! 1)"
    by (auto simp: zadd_item_def compact_binary_Inr split: if_splits)
  have "add_binaries [c ! 1, c ! 3] = Some (length (wires xs))"
    by (rule add_binaries_size [OF all_bytes_Some [OF xs]])
  moreover obtain a b where "xs = [a, b]"
    using all_bytes_Some [OF xs] by (auto simp: list_all2_Cons1)
  ultimately show "standard_item_size (wl_py W) ''ZADD'' c = Some (length w)"
    using c w named_as_normalize [OF assms c(2)] by (auto simp: standard_item_size_def)
qed

lemma range_item_sized:
  assumes "n = ''LRANGE'' \<or> n = ''ZRANGE''"
  shows "sized_encoder L n (range_item L active n)"
  unfolding sized_encoder_def
proof (intro allI impI)
  fix c w
  assume r: "range_item L active n c = Inr (Some w)"
  then obtain key a b where key: "maybe_bytes active (c ! 1) = Inr (Some key)"
    and w: "length w = length (compact_wire key) + 16 + (if n = ''ZRANGE'' then 1 else 0)"
    by (auto simp: range_item_def compact_binary_Inr packed split: if_splits)
  show "standard_item_size L n c = Some (length w)"
    using assms r w encode_arg_size [OF maybe_bytes_Some [OF key]]
    by (auto simp: range_item_def standard_item_size_def split: if_splits)
qed

lemma specs_sized: "list_all (\<lambda>(n, _, f). sized_encoder (wl_py W) n f) (raw_pipeline_specs W active)"
proof -
  note up = upper_names [of "wl_py W" W active, unfolded raw_pipeline_specs_def Let_def, simplified]
  show ?thesis
    using up
    by (simp add: raw_pipeline_specs_def Let_def set_item_sized key_item_sized two_binary_item_sized
        hset_item_sized hmget_item_sized zadd_item_sized range_item_sized)
qed

lemma sum_sizes_items:
  assumes "sized_encoder L n f"
  shows "raw_items f cs = Inr (Some w) \<Longrightarrow> sum_sizes (standard_item_size L n) k cs = Some (k + length w)"
proof (induction cs arbitrary: k w)
  case (Cons c cs)
  then show ?case using assms by (auto simp: sized_encoder_def)
qed simp

lemma spec_in_list: "raw_pipeline_spec W active name = Some (n, mode, f) \<Longrightarrow> (n, mode, f) \<in> set (raw_pipeline_specs W active)"
  unfolding raw_pipeline_spec_def by (simp add: find_Some_iff) (metis nth_mem)

lemma standard_size_exact:
  assumes "raw_pipeline_spec W active name = Some (n, mode, f)" and "raw_pipeline f m commands = Inr (Some p)"
  shows "raw_standard_pipeline_size (wl_py W) commands n = Some (length p)"
proof -
  have "sized_encoder (wl_py W) n f"
    using specs_sized [of W active] spec_in_list [OF assms(1)] by (auto simp: list_all_iff)
  with assms(2) show ?thesis
    by (auto simp: raw_pipeline_def raw_standard_pipeline_size_def pipeline_header_Inr dest!: sum_sizes_items)
qed

section \<open>Mixed pipelines\<close>

datatype mixed_op = Read bytes | Write bytes bytes

fun op_wire :: "mixed_op \<Rightarrow> bytes" where
  "op_wire (Read k) = 0x02 # compact_wire k"
| "op_wire (Write k v) = 0x01 # compact_wire k @ compact_wire v"

fun stands_for :: "pylib \<Rightarrow> compact_policy \<Rightarrow> pyval list \<Rightarrow> mixed_op \<Rightarrow> bool" where
  "stands_for L active c (Read k) \<longleftrightarrow>
     length c = 2 \<and> normalize_command_name L (c ! 0) = text_lit ''GET'' \<and>
     maybe_bytes active (c ! 1) = Inr (Some k) \<and> small (length k)"
| "stands_for L active c (Write k v) \<longleftrightarrow>
     length c = 3 \<and> normalize_command_name L (c ! 0) = text_lit ''SET'' \<and>
     maybe_bytes active (c ! 1) = Inr (Some k) \<and> maybe_bytes active (c ! 2) = Inr (Some v) \<and>
     small (length k) \<and> small (length v)"

definition reads :: "mixed_op list \<Rightarrow> bytes list" where
  "reads ops = concat (map (\<lambda>p. case p of Read k \<Rightarrow> [k] | Write _ _ \<Rightarrow> []) ops)"

definition writes_of :: "mixed_op list \<Rightarrow> (bytes \<times> bytes) list" where
  "writes_of ops = concat (map (\<lambda>p. case p of Read _ \<Rightarrow> [] | Write k v \<Rightarrow> [(k, v)]) ops)"

lemma op_lists [simp]:
  "reads [] = []" "reads (Read k # ops) = k # reads ops" "reads (Write k v # ops) = reads ops"
  "writes_of [] = []" "writes_of (Read k # ops) = writes_of ops" "writes_of (Write k v # ops) = (k, v) # writes_of ops"
  by (simp_all add: reads_def writes_of_def)

lemma all_bytes_two:
  "all_bytes active [a, b] = Inr (Some xs) \<longleftrightarrow>
     (\<exists>x y. maybe_bytes active a = Inr (Some x) \<and> maybe_bytes active b = Inr (Some y) \<and> xs = [x, y])"
  by (cases "maybe_bytes active a"; cases "maybe_bytes active b") (auto simp: all_bytes_def)

lemma get_not_set: "text_lit ''GET'' \<noteq> text_lit ''SET''"
  by (simp add: text_lit_def)

lemma mixed_items_Cons:
  "mixed_items L active (c # cs) R W acc = Inr (Some p) \<longleftrightarrow>
     (\<exists>k. stands_for L active c (Read k) \<and> k \<notin> set W \<and>
        mixed_items L active cs (k # R) W (acc @ op_wire (Read k)) = Inr (Some p)) \<or>
     (\<exists>k v. stands_for L active c (Write k v) \<and> k \<notin> set R \<and> k \<notin> set W \<and>
        mixed_items L active cs R (k # W) (acc @ op_wire (Write k v)) = Inr (Some p))"
  using get_not_set
  by (auto simp: Let_def all_bytes_two compact_binary_Inr split: if_splits)

definition conflict_free :: "bytes list \<Rightarrow> bytes list \<Rightarrow> mixed_op list \<Rightarrow> bool" where
  "conflict_free R W ops \<longleftrightarrow>
     distinct (map fst (writes_of ops)) \<and> fst ` set (writes_of ops) \<inter> (set R \<union> set W \<union> set (reads ops)) = {} \<and>
     set (reads ops) \<inter> set W = {}"

lemma conflict_free_simps [simp]:
  "conflict_free R W []"
  "conflict_free R W (Read k # ops) \<longleftrightarrow> k \<notin> set W \<and> conflict_free (k # R) W ops"
  "conflict_free R W (Write k v # ops) \<longleftrightarrow> k \<notin> set R \<and> k \<notin> set W \<and> conflict_free R (k # W) ops"
  by (auto simp: conflict_free_def)

lemma mixed_items_exact:
  "mixed_items L active cs R W acc = Inr (Some p) \<longleftrightarrow>
     (\<exists>ops. list_all2 (stands_for L active) cs ops \<and> conflict_free R W ops \<and>
        p = acc @ concat (map op_wire ops))"
proof (induction cs arbitrary: R W acc)
  case (Cons c cs)
  have "mixed_items L active (c # cs) R W acc = Inr (Some p) \<longleftrightarrow>
    (\<exists>x ops. stands_for L active c x \<and> list_all2 (stands_for L active) cs ops \<and>
       conflict_free R W (x # ops) \<and> p = acc @ concat (map op_wire (x # ops)))" (is "_ \<longleftrightarrow> ?r")
  proof
    assume "mixed_items L active (c # cs) R W acc = Inr (Some p)"
    then show ?r
      unfolding mixed_items_Cons Cons.IH
    proof (elim disjE exE conjE)
      fix k ops
      assume "stands_for L active c (Read k)" "k \<notin> set W" "list_all2 (stands_for L active) cs ops"
        "conflict_free (k # R) W ops" "p = (acc @ op_wire (Read k)) @ concat (map op_wire ops)"
      then show ?r by (intro exI [of _ "Read k"] exI [of _ ops]) simp
    next
      fix k v ops
      assume "stands_for L active c (Write k v)" "k \<notin> set R" "k \<notin> set W" "list_all2 (stands_for L active) cs ops"
        "conflict_free R (k # W) ops" "p = (acc @ op_wire (Write k v)) @ concat (map op_wire ops)"
      then show ?r by (intro exI [of _ "Write k v"] exI [of _ ops]) simp
    qed
  next
    assume ?r
    then obtain x ops where "stands_for L active c x" "list_all2 (stands_for L active) cs ops"
      "conflict_free R W (x # ops)" "p = acc @ concat (map op_wire (x # ops))" by blast
    then show "mixed_items L active (c # cs) R W acc = Inr (Some p)"
      unfolding mixed_items_Cons Cons.IH by (cases x) fastforce+
  qed
  then show ?case unfolding ex_list_all2_Cons .
qed auto

lemma mixed_payload_exact:
  "compact_mixed_pipeline_payload_from_raw L active commands = Inr (Some p) \<longleftrightarrow>
     small (length commands) \<and>
     (\<exists>ops. list_all2 (stands_for L active) commands ops \<and> conflict_free [] [] ops \<and>
        p = pipeline_head 5 (length commands) @ concat (map op_wire ops))"
  by (auto simp: compact_mixed_pipeline_payload_from_raw_def pipeline_header_Inr mode_ok_def mixed_items_exact)

lemma mixed_size_exact:
  assumes "list_all2 (stands_for L active) cs ops" and "mixed_size L cs R W n = Some m"
  shows "m = n + length (concat (map op_wire ops))"
  using assms
proof (induction arbitrary: R W n rule: list_all2_induct)
  case (Cons c cs x ops)
  show ?case
  proof (cases x)
    case (Read k)
    then have c: "c \<noteq> []" "length c = 2" "normalize_command_name L (c ! 0) = text_lit ''GET''"
      "binary_wire_size (c ! 1) = Some (length (compact_wire k))"
      using Cons.hyps(1) by (auto dest!: maybe_bytes_Some encode_arg_size)
    then show ?thesis
      using Cons.prems get_not_set by (auto simp: Read Let_def split: if_splits dest!: Cons.IH)
  next
    case (Write k v)
    then have c: "c \<noteq> []" "length c = 3" "normalize_command_name L (c ! 0) = text_lit ''SET''"
      "binary_wire_size (c ! 1) = Some (length (compact_wire k))"
      "binary_wire_size (c ! 2) = Some (length (compact_wire v))"
      using Cons.hyps(1) by (auto dest!: maybe_bytes_Some encode_arg_size)
    then show ?thesis
      using Cons.prems get_not_set by (auto simp: Write Let_def split: if_splits dest!: Cons.IH)
  qed
qed simp

text \<open>A key-value store: what each command of a mixed pipeline answers and leaves behind.\<close>

fun kv_run :: "(bytes \<Rightarrow> bytes option) \<Rightarrow> mixed_op list \<Rightarrow> bytes option list \<times> (bytes \<Rightarrow> bytes option)" where
  "kv_run st [] = ([], st)"
| "kv_run st (Read k # ops) = (let (rs, st') = kv_run st ops in (st k # rs, st'))"
| "kv_run st (Write k v # ops) = (let (rs, st') = kv_run (st(k \<mapsto> v)) ops in (None # rs, st'))"

definition initial_reply :: "(bytes \<Rightarrow> bytes option) \<Rightarrow> mixed_op \<Rightarrow> bytes option" where
  "initial_reply st p = (case p of Read k \<Rightarrow> st k | Write _ _ \<Rightarrow> None)"

lemma kv_run_conflict_free:
  assumes "conflict_free R W ops" and "\<forall>k. k \<notin> set W \<longrightarrow> st k = st0 k"
  shows "fst (kv_run st ops) = map (initial_reply st0) ops \<and> snd (kv_run st ops) = st ++ map_of (writes_of ops)"
  using assms
proof (induction ops arbitrary: R W st)
  case (Cons x ops)
  show ?case
  proof (cases x)
    case (Read k)
    with Cons.prems Cons.IH [of "k # R" W st] show ?thesis
      by (auto simp: initial_reply_def split: prod.splits)
  next
    case (Write k v)
    define st1 where "st1 = st(k \<mapsto> v)"
    have "conflict_free R (k # W) ops" "\<forall>i. i \<notin> set (k # W) \<longrightarrow> st1 i = st0 i"
      using Cons.prems by (auto simp: Write st1_def)
    note IH = Cons.IH [OF this]
    have "map_of (writes_of ops) k = None"
      using Cons.prems(1) by (auto simp: Write conflict_free_def map_of_eq_None_iff)
    then have eq: "st1 ++ map_of (writes_of ops) = st ++ map_of (writes_of (x # ops))"
      by (auto simp: fun_eq_iff map_add_def st1_def Write split: option.splits)
    have run: "kv_run st (x # ops) = (None # fst (kv_run st1 ops), snd (kv_run st1 ops))"
      by (simp add: Write st1_def split: prod.splits)
    have "initial_reply st0 x = None" by (simp add: Write initial_reply_def)
    then show ?thesis
      using IH by (simp only: run eq fst_conv snd_conv list.map simp_thms)
  qed
qed simp

lemma mset_concat_map: "mset (concat (map g xs)) = (\<Sum>x\<in>#mset xs. mset (g x))"
  by (induction xs) simp_all

lemma conflict_free_reorder:
  assumes "conflict_free [] [] ops" and "mset ops' = mset ops"
  shows "conflict_free [] [] ops'" and "map_of (writes_of ops') = map_of (writes_of ops)"
proof -
  have w: "mset (writes_of ops') = mset (writes_of ops)" and r: "mset (reads ops') = mset (reads ops)"
    unfolding writes_of_def reads_def mset_concat_map assms(2) by simp_all
  from w have d: "distinct (map fst (writes_of ops')) \<longleftrightarrow> distinct (map fst (writes_of ops))"
    by (metis mset_map mset_eq_imp_distinct_iff)
  have s: "set (writes_of ops') = set (writes_of ops)" "set (reads ops') = set (reads ops)"
    using w r by (metis mset_eq_setD)+
  show "conflict_free [] [] ops'"
    using assms(1) by (simp add: conflict_free_def d s)
  show "map_of (writes_of ops') = map_of (writes_of ops)"
    using assms(1) d s by (simp add: conflict_free_def map_of_inject_set)
qed

section \<open>Budgeted pipelines emit what they reserved\<close>

lemma compact_budget_limit:
  "make_compact_budget active (Some m) l (int n) = Inr B \<Longrightarrow> int n \<le> m \<and> cb_max_payload_bytes B = Some m \<and> cb_size B = int n"
  by (auto simp: make_compact_budget_def cb_reserve_nat admits_size_def split: if_splits)

lemma budget_bounds:
  assumes "make_compact_budget active (Some m) l (int n) = Inr B" and "grown B k B'" and "length p = n + k"
  shows "int (length p) \<le> m"
  using assms compact_budget_limit [OF assms(1)] by (cases "k = 0") (auto simp: grown_def admits_size_def)

definition core_size :: "bytes \<times> bytes option \<Rightarrow> nat" where
  "core_size x = length (compact_wire (fst x)) + (case snd x of None \<Rightarrow> 0 | Some k \<Rightarrow> length (compact_wire k))"

lemma core_size_key: "k \<noteq> Declined \<Longrightarrow> core_size (i, key_of k) = length (compact_wire i) + present_size k"
  by (cases k) (simp_all add: core_size_def key_of_def present_size_def)

lemma flow_get_items_grown:
  "flow_get_items W cs meta B = Inr (Some (items, meta', B')) \<Longrightarrow> grown B (sum_list (map core_size items)) B'"
proof (induction cs arbitrary: meta B items)
  case (Cons c cs)
  then obtain i k B1 B2 rest meta1 v where "reserve_maybe_bytes B (c ! 1) = Inr (Some i, B1)"
    "reserve_optional_bytes B1 v = Inr (k, B2)" "k \<noteq> Declined" "items = (i, key_of k) # rest"
    "flow_get_items W cs meta1 B2 = Inr (Some (rest, meta', B'))"
    by (auto split: if_splits)
  then show ?case
    using Cons.IH [of meta1 B2 rest]
    by (auto simp: core_size_key simp del: length_compact_wire
        dest!: reserve_maybe_bytes_grown reserve_optional_grown intro: grown_3)
qed simp

lemma flow_history_items_grown:
  "flow_history_items W cs shared B = Inr (Some (items, shared', B')) \<Longrightarrow>
     grown B (sum_list (map (\<lambda>(i, k). length (compact_wire i) + length (opt_wire k)) items)) B'"
proof (induction cs arbitrary: shared B items)
  case (Cons c cs)
  then obtain i k B1 B2 B3 rest sh v where b: "reserve_maybe_bytes B (c ! 1) = Inr (Some i, B1)"
    "reserve_optional_bytes B1 v = Inr (k, B2)" "k \<noteq> Declined" "reserve_if (k = Absent) B2 4 = Inr B3"
    "items = (i, key_of k) # rest" "flow_history_items W cs sh B3 = Inr (Some (rest, shared', B'))"
    by (auto simp: Let_def split: if_splits)
  have "grown B (length (compact_wire i) + present_size k + (if k = Absent then 4 else 0) +
      sum_list (map (\<lambda>(i, k). length (compact_wire i) + length (opt_wire k)) rest)) B'"
    using b reserve_maybe_bytes_grown reserve_optional_grown reserve_if_grown Cons.IH [OF b(6)]
    by (blast intro: grown_trans)
  then show ?case
    by (simp add: b(5) length_opt_wire [OF b(3)] add.assoc)
qed simp

lemma raw_items_length:
  assumes "\<And>x w. f x = Inr (Some w) \<Longrightarrow> length w = g x"
  shows "raw_items f xs = Inr (Some w) \<Longrightarrow> length w = sum_list (map g xs)"
  using assms by (induction xs arbitrary: w) auto

lemma flow_history_bounded:
  assumes "compact_flow_history_pipeline_payload_from_raw W active commands vo (Some m) l = Inr (Some p)"
  shows "int (length p) \<le> m"
proof -
  define item where "item = (\<lambda>(i :: bytes, k). returns (pack_all [compact_binary i, compact_optional_binary k]))"
  from assms obtain B items sh B' cnt cold cons head fixed body
    where b: "make_compact_budget active (Some m) l (int 16) = Inr B"
      "flow_history_items W commands None B = Inr (Some (items, sh, B'))"
    and h: "pipeline_header (values_mode 10 vo) (length items) = Inr head"
      "pack_all [pack_i64 cnt, pack_uint 1 (bool_marker cold), pack_uint 1 (bool_marker cons)] = Inr fixed"
      "raw_items item items = Inr (Some body)" and p: "p = head @ fixed @ body"
    unfolding compact_flow_history_pipeline_payload_from_raw_def item_def [symmetric]
    by (auto simp del: pack_all.simps)
  have "length body = sum_list (map (\<lambda>(i, k). length (compact_wire i) + length (opt_wire k)) items)"
    using h(3) by (rule raw_items_length [rotated])
      (auto simp: item_def packed dest!: pack_wires(1))
  moreover have "length head = 6" "length fixed = 10"
    using h(1,2) by (auto simp: pipeline_header_Inr packed)
  ultimately show ?thesis
    using budget_bounds [OF b(1) flow_history_items_grown [OF b(2)], of p] by (simp add: p)
qed

lemma core_with_keys:
  "sum_list (map (\<lambda>(i, k). length (compact_wire i) + length (opt_wire k)) items) =
     sum_list (map core_size items) + 4 * length (filter (\<lambda>(_, k). k = None) items)"
  by (induction items) (auto simp: core_size_def opt_wire_def)

lemma flow_get_bounded:
  assumes "compact_flow_get_pipeline_payload_from_raw W active commands vo (Some m) l = Inr (Some p)"
  shows "int (length p) \<le> m"
proof -
  define item where "item keys = (\<lambda>(i :: bytes, k). returns (pack_all
      (compact_binary i # (if keys then [compact_optional_binary k] else []))))" for keys
  define some_key where "some_key items = list_ex (\<lambda>(_, k). k \<noteq> None) items"
    for items :: "(bytes \<times> bytes option) list"
  from assms obtain B items meta B1 B2 head body mode
    where b: "make_compact_budget active (Some m) l (int 6) = Inr B"
      "flow_get_items W commands False B = Inr (Some (items, meta, B1))"
      "reserve_if (some_key items \<or> meta) B1 (4 * int (length (filter (\<lambda>(_, k). k = None) items))) = Inr B2"
    and h: "pipeline_header mode (length items) = Inr head"
      "raw_items (item (some_key items \<or> meta)) items = Inr (Some body)" and p: "p = head @ body"
    unfolding compact_flow_get_pipeline_payload_from_raw_def item_def [symmetric] Let_def some_key_def [symmetric]
    by auto
  define keys where "keys = (some_key items \<or> meta)"
  have keys: "\<not> keys \<Longrightarrow> list_all (\<lambda>(_, k). k = None) items"
    by (auto simp: keys_def some_key_def list_ex_iff list_all_iff)
  note b(3) [folded keys_def] and h(2) [folded keys_def]
  note b = b(1,2) this(1) and h = h(1) this(2)
  let ?n = "length (filter (\<lambda>(_, k). k = None) items)"
  have "grown B1 (if keys then 4 * ?n else 0) B2"
    using b(3) cb_reserve_nat [of B1 "4 * ?n"] by (auto simp: reserve_if_def grown_def split: if_splits)
  from grown_trans [OF flow_get_items_grown [OF b(2)] this]
  have g: "grown B (sum_list (map core_size items) + (if keys then 4 * ?n else 0)) B2" .
  have "length body = sum_list (map core_size items) + (if keys then 4 * ?n else 0)"
  proof (cases keys)
    case True
    have "length body = sum_list (map (\<lambda>(i, k). length (compact_wire i) + length (opt_wire k)) items)"
      using h(2) True by (intro raw_items_length [of "item keys"]) (auto simp: item_def packed dest!: pack_wires(1))
    then show ?thesis using True core_with_keys [of items] by simp
  next
    case False
    have "length body = sum_list (map (\<lambda>(i, _). length (compact_wire i)) items)"
      using h(2) False by (intro raw_items_length [of "item keys"]) (auto simp: item_def packed)
    also have "\<dots> = sum_list (map core_size items)"
      using keys [OF False] by (intro arg_cong [where f = sum_list]) (auto simp: core_size_def list_all_iff)
    finally show ?thesis using False by simp
  qed
  moreover have "length head = 6" using h(1) by (auto simp: pipeline_header_Inr)
  ultimately show ?thesis
    using budget_bounds [OF b(1) g, of p] by (simp add: p)
qed

definition signal_size :: "(bytes \<times> bytes \<times> bytes) option \<Rightarrow> nat" where
  "signal_size s = (case s of None \<Rightarrow> 0 | Some (a, b, c) \<Rightarrow> length (wires [a, b, c]))"

definition signal_item_size :: "bytes \<times> bytes option \<times> int \<Rightarrow> nat" where
  "signal_item_size x = (case x of (i, k, _) \<Rightarrow> length (compact_wire i) + length (opt_wire k) + 8)"

lemma signal_bytes_grown:
  "signal_bytes active m sh B v = Inr (Some x, B') \<Longrightarrow> grown B (if sh then length (compact_wire x) else 0) B'"
  by (cases sh) (auto simp: signal_bytes_def simp del: length_compact_wire dest: reserve_maybe_bytes_grown)

lemma flow_signal_items_grown:
  assumes "flow_signal_items active m cs signal B = Inr (Some (items, signal', B'))"
  shows "\<exists>n. grown B n B' \<and> n + signal_size signal = sum_list (map signal_item_size items) + signal_size signal' \<and>
     (signal \<noteq> None \<longrightarrow> signal' = signal)"
  using assms
proof (induction cs arbitrary: signal B items)
  case (Cons r cs)
  define sh where "sh \<longleftrightarrow> signal = None"
  from Cons.prems obtain d i a b c k now rest B1 B2 B3 B4 B5 B6 B7
    where g: "reserve_maybe_bytes B (payload_get d ''id'') = Inr (Some i, B1)"
      "signal_bytes active m sh B1 (payload_get d ''signal'') = Inr (Some a, B2)"
      "signal_bytes active m sh B2 (payload_get d ''if_state'') = Inr (Some b, B3)"
      "signal_bytes active m sh B3 (payload_get d ''transition_to'') = Inr (Some c, B4)"
      "reserve_optional_bytes B4 (payload_get d ''partition_key'') = Inr (k, B5)" "k \<noteq> Declined"
      "reserve_if (k = Absent) B5 4 = Inr B6" "cb_reserve B6 8 = Inr B7"
    and same: "signal = None \<or> signal = Some (a, b, c)"
    and rest: "flow_signal_items active m cs (Some (a, b, c)) B7 = Inr (Some (rest, signal', B'))"
    and items: "items = (i, key_of k, now) # rest"
    by (cases signal) (auto simp: sh_def)
  from Cons.IH [OF rest] obtain n where n: "grown B7 n B'" "signal' = Some (a, b, c)"
    "n + signal_size (Some (a, b, c)) = sum_list (map signal_item_size rest) + signal_size signal'" by auto
  let ?s = "\<lambda>x. if sh then length (compact_wire x) else 0"
  have "grown B (length (compact_wire i) + ?s a + ?s b + ?s c + present_size k + (if k = Absent then 4 else 0) + 8 + n) B'"
    using reserve_maybe_bytes_grown [OF g(1)] signal_bytes_grown [OF g(2)] signal_bytes_grown [OF g(3)]
      signal_bytes_grown [OF g(4)] reserve_optional_grown [OF g(5,6)] reserve_if_grown [OF g(7)]
      cb_reserve_8 [OF g(8)] n(1) by (blast intro: grown_trans)
  moreover have "?s a + ?s b + ?s c + signal_size signal = signal_size (Some (a, b, c))"
    using same by (auto simp: sh_def signal_size_def)
  moreover have "signal_item_size (i, key_of k, now) = length (compact_wire i) + present_size k + (if k = Absent then 4 else 0) + 8"
    by (simp add: signal_item_size_def length_opt_wire [OF g(6)])
  ultimately show ?case
    using n(2,3) same unfolding items list.map sum_list.Cons
    by (intro exI [of _ "length (compact_wire i) + ?s a + ?s b + ?s c + present_size k + (if k = Absent then 4 else 0) + 8 + n"])
      auto
qed auto

lemma flow_signal_bounded:
  assumes "compact_flow_signal_pipeline_payload_from_raw build active commands vo pcs (Some m) l = Inr (Some p)"
  shows "int (length p) \<le> m"
proof -
  define item where "item = (\<lambda>(i :: bytes, k, now_ms).
      returns (pack_all [compact_binary i, compact_optional_binary k, pack_i64 now_ms]))"
  from assms obtain B items a b c B' cs head fixed body
    where g: "make_compact_budget active (Some m) l (int 6) = Inr B"
      "flow_signal_items active (Some m) cs None B = Inr (Some (items, Some (a, b, c), B'))"
    and h: "pipeline_header (values_mode 11 vo) (length items) = Inr head"
      "pack_all [compact_binary a, compact_binary b, compact_binary c] = Inr fixed"
      "raw_items item items = Inr (Some body)" and p: "p = head @ fixed @ body"
    unfolding compact_flow_signal_pipeline_payload_from_raw_def item_def [symmetric]
    by (auto simp del: pack_all.simps)
  have "length body = sum_list (map signal_item_size items)"
    using h(3) by (rule raw_items_length [rotated])
      (auto simp: item_def signal_item_size_def packed dest!: pack_wires(1))
  moreover have "length head = 6" "length fixed = signal_size (Some (a, b, c))"
    using h(1,2) by (auto simp: pipeline_header_Inr packed signal_size_def)
  moreover obtain n where "grown B n B'" "n = sum_list (map signal_item_size items) + signal_size (Some (a, b, c))"
    using flow_signal_items_grown [OF g(2)] by (auto simp: signal_size_def)
  ultimately show ?thesis
    using budget_bounds [OF g(1), of n B' p] by (simp add: p)
qed

interpretation xadds: sized_item "xadd_item L" for L
proof
  fix B c w B'
  assume "xadd_item L B c = Inr (Some (w, B'))"
  then obtain n key B1 B2 front body where g: "reserve_maybe_bytes B (c ! 1) = Inr (Some key, B1)"
    "cb_reserve B1 (int 2) = Inr B2" "each_item binary_item B2 (drop 3 c) = Inr (Some (body, B'))"
    and w: "w = compact_wire key @ front @ body" "length front = 2"
    by (auto simp: xadd_item_def compact_binary_Inr pack_uint_Inr)
  have "grown B1 2 B2" using g(2) unfolding cb_reserve_nat by (auto simp: grown_def split: if_splits)
  then have "grown B (length (compact_wire key) + 2 + length body) B'"
    using reserve_maybe_bytes_grown [OF g(1)] binaries.items_sized [OF g(3)] by (blast intro: grown_trans)
  then show "grown B (length w) B'" using w by (simp add: add.assoc)
qed

lemma xadd_bounded:
  assumes "compact_pipeline_stream_xadd_payload_from_raw L active commands mode (Some m) l = Inr (Some p)"
  shows "int (length p) \<le> m"
proof -
  from assms obtain B head body B' where g: "make_compact_budget active (Some m) l (int 6) = Inr B"
    "each_item (xadd_item L) B commands = Inr (Some (body, B'))" and h: "pipeline_header mode (length commands) = Inr head"
    and p: "p = head @ body" by (auto simp: compact_pipeline_stream_xadd_payload_from_raw_def)
  show ?thesis
    using budget_bounds [OF g(1) xadds.items_sized [OF g(2)], of p] h by (auto simp: p pipeline_header_Inr)
qed

section \<open>Properties of raw pipelines\<close>

lemma mixed_measured:
  assumes "raw_mixed_pipeline_size L commands = Some n"
    and "compact_mixed_pipeline_payload_from_raw L active commands = Inr (Some p)"
  shows "length p = n"
proof -
  from assms(2) obtain ops where "list_all2 (stands_for L active) commands ops"
    "p = pipeline_head 5 (length commands) @ concat (map op_wire ops)" by (auto simp: mixed_payload_exact)
  with assms(1) show ?thesis
    by (auto simp: raw_mixed_pipeline_size_def dest!: mixed_size_exact)
qed

text \<open>
  A compact pipeline never exceeds the byte limit it was given, whichever encoder builds it: the
  payload of FLOW.HISTORY, FLOW.SIGNAL, FLOW.GET and XADD pipelines is exactly what their budgets
  reserved, and the payload of the other pipelines is exactly as long as the size measured before it
  was encoded.
\<close>
theorem raw_pipeline_within_limit:
  assumes "compact_pipeline_payload_from_raw W build active commands values_only protocol_commands (Some m)
      pending_limit allow_stream_xadd allow_pubsub_publish = Inr (Some p)"
  shows "int (length p) \<le> m"
proof -
  let ?name = "normalize_command_name (wl_py W) (hd commands ! 0)"
  let ?spec = "raw_pipeline_spec W active ?name"
  let ?std = "case ?spec of None \<Rightarrow> None | Some (n, _) \<Rightarrow> raw_standard_pipeline_size (wl_py W) commands n"
  consider (history) "compact_flow_history_pipeline_payload_from_raw W active commands values_only (Some m) pending_limit = Inr (Some p)"
    | (signal) "compact_flow_signal_pipeline_payload_from_raw build active commands values_only protocol_commands (Some m) pending_limit = Inr (Some p)"
    | (get) "compact_flow_get_pipeline_payload_from_raw W active commands values_only (Some m) pending_limit = Inr (Some p)"
    | (xadd) "compact_pipeline_stream_xadd_payload_from_raw (wl_py W) active commands (values_mode 34 values_only) (Some m) pending_limit = Inr (Some p)"
    | (mixed) n where "raw_mixed_pipeline_size (wl_py W) commands = Some n" "int n \<le> m"
        "compact_mixed_pipeline_payload_from_raw (wl_py W) active commands = Inr (Some p)"
    | (standard) n k mode f where "?spec = Some (k, mode, f)" "raw_standard_pipeline_size (wl_py W) commands k = Some n"
        "int n \<le> m" "raw_pipeline f (values_mode mode values_only) commands = Inr (Some p)"
    using assms unfolding compact_pipeline_payload_from_raw_def Let_def
    by (cases ?std; cases "raw_mixed_pipeline_size (wl_py W) commands"; cases ?spec)
      (auto simp: not_less split: if_splits)
  then show ?thesis
  proof cases
    case history then show ?thesis by (rule flow_history_bounded)
  next
    case signal then show ?thesis by (rule flow_signal_bounded)
  next
    case get then show ?thesis by (rule flow_get_bounded)
  next
    case xadd then show ?thesis by (rule xadd_bounded)
  next
    case mixed then show ?thesis using mixed_measured by blast
  next
    case standard then show ?thesis using standard_size_exact by fastforce
  qed
qed

text \<open>
  C32. A mixed GET/SET pipeline may be executed in any order. Its compact payload stands for the
  commands one by one; no key is written twice or both read and written; so on any store, for every
  ordering of the operations, each GET is answered from the store as it was before the pipeline and the
  final store is the same.
\<close>
theorem mixed_pipeline_order_free:
  assumes "compact_mixed_pipeline_payload_from_raw L active commands = Inr (Some p)"
  shows "\<exists>ops. list_all2 (stands_for L active) commands ops \<and>
     p = pipeline_head 5 (length commands) @ concat (map op_wire ops) \<and>
     distinct (map fst (writes_of ops)) \<and> fst ` set (writes_of ops) \<inter> set (reads ops) = {} \<and>
     (\<forall>st ops'. mset ops' = mset ops \<longrightarrow>
        kv_run st ops' = (map (initial_reply st) ops', snd (kv_run st ops)))"
proof -
  from assms obtain ops where ops: "list_all2 (stands_for L active) commands ops" and cf: "conflict_free [] [] ops"
    and p: "p = pipeline_head 5 (length commands) @ concat (map op_wire ops)"
    by (auto simp: mixed_payload_exact)
  have "kv_run st ops' = (map (initial_reply st) ops', snd (kv_run st ops))" if "mset ops' = mset ops" for st ops'
    using kv_run_conflict_free [OF cf, of st st] conflict_free_reorder [OF cf that]
      kv_run_conflict_free [of "[]" "[]" ops' st st]
    by (simp add: prod_eq_iff)
  with ops cf p show ?thesis by (auto simp: conflict_free_def)
qed

theorem mixed_pipeline_order_free_witness:
  "\<exists>ops. list_all2 (stands_for ascii_lib unbounded_policy)
       [[PStr (text_lit ''get''), PBytes [1]], [PStr (text_lit ''SET''), PBytes [2], PBytes [3]]] ops \<and>
     pipeline_head 5 2 @ op_wire (Read [1]) @ op_wire (Write [2] [3]) =
       pipeline_head 5 (length [[PStr (text_lit ''get''), PBytes [1]], [PStr (text_lit ''SET''), PBytes [2], PBytes [3]]])
         @ concat (map op_wire ops) \<and>
     distinct (map fst (writes_of ops)) \<and> fst ` set (writes_of ops) \<inter> set (reads ops) = {} \<and>
     (\<forall>st ops'. mset ops' = mset ops \<longrightarrow>
        kv_run st ops' = (map (initial_reply st) ops', snd (kv_run st ops)))"
proof (rule mixed_pipeline_order_free)
  have names: "normalize_command_name ascii_lib (PStr (text_lit ''get'')) = text_lit ''GET''"
    "normalize_command_name ascii_lib (PStr (text_lit ''SET'')) = text_lit ''SET''"
    by (simp_all add: normalize_command_name_def str_upper_def text_lit_def)
  have args: "maybe_bytes unbounded_policy (PBytes [x]) = Inr (Some [x])" for x
    by (simp add: maybe_bytes_def bounded_maybe_bytes_eq unbounded_policy_def encode_arg_def admits_size_def)
  have sm: "small (Suc 0)" "small (Suc (Suc 0))" by (simp_all add: small_def)
  show "compact_mixed_pipeline_payload_from_raw ascii_lib unbounded_policy
      [[PStr (text_lit ''get''), PBytes [1]], [PStr (text_lit ''SET''), PBytes [2], PBytes [3]]] =
    Inr (Some (pipeline_head 5 2 @ op_wire (Read [1]) @ op_wire (Write [2] [3])))"
    unfolding mixed_payload_exact
    by (intro conjI exI [of _ "[Read [1], Write [2] [3]]"])
      (simp_all add: names args sm numeral_2_eq_2)
qed

theorem raw_pipeline_within_limit_witness:
  "compact_pipeline_payload_from_raw \<lparr>wl_py = ascii_lib, wl_lower = (\<lambda>s. s), wl_float = (\<lambda>_. Inl OverflowError)\<rparr>
     (\<lambda>_. Inl OverflowError) unbounded_policy [[PStr (text_lit ''get''), PBytes [7]]] False None (Some 11) (Some 35)
     True True = Inr (Some (pipeline_head 2 1 @ compact_wire [7])) \<and>
   int (length (pipeline_head 2 1 @ compact_wire [7])) \<le> 11"
proof -
  let ?W = "\<lparr>wl_py = ascii_lib, wl_lower = (\<lambda>s. s), wl_float = (\<lambda>_. Inl OverflowError)\<rparr>"
  have name: "normalize_command_name ascii_lib (PStr (text_lit ''get'')) = text_lit ''GET''"
    by (simp add: normalize_command_name_def str_upper_def text_lit_def)
  have spec: "raw_pipeline_spec ?W unbounded_policy (text_lit ''GET'') = Some (''GET'', 2, key_item ascii_lib ''GET'')"
    by (simp add: raw_pipeline_spec_def raw_pipeline_specs_def Let_def text_lit_def)
  have size: "raw_standard_pipeline_size ascii_lib [[PStr (text_lit ''get''), PBytes [7]]] ''GET'' = Some 11"
    by (simp add: raw_standard_pipeline_size_def standard_item_size_def name binary_wire_size_def)
  have head: "pipeline_header 2 1 = Inr (pipeline_head 2 1)" and bin: "compact_binary [7] = Inr (compact_wire [7])"
    by (simp_all add: pipeline_header_Inr mode_ok_def small_def compact_binary_Inr)
  have "raw_pipeline (key_item ascii_lib ''GET'') 2 [[PStr (text_lit ''get''), PBytes [7]]] =
      Inr (Some (pipeline_head 2 1 @ compact_wire [7]))"
    using head bin
    by (simp add: raw_pipeline_def key_item_def named_as_def name encode_arg_def returns_def)
  then have r: "compact_pipeline_payload_from_raw ?W (\<lambda>_. Inl OverflowError) unbounded_policy
      [[PStr (text_lit ''get''), PBytes [7]]] False None (Some 11) (Some 35) True True =
      Inr (Some (pipeline_head 2 1 @ compact_wire [7]))"
    by (simp add: compact_pipeline_payload_from_raw_def Let_def name spec size values_mode_def none_on_def)
      (simp add: text_lit_def)
  show ?thesis using r raw_pipeline_within_limit [OF r] by simp
qed

end
