(* ===== verification/Command_Options.thy ===== *)
theory Command_Options
  imports Raw_Pipelines Config_Validation
begin

text \<open>
  Options of protocol commands: \<open>protocol_command_options.py\<close> with the argument and conversion helpers it
  takes from \<open>protocol_common.py\<close> and \<open>config_validation.py\<close>. A payload under construction is its list of
  items. Arguments are values: an object that is neither a list nor a dictionary has no \<open>append\<close> and no
  item assignment, and what an argument shares with another argument is not tracked.
\<close>

section \<open>Payloads and arguments\<close>

type_synonym payload = "(pyval \<times> pyval) list"

definition field :: "string \<Rightarrow> pyval" where
  "field k = PStr (text_lit k)"

definition pset :: "payload \<Rightarrow> string \<Rightarrow> pyval \<Rightarrow> payload" where
  "pset d k v = dict_set d (field k) v"

lemma field_inj [simp]: "field a = field b \<longleftrightarrow> a = b"
  by (simp add: field_def text_lit_inj)

lemma payload_find_pset [simp]:
  "payload_find (pset d k v) k' = (if k' = k then Some v else payload_find d k')"
  by (simp add: payload_find_def pset_def dict_get_set flip: field_def)

lemma upper_ascii [simp]:
  assumes "list_all (\<lambda>c. of_char c < (128 :: nat) \<and> \<not> (97 \<le> (of_char c :: nat) \<and> of_char c \<le> (122 :: nat))) s"
  shows "normalize_command_name L (field s) = text_lit s"
  using assms
  by (induction s) (auto simp: normalize_command_name_def field_def text_lit_def str_upper_def)

definition pupdate :: "payload \<Rightarrow> payload \<Rightarrow> payload" where
  "pupdate d e = foldl (\<lambda>d (k, v). dict_set d k v) d e"

definition invalid :: "string \<Rightarrow> 'a result" where
  "invalid msg = Inl (InvalidCommandError msg)"

lemma invalid_simps [simp]:
  "invalid m \<noteq> Inr x"
  "Inr x \<noteq> invalid m"
  by (simp_all add: invalid_def)

definition require_arg :: "pyval list \<Rightarrow> nat \<Rightarrow> pyval result" where
  "require_arg args idx = (if idx \<ge> length args then invalid ''missing argument'' else Inr (args ! idx))"

definition POSITIVE_INFINITY :: "64 word" where "POSITIVE_INFINITY = 0x7FF0000000000000"

definition normalize_optional_max_active_ms :: "wire_lib \<Rightarrow> pyval \<Rightarrow> pyval result" where
  "normalize_optional_max_active_ms W v =
     (let other = Inl (ValueError ''max_active_ms must be a positive integer or infinity'') in
      case v of
        PNone \<Rightarrow> Inr PNone
      | PStr t \<Rightarrow> if wl_lower W t = text_lit ''infinity'' then Inr (field ''INFINITY'') else other
      | PFloat x \<Rightarrow> if x = POSITIVE_INFINITY then Inr (field ''INFINITY'') else other
      | PInt n \<Rightarrow>
          if 1 \<le> n \<and> n \<le> MAX_FLOW_ACTIVE_MS then Inr (PInt n)
          else Inl (ValueError ''max_active_ms must be between 1 and 31536000000, or infinity'')
      | _ \<Rightarrow> other)"

section \<open>Generic commands\<close>

definition protocol_command_of :: "int \<Rightarrow> payload \<Rightarrow> int \<Rightarrow> protocol_command" where
  "protocol_command_of opcode d lane = \<lparr>pc_opcode = opcode, pc_payload = PDict d, pc_lane = lane, pc_flags = 0\<rparr>"

text \<open>\<open>str.split()\<close>: the maximal runs of characters that are not white space.\<close>

function str_split :: "ustr \<Rightarrow> ustr list" where
  "str_split s =
     (case dropWhile is_py_space s of
        [] \<Rightarrow> []
      | c # r \<Rightarrow> (c # takeWhile (\<lambda>x. \<not> is_py_space x) r) # str_split (dropWhile (\<lambda>x. \<not> is_py_space x) r))"
  by pat_completeness auto

termination
proof (relation "measure length")
  fix s c and r :: ustr
  assume "dropWhile is_py_space s = c # r"
  then have "length (c # r) \<le> length s" by (metis length_dropWhile_le)
  moreover have "length (dropWhile (\<lambda>x. \<not> is_py_space x) r) \<le> length r" by (rule length_dropWhile_le)
  ultimately show "(dropWhile (\<lambda>x. \<not> is_py_space x) r, s) \<in> measure length" by simp
qed simp

declare str_split.simps [simp del]

fun each_text :: "pylib \<Rightarrow> pyval list \<Rightarrow> ustr list result" where
  "each_text L [] = Inr []"
| "each_text L (v # vs) =
     and_then (text_value L v) (\<lambda>t. and_then (each_text L vs) (\<lambda>ts. Inr (t # ts)))"

definition normalize_request_context_scopes :: "pylib \<Rightarrow> pyval \<Rightarrow> ustr list result" where
  "normalize_request_context_scopes L scopes =
     (let present = filter (\<lambda>v. v \<noteq> PNone \<and> v \<noteq> PStr []);
          parts =
            (case scopes of
               PStr _ \<Rightarrow> and_then (text_value L scopes) (\<lambda>t. Inr (str_split t))
             | PBytes _ \<Rightarrow> and_then (text_value L scopes) (\<lambda>t. Inr (str_split t))
             | PList l \<Rightarrow> each_text L (present l)
             | PTuple l \<Rightarrow> each_text L (present l)
             | PByteArray b \<Rightarrow> each_text L (map (\<lambda>x. PInt (uint x)) b)
             | _ \<Rightarrow> Inr [])
      in and_then parts (\<lambda>ts. Inr (fromkeys (filter (\<lambda>t. t \<noteq> []) ts))))"

text \<open>The empty dictionary stands for the code's \<open>None\<close>: its caller only tests for truth.\<close>

definition normalize_request_context :: "pylib \<Rightarrow> pyval \<Rightarrow> payload result" where
  "normalize_request_context L context =
     (case context of
        PDict _ \<Rightarrow>
          and_then (text_or_none (map_get context [''subject''])) (\<lambda>subject.
          and_then (text_or_none (map_get context [''tenant''])) (\<lambda>tenant.
          and_then (normalize_request_context_scopes L (map_get context [''scopes''])) (\<lambda>scopes.
          let text = (\<lambda>k t. case t of None \<Rightarrow> [] | Some s \<Rightarrow> if s = [] then [] else [(field k, PStr s)]) in
          Inr (text ''subject'' subject @ text ''tenant'' tenant @
               (if scopes = [] then [] else [(field ''scopes'', PList (map PStr scopes))])))))
      | _ \<Rightarrow> Inr [])"

definition command_exec_protocol_command :: "pylib \<Rightarrow> ustr \<Rightarrow> pyval list \<Rightarrow> protocol_command result" where
  "command_exec_protocol_command L name args =
     (let base = (\<lambda>as. [(field ''command'', PStr name), (field ''args'', PList as)]) in
      if length args \<ge> 2 \<and>
         normalize_command_name L (args ! (length args - 2)) = text_lit ''REQUEST_CONTEXT'' then
        and_then (normalize_request_context L (last args)) (\<lambda>request_context.
          let d = base (take (length args - 2) args) in
          Inr (protocol_command_of OP_COMMAND_EXEC
            (if request_context = [] then d else pset d ''request_context'' (PDict request_context)) 1))
      else Inr (protocol_command_of OP_COMMAND_EXEC (base args) 1))"

fun generic_pairs :: "wire_lib \<Rightarrow> pyval list \<Rightarrow> payload \<Rightarrow> payload" where
  "generic_pairs W (k # v # rest) d =
     generic_pairs W rest (dict_set d (PStr (wl_lower W (normalize_command_name (wl_py W) k))) v)"
| "generic_pairs W _ d = d"

definition generic_option_map :: "wire_lib \<Rightarrow> pyval list \<Rightarrow> payload result" where
  "generic_option_map W args =
     (if length args mod 2 \<noteq> 0 then invalid ''protocol options require name/value pairs''
      else Inr (generic_pairs W args []))"

section \<open>Flow options\<close>

definition BOOL_FIELDS :: "string list" where
  "BOOL_FIELDS =
     [''consistent_projection'', ''full'', ''idempotent'', ''include_cold'', ''independent'', ''local_cache'',
      ''override'', ''overwrite'', ''reclaim_expired'', ''replace'', ''rev'', ''terminal_only'',
      ''terminal_local_only'', ''values'']"

text \<open>\<open>payload.setdefault(k, []).append(v)\<close> and \<open>payload.setdefault(k, {})[name] = v\<close>.\<close>

definition append_to :: "payload \<Rightarrow> string \<Rightarrow> pyval \<Rightarrow> payload result" where
  "append_to d k v =
     (case payload_get_or d k (PList []) of
        PList l \<Rightarrow> Inr (pset d k (PList (l @ [v])))
      | PByteArray _ \<Rightarrow> Inl (TypeErr ''an integer is required'')
      | _ \<Rightarrow> Inl (AttributeError ''append''))"

definition put_in :: "payload \<Rightarrow> string \<Rightarrow> ustr \<Rightarrow> pyval \<Rightarrow> payload result" where
  "put_in d k name v =
     (case payload_get_or d k (PDict []) of
        PDict e \<Rightarrow> Inr (pset d k (PDict (dict_set e (PStr name) v)))
      | _ \<Rightarrow> Inl (TypeErr ''object does not support item assignment''))"

definition field_name :: "ustr \<Rightarrow> string option" where
  "field_name token = map_option snd (find (\<lambda>(n, _). text_lit n = token) FLOW_OPTION_FIELD_NAMES)"

definition field_value :: "wire_lib \<Rightarrow> string \<Rightarrow> pyval \<Rightarrow> pyval result" where
  "field_value W k v =
     (if k \<in> set BOOL_FIELDS then and_then (coerce_bool (wl_lower W) v) (\<lambda>b. Inr (PBool b)) else Inr v)"

text \<open>The value of \<open>MAX_ACTIVE_MS\<close>, with the validator's \<open>ValueError\<close> turned into an invalid command.\<close>

definition active_value :: "wire_lib \<Rightarrow> string \<Rightarrow> pyval \<Rightarrow> pyval result" where
  "active_value W k v =
     (if k = ''max_active_ms'' then
        (case normalize_optional_max_active_ms W v of
           Inl _ \<Rightarrow> invalid ''max_active_ms'' | Inr w \<Rightarrow> Inr w)
      else Inr v)"

text \<open>\<open>STATE\<close> and \<open>IF_STATE\<close> may be repeated: the first value stands alone, more make a list.\<close>

definition add_state :: "payload \<Rightarrow> pyval \<Rightarrow> payload result" where
  "add_state d v =
     (case payload_find d ''states'' of
        Some (PList l) \<Rightarrow> Inr (pset d ''states'' (PList (l @ [v])))
      | Some (PByteArray _) \<Rightarrow> Inl (TypeErr ''an integer is required'')
      | Some _ \<Rightarrow> Inl (AttributeError ''append'')
      | None \<Rightarrow>
          (case payload_find d ''state'' of
             Some s \<Rightarrow> Inr (pset (dict_pop d (field ''state'')) ''states'' (PList [s, v]))
           | None \<Rightarrow> Inr (pset d ''state'' v)))"

definition add_if_state :: "payload \<Rightarrow> pyval \<Rightarrow> payload" where
  "add_if_state d v =
     (case payload_find d ''if_state'' of
        Some (PList l) \<Rightarrow> pset d ''if_state'' (PList (l @ [v]))
      | Some s \<Rightarrow> pset d ''if_state'' (PList [s, v])
      | None \<Rightarrow> pset d ''if_state'' v)"

text \<open>
  One iteration of the loop of \<open>_option_map\<close>: the index of the next option and the payload so far.
\<close>

definition option_step ::
    "wire_lib \<Rightarrow> bool \<Rightarrow> option_plan \<Rightarrow> pyval list \<Rightarrow> nat \<Rightarrow> payload \<Rightarrow> (nat \<times> payload) result" where
  "option_step W value_names_only plan args idx d =
     (let L = wl_py W;
          token = normalize_command_name L (args ! idx);
          arg = (\<lambda>k f. and_then (require_arg args (idx + k)) f);
          name = (\<lambda>f. arg 1 (\<lambda>n. and_then (text_value L n) f));
          move = (\<lambda>w r. and_then r (\<lambda>d. Inr (idx + w, d)))
      in
      if token = text_lit ''NOPAYLOAD'' then Inr (idx + 1, pset d ''payload'' (PBool False))
      else if token = text_lit ''PAYLOAD'' then
        if payload_is_flag plan idx then Inr (idx + 1, pset d ''payload'' (PBool True))
        else arg 1 (\<lambda>v. Inr (idx + 2, pset d ''payload'' v))
      else if token = text_lit ''PARTITIONS'' then
        and_then (consume_counted_arguments args (idx + 1) 1) (\<lambda>segment.
          Inr (ca_next_index segment, pset d ''partition_keys'' (PList (ca_values segment))))
      else if token = text_lit ''STATE'' then arg 1 (\<lambda>v. move 2 (add_state d v))
      else if token = text_lit ''IF_STATE'' then arg 1 (\<lambda>v. Inr (idx + 2, add_if_state d v))
      else if token = text_lit ''RETURN'' then
        name (\<lambda>t. Inr (idx + 2, pset d ''return'' (PStr (wl_lower W t))))
      else if token = text_lit ''VALUE'' then
        name (\<lambda>n.
          if value_names_only then move 2 (append_to d ''values'' (PStr n))
          else arg 2 (\<lambda>v. move 3 (put_in d ''values'' n v)))
      else if token = text_lit ''VALUE_REF'' then
        name (\<lambda>n. arg 2 (\<lambda>v. move 3 (put_in d ''value_refs'' n v)))
      else if token = text_lit ''DROP_VALUE'' then name (\<lambda>n. move 2 (append_to d ''drop_values'' (PStr n)))
      else if token = text_lit ''OVERRIDE_VALUE'' then
        name (\<lambda>n. move 2 (append_to d ''override_values'' (PStr n)))
      else if token = text_lit ''ATTRIBUTE'' then name (\<lambda>n. arg 2 (\<lambda>v. move 3 (put_in d ''attributes'' n v)))
      else if token = text_lit ''ATTRIBUTE_MERGE'' then
        name (\<lambda>n. arg 2 (\<lambda>v. move 3 (put_in d ''attributes_merge'' n v)))
      else if token = text_lit ''STATE_META'' then name (\<lambda>n. arg 2 (\<lambda>v. move 3 (put_in d ''state_meta'' n v)))
      else if token = text_lit ''ATTRIBUTE_DELETE'' then
        name (\<lambda>n. move 2 (append_to d ''attributes_delete'' (PStr n)))
      else
        (case field_name token of
           None \<Rightarrow> invalid ''protocol transport does not support option''
         | Some k \<Rightarrow>
             arg 1 (\<lambda>v.
             and_then (active_value W k v) (\<lambda>v.
             and_then (field_value W k v) (\<lambda>v. Inr (idx + 2, pset d k v))))))"

lemma consume_counted_advances:
  "consume_counted_arguments args i w = Inr s \<Longrightarrow> i < ca_next_index s"
  by (auto simp: consume_counted_arguments_def Let_def split: if_splits)

lemma option_step_advances:
  assumes "option_step W names plan args idx d = Inr (i, d')"
  shows "idx < i"
  using assms unfolding option_step_def Let_def
  by (auto split: if_splits option.splits dest: consume_counted_advances)

function option_loop ::
    "wire_lib \<Rightarrow> bool \<Rightarrow> option_plan \<Rightarrow> pyval list \<Rightarrow> nat \<Rightarrow> payload \<Rightarrow> payload result" where
  "option_loop W names plan args idx d =
     (if idx < length args then
        and_then (option_step W names plan args idx d) (\<lambda>(i, d'). option_loop W names plan args i d')
      else Inr d)"
  by pat_completeness auto

termination
  by (relation "measure (\<lambda>(W, names, plan, args, idx, d). length args - idx)")
    (auto dest: option_step_advances)

declare option_loop.simps [simp del]

definition option_map_of :: "wire_lib \<Rightarrow> bool \<Rightarrow> pyval list \<Rightarrow> payload result" where
  "option_map_of W value_names_only args =
     and_then (flow_option_plan (wl_py W) args) (\<lambda>plan. option_loop W value_names_only plan args 0 [])"

end
