(* ===== verification/Flow_Commands.thy ===== *)
theory Flow_Commands
  imports Command_Options
begin

text \<open>
  The Flow command builders: the item parsers of \<open>protocol_flow_payloads.py\<close> and the builders of
  \<open>protocol_flow_commands.py\<close>. A builder gets the command's name and the arguments after it. \<open>W\<close> holds the
  conversions of the standard library, \<open>tr\<close> the truth of opaque objects and \<open>policy\<close> the compact encoding
  policy in force.
\<close>

section \<open>Items of batch commands\<close>

function rows :: "nat \<Rightarrow> 'a list \<Rightarrow> 'a list list" where
  "rows w xs = (if w = 0 \<or> xs = [] then [] else take w xs # rows w (drop w xs))"
  by pat_completeness auto

termination
  by (relation "measure (\<lambda>(w, xs). length xs)") auto

declare rows.simps [simp del]

definition is_dash :: "pyval \<Rightarrow> bool" where
  "is_dash v \<longleftrightarrow> v = PStr (text_lit ''-'') \<or> v = PBytes (bytes_lit ''-'')"

definition parse_create_items :: "pyval list \<Rightarrow> bool \<Rightarrow> pyval list result" where
  "parse_create_items vs mixed =
     (let width = (if mixed then 3 else 2) in
      if length vs mod width \<noteq> 0 then invalid ''FLOW.CREATE_MANY ITEMS has wrong item width''
      else Inr (map PList (rows width vs)))"

definition parse_claimed_items :: "pyval list \<Rightarrow> bool \<Rightarrow> pyval list result" where
  "parse_claimed_items vs mixed =
     (let width = (if mixed then 4 else 3) in
      if length vs mod width \<noteq> 0 then invalid ''FLOW.*_MANY ITEMS has wrong claimed item width''
      else Inr (map PList (rows width vs)))"

definition fenced_item :: "bool \<Rightarrow> bool \<Rightarrow> pyval list \<Rightarrow> payload" where
  "fenced_item mixed include_lease r =
     (let d = [(field ''id'', r ! 0), (field ''fencing_token'', r ! (if mixed then 2 else 1))];
          d = (if mixed then pset d ''partition_key'' (r ! 1) else d);
          lease = r ! (if mixed then 3 else 2)
      in if include_lease \<and> \<not> is_dash lease then pset d ''lease_token'' lease else d)"

definition parse_fenced_items :: "pyval list \<Rightarrow> bool \<Rightarrow> bool \<Rightarrow> pyval list result" where
  "parse_fenced_items vs mixed include_lease =
     (let width = (if include_lease then if mixed then 4 else 3 else if mixed then 3 else 2) in
      if length vs mod width \<noteq> 0 then invalid ''FLOW.*_MANY ITEMS has wrong fenced item width''
      else Inr (map (\<lambda>r. PDict (fenced_item mixed include_lease r)) (rows width vs)))"

definition spawn_child :: "bool \<Rightarrow> pyval list \<Rightarrow> payload" where
  "spawn_child mixed r =
     (if mixed then
        [(field ''id'', r ! 0), (field ''partition_key'', r ! 1), (field ''type'', r ! 2), (field ''payload'', r ! 3)]
      else [(field ''id'', r ! 0), (field ''type'', r ! 1), (field ''payload'', r ! 2)])"

definition parse_spawn_children :: "pyval list \<Rightarrow> bool \<Rightarrow> pyval list result" where
  "parse_spawn_children vs mixed =
     (let width = (if mixed then 4 else 3) in
      if length vs mod width \<noteq> 0 then invalid ''FLOW.SPAWN_CHILDREN ITEMS has wrong child width''
      else Inr (map (\<lambda>r. PDict (spawn_child mixed r)) (rows width vs)))"

text \<open>
  The extended item formats: \<open>w\<close> fixed arguments, then a counted list of named values and a counted list
  of value references. \<open>fixed\<close> builds the item from the fixed arguments.
\<close>

fun named_pairs :: "pylib \<Rightarrow> pyval list \<Rightarrow> payload \<Rightarrow> payload result" where
  "named_pairs L (n # v # rest) d = and_then (text_value L n) (\<lambda>t. named_pairs L rest (dict_set d (PStr t) v))"
| "named_pairs L _ d = Inr d"

definition named_segment ::
    "pylib \<Rightarrow> string \<Rightarrow> pyval list \<Rightarrow> nat \<Rightarrow> payload \<Rightarrow> (payload \<times> nat) result" where
  "named_segment L k vs idx item =
     and_then (consume_counted_arguments vs idx 2) (\<lambda>segment.
     and_then (named_pairs L (ca_values segment) []) (\<lambda>pairs.
       Inr (if pairs = [] then item else pset item k (PDict pairs), ca_next_index segment)))"

fun ext_items ::
    "pylib \<Rightarrow> nat \<Rightarrow> (pyval list \<Rightarrow> payload) \<Rightarrow> pyval list \<Rightarrow> nat \<Rightarrow> nat \<Rightarrow> (payload list \<times> nat) result" where
  "ext_items L w fixed vs 0 idx = Inr ([], idx)"
| "ext_items L w fixed vs (Suc n) idx =
     (if idx + w > length vs then invalid ''ITEMS_EXT item is truncated''
      else
        and_then (named_segment L ''values'' vs (idx + w) (fixed (take w (drop idx vs)))) (\<lambda>(item, i).
        and_then (named_segment L ''value_refs'' vs i item) (\<lambda>(item, i).
        and_then (ext_items L w fixed vs n i) (\<lambda>(items, i). Inr (item # items, i)))))"

definition parse_ext ::
    "pylib \<Rightarrow> nat \<Rightarrow> (pyval list \<Rightarrow> payload) \<Rightarrow> pyval list \<Rightarrow> nat \<Rightarrow> pyval list result" where
  "parse_ext L w fixed vs expected_count =
     (if expected_count > length vs div (w + 2) then invalid ''ITEMS_EXT count does not match items''
      else
        and_then (ext_items L w fixed vs expected_count 0) (\<lambda>(items, idx).
        if idx \<noteq> length vs then invalid ''ITEMS_EXT count does not match items''
        else Inr (map PDict items)))"

definition with_partition :: "bool \<Rightarrow> pyval \<Rightarrow> payload \<Rightarrow> payload" where
  "with_partition always v d = (if always \<or> \<not> is_dash v then pset d ''partition_key'' v else d)"

definition with_max_active :: "pyval \<Rightarrow> payload \<Rightarrow> payload" where
  "with_max_active v d = (if is_dash v then d else pset d ''max_active_ms'' v)"

definition parse_create_items_ext :: "pylib \<Rightarrow> pyval list \<Rightarrow> bool \<Rightarrow> nat \<Rightarrow> pyval list result" where
  "parse_create_items_ext L vs mixed n =
     parse_ext L 3 (\<lambda>r. with_partition mixed (r ! 1) [(field ''id'', r ! 0), (field ''payload'', r ! 2)]) vs n"

definition parse_create_items_ext_v2 :: "pylib \<Rightarrow> pyval list \<Rightarrow> bool \<Rightarrow> nat \<Rightarrow> pyval list result" where
  "parse_create_items_ext_v2 L vs mixed n =
     parse_ext L 4 (\<lambda>r. with_max_active (r ! 3)
       (with_partition mixed (r ! 1) [(field ''id'', r ! 0), (field ''payload'', r ! 2)])) vs n"

definition parse_spawn_children_ext :: "pylib \<Rightarrow> pyval list \<Rightarrow> nat \<Rightarrow> pyval list result" where
  "parse_spawn_children_ext L vs n =
     parse_ext L 4 (\<lambda>r. with_partition False (r ! 1)
       [(field ''id'', r ! 0), (field ''type'', r ! 2), (field ''payload'', r ! 3)]) vs n"

definition parse_spawn_children_ext_v2 :: "pylib \<Rightarrow> pyval list \<Rightarrow> nat \<Rightarrow> pyval list result" where
  "parse_spawn_children_ext_v2 L vs n =
     parse_ext L 5 (\<lambda>r. with_max_active (r ! 4) (with_partition False (r ! 1)
       [(field ''id'', r ! 0), (field ''type'', r ! 2), (field ''payload'', r ! 3)])) vs n"

section \<open>Payloads of batch commands\<close>

definition find_item_token :: "pylib \<Rightarrow> pyval list \<Rightarrow> nat \<Rightarrow> nat result" where
  "find_item_token L args start =
     and_then (find_flow_many_item_marker L args start) (\<lambda>marker.
       case marker of
         Some (i, _) \<Rightarrow> Inr i
       | None \<Rightarrow> invalid ''FLOW many command requires ITEMS or ITEMS_EXT'')"

definition is_extended :: "ustr \<Rightarrow> bool" where
  "is_extended token \<longleftrightarrow> token = text_lit ''ITEMS_EXT'' \<or> token = text_lit ''ITEMS_EXT_V2''"

definition extended_count :: "pyval list \<Rightarrow> nat \<Rightarrow> nat result" where
  "extended_count args i =
     and_then (require_arg args (i + 1)) (\<lambda>v. and_then (require_nonnegative_count v) (\<lambda>n. Inr (nat n)))"

definition create_items_of :: "pylib \<Rightarrow> pyval list \<Rightarrow> nat \<Rightarrow> bool \<Rightarrow> pyval list result" where
  "create_items_of L args i mixed =
     (let token = normalize_command_name L (args ! i) in
      if is_extended token then
        and_then (extended_count args i) (\<lambda>n.
        (if token = text_lit ''ITEMS_EXT_V2'' then parse_create_items_ext_v2 else parse_create_items_ext)
          L (drop (i + 2) args) mixed n)
      else parse_create_items (drop (i + 1) args) mixed)"

definition batch_options :: "wire_lib \<Rightarrow> pyval list \<Rightarrow> nat \<Rightarrow> payload result" where
  "batch_options W args i = option_map_of W False (drop 1 (take i args))"

definition wire_partition :: "wire_lib \<Rightarrow> pyval list \<Rightarrow> ustr result" where
  "wire_partition W args =
     and_then (require_arg args 0) (\<lambda>v. and_then (text_value (wl_py W) v) (\<lambda>t.
       Inr (normalize_command_name (wl_py W) (PStr t))))"

definition flow_create_many_payload :: "wire_lib \<Rightarrow> pyval list \<Rightarrow> payload result" where
  "flow_create_many_payload W args =
     and_then (wire_partition W args) (\<lambda>mode.
     and_then (find_item_token (wl_py W) args 1) (\<lambda>i.
     and_then (batch_options W args i) (\<lambda>d.
     let d = (if mode \<in> text_lit ` {''AUTO'', ''MIXED'', ''NONE''} then d else pset d ''partition_key'' (args ! 0)) in
     and_then (create_items_of (wl_py W) args i (mode = text_lit ''MIXED'')) (\<lambda>items.
       Inr (pset d ''items'' (PList items))))))"

definition flow_claimed_many_payload :: "wire_lib \<Rightarrow> pyval list \<Rightarrow> payload result" where
  "flow_claimed_many_payload W args =
     and_then (wire_partition W args) (\<lambda>mode.
     and_then (find_item_token (wl_py W) args 1) (\<lambda>i.
     and_then (batch_options W args i) (\<lambda>d.
     let mixed = (mode = text_lit ''MIXED'');
         d = (if mixed then d else pset d ''partition_key'' (args ! 0)) in
     and_then (parse_claimed_items (drop (i + 1) args) mixed) (\<lambda>items.
       Inr (pset d ''items'' (PList items))))))"

definition flow_fenced_many_payload :: "wire_lib \<Rightarrow> pyval list \<Rightarrow> bool \<Rightarrow> payload result" where
  "flow_fenced_many_payload W args include_lease =
     and_then (wire_partition W args) (\<lambda>mode.
     and_then (find_item_token (wl_py W) args 1) (\<lambda>i.
     and_then (batch_options W args i) (\<lambda>d.
     let mixed = (mode = text_lit ''MIXED'');
         d = (if mixed then d else pset d ''partition_key'' (args ! 0)) in
     and_then (parse_fenced_items (drop (i + 1) args) mixed include_lease) (\<lambda>items.
       Inr (pset d ''items'' (PList items))))))"

definition flow_spawn_children_payload :: "wire_lib \<Rightarrow> pyval list \<Rightarrow> payload result" where
  "flow_spawn_children_payload W args =
     (let L = wl_py W in
      and_then (require_arg args 0) (\<lambda>parent.
      and_then (find_item_token L args 1) (\<lambda>i.
      and_then (batch_options W args i) (\<lambda>opts.
      let d = pupdate [(field ''id'', parent)] opts;
          token = normalize_command_name L (args ! i);
          mixed = (i + 1 < length args \<and> normalize_command_name L (args ! (i + 1)) = text_lit ''MIXED'') in
      and_then
        (if is_extended token then
           and_then (extended_count args i) (\<lambda>n.
           (if token = text_lit ''ITEMS_EXT_V2'' then parse_spawn_children_ext_v2 else parse_spawn_children_ext)
             L (drop (i + 2) args) n)
         else parse_spawn_children (drop (if mixed then i + 2 else i + 1) args) mixed)
        (\<lambda>children. Inr (pset d ''children'' (PList children)))))))"

definition split_refs_and_options :: "pylib \<Rightarrow> pyval list \<Rightarrow> payload" where
  "split_refs_and_options L args =
     (let (refs, max_bytes) = split_flow_value_mget L args in
      (field ''refs'', PList refs) # (case max_bytes of None \<Rightarrow> [] | Some n \<Rightarrow> [(field ''max_bytes'', PInt n)]))"

definition collapse_states :: "payload \<Rightarrow> payload" where
  "collapse_states d =
     (case payload_find d ''states'' of
        Some (PList [s]) \<Rightarrow> dict_pop (pset d ''state'' s) (field ''states'')
      | _ \<Rightarrow> d)"

section \<open>Commands\<close>

definition plain_command :: "int \<Rightarrow> payload \<Rightarrow> protocol_command" where
  "plain_command opcode d = protocol_command_of opcode d 1"

definition compact_command :: "int \<Rightarrow> bytes option \<Rightarrow> payload \<Rightarrow> protocol_command" where
  "compact_command opcode encoded d =
     (case encoded of
        Some b \<Rightarrow> \<lparr>pc_opcode = opcode, pc_payload = PBytes b, pc_lane = 1, pc_flags = FLAG_CUSTOM_PAYLOAD\<rparr>
      | None \<Rightarrow> plain_command opcode d)"

text \<open>A payload of positional arguments, in order, updated by the options after them.\<close>

fun positional :: "pyval list \<Rightarrow> nat \<Rightarrow> string list \<Rightarrow> payload result" where
  "positional args i [] = Inr []"
| "positional args i (k # ks) =
     and_then (require_arg args i) (\<lambda>v. and_then (positional args (i + 1) ks) (\<lambda>d. Inr ((field k, v) # d)))"

definition with_options :: "wire_lib \<Rightarrow> bool \<Rightarrow> string list \<Rightarrow> pyval list \<Rightarrow> payload result" where
  "with_options W value_names_only ks args =
     and_then (positional args 0 ks) (\<lambda>d.
     and_then (option_map_of W value_names_only (drop (length ks) args)) (\<lambda>opts. Inr (pupdate d opts)))"

definition require_mutation_guards :: "payload \<Rightarrow> string list \<Rightarrow> unit result" where
  "require_mutation_guards d ks =
     (if list_all (\<lambda>k. payload_find d k \<noteq> None) ks then Inr () else invalid ''mutation guards required'')"

definition guarded_command :: "int \<Rightarrow> payload \<Rightarrow> string list \<Rightarrow> protocol_command result" where
  "guarded_command opcode d ks = and_then (require_mutation_guards d ks) (\<lambda>_. Inr (plain_command opcode d))"

definition build_flow_creation ::
    "wire_lib \<Rightarrow> (string \<Rightarrow> bool) \<Rightarrow> compact_policy \<Rightarrow> string \<Rightarrow> pyval list \<Rightarrow> int \<Rightarrow> protocol_command result" where
  "build_flow_creation W tr policy name args opcode =
     (if name = ''FLOW.CREATE'' then
        and_then (with_options W False [''id''] args) (\<lambda>d. Inr (plain_command opcode d))
      else if name = ''FLOW.CREATE_MANY'' then
        and_then (flow_create_many_payload W args) (\<lambda>d.
        and_then (compact_flow_create_many_payload tr policy d) (\<lambda>c. Inr (compact_command opcode c d)))
      else if name = ''FLOW.CLAIM_DUE'' then
        and_then (with_options W True [''type''] args) (\<lambda>d.
        let d = collapse_states d in
        and_then (compact_flow_claim_due_payload tr policy d) (\<lambda>c. Inr (compact_command opcode c d)))
      else invalid ''unsupported flow creation command'')"

definition build_flow_mutation :: "wire_lib \<Rightarrow> string \<Rightarrow> pyval list \<Rightarrow> int \<Rightarrow> protocol_command result" where
  "build_flow_mutation W name args opcode =
     (if name \<in> {''FLOW.COMPLETE'', ''FLOW.RETRY'', ''FLOW.FAIL'', ''FLOW.EXTEND_LEASE''} then
        and_then (with_options W False [''id'', ''lease_token''] args) (\<lambda>d.
          guarded_command opcode d (if name = ''FLOW.EXTEND_LEASE'' then [] else [''fencing_token'']))
      else if name = ''FLOW.TRANSITION'' then
        and_then (with_options W False [''id'', ''from_state'', ''to_state''] args) (\<lambda>d.
          guarded_command opcode d [''lease_token'', ''fencing_token''])
      else if name = ''FLOW.STEP_CONTINUE'' then
        and_then (with_options W False [''id'', ''lease_token'', ''from_state'', ''to_state''] args) (\<lambda>d.
          Inr (plain_command opcode d))
      else if name = ''FLOW.START_AND_CLAIM'' then
        and_then (with_options W False [''id''] args) (\<lambda>d. Inr (plain_command opcode d))
      else if name = ''FLOW.RUN_STEPS_MANY'' then
        and_then (option_map_of W False args) (\<lambda>d.
          if payload_find d ''items'' = None then invalid ''FLOW.RUN_STEPS_MANY requires ITEMS''
          else Inr (plain_command opcode d))
      else if name = ''FLOW.CANCEL'' then
        and_then (with_options W False [''id''] args) (\<lambda>d. guarded_command opcode d [''fencing_token''])
      else invalid ''unsupported flow mutation command'')"

definition build_flow_many ::
    "wire_lib \<Rightarrow> (string \<Rightarrow> bool) \<Rightarrow> compact_policy \<Rightarrow> string \<Rightarrow> pyval list \<Rightarrow> int \<Rightarrow> protocol_command result" where
  "build_flow_many W tr policy name args opcode =
     (let compacted = (\<lambda>d. and_then (compact_batch (wl_py W) tr policy opcode d) (\<lambda>c.
                        Inr (compact_command opcode c d))) in
      if name \<in> {''FLOW.COMPLETE_MANY'', ''FLOW.RETRY_MANY'', ''FLOW.FAIL_MANY''} then
        and_then (flow_claimed_many_payload W args) compacted
      else if name = ''FLOW.TRANSITION_MANY'' then
        and_then (require_arg args 1) (\<lambda>from_state.
        and_then (require_arg args 2) (\<lambda>to_state.
        and_then (flow_fenced_many_payload W (take 1 args @ drop 3 args) True) (\<lambda>d.
          compacted (pupdate [(field ''from_state'', from_state), (field ''to_state'', to_state)] d))))
      else if name = ''FLOW.CANCEL_MANY'' then
        and_then (flow_fenced_many_payload W args False) compacted
      else invalid ''unsupported flow many command'')"

fun value_error :: "py_error \<Rightarrow> bool" where
  "value_error (TypeErr _) = True"
| "value_error (ValueError _) = True"
| "value_error UnicodeEncodeError = True"
| "value_error UnicodeDecodeError = True"
| "value_error _ = False"

definition build_flow_query_command :: "wire_lib \<Rightarrow> string \<Rightarrow> pyval list \<Rightarrow> int \<Rightarrow> protocol_command result" where
  "build_flow_query_command W name args opcode =
     (if name = ''FLOW.QUERY'' then
        (case build_flow_query_payload args of
           Inl e \<Rightarrow> if value_error e then invalid ''FLOW.QUERY'' else Inl e
         | Inr p \<Rightarrow> Inr \<lparr>pc_opcode = opcode, pc_payload = p, pc_lane = 1, pc_flags = 0\<rparr>)
      else if name \<in> {''FLOW.GET'', ''FLOW.HISTORY'', ''FLOW.REWIND'', ''FLOW.SIGNAL''} then
        and_then (with_options W (name = ''FLOW.GET'') [''id''] args) (\<lambda>d. Inr (plain_command opcode d))
      else if name \<in> {''FLOW.STATS'', ''FLOW.INFO'', ''FLOW.ATTRIBUTES''} then
        and_then (with_options W False [''type''] args) (\<lambda>d. Inr (plain_command opcode d))
      else if name = ''FLOW.ATTRIBUTE_VALUES'' then
        and_then (with_options W False [''type'', ''attribute''] args) (\<lambda>d. Inr (plain_command opcode d))
      else invalid ''unsupported flow query command'')"

definition FLOW_RETRY_BACKOFF_FIELD_NAMES :: "(string \<times> string) list" where
  "FLOW_RETRY_BACKOFF_FIELD_NAMES =
     [(''BACKOFF'', ''kind''), (''BASE_MS'', ''base_ms''), (''MAX_MS'', ''max_ms''), (''JITTER_PCT'', ''jitter_pct'')]"

definition FLOW_POLICY_FIELD_NAMES :: "(string \<times> string) list" where
  "FLOW_POLICY_FIELD_NAMES =
     [(''EXPECTED_GENERATION'', ''expected_generation''), (''INDEXED_ATTRIBUTES'', ''indexed_attributes''),
      (''MODE'', ''mode''), (''REPLACE'', ''replace'')]"

definition named_in :: "(string \<times> string) list \<Rightarrow> ustr \<Rightarrow> string option" where
  "named_in table token = map_option snd (find (\<lambda>(n, _). text_lit n = token) table)"

text \<open>
  Policy options: \<open>MAX_RETRIES\<close> and \<open>EXHAUSTED_TO\<close> go to the retry block, the back-off options to the block
  inside it, and the others to the policy itself.
\<close>

fun policy_options ::
    "wire_lib \<Rightarrow> pyval list \<Rightarrow> payload \<Rightarrow> payload \<Rightarrow> payload \<Rightarrow> (payload \<times> payload \<times> payload) result" where
  "policy_options W [] d retry backoff = Inr (d, retry, backoff)"
| "policy_options W (t # rest) d retry backoff =
     (case rest of
        [] \<Rightarrow> invalid ''missing argument''
      | v # rest' \<Rightarrow>
          let token = normalize_command_name (wl_py W) t in
          if token = text_lit ''MAX_RETRIES'' then policy_options W rest' d (pset retry ''max_retries'' v) backoff
          else if token = text_lit ''EXHAUSTED_TO'' then policy_options W rest' d (pset retry ''exhausted_to'' v) backoff
          else
            case named_in FLOW_RETRY_BACKOFF_FIELD_NAMES token of
              Some k \<Rightarrow> policy_options W rest' d retry (pset backoff k v)
            | None \<Rightarrow>
                (case (case named_in FLOW_POLICY_FIELD_NAMES token of Some k \<Rightarrow> Some k | None \<Rightarrow> field_name token) of
                   None \<Rightarrow> invalid ''protocol transport does not support option''
                 | Some k \<Rightarrow>
                     and_then (field_value W k v) (\<lambda>v. policy_options W rest' (pset d k v) retry backoff)))"

definition flow_policy_option_map :: "wire_lib \<Rightarrow> pyval list \<Rightarrow> payload result" where
  "flow_policy_option_map W args =
     and_then (policy_options W args [] [] []) (\<lambda>(d, retry, backoff).
       let retry = (if backoff = [] then retry else pset retry ''backoff'' (PDict backoff))
       in Inr (if retry = [] then d else pset d ''retry'' (PDict retry)))"

definition flush_policy ::
    "wire_lib \<Rightarrow> pyval option \<Rightarrow> pyval list \<Rightarrow> payload \<times> payload \<Rightarrow> (payload \<times> payload) result" where
  "flush_policy W current_state current_args s =
     (case s of (d, states) \<Rightarrow>
        (case current_state of
           None \<Rightarrow> and_then (flow_policy_option_map W current_args) (\<lambda>e. Inr (pupdate d e, states))
         | Some st \<Rightarrow>
             and_then (flow_policy_option_map W current_args) (\<lambda>e.
             and_then (text_value (wl_py W) st) (\<lambda>t. Inr (d, dict_set states (PStr t) (PDict e))))))"

fun policy_set_loop ::
    "wire_lib \<Rightarrow> pyval list \<Rightarrow> pyval option \<Rightarrow> pyval list \<Rightarrow> payload \<times> payload \<Rightarrow> (payload \<times> payload) result" where
  "policy_set_loop W [] current_state current_args s = flush_policy W current_state current_args s"
| "policy_set_loop W (t # rest) current_state current_args s =
     (if normalize_command_name (wl_py W) t = text_lit ''STATE'' then
        and_then (flush_policy W current_state current_args s) (\<lambda>s.
        case rest of
          [] \<Rightarrow> invalid ''missing argument''
        | v # rest' \<Rightarrow> policy_set_loop W rest' (if v = PNone then None else Some v) [] s)
      else
        case rest of
          [] \<Rightarrow> invalid ''missing argument''
        | v # rest' \<Rightarrow> policy_set_loop W rest' current_state (current_args @ [t, v]) s)"

definition flow_policy_set_option_map :: "wire_lib \<Rightarrow> pyval list \<Rightarrow> payload result" where
  "flow_policy_set_option_map W args =
     and_then (policy_set_loop W args None [] ([], [])) (\<lambda>(d, states).
       Inr (if states = [] then d else pset d ''states'' (PDict states)))"

definition build_flow_value_policy ::
    "wire_lib \<Rightarrow> compact_policy \<Rightarrow> string \<Rightarrow> pyval list \<Rightarrow> int \<Rightarrow> protocol_command result" where
  "build_flow_value_policy W policy name args opcode =
     (if name = ''FLOW.VALUE.PUT'' then
        and_then (with_options W False [''value''] args) (\<lambda>d. Inr (plain_command opcode d))
      else if name = ''FLOW.VALUE.MGET'' then
        let d = split_refs_and_options (wl_py W) args in
        and_then (compact_flow_value_mget_payload policy d) (\<lambda>c. Inr (compact_command opcode c d))
      else if name = ''FLOW.POLICY.SET'' then
        and_then (positional args 0 [''type'']) (\<lambda>d.
        and_then (flow_policy_set_option_map W (drop 1 args)) (\<lambda>e. Inr (plain_command opcode (pupdate d e))))
      else if name \<in> {''FLOW.POLICY.GET'', ''FLOW.RECLAIM''} then
        and_then (with_options W (name = ''FLOW.RECLAIM'') [''type''] args) (\<lambda>d. Inr (plain_command opcode d))
      else invalid ''unsupported flow value/policy command'')"

definition FLOW_ID_SCOPED_COMMANDS :: "string list" where
  "FLOW_ID_SCOPED_COMMANDS =
     [''FLOW.SCHEDULE.CREATE'', ''FLOW.SCHEDULE.GET'', ''FLOW.SCHEDULE.FIRE'', ''FLOW.SCHEDULE.PAUSE'',
      ''FLOW.SCHEDULE.RESUME'', ''FLOW.SCHEDULE.DELETE'', ''FLOW.EFFECT.RESERVE'', ''FLOW.EFFECT.CONFIRM'',
      ''FLOW.EFFECT.FAIL'', ''FLOW.EFFECT.COMPENSATE'', ''FLOW.EFFECT.GET'', ''FLOW.GOVERNANCE.LEDGER'',
      ''FLOW.APPROVAL.REQUEST'', ''FLOW.APPROVAL.APPROVE'', ''FLOW.APPROVAL.REJECT'', ''FLOW.APPROVAL.GET'']"

definition FLOW_SCOPE_SCOPED_COMMANDS :: "string list" where
  "FLOW_SCOPE_SCOPED_COMMANDS =
     [''FLOW.CIRCUIT.OPEN'', ''FLOW.CIRCUIT.CLOSE'', ''FLOW.CIRCUIT.GET'', ''FLOW.BUDGET.RESERVE'',
      ''FLOW.BUDGET.COMMIT'', ''FLOW.BUDGET.RELEASE'', ''FLOW.BUDGET.GET'', ''FLOW.LIMIT.LEASE'',
      ''FLOW.LIMIT.SPEND'', ''FLOW.LIMIT.RELEASE'', ''FLOW.LIMIT.GET'']"

definition FLOW_OPTION_ONLY_COMMANDS :: "string list" where
  "FLOW_OPTION_ONLY_COMMANDS =
     [''FLOW.SCHEDULE.FIRE_DUE'', ''FLOW.SCHEDULE.LIST'', ''FLOW.APPROVAL.LIST'', ''FLOW.GOVERNANCE.OVERVIEW'',
      ''FLOW.BUDGET.LIST'', ''FLOW.LIMIT.LIST'', ''FLOW.RETENTION_CLEANUP'']"

definition build_flow_governance :: "wire_lib \<Rightarrow> string \<Rightarrow> pyval list \<Rightarrow> int \<Rightarrow> protocol_command result" where
  "build_flow_governance W name args opcode =
     (if name \<in> set FLOW_ID_SCOPED_COMMANDS then
        and_then (with_options W False [''id''] args) (\<lambda>d. Inr (plain_command opcode d))
      else if name \<in> set FLOW_SCOPE_SCOPED_COMMANDS then
        and_then (with_options W False [''scope''] args) (\<lambda>d. Inr (plain_command opcode d))
      else if name \<in> set FLOW_OPTION_ONLY_COMMANDS then
        and_then (option_map_of W False args) (\<lambda>d. Inr (plain_command opcode d))
      else if name = ''FLOW.SPAWN_CHILDREN'' then
        and_then (flow_spawn_children_payload W args) (\<lambda>d. Inr (plain_command opcode d))
      else invalid ''unsupported flow governance command'')"

definition opcode_of :: "string \<Rightarrow> int option" where
  "opcode_of name = map_of OPCODES name"

definition build_native_flow_protocol_command ::
    "wire_lib \<Rightarrow> (string \<Rightarrow> bool) \<Rightarrow> compact_policy \<Rightarrow> string \<Rightarrow> pyval list \<Rightarrow> protocol_command result" where
  "build_native_flow_protocol_command W tr policy name args =
     (case opcode_of name of
        None \<Rightarrow> invalid ''protocol transport does not support command''
      | Some opcode \<Rightarrow>
          if name \<in> {''FLOW.CREATE'', ''FLOW.CREATE_MANY'', ''FLOW.CLAIM_DUE''} then
            build_flow_creation W tr policy name args opcode
          else if name \<in> {''FLOW.COMPLETE'', ''FLOW.RETRY'', ''FLOW.FAIL'', ''FLOW.EXTEND_LEASE'', ''FLOW.TRANSITION'',
              ''FLOW.STEP_CONTINUE'', ''FLOW.START_AND_CLAIM'', ''FLOW.RUN_STEPS_MANY'', ''FLOW.CANCEL''} then
            build_flow_mutation W name args opcode
          else if name \<in> {''FLOW.COMPLETE_MANY'', ''FLOW.RETRY_MANY'', ''FLOW.FAIL_MANY'', ''FLOW.TRANSITION_MANY'',
              ''FLOW.CANCEL_MANY''} then build_flow_many W tr policy name args opcode
          else if name \<in> {''FLOW.GET'', ''FLOW.HISTORY'', ''FLOW.REWIND'', ''FLOW.SIGNAL'', ''FLOW.STATS'', ''FLOW.INFO'',
              ''FLOW.ATTRIBUTES'', ''FLOW.ATTRIBUTE_VALUES'', ''FLOW.QUERY''} then
            build_flow_query_command W name args opcode
          else if name \<in> {''FLOW.VALUE.PUT'', ''FLOW.VALUE.MGET'', ''FLOW.POLICY.SET'', ''FLOW.POLICY.GET'',
              ''FLOW.RECLAIM''} then build_flow_value_policy W policy name args opcode
          else if name \<in> set FLOW_ID_SCOPED_COMMANDS \<or> name \<in> set FLOW_SCOPE_SCOPED_COMMANDS \<or>
              name \<in> set FLOW_OPTION_ONLY_COMMANDS \<or> name = ''FLOW.SPAWN_CHILDREN'' then
            build_flow_governance W name args opcode
          else invalid ''protocol transport does not support command'')"

text \<open>State metadata has no native wire form, except in \<open>FLOW.CREATE\<close>: such commands go through \<open>COMMAND_EXEC\<close>.\<close>

definition needs_command_exec :: "string \<Rightarrow> pyval \<Rightarrow> bool" where
  "needs_command_exec name p =
     (case p of
        PDict d \<Rightarrow> payload_find d ''indexed_state_meta'' \<noteq> None \<or>
          (payload_find d ''state_meta'' \<noteq> None \<and> name \<noteq> ''FLOW.CREATE'')
      | _ \<Rightarrow> False)"

definition build_flow_protocol_command ::
    "wire_lib \<Rightarrow> (string \<Rightarrow> bool) \<Rightarrow> compact_policy \<Rightarrow> string \<Rightarrow> pyval list \<Rightarrow> protocol_command result" where
  "build_flow_protocol_command W tr policy name args =
     and_then (build_native_flow_protocol_command W tr policy name args) (\<lambda>c.
       if needs_command_exec name (pc_payload c) then command_exec_protocol_command (wl_py W) (text_lit name) args
       else Inr c)"

section \<open>Counts and texts\<close>

lemma command_token_name: "command_token L v = normalize_command_name L v"
  by (simp add: command_token_def normalize_command_name_def)

lemma cont_bounds:
  assumes "continuation b"
  shows "128 \<le> unat b" "unat b \<le> 191"
  using assms by (simp_all add: continuation_def)

lemma decode_replace_strict: "utf8_decode b = Inr t \<Longrightarrow> decode_replace b = t"
proof (induction b arbitrary: t rule: utf8_decode.induct)
  case (2 a r)
  let ?n = "unat a"
  note un = utf8_decode.simps(2) [of a r] decode_replace.simps(2) [of a r]
  have D: "utf8_decode (a # r) = Inr t" by fact
  consider "?n \<le> 127" | "\<not> ?n \<le> 127" "194 \<le> ?n \<and> ?n \<le> 223" | "\<not> ?n \<le> 127" "224 \<le> ?n \<and> ?n \<le> 239"
    | "\<not> ?n \<le> 127" "240 \<le> ?n \<and> ?n \<le> 244"
    using D unfolding un(1) by (auto simp: Let_def split: if_splits)
  then show ?case
  proof cases
    case 1
    with D 2(1) show ?thesis unfolding un by (auto simp: Let_def)
  next
    case 2
    then obtain b r' ts where "r = b # r'" "continuation b" "utf8_decode r' = Inr ts"
      "t = ((?n - 0xC0) * 64 + (unat b - 0x80)) # ts"
      using D unfolding un(1) by (auto simp: Let_def split: list.splits if_splits)
    with 2 "2.IH"(2) show ?thesis unfolding un by (simp add: Let_def)
  next
    case 3
    define v where "v b c = (?n - 0xE0) * 4096 + (unat b - 0x80) * 64 + (unat c - 0x80)" for b c :: byte
    obtain b c r' ts where r: "r = b # c # r'" "continuation b" "continuation c" "utf8_decode r' = Inr ts"
      "0x800 \<le> v b c" "\<not> is_surrogate (v b c)" "t = v b c # ts"
      using D 3 unfolding un(1) v_def by (auto simp: Let_def split: list.splits if_splits)
    note cb = cont_bounds [OF r(2)] cont_bounds [OF r(3)]
    have "?n = 0xE0 \<longrightarrow> 0xA0 \<le> unat b" using r(5) cb unfolding v_def by auto
    moreover have "?n = 0xED \<longrightarrow> unat b \<le> 0x9F" using r(6) cb unfolding v_def is_surrogate_def by auto
    moreover have "decode_replace r' = ts" using 3 "2.IH"(3) r by (auto simp: v_def Let_def)
    ultimately show ?thesis unfolding un using 3 r by (simp add: Let_def v_def)
  next
    case 4
    define v where "v b c d = (?n - 0xF0) * 262144 + (unat b - 0x80) * 4096 + (unat c - 0x80) * 64 + (unat d - 0x80)"
      for b c d :: byte
    obtain b c d r' ts where r: "r = b # c # d # r'" "continuation b" "continuation c" "continuation d"
      "utf8_decode r' = Inr ts" "0x10000 \<le> v b c d" "v b c d \<le> 0x10FFFF" "t = v b c d # ts"
      using D 4 unfolding un(1) v_def by (auto simp: Let_def split: list.splits if_splits)
    note cb = cont_bounds [OF r(2)] cont_bounds [OF r(3)] cont_bounds [OF r(4)]
    have "?n = 0xF0 \<longrightarrow> 0x90 \<le> unat b" using r(6) cb unfolding v_def by auto
    moreover have "?n = 0xF4 \<longrightarrow> unat b \<le> 0x8F" using r(7) cb unfolding v_def by auto
    moreover have "decode_replace r' = ts" using 4 "2.IH"(4) r by (auto simp: v_def Let_def)
    ultimately show ?thesis unfolding un using 4 r by (simp add: Let_def v_def)
  qed
qed simp

lemma text_value_name:
  "text_value L v = Inr t \<Longrightarrow> normalize_command_name L (PStr t) = normalize_command_name L v"
  by (auto simp: text_value_def normalize_command_name_def decode_replace_strict split: pyval.splits)

lemma marker_walk_found:
  "marker_walk L p args i = Inr (Some (j, t)) \<Longrightarrow>
    i \<le> j \<and> j < length args \<and> t = command_token L (args ! j) \<and> t \<in> set (map text_lit ITEM_MARKERS)"
proof (induction L p args i rule: marker_walk.induct)
  case (1 L p args i)
  then show ?case
    using 1(2) unfolding marker_walk.simps [of L p args i]
    by (auto simp: Let_def split: if_splits option.splits) (meson add_leD1)
qed

lemma find_item_token_Inr:
  assumes "find_item_token L args start = Inr i"
  shows "find_flow_many_item_marker L args start = Inr (Some (i, normalize_command_name L (args ! i)))"
    and "start \<le> i" and "i < length args"
    and "normalize_command_name L (args ! i) \<in> set (map text_lit ITEM_MARKERS)"
proof -
  obtain p t where p: "flow_option_plan L args = Inr p" "marker_walk L p args start = Inr (Some (i, t))"
    using assms by (auto simp: find_item_token_def find_flow_many_item_marker_def split: option.splits)
  with marker_walk_found [OF p(2)] show
    "find_flow_many_item_marker L args start = Inr (Some (i, normalize_command_name L (args ! i)))"
    "start \<le> i" "i < length args" "normalize_command_name L (args ! i) \<in> set (map text_lit ITEM_MARKERS)"
    by (auto simp: find_flow_many_item_marker_def command_token_name)
qed

lemma length_rows: "0 < w \<Longrightarrow> length xs mod w = 0 \<Longrightarrow> length (rows w xs) = length xs div w"
proof (induction w xs rule: rows.induct)
  case (1 w xs)
  show ?case
  proof (cases "xs = []")
    case True
    then show ?thesis by (simp add: rows.simps)
  next
    case False
    then have w: "w \<le> length xs" using 1(2,3) by (metis mod_less not_le length_0_conv)
    then have "(length xs - w) mod w = 0" using 1(2,3) by (simp add: le_mod_geq)
    with 1 False w have "length (rows w (drop w xs)) = (length xs - w) div w" by simp
    with False w 1(2) show ?thesis by (simp add: rows.simps [of w xs] le_div_geq)
  qed
qed

lemma length_ext_items: "ext_items L w f vs n i = Inr (items, j) \<Longrightarrow> length items = n"
  by (induction n arbitrary: i items) (auto split: if_splits prod.splits)

lemma parse_ext_length: "parse_ext L w f vs n = Inr items \<Longrightarrow> length items = n"
  by (auto simp: parse_ext_def dest: length_ext_items split: if_splits prod.splits)

lemma create_items_length:
  assumes "create_items_of L args i mixed = Inr items"
  shows "if is_extended (normalize_command_name L (args ! i))
    then \<exists>n. i + 1 < length args \<and> args ! (i + 1) = PInt n \<and> 0 \<le> n \<and> int (length items) = n
    else (length args - i - 1) mod (if mixed then 3 else 2) = 0 \<and>
      length items = (length args - i - 1) div (if mixed then 3 else 2)"
  using assms
  by (auto simp: create_items_of_def Let_def extended_count_def require_arg_def require_nonnegative_count_def
      parse_create_items_ext_def parse_create_items_ext_v2_def parse_create_items_def length_rows
      split: if_splits pyval.splits dest!: parse_ext_length)

lemma create_many_payload_count:
  assumes "flow_create_many_payload W args = Inr d"
  obtains items where "payload_get d ''items'' = PList items"
    and "flow_create_many_item_count (wl_py W) args = Inr (Some (int (length items)))"
proof -
  let ?L = "wl_py W"
  obtain v t i opts items where v: "require_arg args 0 = Inr v" "text_value ?L v = Inr t"
    and i: "find_item_token ?L args 1 = Inr i"
    and items: "create_items_of ?L args i (normalize_command_name ?L (PStr t) = text_lit ''MIXED'') = Inr items"
      "payload_find d ''items'' = Some (PList items)"
    using assms by (auto simp: flow_create_many_payload_def wire_partition_def Let_def split: if_splits)
  have v0: "args \<noteq> []" "v = args ! 0" using v(1) by (auto simp: require_arg_def split: if_splits)
  note marker = find_item_token_Inr [OF i]
  have mixed: "normalize_command_name ?L (PStr t) = command_token ?L (args ! 0)"
    using text_value_name [OF v(2)] v0 by (simp add: command_token_name)
  have "flow_create_many_item_count ?L args = Inr (Some (int (length items)))"
    using create_items_length [OF items(1)] marker v0 unfolding mixed
    by (auto simp: flow_create_many_item_count_def is_extended_def Let_def split: if_splits)
  with items(2) show thesis by (intro that) (simp_all add: payload_get_def)
qed

section \<open>Guards of mutations\<close>

definition has_field :: "payload \<Rightarrow> string \<Rightarrow> bool" where
  "has_field d k \<longleftrightarrow> payload_find d k \<noteq> None"

lemma pupdate_keeps: "has_field d k \<Longrightarrow> has_field (pupdate d e) k"
  unfolding pupdate_def payload_find_def has_field_def
  by (induction e arbitrary: d) (auto simp: dict_get_set simp del: dict_get_None split: if_splits)

lemma positional_keys: "positional args i ks = Inr d \<Longrightarrow> k \<in> set ks \<Longrightarrow> has_field d k"
  by (induction ks arbitrary: i d) (auto simp: has_field_def payload_find_def field_def simp del: dict_get_None)

lemma with_options_keys: "with_options W names ks args = Inr d \<Longrightarrow> \<forall>k\<in>set ks. has_field d k"
  by (auto simp: with_options_def intro: pupdate_keeps positional_keys)

lemma guarded_command_Inr:
  "guarded_command opcode d ks = Inr c \<longleftrightarrow> c = plain_command opcode d \<and> (\<forall>k\<in>set ks. has_field d k)"
  by (auto simp: guarded_command_def require_mutation_guards_def list_all_iff has_field_def)

definition mutation_guards :: "string \<Rightarrow> string list" where
  "mutation_guards name = (if name = ''FLOW.CANCEL'' then [''id'', ''fencing_token'']
     else [''id'', ''lease_token'', ''fencing_token''])"

lemma mutation_built:
  assumes "build_flow_mutation W name args opcode = Inr c"
    and "name \<in> {''FLOW.COMPLETE'', ''FLOW.RETRY'', ''FLOW.FAIL'', ''FLOW.CANCEL'', ''FLOW.TRANSITION''}"
  shows "\<exists>d. c = plain_command opcode d \<and> (\<forall>k\<in>set (mutation_guards name). has_field d k)"
  using assms
  by (auto simp: build_flow_mutation_def guarded_command_Inr mutation_guards_def dest!: with_options_keys) blast



lemma option_token_name: "option_token L v = Some t \<Longrightarrow> normalize_command_name L v = text_lit t"
  using command_token_of_option [of L v t] by (simp add: command_token_name)

lemma option_token_int: "option_token L (PInt n) = None"
  by (simp add: option_token_def)

lemma isr_iff: "\<not> isl x \<longleftrightarrow> (\<exists>b. x = Inr b)"
  by (cases x) simp_all

lemma plan_entry_total:
  "tokens ! i \<noteq> Some ''PARTITIONS'' \<Longrightarrow> \<exists>b. plan_entry L args tokens valid i = Inr b"
  unfolding isr_iff [symmetric]
  by (cases "tokens ! i") (simp_all add: plan_entry_def Let_def)

lemma plan_loop_total:
  "\<forall>i<n. tokens ! i \<noteq> Some ''PARTITIONS'' \<Longrightarrow> \<exists>valid'. plan_loop L args tokens n valid = Inr valid'"
proof (induction n arbitrary: valid)
  case (Suc n)
  then obtain b where "plan_entry L args tokens valid n = Inr b" using plan_entry_total by blast
  with Suc show ?case by simp
qed simp

lemma plan_total:
  assumes "Some ''PARTITIONS'' \<notin> set (map (option_token L) args)"
  shows "\<exists>p. flow_option_plan L args = Inr p"
proof -
  have "\<forall>i<length args. map (option_token L) args ! i \<noteq> Some ''PARTITIONS''"
    using assms by (metis length_map nth_mem)
  then obtain v where "plan_loop L args (map (option_token L) args) (length args)
      ((replicate (length args + 1) False)[length args := True]) = Inr v"
    using plan_loop_total by blast
  then show ?thesis by (simp add: flow_option_plan_def Let_def)
qed

definition cancel_lib :: wire_lib where
  "cancel_lib = \<lparr>wl_py = ascii_lib, wl_lower = (\<lambda>s. s), wl_float = (\<lambda>_. Inl OverflowError)\<rparr>"

lemma cancel_built:
  "build_flow_protocol_command cancel_lib (\<lambda>_. True) unbounded_policy ''FLOW.CANCEL''
     [field ''f'', field ''FENCING'', PInt 7] =
   Inr (plain_command 0x0208 [(field ''id'', field ''f''), (field ''fencing_token'', PInt 7)])"
proof -
  let ?opts = "[field ''FENCING'', PInt 7]"
  have "Some ''PARTITIONS'' \<notin> set (map (option_token ascii_lib) ?opts)"
    by (auto dest!: option_token_name sym [of "Some _"] simp: text_lit_inj option_token_int)
  then obtain p where p: "flow_option_plan ascii_lib ?opts = Inr p" using plan_total by blast
  have "field_name (text_lit ''FENCING'') = Some ''fencing_token''" by code_simp
  then have step: "option_step cancel_lib False p ?opts 0 [] = Inr (2, [(field ''fencing_token'', PInt 7)])"
    by (simp add: option_step_def cancel_lib_def text_lit_inj require_arg_def active_value_def
        field_value_def BOOL_FIELDS_def pset_def)
  have "option_map_of cancel_lib False ?opts = Inr [(field ''fencing_token'', PInt 7)]"
    using p by (simp add: option_map_of_def cancel_lib_def [THEN arg_cong, of wl_py] step option_loop.simps [of _ _ _ _ "Suc 0"] option_loop.simps [of _ _ _ _ 0] option_loop.simps [of _ _ _ _ 2])
  moreover have "opcode_of ''FLOW.CANCEL'' = Some 0x0208" by code_simp
  ultimately show ?thesis
    by (simp add: build_flow_protocol_command_def build_native_flow_protocol_command_def build_flow_mutation_def
        with_options_def require_arg_def pupdate_def guarded_command_def require_mutation_guards_def
        needs_command_exec_def plain_command_def protocol_command_of_def payload_find_def flip: field_def)
qed


section \<open>Announced items\<close>

definition expected_command_collection_items :: "pylib \<Rightarrow> pyval list \<Rightarrow> int option result" where
  "expected_command_collection_items L args =
     (case args of
        [] \<Rightarrow> Inr None
      | n # rest \<Rightarrow>
          let name = normalize_command_name L n in
          if name = text_lit ''MGET'' then Inr (Some (int (length rest)))
          else if name = text_lit ''MSET'' then Inr (Some 1)
          else if name = text_lit ''FLOW.VALUE.MGET'' then
            Inr (Some (int (length (fst (split_flow_value_mget L rest)))))
          else if name \<noteq> text_lit ''FLOW.CREATE_MANY'' then Inr None
          else flow_create_many_item_count L rest)"

lemma create_many_announced:
  assumes "compact_flow_create_many_payload tr policy d = Inr c" and "payload_get d ''items'' = PList items"
    and "\<And>b. c = Some b \<Longrightarrow> length b < 2 ^ 32"
  shows "expected_payload_collection_items OP_FLOW_CREATE_MANY (pc_payload (compact_command opcode c d)) =
    Some (length items)"
  using assms create_announces [of tr policy d]
  by (cases c) (auto simp: compact_command_def plain_command_def protocol_command_of_def announces_def
      expected_payload_collection_items_def flow_opcodes OP_PIPELINE_def)


text \<open>
  A batch creation has the size its arguments announce. When a \<open>FLOW.CREATE_MANY\<close> command is built
  and its payload fits a frame, the number of items that the raw command announces, which checks the
  response before the command is built, is the number recovered from the payload it was built into,
  whether that is a dictionary or compact bytes.
\<close>
theorem create_many_counts_agree:
  assumes "build_flow_creation W tr policy ''FLOW.CREATE_MANY'' args opcode = Inr c"
    and "case pc_payload c of PBytes b \<Rightarrow> int (length b) \<le> U32_MAX | _ \<Rightarrow> True"
    and "normalize_command_name (wl_py W) name = text_lit ''FLOW.CREATE_MANY''"
  shows "\<exists>n. expected_payload_collection_items OP_FLOW_CREATE_MANY (pc_payload c) = Some n \<and>
    expected_command_collection_items (wl_py W) (name # args) = Inr (Some (int n))"
proof -
  obtain d e where d: "flow_create_many_payload W args = Inr d"
    and e: "compact_flow_create_many_payload tr policy d = Inr e" and c: "c = compact_command opcode e d"
    using assms(1) by (auto simp: build_flow_creation_def)
  obtain items where items: "payload_get d ''items'' = PList items"
    "flow_create_many_item_count (wl_py W) args = Inr (Some (int (length items)))"
    using create_many_payload_count [OF d] .
  have "length b < 2 ^ 32" if "e = Some b" for b
    using assms(2) that c by (simp add: compact_command_def U32_MAX_def)
  with create_many_announced [OF e items(1)] c
  have "expected_payload_collection_items OP_FLOW_CREATE_MANY (pc_payload c) = Some (length items)" by simp
  moreover have "expected_command_collection_items (wl_py W) (name # args) = Inr (Some (int (length items)))"
    using items(2) assms(3) by (simp add: expected_command_collection_items_def Let_def text_lit_inj)
  ultimately show ?thesis by blast
qed

lemma rows_pair: "rows 2 [a, b] = [[a, b]]"
  by (simp add: rows.simps [of _ "[a, b]"] rows.simps [of _ "[]"])

lemma text_value_field: "text_value L (field s) = Inr (text_lit s)"
  by (simp add: text_value_def field_def)

lemma sample_creation_built:
  "build_flow_creation cancel_lib (\<lambda>_. True) unbounded_policy ''FLOW.CREATE_MANY''
     [field ''AUTO'', field ''ITEMS'', field ''A'', field ''B''] 0x020F =
   Inr (plain_command 0x020F [(field ''items'', PList [PList [field ''A'', field ''B'']])])"
  (is "build_flow_creation _ _ _ _ ?args _ = Inr (plain_command _ ?d)")
proof -
  have "Some ''PARTITIONS'' \<notin> set (map (option_token ascii_lib) ?args)"
    by (auto dest!: option_token_name sym [of "Some _"] simp: text_lit_inj option_token_int)
  then obtain p where "flow_option_plan ascii_lib ?args = Inr p" using plan_total by blast
  moreover have "command_token ascii_lib (?args ! 1) \<in> set (map text_lit ITEM_MARKERS)"
    by (simp add: command_token_name ITEM_MARKERS_def)
  ultimately have "find_item_token ascii_lib ?args 1 = Inr 1"
    by (simp add: find_item_token_def find_flow_many_item_marker_def marker_walk.simps [of _ _ _ "Suc 0"] Let_def)
  moreover have "create_items_of ascii_lib ?args 1 False = Inr [PList [field ''A'', field ''B'']]"
    by (simp add: create_items_of_def is_extended_def text_lit_inj parse_create_items_def rows_pair)
  moreover have "wire_partition cancel_lib ?args = Inr (text_lit ''AUTO'')"
    by (simp add: wire_partition_def require_arg_def text_value_field cancel_lib_def flip: field_def)
  moreover have "batch_options cancel_lib ?args 1 = Inr []"
    by (simp add: batch_options_def option_map_of_def flow_option_plan_def option_loop.simps [of _ _ _ _ 0])
  moreover have "compact_flow_create_many_payload (\<lambda>_. True) unbounded_policy ?d = Inr None"
    by (simp add: compact_flow_create_many_payload_def only_fields_def payload_get_def payload_find_def
        unbounded_policy_def new_compact_budget_def make_compact_budget_def cb_reserve_def returns_def
        reserve_maybe_bytes_def text_lit_inj compact_i64_def flip: field_def)
  ultimately show ?thesis
    by (simp add: build_flow_creation_def flow_create_many_payload_def cancel_lib_def text_lit_inj
        compact_command_def pset_def)
qed

theorem create_many_counts_agree_witness:
  "\<exists>n. expected_payload_collection_items OP_FLOW_CREATE_MANY
      (PDict [(field ''items'', PList [PList [field ''A'', field ''B'']])]) = Some n \<and>
    expected_command_collection_items ascii_lib
      [field ''FLOW.CREATE_MANY'', field ''AUTO'', field ''ITEMS'',
       field ''A'', field ''B''] = Inr (Some (int n))"
proof -
  have "normalize_command_name ascii_lib (field ''FLOW.CREATE_MANY'') = text_lit ''FLOW.CREATE_MANY''"
    by simp
  then show ?thesis
    using create_many_counts_agree [OF sample_creation_built, of "field ''FLOW.CREATE_MANY''"]
    by (simp add: plain_command_def protocol_command_of_def cancel_lib_def)
qed

end
