(* ===== verification/Written_Options.thy ===== *)
theory Written_Options
  imports Flow_Commands
begin

text \<open>
  Options written by the client and read back by the builders. A written option is a token with its
  arguments; the lemmas follow \<open>FlowOptionPlan\<close>, the marker search and \<open>_option_map\<close> over any sequence of
  written options, wherever it stands among the arguments of a command.
\<close>

section \<open>Written options\<close>

datatype written =
    Written_field string pyval
  | Written_state pyval
  | Written_payload bytes
  | Written_entry string ustr pyval
  | Written_name string ustr

fun written_args :: "written \<Rightarrow> pyval list" where
  "written_args (Written_field t v) = [field t, v]"
| "written_args (Written_state v) = [field ''STATE'', v]"
| "written_args (Written_payload b) = [field ''PAYLOAD'', PBytes b]"
| "written_args (Written_entry t n v) = [field t, PStr n, v]"
| "written_args (Written_name t n) = [field t, PStr n]"

definition ENTRY_FIELDS :: "(string \<times> string) list" where
  "ENTRY_FIELDS =
     [(''VALUE'', ''values''), (''VALUE_REF'', ''value_refs''), (''ATTRIBUTE'', ''attributes''),
      (''ATTRIBUTE_MERGE'', ''attributes_merge''), (''STATE_META'', ''state_meta'')]"

definition NAME_FIELDS :: "(string \<times> string) list" where
  "NAME_FIELDS =
     [(''DROP_VALUE'', ''drop_values''), (''OVERRIDE_VALUE'', ''override_values''),
      (''ATTRIBUTE_DELETE'', ''attributes_delete'')]"

definition SPECIAL_TOKENS :: "string list" where
  "SPECIAL_TOKENS =
     [''NOPAYLOAD'', ''PAYLOAD'', ''PARTITIONS'', ''STATE'', ''IF_STATE'', ''RETURN'', ''ITEMS''] @
     map fst ENTRY_FIELDS @ map fst NAME_FIELDS"

fun written_ok :: "written \<Rightarrow> bool" where
  "written_ok (Written_field t v) \<longleftrightarrow> t \<in> fst ` set FLOW_OPTION_FIELD_NAMES \<and> t \<notin> set SPECIAL_TOKENS"
| "written_ok (Written_state v) \<longleftrightarrow> True"
| "written_ok (Written_payload b) \<longleftrightarrow> True"
| "written_ok (Written_entry t n v) \<longleftrightarrow> t \<in> fst ` set ENTRY_FIELDS"
| "written_ok (Written_name t n) \<longleftrightarrow> t = ''RETURN'' \<or> t \<in> fst ` set NAME_FIELDS"

fun written_effect :: "wire_lib \<Rightarrow> written \<Rightarrow> payload \<Rightarrow> payload result" where
  "written_effect W (Written_field t v) d =
     (let k = the (map_of FLOW_OPTION_FIELD_NAMES t) in
      and_then (active_value W k v) (\<lambda>v. and_then (field_value W k v) (\<lambda>v. Inr (pset d k v))))"
| "written_effect W (Written_state v) d = add_state d v"
| "written_effect W (Written_payload b) d = Inr (pset d ''payload'' (PBytes b))"
| "written_effect W (Written_entry t n v) d = put_in d (the (map_of ENTRY_FIELDS t)) n v"
| "written_effect W (Written_name t n) d =
     (if t = ''RETURN'' then Inr (pset d ''return'' (PStr (wl_lower W n)))
      else append_to d (the (map_of NAME_FIELDS t)) (PStr n))"

fun written_effects :: "wire_lib \<Rightarrow> written list \<Rightarrow> payload \<Rightarrow> payload result" where
  "written_effects W [] d = Inr d"
| "written_effects W (w # ws) d = and_then (written_effect W w d) (written_effects W ws)"

definition args_of :: "written list \<Rightarrow> pyval list" where
  "args_of ws = concat (map written_args ws)"

lemma args_of_simps [simp]:
  "args_of [] = []" "args_of (w # ws) = written_args w @ args_of ws" "args_of (ws @ vs) = args_of ws @ args_of vs"
  by (simp_all add: args_of_def)

lemma written_effects_append:
  "written_effects W (ws @ vs) d = and_then (written_effects W ws d) (written_effects W vs)"
  by (induction ws arbitrary: d) (simp_all add: and_then_assoc cong: and_then_cong)

section \<open>Tokens\<close>

lemma flow_tokens_upper:
  "list_all (\<lambda>t. list_all (\<lambda>c. of_char c < (128 :: nat) \<and> \<not> (97 \<le> (of_char c :: nat) \<and> of_char c \<le> (122 :: nat))) t)
    FLOW_OPTION_TOKENS"
  by code_simp

lemma token_upper:
  "t \<in> set FLOW_OPTION_TOKENS \<Longrightarrow> normalize_command_name L (field t) = text_lit t"
  using flow_tokens_upper by (intro upper_ascii) (simp add: list_all_iff)

lemma fold_max_ge: "(n :: nat) \<le> m \<or> n \<in> set ns \<Longrightarrow> n \<le> fold max ns m"
  by (induction ns arbitrary: m) (auto simp: max_def)

lemma option_token_field:
  assumes "t \<in> set FLOW_OPTION_TOKENS"
  shows "option_token L (field t) = Some t"
proof -
  have "str_upper L (text_lit t) = text_lit t"
    using token_upper [OF assms, of L] by (simp add: normalize_command_name_def field_def)
  moreover have "length t \<le> MAX_FLOW_OPTION_TOKEN_BYTES"
    unfolding MAX_FLOW_OPTION_TOKEN_BYTES_def using assms by (intro fold_max_ge) auto
  moreover have "find (\<lambda>u. text_lit u = text_lit t) ts = Some t" if "t \<in> set ts" for ts
    using that by (induction ts) (auto simp: text_lit_inj)
  ultimately show ?thesis using assms by (simp add: option_token_def field_def) (simp add: text_lit_def)
qed

lemma field_name_token:
  "t \<in> fst ` set FLOW_OPTION_FIELD_NAMES \<Longrightarrow> field_name (text_lit t) = map_of FLOW_OPTION_FIELD_NAMES t"
proof -
  have "map_option snd (find (\<lambda>(n, _). text_lit n = text_lit t) ps) = map_of ps t" for ps :: "(string \<times> string) list"
    by (induction ps) (auto simp: text_lit_inj)
  then show ?thesis by (simp add: field_name_def)
qed

section \<open>One written option\<close>

lemma written_tokens:
  "set (map fst ENTRY_FIELDS) = set FLOW_THREE_VALUE_OPTIONS"
  "set (map fst ENTRY_FIELDS) \<subseteq> set FLOW_OPTION_TOKENS"
  "set (map fst NAME_FIELDS) \<subseteq> set FLOW_OPTION_TOKENS"
  "{''STATE'', ''PAYLOAD'', ''RETURN''} \<subseteq> set FLOW_OPTION_TOKENS"
  "list_all (\<lambda>t. t \<noteq> ''ITEMS_EXT'' \<and> t \<noteq> ''ITEMS_EXT_V2'') (map fst FLOW_OPTION_FIELD_NAMES)"
  by code_simp+

definition token_of :: "written \<Rightarrow> string" where
  "token_of w = (case w of Written_field t _ \<Rightarrow> t | Written_state _ \<Rightarrow> ''STATE'' | Written_payload _ \<Rightarrow> ''PAYLOAD''
     | Written_entry t _ _ \<Rightarrow> t | Written_name t _ \<Rightarrow> t)"

lemma written_token:
  assumes "written_ok w"
  shows "token_of w \<in> set FLOW_OPTION_TOKENS" "token_of w \<notin> set ITEM_MARKERS"
    "token_of w \<notin> {''NOPAYLOAD'', ''PARTITIONS''}"
    "token_of w = ''PAYLOAD'' \<longleftrightarrow> (\<exists>b. w = Written_payload b)"
    "token_of w \<in> set FLOW_THREE_VALUE_OPTIONS \<longleftrightarrow> length (written_args w) = 3"
proof -
  have "t \<in> set FLOW_OPTION_TOKENS \<and> t \<notin> set ITEM_MARKERS" if "t \<in> fst ` set FLOW_OPTION_FIELD_NAMES" "t \<noteq> ''ITEMS''" for t
    using that written_tokens(5) by (auto simp: FLOW_OPTION_TOKENS_def ITEM_MARKERS_def list_all_iff)
  then show "token_of w \<in> set FLOW_OPTION_TOKENS" "token_of w \<notin> set ITEM_MARKERS"
    "token_of w \<notin> {''NOPAYLOAD'', ''PARTITIONS''}"
    "token_of w = ''PAYLOAD'' \<longleftrightarrow> (\<exists>b. w = Written_payload b)"
    "token_of w \<in> set FLOW_THREE_VALUE_OPTIONS \<longleftrightarrow> length (written_args w) = 3"
    using assms written_tokens(2-4)
    by (cases w; auto simp: token_of_def SPECIAL_TOKENS_def ENTRY_FIELDS_def NAME_FIELDS_def ITEM_MARKERS_def
        FLOW_THREE_VALUE_OPTIONS_def)+
qed

lemma written_head: "\<exists>r. written_args w = field (token_of w) # r"
  by (cases w) (simp_all add: token_of_def)

lemma written_suffix:
  assumes "written_ok w" and "option_suffix L rest"
  shows "option_suffix L (written_args w @ rest)"
proof -
  note t = written_token [OF assms(1)]
  have tok: "option_token L (field (token_of w)) = Some (token_of w)" using t(1) by (rule option_token_field)
  show ?thesis
  proof (cases "token_of w = ''PAYLOAD''")
    case True
    then obtain b where "w = Written_payload b" using t(4) by blast
    with tok assms(2) True show ?thesis by (auto intro: option_suffix.payload_value simp: is_str_def)
  next
    case False
    show ?thesis
    proof (cases "token_of w \<in> set FLOW_THREE_VALUE_OPTIONS")
      case True
      with t(5) obtain a b where "written_args w = [field (token_of w), a, b]"
        by (cases w) (auto simp: token_of_def)
      with True tok assms(2) show ?thesis by (auto intro: option_suffix.three)
    next
      case three: False
      with t(5) obtain a where "written_args w = [field (token_of w), a]"
        by (cases w) (auto simp: token_of_def)
      with three False t tok assms(2) show ?thesis by (auto intro: option_suffix.two)
    qed
  qed
qed

lemma written_flag:
  assumes "flow_option_plan L (pre @ written_args (Written_payload b) @ rest) = Inr p" and "option_suffix L rest"
  shows "\<not> payload_is_flag p (length pre)"
  using assms(2) flow_option_plan_Inr(1,2) [OF assms(1)] flow_option_plan_Inr(3) [OF assms(1), of "length pre + 2"]
  by (auto simp: payload_is_flag_def nth_append is_str_def split: option.splits)

lemma written_width:
  assumes "flow_option_plan L (pre @ written_args w @ rest) = Inr p" and "option_suffix L rest" and "written_ok w"
  shows "option_width L p (length pre) = Inr (Some (length (written_args w)))"
proof -
  note t = written_token [OF assms(3)]
  note p = flow_option_plan_Inr(1,2) [OF assms(1)]
  obtain r where r: "written_args w = field (token_of w) # r" using written_head by blast
  have tok: "pl_tokens p ! length pre = Some (token_of w)" "length pre < length (pl_tokens p)"
    using t(1) by (simp_all add: p r option_token_field nth_append)
  have "token_of w \<noteq> ''PAYLOAD'' \<or> \<not> payload_is_flag p (length pre)"
    using written_flag [of L pre _ rest p] assms(1,2) t(4) by blast
  moreover have "length (written_args w) \<in> {2, 3}" by (cases w) simp_all
  ultimately show ?thesis
    using t tok by (auto simp: option_width_def ITEM_MARKERS_def)
qed


lemma written_step:
  assumes "flow_option_plan (wl_py W) (pre @ written_args w @ rest) = Inr p" and "option_suffix (wl_py W) rest"
    and "written_ok w"
  shows "option_step W False p (pre @ written_args w @ rest) (length pre) d =
    and_then (written_effect W w d) (\<lambda>d. Inr (length pre + length (written_args w), d))"
proof -
  let ?L = "wl_py W" and ?args = "pre @ written_args w @ rest"
  have tok: "normalize_command_name ?L (field (token_of w)) = text_lit (token_of w)"
    using written_token(1) [OF assms(3)] by (rule token_upper)
  have tv: "text_value ?L (PStr n) = Inr n" for n by (simp add: text_value_def)
  note step = option_step_def Let_def nth_append require_arg_def tv text_lit_inj and_then_assoc
  show ?thesis
  proof (cases w)
    case (Written_field t v)
    then have t: "t \<notin> set SPECIAL_TOKENS" "t \<in> fst ` set FLOW_OPTION_FIELD_NAMES" using assms(3) by auto
    then obtain k where "map_of FLOW_OPTION_FIELD_NAMES t = Some k"
      by (metis map_of_eq_None_iff not_None_eq)
    with t(2) have "field_name (text_lit t) = Some k" "the (map_of FLOW_OPTION_FIELD_NAMES t) = k"
      by (simp_all add: field_name_token)
    with t tok Written_field show ?thesis
      by (simp add: step SPECIAL_TOKENS_def ENTRY_FIELDS_def NAME_FIELDS_def token_of_def)
  next
    case (Written_state v)
    with tok show ?thesis by (simp add: step token_of_def)
  next
    case (Written_payload b)
    moreover have "\<not> payload_is_flag p (length pre)"
      using written_flag [of ?L pre b rest p] assms(1,2) Written_payload by simp
    ultimately show ?thesis using tok by (simp add: step token_of_def)
  next
    case (Written_entry t n v)
    with assms(3) have "t \<in> {''VALUE'', ''VALUE_REF'', ''ATTRIBUTE'', ''ATTRIBUTE_MERGE'', ''STATE_META''}"
      by (simp add: ENTRY_FIELDS_def)
    with tok Written_entry show ?thesis
      by (elim insertE emptyE) (simp_all add: step token_of_def ENTRY_FIELDS_def numeral_3_eq_3)
  next
    case (Written_name t n)
    with assms(3) have "t \<in> {''RETURN'', ''DROP_VALUE'', ''OVERRIDE_VALUE'', ''ATTRIBUTE_DELETE''}"
      by (simp add: NAME_FIELDS_def)
    with tok Written_name show ?thesis
      by (elim insertE emptyE) (simp_all add: step token_of_def NAME_FIELDS_def)
  qed
qed

section \<open>Sequences of written options\<close>

lemma written_suffixes:
  "list_all written_ok ws \<Longrightarrow> option_suffix L rest \<Longrightarrow> option_suffix L (args_of ws @ rest)"
  by (induction ws) (auto intro: written_suffix)

lemma option_loop_written:
  assumes "flow_option_plan (wl_py W) (pre @ args_of ws @ rest) = Inr p" and "option_suffix (wl_py W) rest"
    and "list_all written_ok ws"
  shows "option_loop W False p (pre @ args_of ws @ rest) (length pre) d =
    and_then (written_effects W ws d)
      (option_loop W False p (pre @ args_of ws @ rest) (length pre + length (args_of ws)))"
  using assms
proof (induction ws arbitrary: pre d)
  case (Cons w ws)
  let ?args = "pre @ written_args w @ args_of ws @ rest"
  have plan: "flow_option_plan (wl_py W) ?args = Inr p" and ok: "written_ok w" "list_all written_ok ws"
    using Cons.prems by simp_all
  have "length pre < length ?args" using written_head [of w] by auto
  then have "option_loop W False p ?args (length pre) d =
      and_then (written_effect W w d) (\<lambda>d. option_loop W False p ?args (length pre + length (written_args w)) d)"
    using written_step [OF plan written_suffixes [OF ok(2) Cons.prems(2)] ok(1), of d]
    by (subst option_loop.simps) (simp add: and_then_assoc)
  moreover have "option_loop W False p ?args (length pre + length (written_args w)) d' =
      and_then (written_effects W ws d')
        (option_loop W False p ?args (length pre + length (written_args w) + length (args_of ws)))" for d'
    using Cons.IH [of "pre @ written_args w" d'] plan ok Cons.prems(2) by simp
  ultimately show ?case by (simp add: and_then_assoc add.assoc cong: and_then_cong)
qed simp

lemma written_options:
  assumes "list_all written_ok ws" and "flow_option_plan (wl_py W) (args_of ws) = Inr p"
  shows "option_map_of W False (args_of ws) = written_effects W ws []"
proof -
  have "option_loop W False p (args_of ws) 0 [] =
      and_then (written_effects W ws []) (option_loop W False p (args_of ws) (length (args_of ws)))"
    using option_loop_written [of W "[]" ws "[]" p "[]"] assms by simp
  also have "\<dots> = written_effects W ws []"
    by (cases "written_effects W ws []") (simp_all add: option_loop.simps [of _ _ _ _ "length (args_of ws)"])
  finally show ?thesis using assms(2) by (simp add: option_map_of_def)
qed

lemma marker_walk_written:
  assumes "flow_option_plan L (pre @ args_of ws @ rest) = Inr p" and "option_suffix L rest"
    and "list_all written_ok ws"
  shows "marker_walk L p (pre @ args_of ws @ rest) (length pre) =
    marker_walk L p (pre @ args_of ws @ rest) (length pre + length (args_of ws))"
  using assms
proof (induction ws arbitrary: pre)
  case (Cons w ws)
  let ?args = "pre @ written_args w @ args_of ws @ rest"
  have plan: "flow_option_plan L ?args = Inr p" and ok: "written_ok w" "list_all written_ok ws"
    using Cons.prems by simp_all
  obtain r where r: "written_args w = field (token_of w) # r" using written_head by blast
  have t: "token_of w \<in> set FLOW_OPTION_TOKENS" "token_of w \<notin> set ITEM_MARKERS"
    using written_token(1,2) [OF ok(1)] .
  have "command_token L (?args ! length pre) = text_lit (token_of w)"
    using token_upper [OF t(1), of L] by (simp add: command_token_name r nth_append)
  moreover have "text_lit (token_of w) \<notin> set (map text_lit ITEM_MARKERS)"
    using t(2) by (auto simp: text_lit_inj)
  moreover have "option_width L p (length pre) = Inr (Some (length (written_args w)))"
    using written_width [OF plan written_suffixes [OF ok(2) Cons.prems(2)] ok(1)] .
  ultimately have "marker_walk L p ?args (length pre) = marker_walk L p ?args (length pre + length (written_args w))"
    by (subst marker_walk.simps) (simp add: Let_def r)
  with Cons.IH [of "pre @ written_args w"] plan ok Cons.prems(2) show ?case by (simp add: add.assoc)
qed simp

end
