(* ===== verification/Commands.thy ===== *)
theory Commands
  imports Flow_Commands Routing
begin

text \<open>
  The other command builders, \<open>protocol_basic_commands.py\<close>, the argument counts of
  \<open>protocol_command_schema.py\<close>, the entry point \<open>build_protocol_command\<close> of \<open>protocol_commands.py\<close>, and the
  client's \<open>SET\<close> arguments of \<open>command_helpers.py\<close>.
\<close>

section \<open>Arguments\<close>

definition int_arg :: "pylib \<Rightarrow> pyval \<Rightarrow> int result" where
  "int_arg L v =
     and_then (raw_int L v) (\<lambda>n.
       case n of None \<Rightarrow> invalid ''integer arguments required'' | Some n \<Rightarrow> Inr n)"

definition positive_int_arg :: "pylib \<Rightarrow> pyval \<Rightarrow> int result" where
  "positive_int_arg L v =
     and_then (int_arg L v) (\<lambda>n.
       if n \<le> 0 then invalid ''positive integer arguments required'' else Inr n)"

definition require_values :: "pyval list \<Rightarrow> nat \<Rightarrow> unit result" where
  "require_values args start =
     and_then (require_arg args 0) (\<lambda>_.
       if length args \<le> start then invalid ''at least one value required'' else Inr ())"

fun field_pairs :: "'a list \<Rightarrow> ('a \<times> 'a) list" where
  "field_pairs (a # b # r) = (a, b) # field_pairs r"
| "field_pairs _ = []"

definition text_or_bytes :: "pyval \<Rightarrow> bool" where
  "text_or_bytes v = (case v of PStr _ \<Rightarrow> True | PBytes _ \<Rightarrow> True | _ \<Rightarrow> False)"

definition field_value_map :: "pyval list \<Rightarrow> payload result" where
  "field_value_map args =
     (if args = [] \<or> length args mod 2 \<noteq> 0 then invalid ''field/value pairs required''
      else if \<not> list_all (\<lambda>(k, _). text_or_bytes k) (field_pairs args) then invalid ''fields must be strings or bytes''
      else Inr (pupdate [] (field_pairs args)))"

fun zadd_pairs :: "wire_lib \<Rightarrow> (pyval \<times> pyval) list \<Rightarrow> pyval list result" where
  "zadd_pairs W [] = Inr []"
| "zadd_pairs W ((s, m) # r) =
     and_then (finite_score W s) (\<lambda>x.
       case x of
         None \<Rightarrow> invalid ''ZADD score must be numeric and finite''
       | Some x \<Rightarrow> and_then (zadd_pairs W r) (\<lambda>items. Inr (PList [PFloat x, m] # items)))"

definition zadd_items :: "wire_lib \<Rightarrow> pyval list \<Rightarrow> pyval list result" where
  "zadd_items W args =
     (if args = [] \<or> length args mod 2 \<noteq> 0 then invalid ''ZADD requires score/member pairs''
      else zadd_pairs W (field_pairs args))"

fun zrange_options :: "pylib \<Rightarrow> pyval list \<Rightarrow> payload \<Rightarrow> payload result" where
  "zrange_options L [] d = Inr d"
| "zrange_options L (t # rest) d =
     (if normalize_command_name L t = text_lit ''WITHSCORES''
      then zrange_options L rest (pset d ''withscores'' (PBool True))
      else invalid ''protocol ZRANGE does not support option'')"

definition int_range :: "pylib \<Rightarrow> pyval list \<Rightarrow> payload result" where
  "int_range L args =
     and_then (require_arg args 0) (\<lambda>k.
     and_then (require_arg args 1) (\<lambda>a. and_then (int_arg L a) (\<lambda>start.
     and_then (require_arg args 2) (\<lambda>b. and_then (int_arg L b) (\<lambda>stop.
       Inr [(field ''key'', k), (field ''start'', PInt start), (field ''stop'', PInt stop)])))))"

definition zrange_payload :: "pylib \<Rightarrow> pyval list \<Rightarrow> payload result" where
  "zrange_payload L args = and_then (int_range L args) (zrange_options L (drop 3 args))"

section \<open>SET and CAS options\<close>

text \<open>
  The loop of \<open>_kv_set_options\<close>: \<open>seen\<close> holds the options read so far, and \<open>expiry\<close> tells that one of them
  is an expiry or \<open>KEEPTTL\<close>.
\<close>

fun set_options :: "pylib \<Rightarrow> pyval list \<Rightarrow> ustr list \<Rightarrow> bool \<Rightarrow> payload \<Rightarrow> payload result" where
  "set_options L [] seen expiry d = Inr d"
| "set_options L (t # rest) seen expiry d =
     (let token = normalize_command_name L t;
          timed = (\<lambda>k factor.
            if expiry then invalid ''protocol SET accepts only one expiry option''
            else
              case rest of
                [] \<Rightarrow> invalid ''missing argument''
              | v # rest' \<Rightarrow>
                  and_then (positive_int_arg L v) (\<lambda>n.
                    set_options L rest' (token # seen) True (pset d k (PInt (n * factor)))))
      in if token \<in> set seen then invalid ''protocol SET option may only be specified once''
         else if token = text_lit ''EX'' then timed ''ttl'' 1000
         else if token = text_lit ''PX'' then timed ''ttl'' 1
         else if token = text_lit ''EXAT'' then timed ''exat'' 1
         else if token = text_lit ''PXAT'' then timed ''pxat'' 1
         else if token = text_lit ''NX'' then set_options L rest (token # seen) expiry (pset d ''nx'' (PBool True))
         else if token = text_lit ''XX'' then set_options L rest (token # seen) expiry (pset d ''xx'' (PBool True))
         else if token = text_lit ''GET'' then set_options L rest (token # seen) expiry (pset d ''get'' (PBool True))
         else if token = text_lit ''KEEPTTL'' then
           if expiry then invalid ''protocol SET expiry options and KEEPTTL are mutually exclusive''
           else set_options L rest (token # seen) True (pset d ''keepttl'' (PBool True))
         else invalid ''protocol SET does not support option'')"

definition kv_set_options :: "pylib \<Rightarrow> pyval list \<Rightarrow> payload result" where
  "kv_set_options L args =
     and_then (set_options L args [] False []) (\<lambda>d.
       if has_field d ''nx'' \<and> has_field d ''xx'' then invalid ''protocol SET NX and XX are mutually exclusive''
       else Inr d)"

fun cas_options :: "pylib \<Rightarrow> pyval list \<Rightarrow> bool \<Rightarrow> payload \<Rightarrow> payload result" where
  "cas_options L [] expiry_seen d = Inr d"
| "cas_options L (t # rest) expiry_seen d =
     (let token = normalize_command_name L t;
          timed = (\<lambda>factor.
            if expiry_seen then invalid ''protocol CAS accepts only one expiry option''
            else
              case rest of
                [] \<Rightarrow> invalid ''missing argument''
              | v # rest' \<Rightarrow>
                  and_then (positive_int_arg L v) (\<lambda>n.
                    cas_options L rest' True (pset d ''ttl'' (PInt (n * factor)))))
      in if token = text_lit ''EX'' then timed 1000
         else if token = text_lit ''PX'' then timed 1
         else invalid ''protocol CAS does not support option'')"

section \<open>Families of commands\<close>

definition command_in_lane :: "int \<Rightarrow> int \<Rightarrow> payload \<Rightarrow> protocol_command result" where
  "command_in_lane lane opcode d = Inr (protocol_command_of opcode d lane)"

definition build_control_protocol_command ::
    "wire_lib \<Rightarrow> string \<Rightarrow> pyval list \<Rightarrow> int \<Rightarrow> protocol_command result" where
  "build_control_protocol_command W name args opcode =
     (let made = command_in_lane 0 opcode in
      if name \<in> {''HELLO'', ''STARTUP'', ''WINDOW_UPDATE''} then and_then (generic_option_map W args) made
      else if name = ''AUTH'' then and_then (positional args 0 [''username'', ''password'']) made
      else if name = ''PING'' then made (case args of [] \<Rightarrow> [] | m # _ \<Rightarrow> [(field ''message'', m)])
      else if name = ''ROUTE'' then and_then (positional args 0 [''key'']) made
      else if name = ''ROUTE_BATCH'' then made [(field ''keys'', PList args)]
      else if name = ''CLIENT.SETNAME'' then and_then (positional args 0 [''name'']) made
      else made [])"

definition build_kv_protocol_command ::
    "wire_lib \<Rightarrow> compact_policy \<Rightarrow> string \<Rightarrow> pyval list \<Rightarrow> int \<Rightarrow> protocol_command result" where
  "build_kv_protocol_command W policy name args opcode =
     (let L = wl_py W; made = command_in_lane 1 opcode in
      if name = ''GET'' then and_then (positional args 0 [''key'']) made
      else if name = ''SET'' then
        and_then (positional args 0 [''key'', ''value'']) (\<lambda>d.
        and_then (kv_set_options L (drop 2 args)) (\<lambda>e. made (pupdate d e)))
      else if name = ''DEL'' then made [(field ''keys'', PList args)]
      else if name = ''MGET'' then
        and_then (compact_kv_keys_payload policy args 2) (\<lambda>c.
          Inr (compact_command opcode c [(field ''keys'', PList args)]))
      else if name = ''MSET'' then
        if args = [] \<or> length args mod 2 \<noteq> 0 then invalid ''MSET requires key/value pairs''
        else
          and_then (compact_kv_set_pairs_payload policy args 1) (\<lambda>c.
            Inr (compact_command opcode c [(field ''pairs'', PList (map PList (rows 2 args)))]))
      else if name = ''CAS'' then
        and_then (positional args 0 [''key'', ''expected'', ''value'']) (\<lambda>d.
        and_then (cas_options L (drop 3 args) False d) made)
      else invalid ''unsupported key/value protocol command'')"

definition build_coordination_protocol_command ::
    "string \<Rightarrow> pyval list \<Rightarrow> int \<Rightarrow> protocol_command result" where
  "build_coordination_protocol_command name args opcode =
     (let made = command_in_lane 1 opcode;
          optional = (\<lambda>ks k. and_then (positional args 0 (if length args > length ks then ks @ [k] else ks)) made)
      in
      if name \<in> {''LOCK'', ''EXTEND''} then and_then (positional args 0 [''key'', ''owner'', ''ttl_ms'']) made
      else if name = ''UNLOCK'' then and_then (positional args 0 [''key'', ''owner'']) made
      else if name = ''RATELIMIT.ADD'' then optional [''key'', ''window_ms'', ''max''] ''count''
      else if name = ''FETCH_OR_COMPUTE'' then optional [''key'', ''ttl_ms''] ''hint''
      else if name = ''FETCH_OR_COMPUTE_RESULT'' then
        and_then (positional args 0 [''key'', ''token'', ''value'', ''ttl_ms'']) made
      else if name = ''FETCH_OR_COMPUTE_ERROR'' then
        and_then (positional args 0 [''key'', ''token'', ''message'']) made
      else invalid ''unsupported coordination protocol command'')"

text \<open>A key and the list of the arguments after it, at least one.\<close>

definition key_and_values :: "string \<Rightarrow> pyval list \<Rightarrow> payload result" where
  "key_and_values k args =
     and_then (require_values args 1) (\<lambda>_.
     and_then (positional args 0 [''key'']) (\<lambda>d. Inr (d @ [(field k, PList (drop 1 args))])))"

definition build_hash_protocol_command :: "string \<Rightarrow> pyval list \<Rightarrow> int \<Rightarrow> protocol_command result" where
  "build_hash_protocol_command name args opcode =
     (let made = command_in_lane 1 opcode in
      if name = ''HSET'' then
        and_then (positional args 0 [''key'']) (\<lambda>d.
        and_then (field_value_map (drop 1 args)) (\<lambda>e. made (d @ [(field ''fields'', PDict e)])))
      else if name = ''HGET'' then and_then (positional args 0 [''key'', ''field'']) made
      else if name = ''HMGET'' then and_then (key_and_values ''fields'' args) made
      else if name = ''HGETALL'' then and_then (positional args 0 [''key'']) made
      else invalid ''unsupported hash protocol command'')"

definition build_list_protocol_command :: "pylib \<Rightarrow> string \<Rightarrow> pyval list \<Rightarrow> int \<Rightarrow> protocol_command result" where
  "build_list_protocol_command L name args opcode =
     (let made = command_in_lane 1 opcode in
      if name \<in> {''LPUSH'', ''RPUSH''} then and_then (key_and_values ''values'' args) made
      else if name \<in> {''LPOP'', ''RPOP''} then
        and_then (positional args 0 [''key'']) (\<lambda>d.
          if length args > 1 then and_then (int_arg L (args ! 1)) (\<lambda>n. made (pset d ''count'' (PInt n)))
          else made d)
      else if name = ''LRANGE'' then and_then (int_range L args) made
      else invalid ''unsupported list protocol command'')"

definition build_set_protocol_command :: "string \<Rightarrow> pyval list \<Rightarrow> int \<Rightarrow> protocol_command result" where
  "build_set_protocol_command name args opcode =
     (let made = command_in_lane 1 opcode in
      if name \<in> {''SADD'', ''SREM''} then and_then (key_and_values ''members'' args) made
      else if name = ''SMEMBERS'' then and_then (positional args 0 [''key'']) made
      else if name = ''SISMEMBER'' then and_then (positional args 0 [''key'', ''member'']) made
      else invalid ''unsupported set protocol command'')"

definition build_sorted_set_protocol_command ::
    "wire_lib \<Rightarrow> string \<Rightarrow> pyval list \<Rightarrow> int \<Rightarrow> protocol_command result" where
  "build_sorted_set_protocol_command W name args opcode =
     (let made = command_in_lane 1 opcode in
      if name = ''ZADD'' then
        and_then (positional args 0 [''key'']) (\<lambda>d.
        and_then (zadd_items W (drop 1 args)) (\<lambda>items. made (d @ [(field ''items'', PList items)])))
      else if name = ''ZREM'' then and_then (key_and_values ''members'' args) made
      else if name = ''ZRANGE'' then and_then (zrange_payload (wl_py W) args) made
      else if name = ''ZSCORE'' then and_then (positional args 0 [''key'', ''member'']) made
      else invalid ''unsupported sorted-set protocol command'')"

definition build_admin_protocol_command :: "string \<Rightarrow> pyval list \<Rightarrow> int \<Rightarrow> protocol_command result" where
  "build_admin_protocol_command name args opcode =
     (let made = command_in_lane 1 opcode in
      if name \<in> {''CLUSTER.KEYSLOT'', ''FERRICSTORE.KEY_INFO''} then
        and_then (require_arg args 0) (\<lambda>k. made [(field ''key'', k), (field ''args'', PList [k])])
      else made [(field ''args'', PList args)])"

definition CONTROL_FAMILY :: "string list" where
  "CONTROL_FAMILY =
     [''HELLO'', ''STARTUP'', ''WINDOW_UPDATE'', ''AUTH'', ''PING'', ''OPTIONS'', ''ROUTE'', ''ROUTE_BATCH'',
      ''SHARDS'', ''BACKPRESSURE'', ''QUIT'', ''CLIENT.SETNAME'', ''CLIENT.INFO'']"

definition KV_FAMILY :: "string list" where
  "KV_FAMILY = [''GET'', ''SET'', ''DEL'', ''MGET'', ''MSET'', ''CAS'']"

definition COORDINATION_FAMILY :: "string list" where
  "COORDINATION_FAMILY =
     [''LOCK'', ''EXTEND'', ''UNLOCK'', ''RATELIMIT.ADD'', ''FETCH_OR_COMPUTE'', ''FETCH_OR_COMPUTE_RESULT'',
      ''FETCH_OR_COMPUTE_ERROR'']"

definition HASH_FAMILY :: "string list" where
  "HASH_FAMILY = [''HSET'', ''HGET'', ''HMGET'', ''HGETALL'']"

definition LIST_FAMILY :: "string list" where
  "LIST_FAMILY = [''LPUSH'', ''RPUSH'', ''LPOP'', ''RPOP'', ''LRANGE'']"

definition SET_FAMILY :: "string list" where
  "SET_FAMILY = [''SADD'', ''SREM'', ''SMEMBERS'', ''SISMEMBER'']"

definition SORTED_SET_FAMILY :: "string list" where
  "SORTED_SET_FAMILY = [''ZADD'', ''ZREM'', ''ZRANGE'', ''ZSCORE'']"

definition ADMIN_FAMILY :: "string list" where
  "ADMIN_FAMILY =
     [''CLUSTER.HEALTH'', ''CLUSTER.STATS'', ''CLUSTER.KEYSLOT'', ''CLUSTER.SLOTS'', ''CLUSTER.STATUS'',
      ''CLUSTER.JOIN'', ''CLUSTER.LEAVE'', ''CLUSTER.FAILOVER'', ''CLUSTER.PROMOTE'', ''CLUSTER.DEMOTE'',
      ''CLUSTER.ROLE'', ''FERRICSTORE.KEY_INFO'', ''FERRICSTORE.CONFIG'', ''FERRICSTORE.HOTNESS'',
      ''FERRICSTORE.METRICS'', ''FERRICSTORE.BLOBGC'', ''CLUSTER.FEATURES'', ''CLUSTER.FEATURES.RAISE'']"

definition BASIC_COMMANDS :: "string list" where
  "BASIC_COMMANDS =
     CONTROL_FAMILY @ KV_FAMILY @ COORDINATION_FAMILY @ HASH_FAMILY @ LIST_FAMILY @ SET_FAMILY @
     SORTED_SET_FAMILY @ ADMIN_FAMILY"

definition build_basic_protocol_command ::
    "wire_lib \<Rightarrow> compact_policy \<Rightarrow> string \<Rightarrow> pyval list \<Rightarrow> protocol_command result" where
  "build_basic_protocol_command W policy name args =
     (case opcode_of name of
        None \<Rightarrow> Inl KeyError
      | Some opcode \<Rightarrow>
          if name \<in> set CONTROL_FAMILY then build_control_protocol_command W name args opcode
          else if name \<in> set KV_FAMILY then build_kv_protocol_command W policy name args opcode
          else if name \<in> set COORDINATION_FAMILY then build_coordination_protocol_command name args opcode
          else if name \<in> set HASH_FAMILY then build_hash_protocol_command name args opcode
          else if name \<in> set LIST_FAMILY then build_list_protocol_command (wl_py W) name args opcode
          else if name \<in> set SET_FAMILY then build_set_protocol_command name args opcode
          else if name \<in> set SORTED_SET_FAMILY then build_sorted_set_protocol_command W name args opcode
          else if name \<in> set ADMIN_FAMILY then build_admin_protocol_command name args opcode
          else command_exec_protocol_command (wl_py W) (text_lit name) args)"

section \<open>Argument counts and the entry point\<close>

record command_arity =
  ar_minimum :: nat
  ar_maximum :: "nat option"

definition exactly :: "nat \<Rightarrow> command_arity" where
  "exactly n = \<lparr>ar_minimum = n, ar_maximum = Some n\<rparr>"

definition at_least :: "nat \<Rightarrow> command_arity" where
  "at_least n = \<lparr>ar_minimum = n, ar_maximum = None\<rparr>"

definition arity_between :: "nat \<Rightarrow> nat \<Rightarrow> command_arity" where
  "arity_between m n = \<lparr>ar_minimum = m, ar_maximum = Some n\<rparr>"

definition SPECIALIZED_COMMAND_ARITIES :: "(string \<times> command_arity) list" where
  "SPECIALIZED_COMMAND_ARITIES =
     [(''AUTH'', exactly 2), (''PING'', arity_between 0 1), (''OPTIONS'', exactly 0), (''ROUTE'', exactly 1),
      (''ROUTE_BATCH'', at_least 1), (''SHARDS'', exactly 0), (''BACKPRESSURE'', exactly 0), (''QUIT'', exactly 0),
      (''CLIENT.SETNAME'', exactly 1), (''CLIENT.INFO'', exactly 0), (''GET'', exactly 1), (''SET'', at_least 2),
      (''DEL'', at_least 1), (''MGET'', at_least 1), (''MSET'', at_least 2), (''CAS'', at_least 3),
      (''LOCK'', exactly 3), (''EXTEND'', exactly 3), (''UNLOCK'', exactly 2), (''RATELIMIT.ADD'', arity_between 3 4),
      (''FETCH_OR_COMPUTE'', arity_between 2 3), (''FETCH_OR_COMPUTE_RESULT'', exactly 4),
      (''FETCH_OR_COMPUTE_ERROR'', exactly 3), (''HSET'', at_least 3), (''HGET'', exactly 2), (''HMGET'', at_least 2),
      (''HGETALL'', exactly 1), (''LPUSH'', at_least 2), (''RPUSH'', at_least 2), (''LPOP'', arity_between 1 2),
      (''RPOP'', arity_between 1 2), (''LRANGE'', exactly 3), (''SADD'', at_least 2), (''SREM'', at_least 2),
      (''SMEMBERS'', exactly 1), (''SISMEMBER'', exactly 2), (''ZADD'', at_least 3), (''ZREM'', at_least 2),
      (''ZRANGE'', at_least 3), (''ZSCORE'', exactly 2), (''CLUSTER.KEYSLOT'', exactly 1),
      (''FERRICSTORE.KEY_INFO'', exactly 1)]"

definition validate_specialized_command_arity :: "string \<Rightarrow> nat \<Rightarrow> unit result" where
  "validate_specialized_command_arity name n =
     (case map_of SPECIALIZED_COMMAND_ARITIES name of
        None \<Rightarrow> Inr ()
      | Some a \<Rightarrow>
          if n < ar_minimum a \<or> (case ar_maximum a of None \<Rightarrow> False | Some m \<Rightarrow> n > m)
          then invalid ''wrong number of arguments'' else Inr ())"

definition route_key_of :: "pylib \<Rightarrow> pyval \<Rightarrow> route_key" where
  "route_key_of L v = (case v of PBytes b \<Rightarrow> Key_bytes b | PStr t \<Rightarrow> Key_text t | _ \<Rightarrow> Key_text (str_of L v))"

fun every_other :: "'a list \<Rightarrow> 'a list" where
  "every_other [] = []"
| "every_other [x] = [x]"
| "every_other (x # y # r) = x # every_other r"

definition known_name :: "ustr \<Rightarrow> string option" where
  "known_name name = find (\<lambda>n. text_lit n = name) (map fst OPCODES)"

definition starts_with_flow :: "string \<Rightarrow> bool" where
  "starts_with_flow name \<longleftrightarrow> take 5 name = ''FLOW.''"

definition build_protocol_command_inner ::
    "wire_lib \<Rightarrow> (string \<Rightarrow> bool) \<Rightarrow> compact_policy \<Rightarrow> pyval list \<Rightarrow> protocol_command result" where
  "build_protocol_command_inner W tr policy args =
     (let L = wl_py W in
      case args of
        [] \<Rightarrow> invalid ''protocol command requires command name''
      | n # rest \<Rightarrow>
          let name = normalize_command_name L n in
          and_then (if name \<in> text_lit ` {''MSET'', ''MSETNX''} \<and> rest \<noteq> []
                    then validate_mset_slots (map (route_key_of L) (every_other rest)) else Inr ()) (\<lambda>_.
          case known_name name of
            None \<Rightarrow> command_exec_protocol_command L name rest
          | Some k \<Rightarrow>
              if k = ''COMMAND_EXEC'' then
                and_then (require_arg args 1) (\<lambda>raw.
                  command_exec_protocol_command L (normalize_command_name L raw) (drop 1 rest))
              else if k \<in> set BASIC_COMMANDS then
                and_then (if k = ''SET'' then Inr () else validate_specialized_command_arity k (length rest)) (\<lambda>_.
                  build_basic_protocol_command W policy k rest)
              else if starts_with_flow k then build_flow_protocol_command W tr policy k rest
              else
                case opcode_of k of
                  None \<Rightarrow> Inl KeyError
                | Some opcode \<Rightarrow>
                    and_then (option_map_of W False rest) (\<lambda>d.
                      command_in_lane (lane_for_opcode opcode) opcode d)))"

definition build_protocol_command ::
    "wire_lib \<Rightarrow> (string \<Rightarrow> bool) \<Rightarrow> compact_policy \<Rightarrow> pyval list \<Rightarrow> protocol_command result" where
  "build_protocol_command W tr policy args =
     (case build_protocol_command_inner W tr policy args of
        Inl UnicodeEncodeError \<Rightarrow> invalid ''protocol strings must contain valid UTF-8''
      | r \<Rightarrow> r)"

section \<open>The client's SET arguments\<close>

record set_request =
  sq_ex :: pyval
  sq_px :: pyval
  sq_exat :: pyval
  sq_pxat :: pyval
  sq_nx :: pyval
  sq_xx :: pyval
  sq_get :: pyval
  sq_keepttl :: pyval

definition append_option :: "pyval list \<Rightarrow> string \<Rightarrow> int option \<Rightarrow> pyval list" where
  "append_option args name v = (case v of None \<Rightarrow> args | Some n \<Rightarrow> args @ [field name, PInt n])"

definition append_flag :: "pyval list \<Rightarrow> string \<Rightarrow> bool \<Rightarrow> pyval list" where
  "append_flag args name enabled = (if enabled then args @ [field name] else args)"

definition set_args ::
    "(pyval \<Rightarrow> pyval result) \<Rightarrow> pyval \<Rightarrow> pyval \<Rightarrow> set_request \<Rightarrow> pyval \<Rightarrow> pyval list result" where
  "set_args codec_encode key v q encode =
     and_then (validate_optional_positive_int (sq_ex q) ''EX'') (\<lambda>ex.
     and_then (validate_optional_positive_int (sq_px q) ''PX'') (\<lambda>px.
     and_then (validate_optional_positive_int (sq_exat q) ''EXAT'') (\<lambda>exat.
     and_then (validate_optional_positive_int (sq_pxat q) ''PXAT'') (\<lambda>pxat.
     and_then (validate_bool (sq_nx q) ''NX'') (\<lambda>nx.
     and_then (validate_bool (sq_xx q) ''XX'') (\<lambda>xx.
     and_then (validate_bool (sq_get q) ''GET'') (\<lambda>get.
     and_then (validate_bool (sq_keepttl q) ''KEEPTTL'') (\<lambda>keepttl.
     and_then (validate_bool encode ''encode'') (\<lambda>encode.
     let expiry_count = length (filter (\<lambda>x. x \<noteq> None) [ex, px, exat, pxat]) in
     if expiry_count > 1 \<or> (keepttl \<and> expiry_count \<noteq> 0) then
       Inl (ValueError ''SET expiry options and keepttl are mutually exclusive'')
     else if nx \<and> xx then Inl (ValueError ''SET nx and xx are mutually exclusive'')
     else
       and_then (if encode then codec_encode v else Inr v) (\<lambda>v.
       let args = [field ''SET'', key, v];
           args = append_option args ''EX'' ex;
           args = append_option args ''PX'' px;
           args = append_option args ''EXAT'' exat;
           args = append_option args ''PXAT'' pxat;
           args = append_flag args ''NX'' nx;
           args = append_flag args ''XX'' xx;
           args = append_flag args ''GET'' get;
           args = append_flag args ''KEEPTTL'' keepttl
       in Inr args))))))))))"

section \<open>A SET request reaches the wire unchanged\<close>

lemma positive_int_arg_int [simp]: "positive_int_arg L (PInt n) = (if n \<le> 0 then invalid ''positive integer arguments required'' else Inr n)"
  by (simp add: positive_int_arg_def int_arg_def raw_int_def)

lemma optional_positive_Inr:
  "validate_optional_positive_int v name = Inr x \<longleftrightarrow> (v = PNone \<and> x = None) \<or> (\<exists>n. v = PInt n \<and> 0 < n \<and> x = Some n)"
  by (auto simp: validate_optional_positive_int_def validate_positive_int_def split: pyval.splits if_splits)

lemma validate_bool_Inr: "validate_bool v name = Inr b \<longleftrightarrow> v = PBool b"
  by (auto simp: validate_bool_def split: pyval.splits)

text \<open>The options part of a \<open>SET\<close> payload, in the order the client writes its options.\<close>

definition set_fields :: "int option \<Rightarrow> int option \<Rightarrow> int option \<Rightarrow> int option \<Rightarrow> bool \<Rightarrow> bool \<Rightarrow> bool \<Rightarrow> bool \<Rightarrow> payload" where
  "set_fields ex px exat pxat nx xx get keepttl =
     (let timed = (\<lambda>k factor v. case v of None \<Rightarrow> [] | Some n \<Rightarrow> [(field k, PInt (n * factor))]);
          flag = (\<lambda>k b. if b then [(field k, PBool True)] else [])
      in timed ''ttl'' 1000 ex @ timed ''ttl'' 1 px @ timed ''exat'' 1 exat @ timed ''pxat'' 1 pxat @
         flag ''nx'' nx @ flag ''xx'' xx @ flag ''get'' get @ flag ''keepttl'' keepttl)"

definition flag_args :: "bool \<Rightarrow> bool \<Rightarrow> bool \<Rightarrow> bool \<Rightarrow> pyval list" where
  "flag_args nx xx get keepttl =
     append_flag (append_flag (append_flag (append_flag [] ''NX'' nx) ''XX'' xx) ''GET'' get) ''KEEPTTL'' keepttl"

definition expiry_args :: "int option \<Rightarrow> int option \<Rightarrow> int option \<Rightarrow> int option \<Rightarrow> pyval list" where
  "expiry_args ex px exat pxat =
     append_option (append_option (append_option (append_option [] ''EX'' ex) ''PX'' px) ''EXAT'' exat) ''PXAT'' pxat"

lemma append_option_eq: "append_option args k v = args @ append_option [] k v"
  by (simp add: append_option_def split: option.split)

lemma append_flag_eq: "append_flag args k b = args @ append_flag [] k b"
  by (simp add: append_flag_def)

lemma set_tail_split:
  "append_flag (append_flag (append_flag (append_flag
      (append_option (append_option (append_option (append_option args ''EX'' ex) ''PX'' px) ''EXAT'' exat) ''PXAT'' pxat)
      ''NX'' nx) ''XX'' xx) ''GET'' get) ''KEEPTTL'' keepttl = args @ expiry_args ex px exat pxat @ flag_args nx xx get keepttl"
  unfolding expiry_args_def flag_args_def append_flag_def append_option_def by (simp split: option.split)

lemma set_options_flag:
  assumes "k \<in> {''NX'', ''XX'', ''GET'', ''KEEPTTL''}" and "text_lit k \<notin> set seen"
    and "k = ''KEEPTTL'' \<longrightarrow> b \<longrightarrow> \<not> expiry"
  shows "set_options L (append_flag [] k b @ rest) seen expiry d =
    (if b then set_options L rest (text_lit k # seen) (expiry \<or> k = ''KEEPTTL'')
       (pset d (the (map_of [(''NX'', ''nx''), (''XX'', ''xx''), (''GET'', ''get''), (''KEEPTTL'', ''keepttl'')] k)) (PBool True))
     else set_options L rest seen expiry d)"
  using assms
  by (cases b; elim insertE emptyE; hypsubst; simp add: append_flag_def text_lit_inj)

lemma set_options_timed:
  assumes "text_lit k \<notin> set seen" and "0 < n" and "k \<in> {''EX'', ''PX'', ''EXAT'', ''PXAT''}"
  shows "set_options L (field k # PInt n # rest) seen False d =
    set_options L rest (text_lit k # seen) True
      (pset d (if k = ''EXAT'' then ''exat'' else if k = ''PXAT'' then ''pxat'' else ''ttl'')
        (PInt (if k = ''EX'' then n * 1000 else n)))"
  using assms by (elim insertE emptyE; hypsubst; simp add: text_lit_inj)

lemma pset_new: "payload_find d k = None \<Longrightarrow> pset d k v = d @ [(field k, v)]"
  unfolding payload_find_def pset_def field_def [symmetric]
  by (induction d) (auto split: if_splits)

lemma payload_find_append [simp]:
  "payload_find (d @ e) k = (case payload_find d k of None \<Rightarrow> payload_find e k | Some v \<Rightarrow> Some v)"
  by (induction d) (auto simp: payload_find_def)

lemma payload_find_fields [simp]:
  "payload_find [] k = None"
  "payload_find ((field j, v) # d) k = (if j = k then Some v else payload_find d k)"
  by (auto simp: payload_find_def field_def text_lit_inj)

lemma flags_parsed:
  assumes "\<forall>k\<in>{''NX'', ''XX'', ''GET'', ''KEEPTTL''}. text_lit k \<notin> set seen" and "keepttl \<longrightarrow> \<not> expiry"
    and "\<forall>k\<in>{''nx'', ''xx'', ''get'', ''keepttl''}. payload_find d k = None"
  shows "set_options L (flag_args nx xx get keepttl) seen expiry d = Inr (d @ set_fields None None None None nx xx get keepttl)"
proof -
  have "flag_args nx xx get keepttl =
      append_flag [] ''NX'' nx @ append_flag [] ''XX'' xx @ append_flag [] ''GET'' get @ append_flag [] ''KEEPTTL'' keepttl @ []"
    by (simp add: flag_args_def append_flag_def)
  then show ?thesis
    using assms
    by (cases nx; cases xx; cases get; cases keepttl;
        simp add: set_options_flag set_options_flag [where rest = "[]", unfolded append_Nil2] text_lit_inj pset_new set_fields_def del: set_options.simps(2))
qed

lemma one_expiry:
  assumes "length (filter (\<lambda>x. x \<noteq> None) [ex, px, exat, pxat]) + (if keepttl then 1 else 0) \<le> 1"
    and "\<forall>x\<in>{ex, px, exat, pxat}. \<forall>n. x = Some n \<longrightarrow> 0 < n"
  obtains "ex = None" "px = None" "exat = None" "pxat = None"
    | n where "ex = Some n" "0 < n" "px = None" "exat = None" "pxat = None" "\<not> keepttl"
    | n where "px = Some n" "0 < n" "ex = None" "exat = None" "pxat = None" "\<not> keepttl"
    | n where "exat = Some n" "0 < n" "ex = None" "px = None" "pxat = None" "\<not> keepttl"
    | n where "pxat = Some n" "0 < n" "ex = None" "px = None" "exat = None" "\<not> keepttl"
  using assms by (cases ex; cases px; cases exat; cases pxat; cases keepttl) simp_all

lemma set_tail:
  assumes "length (filter (\<lambda>x. x \<noteq> None) [ex, px, exat, pxat]) + (if keepttl then 1 else 0) \<le> 1"
    and "\<not> (nx \<and> xx)" and "\<forall>x\<in>{ex, px, exat, pxat}. \<forall>n. x = Some n \<longrightarrow> 0 < n"
  shows "kv_set_options L (expiry_args ex px exat pxat @ flag_args nx xx get keepttl) =
    Inr (set_fields ex px exat pxat nx xx get keepttl)"
proof -
  from one_expiry [OF assms(1,3)]
  have "set_options L (expiry_args ex px exat pxat @ flag_args nx xx get keepttl) [] False [] =
      Inr (set_fields ex px exat pxat nx xx get keepttl)"
    by cases (simp_all add: expiry_args_def append_option_def set_options_timed flags_parsed text_lit_inj
        pset_new set_fields_def del: set_options.simps(2))
  with assms(2) show ?thesis
    by (auto simp: kv_set_options_def has_field_def set_fields_def split: option.splits if_splits)
qed

lemma set_known: "known_name (text_lit ''SET'') = Some ''SET''" "opcode_of ''SET'' = Some 0x0102"
  by code_simp+

lemma build_set:
  assumes "kv_set_options (wl_py W) opts = Inr f"
  shows "build_protocol_command W tr policy ([field ''SET'', key, w] @ opts) =
    Inr (protocol_command_of 0x0102 (pupdate [(field ''key'', key), (field ''value'', w)] f) 1)"
proof -
  have "build_basic_protocol_command W policy ''SET'' (key # w # opts) =
      Inr (protocol_command_of 0x0102 (pupdate [(field ''key'', key), (field ''value'', w)] f) 1)"
    using assms by (simp add: build_basic_protocol_command_def set_known CONTROL_FAMILY_def KV_FAMILY_def
        build_kv_protocol_command_def require_arg_def command_in_lane_def)
  then show ?thesis
    by (simp add: build_protocol_command_def build_protocol_command_inner_def set_known text_lit_inj
        BASIC_COMMANDS_def KV_FAMILY_def)
qed

text \<open>What a \<open>SET\<close> request asks for, field by field.\<close>

definition set_payload :: "pyval \<Rightarrow> pyval \<Rightarrow> set_request \<Rightarrow> payload \<Rightarrow> bool" where
  "set_payload key w q d \<longleftrightarrow>
     payload_find d ''key'' = Some key \<and> payload_find d ''value'' = Some w \<and>
     payload_find d ''ttl'' =
       (case (sq_ex q, sq_px q) of (PInt n, _) \<Rightarrow> Some (PInt (n * 1000)) | (_, PInt n) \<Rightarrow> Some (PInt n) | _ \<Rightarrow> None) \<and>
     payload_find d ''exat'' = (case sq_exat q of PInt n \<Rightarrow> Some (PInt n) | _ \<Rightarrow> None) \<and>
     payload_find d ''pxat'' = (case sq_pxat q of PInt n \<Rightarrow> Some (PInt n) | _ \<Rightarrow> None) \<and>
     (has_field d ''nx'' \<longleftrightarrow> sq_nx q = PBool True) \<and> (has_field d ''xx'' \<longleftrightarrow> sq_xx q = PBool True) \<and>
     (has_field d ''get'' \<longleftrightarrow> sq_get q = PBool True) \<and> (has_field d ''keepttl'' \<longleftrightarrow> sq_keepttl q = PBool True)"

lemma payload_find_pupdate:
  "distinct (map fst e) \<Longrightarrow> payload_find (pupdate d e) k = (case payload_find e k of None \<Rightarrow> payload_find d k | Some v \<Rightarrow> Some v)"
proof (induction e arbitrary: d)
  case (Cons x e)
  obtain j v where x: "x = (j, v)" by (cases x)
  have "payload_find e k = None" if "j = field k"
    using Cons.prems x that by (force simp: payload_find_def field_def)
  with Cons x show ?case
    by (auto simp: payload_find_def pupdate_def dict_get_set field_def simp del: dict_get_None split: option.split)
qed (simp add: pupdate_def)

lemma set_payload_fields:
  assumes "length (filter (\<lambda>x. x \<noteq> None) [ex, px, exat, pxat]) + (if keepttl then 1 else 0) \<le> 1"
    and t: "validate_optional_positive_int (sq_ex q) ''EX'' = Inr ex"
      "validate_optional_positive_int (sq_px q) ''PX'' = Inr px"
      "validate_optional_positive_int (sq_exat q) ''EXAT'' = Inr exat"
      "validate_optional_positive_int (sq_pxat q) ''PXAT'' = Inr pxat"
    and b: "sq_nx q = PBool nx" "sq_xx q = PBool xx" "sq_get q = PBool get" "sq_keepttl q = PBool keepttl"
  shows "set_payload key w q
    (pupdate [(field ''key'', key), (field ''value'', w)] (set_fields ex px exat pxat nx xx get keepttl))"
proof -
  have find_if: "payload_find (if c then [(field j, v)] else []) k = (if c \<and> j = k then Some v else None)" for c j v k
    by simp
  have pos: "\<forall>x\<in>{ex, px, exat, pxat}. \<forall>n. x = Some n \<longrightarrow> 0 < n"
    using t unfolding optional_positive_Inr by auto
  have d: "distinct (map fst (set_fields ex px exat pxat nx xx get keepttl))"
    using one_expiry [OF assms(1) pos] by cases (simp_all add: set_fields_def)
  from one_expiry [OF assms(1) pos] show ?thesis
    using t unfolding optional_positive_Inr set_payload_def has_field_def payload_find_pupdate [OF d]
    by cases (simp_all add: set_fields_def find_if b)
qed

lemma if_Inl_eq: "(if c then Inl e else r) = Inr y \<longleftrightarrow> \<not> c \<and> r = Inr y"
  by simp

lemma set_args_Inr:
  assumes "set_args codec key v q encode = Inr args"
  obtains ex px exat pxat nx xx get keepttl e w where
    "validate_optional_positive_int (sq_ex q) ''EX'' = Inr ex"
    "validate_optional_positive_int (sq_px q) ''PX'' = Inr px"
    "validate_optional_positive_int (sq_exat q) ''EXAT'' = Inr exat"
    "validate_optional_positive_int (sq_pxat q) ''PXAT'' = Inr pxat"
    "sq_nx q = PBool nx" "sq_xx q = PBool xx" "sq_get q = PBool get" "sq_keepttl q = PBool keepttl" "encode = PBool e"
    "\<not> (1 < length (filter (\<lambda>x. x \<noteq> None) [ex, px, exat, pxat]) \<or>
        keepttl \<and> length (filter (\<lambda>x. x \<noteq> None) [ex, px, exat, pxat]) \<noteq> 0)" "\<not> (nx \<and> xx)"
    "(if e then codec v else Inr v) = Inr w"
    "args = [field ''SET'', key, w] @ expiry_args ex px exat pxat @ flag_args nx xx get keepttl"
  using assms unfolding set_args_def Let_def and_then_eq_Inr validate_bool_Inr if_Inl_eq sum.inject set_tail_split
  by (elim exE conjE) (rule that; (assumption | erule sym))

text \<open>
  C39. A \<open>SET\<close> request reaches the wire as it was asked. Whenever the client accepts the options of a
  \<open>set\<close> call, the command it writes is built: the key, the encoded value, the expiry in the unit of its
  field (seconds become milliseconds) and each flag are exactly those of the call, with no other expiry.
\<close>
theorem set_request_reaches_wire:
  assumes "set_args codec key v q encode = Inr args"
  shows "\<exists>w d. (if encode = PBool True then codec v else Inr v) = Inr w \<and>
    build_protocol_command W tr policy args = Inr (protocol_command_of 0x0102 d 1) \<and> set_payload key w q d"
  using assms
proof (rule set_args_Inr)
  fix ex px exat pxat nx xx get keepttl e w
  assume t: "validate_optional_positive_int (sq_ex q) ''EX'' = Inr ex"
    "validate_optional_positive_int (sq_px q) ''PX'' = Inr px"
    "validate_optional_positive_int (sq_exat q) ''EXAT'' = Inr exat"
    "validate_optional_positive_int (sq_pxat q) ''PXAT'' = Inr pxat"
    and b: "sq_nx q = PBool nx" "sq_xx q = PBool xx" "sq_get q = PBool get" "sq_keepttl q = PBool keepttl" "encode = PBool e"
    and n: "\<not> (1 < length (filter (\<lambda>x. x \<noteq> None) [ex, px, exat, pxat]) \<or>
        keepttl \<and> length (filter (\<lambda>x. x \<noteq> None) [ex, px, exat, pxat]) \<noteq> 0)" "\<not> (nx \<and> xx)"
    and w: "(if e then codec v else Inr v) = Inr w"
    and args: "args = [field ''SET'', key, w] @ expiry_args ex px exat pxat @ flag_args nx xx get keepttl"
  let ?f = "set_fields ex px exat pxat nx xx get keepttl"
  let ?d = "pupdate [(field ''key'', key), (field ''value'', w)] ?f"
  have one: "length (filter (\<lambda>x. x \<noteq> None) [ex, px, exat, pxat]) + (if keepttl then 1 else 0) \<le> 1"
    using n(1) by (cases keepttl) simp_all
  moreover have "\<forall>x\<in>{ex, px, exat, pxat}. \<forall>n. x = Some n \<longrightarrow> 0 < n"
    using t unfolding optional_positive_Inr by auto
  ultimately have tail: "kv_set_options L (expiry_args ex px exat pxat @ flag_args nx xx get keepttl) = Inr ?f" for L
    using n(2) by (intro set_tail)
  have "build_protocol_command W tr policy args = Inr (protocol_command_of 0x0102 ?d 1)"
    unfolding args by (rule build_set [OF tail])
  moreover have "set_payload key w q ?d"
    by (rule set_payload_fields [OF one t b(1-4)])
  ultimately show ?thesis using w b by auto
qed

theorem set_request_reaches_wire_witness:
  "\<exists>w d. Inr (field ''v'') = Inr w \<and>
    build_protocol_command cancel_lib (\<lambda>_. True) unbounded_policy
      [field ''SET'', field ''k'', field ''v'', field ''EX'', PInt 5, field ''NX''] =
      Inr (protocol_command_of 0x0102 d 1) \<and> set_payload (field ''k'') w
        \<lparr>sq_ex = PInt 5, sq_px = PNone, sq_exat = PNone, sq_pxat = PNone, sq_nx = PBool True, sq_xx = PBool False,
         sq_get = PBool False, sq_keepttl = PBool False\<rparr> d"
  using set_request_reaches_wire [of Inr "field ''k''" "field ''v''"
      "\<lparr>sq_ex = PInt 5, sq_px = PNone, sq_exat = PNone, sq_pxat = PNone, sq_nx = PBool True, sq_xx = PBool False,
         sq_get = PBool False, sq_keepttl = PBool False\<rparr>" "PBool True"
      "[field ''SET'', field ''k'', field ''v'', field ''EX'', PInt 5, field ''NX'']" cancel_lib "\<lambda>_. True" unbounded_policy]
  by (simp add: set_args_def validate_bool_def validate_optional_positive_int_def validate_positive_int_def
      append_option_def append_flag_def)

section \<open>Built commands are well formed\<close>

definition well_built :: "int \<Rightarrow> int \<Rightarrow> protocol_command \<Rightarrow> bool" where
  "well_built opcode lane c \<longleftrightarrow> pc_opcode c = opcode \<and> pc_lane c = lane \<and>
     (if pc_flags c = FLAG_CUSTOM_PAYLOAD then \<exists>b. pc_payload c = PBytes b
      else pc_flags c = 0 \<and> (\<exists>d. pc_payload c = PDict d))"

definition builds :: "int \<Rightarrow> int \<Rightarrow> protocol_command result \<Rightarrow> bool" where
  "builds opcode lane r \<longleftrightarrow> (\<forall>c. r = Inr c \<longrightarrow> well_built opcode lane c)"

lemma builds_intros:
  "builds opcode lane (invalid msg)"
  "builds opcode lane (Inl e)"
  "builds opcode lane (command_in_lane lane opcode d)"
  "builds opcode 1 (Inr (plain_command opcode d))"
  "builds opcode 1 (Inr (compact_command opcode b d))"
  "builds opcode 1 (Inr (protocol_command_of opcode d 1))"
  "builds opcode 1 (guarded_command opcode d ks)"
  "builds opcode lane r \<Longrightarrow> builds opcode lane r' \<Longrightarrow> builds opcode lane (if c then r else r')"
  "(\<And>x. builds opcode lane (f x)) \<Longrightarrow> builds opcode lane (and_then m f)"
  "(\<And>x. v = x \<Longrightarrow> builds opcode lane (g x)) \<Longrightarrow> builds opcode lane (let x = v in g x)"
  by (auto simp: builds_def well_built_def command_in_lane_def protocol_command_of_def plain_command_def
      compact_command_def FLAG_CUSTOM_PAYLOAD_def guarded_command_Inr split: option.split)

lemmas family_defs =
  build_control_protocol_command_def build_kv_protocol_command_def build_coordination_protocol_command_def
  build_hash_protocol_command_def build_list_protocol_command_def build_set_protocol_command_def
  build_sorted_set_protocol_command_def build_admin_protocol_command_def command_exec_protocol_command_def
  build_flow_creation_def build_flow_mutation_def build_flow_many_def build_flow_value_policy_def
  build_flow_governance_def

lemma builds_control: "builds opcode 0 (build_control_protocol_command W name args opcode)"
  unfolding family_defs Let_def by (intro builds_intros)

lemma builds_families:
  "builds opcode 1 (build_kv_protocol_command W policy name args opcode)"
  "builds opcode 1 (build_coordination_protocol_command name args opcode)"
  "builds opcode 1 (build_hash_protocol_command name args opcode)"
  "builds opcode 1 (build_list_protocol_command L name args opcode)"
  "builds opcode 1 (build_set_protocol_command name args opcode)"
  "builds opcode 1 (build_sorted_set_protocol_command W name args opcode)"
  "builds opcode 1 (build_admin_protocol_command name args opcode)"
  "builds OP_COMMAND_EXEC 1 (command_exec_protocol_command L (text_lit name) args)"
  "builds OP_COMMAND_EXEC 1 (command_exec_protocol_command L tname args)"
  "builds opcode 1 (build_flow_creation W tr policy name args opcode)"
  "builds opcode 1 (build_flow_mutation W name args opcode)"
  "builds opcode 1 (build_flow_many W tr policy name args opcode)"
  "builds opcode 1 (build_flow_value_policy W policy name args opcode)"
  "builds opcode 1 (build_flow_governance W name args opcode)"
  unfolding family_defs Let_def by (intro builds_intros)+

lemma builds_query: "builds opcode 1 (build_flow_query_command W name args opcode)"
proof -
  have "\<exists>d. p = PDict d" if "build_flow_query_payload args = Inr p" for p
    using that by (auto simp: build_flow_query_payload_def Let_def split: if_splits prod.splits)
  then have "builds opcode 1 (case build_flow_query_payload args of
        Inl e \<Rightarrow> if value_error e then invalid ''FLOW.QUERY'' else Inl e
      | Inr p \<Rightarrow> Inr \<lparr>pc_opcode = opcode, pc_payload = p, pc_lane = 1, pc_flags = 0\<rparr>)"
    by (cases "build_flow_query_payload args") (auto simp: builds_def well_built_def FLAG_CUSTOM_PAYLOAD_def)
  then show ?thesis unfolding build_flow_query_command_def by (intro builds_intros) auto
qed

lemma control_range: "c \<in> set CONTROL_OPCODES \<longleftrightarrow> 1 \<le> c \<and> c \<le> 0x12"
proof -
  have "c \<in> int ` {1..<0x13}" if "1 \<le> c" "c \<le> 0x12"
    using that by (intro image_eqI [of _ _ "nat c"]) auto
  then show ?thesis by (auto simp: CONTROL_OPCODES_def)
qed

definition DATA_FAMILIES :: "string list" where
  "DATA_FAMILIES =
     KV_FAMILY @ COORDINATION_FAMILY @ HASH_FAMILY @ LIST_FAMILY @ SET_FAMILY @ SORTED_SET_FAMILY @ ADMIN_FAMILY"

lemma opcode_table:
  "list_all (\<lambda>(n, c). if c \<le> 0x12 then \<not> starts_with_flow n \<and> n \<notin> set DATA_FAMILIES else True) OPCODES"
  "list_all (\<lambda>n. case opcode_of n of None \<Rightarrow> False | Some c \<Rightarrow> 1 \<le> c \<and> c \<le> 0x12) CONTROL_FAMILY"
  by code_simp+

lemma opcode_lanes:
  "opcode_of n = Some c \<Longrightarrow> starts_with_flow n \<Longrightarrow> lane_for_opcode c = 1"
  "opcode_of n = Some c \<Longrightarrow> n \<in> set CONTROL_FAMILY \<Longrightarrow> lane_for_opcode c = 0"
  "opcode_of n = Some c \<Longrightarrow> n \<in> set DATA_FAMILIES \<Longrightarrow> lane_for_opcode c = 1"
  "lane_for_opcode OP_COMMAND_EXEC = 1"
  using opcode_table
  by (fastforce simp: list_all_iff lane_for_opcode_def control_range opcode_of_def OP_COMMAND_EXEC_def
      dest: map_of_SomeD)+

lemma flow_built:
  assumes "build_flow_protocol_command W tr policy name args = Inr c" and "starts_with_flow name"
  shows "pc_opcode c = OP_COMMAND_EXEC \<or> opcode_of name = Some (pc_opcode c)"
    and "well_built (pc_opcode c) (lane_for_opcode (pc_opcode c)) c"
proof -
  obtain n where n: "build_native_flow_protocol_command W tr policy name args = Inr n"
    and c: "if needs_command_exec name (pc_payload n)
      then command_exec_protocol_command (wl_py W) (text_lit name) args = Inr c else c = n"
    using assms(1) by (auto simp: build_flow_protocol_command_def split: if_splits)
  obtain opcode where op: "opcode_of name = Some opcode"
  proof (cases "opcode_of name")
    case None
    with n have False unfolding build_native_flow_protocol_command_def by simp
    then show thesis ..
  qed
  have "builds opcode 1 (build_native_flow_protocol_command W tr policy name args)"
    unfolding build_native_flow_protocol_command_def op option.case by (intro builds_intros builds_families builds_query)
  then have "well_built opcode 1 n" using n by (simp add: builds_def)
  moreover have "lane_for_opcode opcode = 1"
    using opcode_lanes(1) op assms(2) by blast
  moreover have "well_built OP_COMMAND_EXEC 1 c" if "command_exec_protocol_command (wl_py W) (text_lit name) args = Inr c"
    using builds_families(8) that unfolding builds_def by blast
  moreover have "lane_for_opcode OP_COMMAND_EXEC = 1" by (rule opcode_lanes(4))
  ultimately show "pc_opcode c = OP_COMMAND_EXEC \<or> opcode_of name = Some (pc_opcode c)"
    "well_built (pc_opcode c) (lane_for_opcode (pc_opcode c)) c"
    using c op by (auto simp: well_built_def split: if_splits)
qed

lemma basic_built:
  assumes "build_basic_protocol_command W policy name args = Inr c" and "name \<in> set BASIC_COMMANDS"
  shows "opcode_of name = Some (pc_opcode c) \<and> well_built (pc_opcode c) (lane_for_opcode (pc_opcode c)) c"
proof -
  obtain opcode where op: "opcode_of name = Some opcode"
    using assms(1) by (auto simp: build_basic_protocol_command_def split: option.splits)
  show ?thesis
  proof (cases "name \<in> set CONTROL_FAMILY")
    case True
    with assms(1) op have "well_built opcode 0 c"
      using builds_control unfolding build_basic_protocol_command_def builds_def by simp
    moreover have "lane_for_opcode opcode = 0"
      using opcode_lanes(2) True op by blast
    ultimately show ?thesis using op by (auto simp: well_built_def)
  next
    case False
    have "builds opcode 1 (if name \<in> set KV_FAMILY then build_kv_protocol_command W policy name args opcode
          else if name \<in> set COORDINATION_FAMILY then build_coordination_protocol_command name args opcode
          else if name \<in> set HASH_FAMILY then build_hash_protocol_command name args opcode
          else if name \<in> set LIST_FAMILY then build_list_protocol_command (wl_py W) name args opcode
          else if name \<in> set SET_FAMILY then build_set_protocol_command name args opcode
          else if name \<in> set SORTED_SET_FAMILY then build_sorted_set_protocol_command W name args opcode
          else build_admin_protocol_command name args opcode)"
      by (intro builds_intros builds_families)
    then have "well_built opcode 1 c"
      using assms False op unfolding build_basic_protocol_command_def builds_def BASIC_COMMANDS_def
      by (auto split: if_splits)
    moreover have "lane_for_opcode opcode = 1"
      using opcode_lanes(3) assms(2) False op by (auto simp: BASIC_COMMANDS_def DATA_FAMILIES_def)
    ultimately show ?thesis using op by (auto simp: well_built_def)
  qed
qed

lemma exec_built:
  assumes "command_exec_protocol_command L name args = Inr c"
  shows "pc_opcode c = OP_COMMAND_EXEC \<and> well_built (pc_opcode c) (lane_for_opcode (pc_opcode c)) c"
  using assms builds_families(9) [of L name args] opcode_lanes(4)
  by (auto simp: builds_def well_built_def)

text \<open>
  C38. Every command is built well formed. A built command carries the opcode of its own name or the
  generic \<open>COMMAND_EXEC\<close> opcode; control commands are on lane zero and all others on lane one; and its
  payload is raw bytes exactly when the custom-payload flag says so, and a dictionary otherwise.
\<close>
theorem built_commands_well_formed:
  assumes "build_protocol_command W tr policy (n # args) = Inr c"
  shows "(pc_opcode c = OP_COMMAND_EXEC \<or>
      (\<exists>k. known_name (normalize_command_name (wl_py W) n) = Some k \<and> opcode_of k = Some (pc_opcode c))) \<and>
    pc_lane c = (if pc_opcode c \<in> set CONTROL_OPCODES then 0 else 1) \<and>
    (if pc_flags c = FLAG_CUSTOM_PAYLOAD then \<exists>b. pc_payload c = PBytes b
     else pc_flags c = 0 \<and> (\<exists>d. pc_payload c = PDict d))"
proof -
  let ?name = "normalize_command_name (wl_py W) n"
  have built: "build_protocol_command_inner W tr policy (n # args) = Inr c"
    using assms by (auto simp: build_protocol_command_def split: sum.splits py_error.splits)
  have "(pc_opcode c = OP_COMMAND_EXEC \<or> (\<exists>k. known_name ?name = Some k \<and> opcode_of k = Some (pc_opcode c))) \<and>
      well_built (pc_opcode c) (lane_for_opcode (pc_opcode c)) c"
  proof (cases "known_name ?name")
    case None
    with built have "command_exec_protocol_command (wl_py W) ?name args = Inr c"
      by (simp add: build_protocol_command_inner_def Let_def)
    then show ?thesis using exec_built by blast
  next
    case (Some k)
    consider "k = ''COMMAND_EXEC''" | "k \<noteq> ''COMMAND_EXEC''" "k \<in> set BASIC_COMMANDS"
      | "k \<noteq> ''COMMAND_EXEC''" "k \<notin> set BASIC_COMMANDS" "starts_with_flow k"
      | "k \<noteq> ''COMMAND_EXEC''" "k \<notin> set BASIC_COMMANDS" "\<not> starts_with_flow k" by blast
    then show ?thesis
    proof cases
      case 1
      with built Some show ?thesis
        using exec_built by (fastforce simp: build_protocol_command_inner_def Let_def)
    next
      case 2
      with built Some have "build_basic_protocol_command W policy k args = Inr c"
        by (simp add: build_protocol_command_inner_def Let_def)
      with 2 Some show ?thesis using basic_built by blast
    next
      case 3
      with built Some have "build_flow_protocol_command W tr policy k args = Inr c"
        by (simp add: build_protocol_command_inner_def Let_def)
      with 3 Some show ?thesis using flow_built by blast
    next
      case 4
      with built Some show ?thesis
        by (auto simp: build_protocol_command_inner_def Let_def command_in_lane_def well_built_def
            protocol_command_of_def FLAG_CUSTOM_PAYLOAD_def split: option.splits)
    qed
  qed
  then show ?thesis by (simp add: well_built_def lane_for_opcode_def)
qed

theorem built_commands_well_formed_witness:
  "pc_lane (protocol_command_of 0x0102 [(field ''key'', field ''k''), (field ''value'', field ''v'')] 1) =
     (if 0x0102 \<in> set CONTROL_OPCODES then 0 else 1)"
proof -
  have "kv_set_options (wl_py cancel_lib) [] = Inr []" by (simp add: kv_set_options_def has_field_def)
  from build_set [OF this, of "\<lambda>_. True" unbounded_policy "field ''k''" "field ''v''"]
  have "build_protocol_command cancel_lib (\<lambda>_. True) unbounded_policy [field ''SET'', field ''k'', field ''v''] =
      Inr (protocol_command_of 0x0102 [(field ''key'', field ''k''), (field ''value'', field ''v'')] 1)"
    by (simp add: pupdate_def)
  from built_commands_well_formed [OF this] show ?thesis by (simp add: protocol_command_of_def)
qed

end
