(* ===== verification/Client_Commands.thy ===== *)
theory Client_Commands
  imports Written_Options Commands "HOL-Library.Sublist"
begin

text \<open>
  The client's Flow command arguments: the argument writers of \<open>client_helpers.py\<close> for the mutations of a
  claimed job. \<open>codec\<close> is the user's codec, which encodes a value to bytes or raises, and \<open>clock\<close> the time
  that \<open>_now_ms\<close> reads. Named values and attributes are the items of the caller's dictionaries; a missing
  dictionary or list is empty, and \<open>PNone\<close> is a missing value.
\<close>

section \<open>Guards\<close>

definition validate_fencing_token :: "pyval \<Rightarrow> unit result" where
  "validate_fencing_token v = and_then (validate_nonnegative_int v ''fencing_token'') (\<lambda>_. Inr ())"

definition validate_lease_token :: "pyval \<Rightarrow> unit result" where
  "validate_lease_token v =
     (case v of
        PBytes (_ # _) \<Rightarrow> Inr ()
      | _ \<Rightarrow> Inl (ValueError ''lease_token must be non-empty bytes''))"

definition validate_claim_guard :: "pyval \<Rightarrow> pyval \<Rightarrow> unit result" where
  "validate_claim_guard lease fencing = and_then (validate_lease_token lease) (\<lambda>_. validate_fencing_token fencing)"

section \<open>Writers\<close>

type_synonym codec = "pyval \<Rightarrow> bytes result"

type_synonym named_items = "(ustr \<times> pyval) list"

definition append_value :: "pyval list \<Rightarrow> string \<Rightarrow> pyval \<Rightarrow> pyval list" where
  "append_value args name v = (if v = PNone then args else args @ [field name, v])"

definition append_priority :: "pyval list \<Rightarrow> pyval \<Rightarrow> pyval list result" where
  "append_priority args priority =
     and_then (validate_optional_flow_priority priority ''priority'') (\<lambda>p.
       Inr (case p of None \<Rightarrow> args | Some n \<Rightarrow> args @ [field ''PRIORITY'', PInt n]))"

definition append_bool :: "pyval list \<Rightarrow> string \<Rightarrow> pyval \<Rightarrow> pyval list result" where
  "append_bool args name v =
     and_then (validate_optional_bool v name) (\<lambda>b.
       Inr (case b of None \<Rightarrow> args | Some b \<Rightarrow> args @ [field name, field (if b then ''true'' else ''false'')]))"

definition append_encoded :: "codec \<Rightarrow> pyval list \<Rightarrow> string \<Rightarrow> pyval \<Rightarrow> pyval list result" where
  "append_encoded codec args name v =
     (if v = PNone then Inr args else and_then (codec v) (\<lambda>b. Inr (args @ [field name, PBytes b])))"

fun append_entries :: "pyval list \<Rightarrow> string \<Rightarrow> named_items \<Rightarrow> pyval list" where
  "append_entries args token [] = args"
| "append_entries args token ((n, v) # r) = append_entries (args @ [field token, PStr n, v]) token r"

fun append_names :: "pyval list \<Rightarrow> string \<Rightarrow> ustr list \<Rightarrow> pyval list" where
  "append_names args token [] = args"
| "append_names args token (n # r) = append_names (args @ [field token, PStr n]) token r"

fun append_encoded_entries :: "codec \<Rightarrow> pyval list \<Rightarrow> string \<Rightarrow> named_items \<Rightarrow> pyval list result" where
  "append_encoded_entries codec args token [] = Inr args"
| "append_encoded_entries codec args token ((n, v) # r) =
     and_then (codec v) (\<lambda>b. append_encoded_entries codec (args @ [field token, PStr n, PBytes b]) token r)"

definition append_named_values ::
    "codec \<Rightarrow> pyval list \<Rightarrow> named_items \<Rightarrow> named_items \<Rightarrow> ustr list \<Rightarrow> ustr list \<Rightarrow> pyval list result" where
  "append_named_values codec args vs refs drops overrides =
     and_then (append_encoded_entries codec args ''VALUE'' vs) (\<lambda>args.
       let args = append_entries args ''VALUE_REF'' refs;
           args = append_names args ''DROP_VALUE'' drops
       in Inr (append_names args ''OVERRIDE_VALUE'' overrides))"

definition append_attributes :: "pyval list \<Rightarrow> named_items \<Rightarrow> named_items \<Rightarrow> ustr list \<Rightarrow> pyval list" where
  "append_attributes args attributes merged deleted =
     (let args = append_entries args ''ATTRIBUTE'' attributes;
          args = append_entries args ''ATTRIBUTE_MERGE'' merged
      in append_names args ''ATTRIBUTE_DELETE'' deleted)"

definition append_state_meta :: "pyval list \<Rightarrow> named_items \<Rightarrow> pyval list" where
  "append_state_meta args meta = append_entries args ''STATE_META'' meta"

section \<open>Mutations of a claimed job\<close>

record mutation_request =
  mr_id :: pyval
  mr_lease_token :: pyval
  mr_fencing_token :: pyval
  mr_from_state :: pyval
  mr_to_state :: pyval
  mr_partition_key :: pyval
  mr_result :: pyval
  mr_error :: pyval
  mr_payload :: pyval
  mr_values :: named_items
  mr_value_refs :: named_items
  mr_drop_values :: "ustr list"
  mr_override_values :: "ustr list"
  mr_attributes_merge :: named_items
  mr_attributes_delete :: "ustr list"
  mr_state_meta :: named_items
  mr_ttl_ms :: pyval
  mr_run_at_ms :: pyval
  mr_now_ms :: pyval
  mr_priority :: pyval

definition or_else :: "pyval \<Rightarrow> pyval \<Rightarrow> pyval" where
  "or_else v w = (if v = PNone then w else v)"

text \<open>The common end of the four writers.\<close>

definition append_changes :: "codec \<Rightarrow> pyval list \<Rightarrow> mutation_request \<Rightarrow> pyval list result" where
  "append_changes codec args r =
     (let args = append_attributes args [] (mr_attributes_merge r) (mr_attributes_delete r);
          args = append_state_meta args (mr_state_meta r)
      in append_named_values codec args (mr_values r) (mr_value_refs r) (mr_drop_values r) (mr_override_values r))"

definition complete_command_args :: "codec \<Rightarrow> int \<Rightarrow> mutation_request \<Rightarrow> pyval list result" where
  "complete_command_args codec clock r =
     and_then (validate_claim_guard (mr_lease_token r) (mr_fencing_token r)) (\<lambda>_.
     let args = [field ''FLOW.COMPLETE'', mr_id r, mr_lease_token r, field ''FENCING'', mr_fencing_token r,
                 field ''NOW'', or_else (mr_now_ms r) (PInt clock)];
         args = append_value args ''PARTITION'' (mr_partition_key r)
     in
     and_then (append_encoded codec args ''RESULT'' (mr_result r)) (\<lambda>args.
     and_then (append_encoded codec args ''PAYLOAD'' (mr_payload r)) (\<lambda>args.
       append_changes codec (append_value args ''TTL'' (mr_ttl_ms r)) r)))"

definition transition_command_args :: "codec \<Rightarrow> int \<Rightarrow> mutation_request \<Rightarrow> pyval list result" where
  "transition_command_args codec clock r =
     and_then (validate_claim_guard (mr_lease_token r) (mr_fencing_token r)) (\<lambda>_.
     let now_ms = or_else (mr_now_ms r) (PInt clock);
         args = [field ''FLOW.TRANSITION'', mr_id r, mr_from_state r, mr_to_state r, field ''LEASE_TOKEN'',
                 mr_lease_token r, field ''FENCING'', mr_fencing_token r, field ''NOW'', now_ms];
         args = append_value args ''PARTITION'' (mr_partition_key r)
     in
     and_then (append_encoded codec args ''PAYLOAD'' (mr_payload r)) (\<lambda>args.
     and_then (append_priority (append_value args ''RUN_AT'' (or_else (mr_run_at_ms r) now_ms)) (mr_priority r)) (\<lambda>args.
       append_changes codec args r)))"

definition retry_command_args :: "codec \<Rightarrow> int \<Rightarrow> mutation_request \<Rightarrow> pyval list result" where
  "retry_command_args codec clock r =
     and_then (validate_claim_guard (mr_lease_token r) (mr_fencing_token r)) (\<lambda>_.
     let args = [field ''FLOW.RETRY'', mr_id r, mr_lease_token r, field ''FENCING'', mr_fencing_token r,
                 field ''NOW'', or_else (mr_now_ms r) (PInt clock)];
         args = append_value args ''PARTITION'' (mr_partition_key r)
     in
     and_then (append_encoded codec args ''ERROR'' (mr_error r)) (\<lambda>args.
     and_then (append_encoded codec args ''PAYLOAD'' (mr_payload r)) (\<lambda>args.
       append_changes codec (append_value args ''RUN_AT'' (mr_run_at_ms r)) r)))"

definition fail_command_args :: "codec \<Rightarrow> int \<Rightarrow> mutation_request \<Rightarrow> pyval list result" where
  "fail_command_args codec clock r =
     and_then (validate_claim_guard (mr_lease_token r) (mr_fencing_token r)) (\<lambda>_.
     let args = [field ''FLOW.FAIL'', mr_id r, mr_lease_token r, field ''FENCING'', mr_fencing_token r,
                 field ''NOW'', or_else (mr_now_ms r) (PInt clock)];
         args = append_value args ''PARTITION'' (mr_partition_key r)
     in
     and_then (append_encoded codec args ''ERROR'' (mr_error r)) (\<lambda>args.
     and_then (append_encoded codec args ''PAYLOAD'' (mr_payload r)) (\<lambda>args.
       append_changes codec (append_value args ''TTL'' (mr_ttl_ms r)) r)))"

section \<open>The written options\<close>

definition opt_field :: "string \<Rightarrow> pyval \<Rightarrow> written list" where
  "opt_field t v = (if v = PNone then [] else [Written_field t v])"

definition entries :: "string \<Rightarrow> named_items \<Rightarrow> written list" where
  "entries t = map (\<lambda>(n, v). Written_entry t n v)"

definition names :: "string \<Rightarrow> ustr list \<Rightarrow> written list" where
  "names t = map (Written_name t)"

definition opt_payload :: "bytes option \<Rightarrow> written list" where
  "opt_payload b = (case b of None \<Rightarrow> [] | Some b \<Rightarrow> [Written_payload b])"

definition encode_optional :: "codec \<Rightarrow> pyval \<Rightarrow> bytes option result" where
  "encode_optional codec v = (if v = PNone then Inr None else returns (codec v))"

fun encode_values :: "codec \<Rightarrow> named_items \<Rightarrow> named_items result" where
  "encode_values codec [] = Inr []"
| "encode_values codec ((n, v) # r) =
     and_then (codec v) (\<lambda>b. and_then (encode_values codec r) (\<lambda>r. Inr ((n, PBytes b) # r)))"

definition bytes_field :: "string \<Rightarrow> bytes option \<Rightarrow> written list" where
  "bytes_field t b = (case b of None \<Rightarrow> [] | Some b \<Rightarrow> [Written_field t (PBytes b)])"

lemma append_value_written: "append_value args t v = args @ args_of (opt_field t v)"
  by (simp add: append_value_def opt_field_def)

lemma append_entries_written: "append_entries args t es = args @ args_of (entries t es)"
  by (induction args t es rule: append_entries.induct) (simp_all add: entries_def)

lemma append_names_written: "append_names args t ns = args @ args_of (names t ns)"
  by (induction args t ns rule: append_names.induct) (simp_all add: names_def)

lemma append_encoded_written:
  "append_encoded codec args t v =
     and_then (encode_optional codec v) (\<lambda>b. Inr (args @ args_of (bytes_field t b)))"
  by (cases "codec v") (simp_all add: append_encoded_def encode_optional_def bytes_field_def returns_def)

lemma payload_written [simp]: "args_of (bytes_field ''PAYLOAD'' b) = args_of (opt_payload b)"
  by (simp add: bytes_field_def opt_payload_def split: option.split)

lemma encode_missing [simp]: "encode_optional codec PNone = Inr None"
  by (simp add: encode_optional_def)

lemma append_encoded_entries_written:
  "append_encoded_entries codec args t vs =
     and_then (encode_values codec vs) (\<lambda>es. Inr (args @ args_of (entries t es)))"
  by (induction codec args t vs rule: append_encoded_entries.induct)
    (simp_all add: entries_def and_then_assoc cong: and_then_cong)

lemma append_priority_written:
  "append_priority args v =
     and_then (validate_optional_flow_priority v ''priority'') (\<lambda>_. Inr (args @ args_of (opt_field ''PRIORITY'' v)))"
  by (cases v) (simp_all add: append_priority_def validate_optional_flow_priority_def opt_field_def
      validate_bounded_nonnegative_int_def validate_nonnegative_int_def)

section \<open>What the written options mean\<close>

definition value_pair :: "string \<Rightarrow> pyval \<Rightarrow> payload" where
  "value_pair k v = (if v = PNone then [] else [(field k, v)])"

definition bytes_pair :: "string \<Rightarrow> bytes option \<Rightarrow> payload" where
  "bytes_pair k b = (case b of None \<Rightarrow> [] | Some b \<Rightarrow> [(field k, PBytes b)])"

definition dict_pair :: "string \<Rightarrow> named_items \<Rightarrow> payload" where
  "dict_pair k es = (if es = [] then [] else [(field k, PDict (map (\<lambda>(n, v). (PStr n, v)) es))])"

definition names_pair :: "string \<Rightarrow> ustr list \<Rightarrow> payload" where
  "names_pair k ns = (if ns = [] then [] else [(field k, PList (map PStr ns))])"

lemma payload_find_pairs [simp]:
  "payload_find (value_pair j v) k = (if j = k \<and> v \<noteq> PNone then Some v else None)"
  "payload_find (bytes_pair j b) k = (if j = k then map_option PBytes b else None)"
  "payload_find (dict_pair j es) k =
     (if j = k \<and> es \<noteq> [] then Some (PDict (map (\<lambda>(n, v). (PStr n, v)) es)) else None)"
  "payload_find (names_pair j ns) k = (if j = k \<and> ns \<noteq> [] then Some (PList (map PStr ns)) else None)"
  by (auto simp: value_pair_def bytes_pair_def dict_pair_def names_pair_def split: option.split)

definition plain_field :: "string \<Rightarrow> string \<Rightarrow> bool" where
  "plain_field t k \<longleftrightarrow> map_of FLOW_OPTION_FIELD_NAMES t = Some k \<and> t \<notin> set SPECIAL_TOKENS \<and>
     k \<notin> set BOOL_FIELDS \<and> k \<noteq> ''max_active_ms''"

lemma plain_fields:
  "plain_field ''FENCING'' ''fencing_token''" "plain_field ''NOW'' ''now_ms''" "plain_field ''PARTITION'' ''partition_key''"
  "plain_field ''RESULT'' ''result''" "plain_field ''ERROR'' ''error''" "plain_field ''TTL'' ''ttl_ms''"
  "plain_field ''RUN_AT'' ''run_at_ms''" "plain_field ''PRIORITY'' ''priority''" "plain_field ''LEASE_TOKEN'' ''lease_token''"
  by code_simp+

lemma plain_field_ok: "plain_field t k \<Longrightarrow> written_ok (Written_field t v)"
  by (force simp: plain_field_def dest: map_of_SomeD)

lemma plain_effect:
  "plain_field t k \<Longrightarrow> payload_find d k = None \<Longrightarrow> written_effect W (Written_field t v) d = Inr (d @ [(field k, v)])"
  by (simp add: plain_field_def active_value_def field_value_def pset_new)

lemma opt_field_effect:
  "plain_field t k \<Longrightarrow> payload_find d k = None \<Longrightarrow> written_effects W (opt_field t v) d = Inr (d @ value_pair k v)"
  by (simp add: opt_field_def value_pair_def plain_effect del: written_effect.simps)

lemma bytes_field_effect:
  "plain_field t k \<Longrightarrow> payload_find d k = None \<Longrightarrow> written_effects W (bytes_field t b) d = Inr (d @ bytes_pair k b)"
  by (simp add: bytes_field_def bytes_pair_def plain_effect del: written_effect.simps split: option.split)

lemma opt_payload_effect:
  "payload_find d ''payload'' = None \<Longrightarrow> written_effects W (opt_payload b) d = Inr (d @ bytes_pair ''payload'' b)"
  by (simp add: opt_payload_def bytes_pair_def pset_new split: option.split)

lemma pset_again: "payload_find d k = None \<Longrightarrow> pset (d @ [(field k, v)]) k w = d @ [(field k, w)]"
  unfolding payload_find_def pset_def field_def [symmetric] by (induction d) (auto split: if_splits)

lemma entries_effect_aux:
  assumes "payload_find d k = None" and "map_of ENTRY_FIELDS t = Some k"
    and "distinct (map fst (es @ fs))"
  shows "written_effects W (entries t fs) (d @ [(field k, PDict (map (\<lambda>(n, v). (PStr n, v)) es))]) =
    Inr (d @ [(field k, PDict (map (\<lambda>(n, v). (PStr n, v)) (es @ fs)))])"
  using assms
proof (induction fs arbitrary: es)
  case (Cons f fs)
  obtain n v where f: "f = (n, v)" by (cases f)
  have "dict_set (map (\<lambda>(n, v). (PStr n, v)) es) (PStr n) v = map (\<lambda>(n, v). (PStr n, v)) (es @ [(n, v)])"
    if "n \<notin> fst ` set es" for es
    using that by (induction es) (auto split: if_splits)
  moreover have "n \<notin> fst ` set es" using Cons.prems(3) f by auto
  ultimately have "put_in (d @ [(field k, PDict (map (\<lambda>(n, v). (PStr n, v)) es))]) k n v =
      Inr (d @ [(field k, PDict (map (\<lambda>(n, v). (PStr n, v)) (es @ [(n, v)])))])"
    using Cons.prems(1) by (simp add: put_in_def payload_get_or_def pset_again)
  with Cons.IH [of "es @ [(n, v)]"] Cons.prems f show ?case by (simp add: entries_def)
qed (simp add: entries_def)

lemma entries_effect:
  assumes "map_of ENTRY_FIELDS t = Some k" and "payload_find d k = None" and "distinct (map fst es)"
  shows "written_effects W (entries t es) d = Inr (d @ dict_pair k es)"
proof (cases es)
  case (Cons e r)
  obtain n v where e: "e = (n, v)" by (cases e)
  have "put_in d k n v = Inr (d @ [(field k, PDict [(PStr n, v)])])"
    using assms(2) by (simp add: put_in_def payload_get_or_def pset_new)
  with entries_effect_aux [OF assms(2,1), of "[(n, v)]" r W] assms Cons e show ?thesis
    by (simp add: entries_def dict_pair_def)
qed (simp add: entries_def dict_pair_def)

lemma names_effect_aux:
  assumes "payload_find d k = None" and "map_of NAME_FIELDS t = Some k"
  shows "written_effects W (names t ms) (d @ [(field k, PList (map PStr ns))]) =
    Inr (d @ [(field k, PList (map PStr (ns @ ms)))])"
  using assms
proof (induction ms arbitrary: ns)
  case (Cons m ms)
  have "t \<noteq> ''RETURN''" using assms(2) by (auto simp: NAME_FIELDS_def)
  moreover have "append_to (d @ [(field k, PList (map PStr ns))]) k (PStr m) =
      Inr (d @ [(field k, PList (map PStr (ns @ [m])))])"
    using Cons.prems(1) by (simp add: append_to_def payload_get_or_def pset_again)
  ultimately show ?case using Cons.IH [of "ns @ [m]"] Cons.prems by (simp add: names_def)
qed (simp add: names_def)

lemma names_effect:
  assumes "map_of NAME_FIELDS t = Some k" and "payload_find d k = None"
  shows "written_effects W (names t ns) d = Inr (d @ names_pair k ns)"
proof (cases ns)
  case (Cons m r)
  have "t \<noteq> ''RETURN''" using assms(1) by (auto simp: NAME_FIELDS_def)
  moreover have "append_to d k (PStr m) = Inr (d @ [(field k, PList [PStr m])])"
    using assms(2) by (simp add: append_to_def payload_get_or_def pset_new)
  ultimately show ?thesis
    using names_effect_aux [OF assms(2,1), of W r "[m]"] assms Cons by (simp add: names_def names_pair_def)
qed (simp add: names_def names_pair_def)

definition change_writes :: "mutation_request \<Rightarrow> named_items \<Rightarrow> written list" where
  "change_writes r es =
     entries ''ATTRIBUTE_MERGE'' (mr_attributes_merge r) @ names ''ATTRIBUTE_DELETE'' (mr_attributes_delete r) @
     entries ''STATE_META'' (mr_state_meta r) @ entries ''VALUE'' es @ entries ''VALUE_REF'' (mr_value_refs r) @
     names ''DROP_VALUE'' (mr_drop_values r) @ names ''OVERRIDE_VALUE'' (mr_override_values r)"

definition change_fields :: "mutation_request \<Rightarrow> named_items \<Rightarrow> payload" where
  "change_fields r es =
     dict_pair ''attributes_merge'' (mr_attributes_merge r) @ names_pair ''attributes_delete'' (mr_attributes_delete r) @
     dict_pair ''state_meta'' (mr_state_meta r) @ dict_pair ''values'' es @ dict_pair ''value_refs'' (mr_value_refs r) @
     names_pair ''drop_values'' (mr_drop_values r) @ names_pair ''override_values'' (mr_override_values r)"

definition distinct_names :: "mutation_request \<Rightarrow> bool" where
  "distinct_names r \<longleftrightarrow> distinct (map fst (mr_values r)) \<and> distinct (map fst (mr_value_refs r)) \<and>
     distinct (map fst (mr_attributes_merge r)) \<and> distinct (map fst (mr_state_meta r))"

lemma encode_values_names: "encode_values codec vs = Inr es \<Longrightarrow> map fst es = map fst vs"
  by (induction codec vs arbitrary: es rule: encode_values.induct) auto

lemma append_changes_written:
  "append_changes codec args r =
     and_then (encode_values codec (mr_values r)) (\<lambda>es. Inr (args @ args_of (change_writes r es)))"
  by (simp add: append_changes_def append_attributes_def append_state_meta_def append_named_values_def Let_def
      append_entries_written append_names_written append_encoded_entries_written and_then_assoc change_writes_def
      entries_def)

lemma change_effect:
  assumes "distinct_names r" and "encode_values codec (mr_values r) = Inr es"
    and "\<forall>k\<in>{''attributes_merge'', ''attributes_delete'', ''state_meta'', ''values'', ''value_refs'', ''drop_values'',
      ''override_values''}. payload_find d k = None"
  shows "written_effects W (change_writes r es) d = Inr (d @ change_fields r es)"
  using assms encode_values_names [OF assms(2)]
  by (simp add: change_writes_def change_fields_def written_effects_append entries_effect names_effect
      ENTRY_FIELDS_def NAME_FIELDS_def distinct_names_def)

lemma changes_ok: "list_all written_ok (change_writes r es)"
  by (auto simp: change_writes_def entries_def names_def list_all_iff ENTRY_FIELDS_def NAME_FIELDS_def)

text \<open>
  The kinds of a job mutation, the command each sends, the options it writes after the positional
  arguments, and the payload those stand for; \<open>out\<close> and \<open>pay\<close> are the encoded result or error and payload.
\<close>

datatype mutation_kind = COMPLETE | TRANSITION | RETRY | FAIL

definition mutation_name :: "mutation_kind \<Rightarrow> string" where
  "mutation_name kind =
     (case kind of COMPLETE \<Rightarrow> ''FLOW.COMPLETE'' | TRANSITION \<Rightarrow> ''FLOW.TRANSITION'' | RETRY \<Rightarrow> ''FLOW.RETRY''
      | FAIL \<Rightarrow> ''FLOW.FAIL'')"

definition mutation_command_args :: "codec \<Rightarrow> int \<Rightarrow> mutation_kind \<Rightarrow> mutation_request \<Rightarrow> pyval list result" where
  "mutation_command_args codec clock kind r =
     (case kind of
        COMPLETE \<Rightarrow> complete_command_args codec clock r
      | TRANSITION \<Rightarrow> transition_command_args codec clock r
      | RETRY \<Rightarrow> retry_command_args codec clock r
      | FAIL \<Rightarrow> fail_command_args codec clock r)"

definition mutation_out :: "mutation_kind \<Rightarrow> mutation_request \<Rightarrow> pyval" where
  "mutation_out kind r = (case kind of COMPLETE \<Rightarrow> mr_result r | TRANSITION \<Rightarrow> PNone | _ \<Rightarrow> mr_error r)"

definition mutation_positional :: "mutation_kind \<Rightarrow> mutation_request \<Rightarrow> payload" where
  "mutation_positional kind r =
     (if kind = TRANSITION then
        [(field ''id'', mr_id r), (field ''from_state'', mr_from_state r), (field ''to_state'', mr_to_state r)]
      else [(field ''id'', mr_id r), (field ''lease_token'', mr_lease_token r)])"

definition mutation_writes ::
    "int \<Rightarrow> mutation_kind \<Rightarrow> mutation_request \<Rightarrow> bytes option \<Rightarrow> bytes option \<Rightarrow> named_items \<Rightarrow> written list" where
  "mutation_writes clock kind r out pay es =
     (let now = or_else (mr_now_ms r) (PInt clock);
          guards = [Written_field ''FENCING'' (mr_fencing_token r), Written_field ''NOW'' now] @
            opt_field ''PARTITION'' (mr_partition_key r)
      in (case kind of
            COMPLETE \<Rightarrow> guards @ bytes_field ''RESULT'' out @ opt_payload pay @ opt_field ''TTL'' (mr_ttl_ms r)
          | TRANSITION \<Rightarrow> Written_field ''LEASE_TOKEN'' (mr_lease_token r) # guards @ opt_payload pay @
              opt_field ''RUN_AT'' (or_else (mr_run_at_ms r) now) @ opt_field ''PRIORITY'' (mr_priority r)
          | RETRY \<Rightarrow> guards @ bytes_field ''ERROR'' out @ opt_payload pay @ opt_field ''RUN_AT'' (mr_run_at_ms r)
          | FAIL \<Rightarrow> guards @ bytes_field ''ERROR'' out @ opt_payload pay @ opt_field ''TTL'' (mr_ttl_ms r)) @
         change_writes r es)"

definition mutation_fields ::
    "int \<Rightarrow> mutation_kind \<Rightarrow> mutation_request \<Rightarrow> bytes option \<Rightarrow> bytes option \<Rightarrow> named_items \<Rightarrow> payload" where
  "mutation_fields clock kind r out pay es =
     (let now = or_else (mr_now_ms r) (PInt clock);
          guards = [(field ''fencing_token'', mr_fencing_token r), (field ''now_ms'', now)] @
            value_pair ''partition_key'' (mr_partition_key r)
      in (case kind of
            COMPLETE \<Rightarrow> guards @ bytes_pair ''result'' out @ bytes_pair ''payload'' pay @ value_pair ''ttl_ms'' (mr_ttl_ms r)
          | TRANSITION \<Rightarrow> (field ''lease_token'', mr_lease_token r) # guards @ bytes_pair ''payload'' pay @
              value_pair ''run_at_ms'' (or_else (mr_run_at_ms r) now) @ value_pair ''priority'' (mr_priority r)
          | RETRY \<Rightarrow> guards @ bytes_pair ''error'' out @ bytes_pair ''payload'' pay @ value_pair ''run_at_ms'' (mr_run_at_ms r)
          | FAIL \<Rightarrow> guards @ bytes_pair ''error'' out @ bytes_pair ''payload'' pay @ value_pair ''ttl_ms'' (mr_ttl_ms r)) @
         change_fields r es)"

lemma mutation_args_written:
  assumes "mutation_command_args codec clock kind r = Inr args"
  obtains out pay es where "encode_optional codec (mutation_out kind r) = Inr out"
    and "encode_optional codec (mr_payload r) = Inr pay" and "encode_values codec (mr_values r) = Inr es"
    and "validate_claim_guard (mr_lease_token r) (mr_fencing_token r) = Inr ()"
    and "args = field (mutation_name kind) # map snd (mutation_positional kind r) @ args_of (mutation_writes clock kind r out pay es)"
  using assms
  by (cases kind)
    (auto simp: mutation_command_args_def complete_command_args_def transition_command_args_def retry_command_args_def
      fail_command_args_def Let_def append_value_written append_encoded_written
      append_priority_written append_changes_written mutation_name_def mutation_out_def mutation_positional_def
      mutation_writes_def)

lemma mutation_effect:
  assumes "distinct_names r" and "encode_values codec (mr_values r) = Inr es"
  shows "written_effects W (mutation_writes clock kind r out pay es) [] = Inr (mutation_fields clock kind r out pay es)"
  by (cases kind)
    (simp_all add: mutation_writes_def mutation_fields_def Let_def written_effects_append
      plain_effect [OF plain_fields(1)] plain_effect [OF plain_fields(2)] plain_effect [OF plain_fields(9)]
      opt_field_effect [OF plain_fields(3)] opt_field_effect [OF plain_fields(6)] opt_field_effect [OF plain_fields(7)]
      opt_field_effect [OF plain_fields(8)] bytes_field_effect [OF plain_fields(4)] bytes_field_effect [OF plain_fields(5)]
      opt_payload_effect change_effect [OF assms] del: written_effect.simps and_then_eq_Inr)

lemma mutation_ok: "list_all written_ok (mutation_writes clock kind r out pay es)"
proof -
  have "list_all written_ok (opt_field t v)" "list_all written_ok (bytes_field t b)" "written_ok (Written_field t v)"
    if "plain_field t k" for t k v b
    using plain_field_ok [OF that] by (simp_all add: opt_field_def bytes_field_def split: option.split)
  note ok = this [OF plain_fields(1)] this [OF plain_fields(2)] this [OF plain_fields(3)] this [OF plain_fields(4)]
    this [OF plain_fields(5)] this [OF plain_fields(6)] this [OF plain_fields(7)] this [OF plain_fields(8)]
    this [OF plain_fields(9)]
  have "list_all written_ok (opt_payload pay)" by (simp add: opt_payload_def split: option.split)
  with ok changes_ok [of r es] show ?thesis
    by (cases kind) (simp_all add: mutation_writes_def Let_def del: written_ok.simps)
qed

lemma plan_entry_ints:
  "\<forall>v\<in>set args. \<not> isl (non_negative_int L v) \<Longrightarrow> \<not> isl (plan_entry L args tokens valid i)"
proof -
  assume ints: "\<forall>v\<in>set args. \<not> isl (non_negative_int L v)"
  have "non_negative_int L PNone = Inr None" by (simp add: non_negative_int_def caught_int_def py_int_def)
  then have "\<not> isl (non_negative_int L (arg_or_none args (i + 1)))"
    using ints by (auto simp: arg_or_none_def)
  then obtain n where "non_negative_int L (arg_or_none args (i + 1)) = Inr n" by (metis isr_iff)
  then show ?thesis by (cases "tokens ! i") (simp_all add: plan_entry_def Let_def split: option.split)
qed

lemma plan_ints:
  assumes "\<forall>v\<in>set args. \<not> isl (non_negative_int L v)"
  shows "\<exists>p. flow_option_plan L args = Inr p"
proof -
  have "\<not> isl (plan_loop L args tokens n valid)" for tokens n valid
  proof (induction n arbitrary: valid)
    case (Suc n)
    obtain b where "plan_entry L args tokens valid n = Inr b" using plan_entry_ints [OF assms] by (metis isr_iff)
    with Suc show ?case by simp
  qed simp
  then obtain v where "plan_loop L args (map (option_token L) args) (length args)
      ((replicate (length args + 1) False)[length args := True]) = Inr v" by (metis isr_iff)
  then show ?thesis by (simp add: flow_option_plan_def Let_def)
qed

lemma pupdate_new:
  "distinct (map fst (d @ e)) \<Longrightarrow> pupdate d e = d @ e"
proof (induction e arbitrary: d)
  case (Cons x e)
  obtain k v where x: "x = (k, v)" by (cases x)
  have "dict_set d k v = d @ [(k, v)]" if "k \<notin> fst ` set d" for d :: payload
    using that by (induction d) (auto split: if_splits)
  with Cons x show ?case by (simp add: pupdate_def)
qed (simp add: pupdate_def)

lemma pair_keys:
  "subseq (map fst (value_pair k v)) [field k]" "subseq (map fst (bytes_pair k b)) [field k]"
  "subseq (map fst (dict_pair k es)) [field k]" "subseq (map fst (names_pair k ns)) [field k]"
  by (simp_all add: value_pair_def bytes_pair_def dict_pair_def names_pair_def split: option.split)

lemma subseq_more: "subseq xs [x] \<Longrightarrow> subseq ys zs \<Longrightarrow> subseq (xs @ ys) (x # zs)"
  using list_emb_append_mono [of "(=)" xs "[x]" ys zs] by simp

lemma change_keys:
  "subseq (map fst (change_fields r es))
    (map field [''attributes_merge'', ''attributes_delete'', ''state_meta'', ''values'', ''value_refs'', ''drop_values'',
      ''override_values''])"
  unfolding change_fields_def map_append list.map by (intro subseq_more pair_keys list_emb_Nil2)

definition mutation_keys :: "mutation_kind \<Rightarrow> string list" where
  "mutation_keys kind =
     (case kind of
        COMPLETE \<Rightarrow> [''id'', ''lease_token'', ''fencing_token'', ''now_ms'', ''partition_key'', ''result'', ''payload'', ''ttl_ms'']
      | TRANSITION \<Rightarrow> [''id'', ''from_state'', ''to_state'', ''lease_token'', ''fencing_token'', ''now_ms'', ''partition_key'',
          ''payload'', ''run_at_ms'', ''priority'']
      | RETRY \<Rightarrow> [''id'', ''lease_token'', ''fencing_token'', ''now_ms'', ''partition_key'', ''error'', ''payload'', ''run_at_ms'']
      | FAIL \<Rightarrow> [''id'', ''lease_token'', ''fencing_token'', ''now_ms'', ''partition_key'', ''error'', ''payload'', ''ttl_ms'']) @
     [''attributes_merge'', ''attributes_delete'', ''state_meta'', ''values'', ''value_refs'', ''drop_values'', ''override_values'']"

lemma mutation_distinct: "distinct (map fst (mutation_positional kind r @ mutation_fields clock kind r out pay es))"
proof -
  have "subseq (map fst (mutation_positional kind r @ mutation_fields clock kind r out pay es)) (map field (mutation_keys kind))"
    using change_keys [of r es]
    by (cases kind)
      (simp_all add: mutation_positional_def mutation_fields_def mutation_keys_def Let_def subseq_more pair_keys)
  moreover have "distinct (map field (mutation_keys kind))"
    by (cases kind) (simp_all add: mutation_keys_def)
  ultimately show ?thesis by (metis mem_Collect_eq set_subseqs_eq subseqs_distinctD)
qed

section \<open>Mutations reach the wire\<close>

lemma positional_written:
  "positional (map snd (mutation_positional kind r) @ opts) 0 (if kind = TRANSITION then [''id'', ''from_state'', ''to_state'']
     else [''id'', ''lease_token'']) = Inr (mutation_positional kind r)"
  by (simp add: mutation_positional_def require_arg_def)

lemma mutation_opcodes:
  "opcode_of ''FLOW.COMPLETE'' = Some 0x0204" "opcode_of ''FLOW.TRANSITION'' = Some 0x0205"
  "opcode_of ''FLOW.RETRY'' = Some 0x0206" "opcode_of ''FLOW.FAIL'' = Some 0x0207"
  by code_simp+

lemma mutation_payload:
  assumes "distinct_names r" and "encode_values codec (mr_values r) = Inr es"
    and "flow_option_plan (wl_py W) (args_of (mutation_writes clock kind r out pay es)) = Inr p"
  shows "build_flow_mutation W (mutation_name kind)
      (map snd (mutation_positional kind r) @ args_of (mutation_writes clock kind r out pay es)) opcode =
    Inr (plain_command opcode (mutation_positional kind r @ mutation_fields clock kind r out pay es))"
proof -
  let ?ks = "if kind = TRANSITION then [''id'', ''from_state'', ''to_state''] else [''id'', ''lease_token'']"
  let ?opts = "args_of (mutation_writes clock kind r out pay es)"
  let ?d = "mutation_positional kind r @ mutation_fields clock kind r out pay es"
  have "length ?ks = length (map snd (mutation_positional kind r))" by (simp add: mutation_positional_def)
  then have "with_options W False ?ks (map snd (mutation_positional kind r) @ ?opts) = Inr ?d"
    using written_options [OF mutation_ok assms(3)] mutation_effect [OF assms(1,2)] pupdate_new [OF mutation_distinct]
    by (simp add: with_options_def positional_written)
  moreover have "has_field ?d ''fencing_token''" "has_field ?d ''lease_token''"
    by (cases kind; simp add: has_field_def mutation_fields_def mutation_positional_def Let_def)+
  ultimately show ?thesis
    by (cases kind) (simp_all add: mutation_name_def build_flow_mutation_def guarded_command_Inr)
qed


definition sample_mutation :: mutation_request where
  "sample_mutation =
     \<lparr>mr_id = field ''JOB'', mr_lease_token = PBytes [7], mr_fencing_token = PInt 3, mr_from_state = PNone,
      mr_to_state = PNone, mr_partition_key = PNone, mr_result = PNone, mr_error = PNone, mr_payload = field ''TTL'',
      mr_values = [], mr_value_refs = [], mr_drop_values = [], mr_override_values = [], mr_attributes_merge = [],
      mr_attributes_delete = [], mr_state_meta = [], mr_ttl_ms = PInt 60, mr_run_at_ms = PNone, mr_now_ms = PNone,
      mr_priority = PNone\<rparr>"

definition int_lib :: wire_lib where
  "int_lib = cancel_lib\<lparr>wl_py := ascii_lib\<lparr>int_of := (\<lambda>_. Inl (ValueError ''int''))\<rparr>\<rparr>"


end
