(* ===== verification/Client_Batches.thy ===== *)
theory Client_Batches
  imports Client_Commands
begin

text \<open>
  Batches written by the client: the items of claimed and fenced jobs and the arguments of
  \<open>FLOW.COMPLETE_MANY\<close> in \<open>client_helpers.py\<close>, and the grouping of \<open>CreateManyPlan\<close> in \<open>batch_core.py\<close>.
\<close>

section \<open>Claimed and fenced items\<close>

record claimed_flow =
  cf_id :: pyval
  cf_lease_token :: pyval
  cf_fencing_token :: pyval
  cf_partition_key :: pyval

fun append_claimed_items :: "pyval list \<Rightarrow> pyval \<Rightarrow> claimed_flow list \<Rightarrow> pyval list result" where
  "append_claimed_items args partition_key [] = Inr args"
| "append_claimed_items args partition_key (item # rest) =
     and_then (validate_claim_guard (cf_lease_token item) (cf_fencing_token item)) (\<lambda>_.
     if partition_key = PNone then
       if cf_partition_key item = PNone then Inl (ValueError ''mixed items require partition_key'')
       else append_claimed_items
         (args @ [cf_id item, cf_partition_key item, cf_lease_token item, cf_fencing_token item]) partition_key rest
     else if cf_partition_key item \<noteq> PNone \<and> cf_partition_key item \<noteq> partition_key
     then Inl (ValueError ''item partition_key does not match batch partition_key'')
     else append_claimed_items
       (args @ [cf_id item, cf_lease_token item, cf_fencing_token item]) partition_key rest)"

definition append_claimed_items_args :: "pyval list \<Rightarrow> pyval \<Rightarrow> claimed_flow list \<Rightarrow> pyval list result" where
  "append_claimed_items_args args partition_key items =
     append_claimed_items (args @ [field ''ITEMS'']) partition_key items"

record fenced_job =
  fj_id :: pyval
  fj_fencing_token :: pyval
  fj_lease_token :: pyval
  fj_partition_key :: pyval

fun check_fenced_items :: "pyval \<Rightarrow> fenced_job list \<Rightarrow> bool \<Rightarrow> unit result" where
  "check_fenced_items partition_key [] include_lease = Inr ()"
| "check_fenced_items partition_key (item # rest) include_lease =
     and_then (validate_fencing_token (fj_fencing_token item)) (\<lambda>_.
     and_then (if include_lease then validate_lease_token (fj_lease_token item) else Inr ()) (\<lambda>_.
     if partition_key = PNone \<and> fj_partition_key item = PNone
     then Inl (ValueError ''mixed items require partition_key'')
     else if partition_key \<noteq> PNone \<and> fj_partition_key item \<noteq> PNone \<and> fj_partition_key item \<noteq> partition_key
     then Inl (ValueError ''item partition_key does not match batch partition_key'')
     else check_fenced_items partition_key rest include_lease))"

definition fenced_row :: "pyval \<Rightarrow> bool \<Rightarrow> fenced_job \<Rightarrow> pyval list" where
  "fenced_row partition_key include_lease item =
     [fj_id item] @ (if partition_key = PNone then [fj_partition_key item] else []) @ [fj_fencing_token item] @
     (if include_lease then [fj_lease_token item] else [])"

definition append_fenced_items_args ::
    "pyval list \<Rightarrow> pyval \<Rightarrow> fenced_job list \<Rightarrow> bool \<Rightarrow> pyval list result" where
  "append_fenced_items_args args partition_key items include_lease =
     and_then (check_fenced_items partition_key items include_lease) (\<lambda>_.
       Inr (args @ [field ''ITEMS''] @ concat (map (fenced_row partition_key include_lease) items)))"

definition complete_many_args ::
    "codec \<Rightarrow> int \<Rightarrow> pyval \<Rightarrow> claimed_flow list \<Rightarrow> mutation_request \<Rightarrow> pyval \<Rightarrow> bool \<Rightarrow> pyval list result" where
  "complete_many_args codec clock partition_key items r indep return_ok_on_success =
     (let args = [field ''FLOW.COMPLETE_MANY'', or_else partition_key (field ''MIXED'')] in
      and_then (append_encoded codec args ''RESULT'' (mr_result r)) (\<lambda>args.
      and_then (append_encoded codec args ''PAYLOAD'' (mr_payload r)) (\<lambda>args.
      let args = append_value args ''TTL'' (mr_ttl_ms r);
          args = append_value args ''NOW'' (or_else (mr_now_ms r) (PInt clock))
      in
      and_then (append_bool args ''INDEPENDENT'' indep) (\<lambda>args.
      let args = append_attributes args [] (mr_attributes_merge r) (mr_attributes_delete r);
          args = append_state_meta args (mr_state_meta r);
          args = (if return_ok_on_success then append_value args ''RETURN'' (field ''OK_ON_SUCCESS'') else args)
      in
      and_then (append_named_values codec args (mr_values r) (mr_value_refs r) (mr_drop_values r) (mr_override_values r))
        (\<lambda>args. append_claimed_items (args @ [field ''ITEMS'']) partition_key items)))))"

definition complete_jobs_command_args ::
    "codec \<Rightarrow> int \<Rightarrow> claimed_flow list \<Rightarrow> pyval \<Rightarrow> pyval \<Rightarrow> pyval \<Rightarrow> pyval \<Rightarrow> pyval \<Rightarrow> pyval list result" where
  "complete_jobs_command_args codec clock jobs outcome payload ttl_ms now_ms indep =
     (case jobs of
        [] \<Rightarrow> Inl IndexError
      | job # _ \<Rightarrow>
          let first_partition = cf_partition_key job;
              partition_key =
                (if first_partition \<noteq> PNone \<and> list_all (\<lambda>job. cf_partition_key job = first_partition) jobs
                 then first_partition else PNone);
              args = [field ''FLOW.COMPLETE_MANY'', or_else partition_key (field ''MIXED'')]
          in
          and_then (append_encoded codec args ''RESULT'' outcome) (\<lambda>args.
          and_then (append_encoded codec args ''PAYLOAD'' payload) (\<lambda>args.
          let args = append_value args ''TTL'' ttl_ms;
              args = append_value args ''NOW'' (or_else now_ms (PInt clock))
          in
          and_then (append_bool args ''INDEPENDENT'' indep) (\<lambda>args.
          and_then (append_bool args ''TERMINAL_LOCAL_ONLY'' (PBool True)) (\<lambda>args.
            append_claimed_items_args args partition_key jobs)))))"

section \<open>Items read back\<close>

definition claimed_row :: "pyval \<Rightarrow> claimed_flow \<Rightarrow> pyval list" where
  "claimed_row partition_key item =
     [cf_id item] @ (if partition_key = PNone then [cf_partition_key item] else []) @
     [cf_lease_token item, cf_fencing_token item]"

definition guarded_item :: "claimed_flow \<Rightarrow> bool" where
  "guarded_item item \<longleftrightarrow>
     (\<exists>b bs n. cf_lease_token item = PBytes (b # bs) \<and> cf_fencing_token item = PInt n \<and> 0 \<le> n)"

lemma claim_guard_Inr:
  "validate_claim_guard lease fencing = Inr u \<longleftrightarrow> (\<exists>b bs n. lease = PBytes (b # bs) \<and> fencing = PInt n \<and> 0 \<le> n)"
  by (auto simp: validate_claim_guard_def validate_lease_token_def validate_fencing_token_def
      validate_nonnegative_int_def split: pyval.splits list.splits if_splits)

lemma append_claimed_Inr:
  "append_claimed_items args k items = Inr out \<Longrightarrow>
     out = args @ concat (map (claimed_row k) items) \<and> list_all guarded_item items \<and>
     list_all (\<lambda>i. if k = PNone then cf_partition_key i \<noteq> PNone else cf_partition_key i \<in> {PNone, k}) items"
  by (induction args k items rule: append_claimed_items.induct)
    (auto simp: claim_guard_Inr guarded_item_def claimed_row_def split: if_splits)

lemma rows_concat:
  "0 < w \<Longrightarrow> list_all (\<lambda>r. length r = w) rs \<Longrightarrow> rows w (concat rs) = rs"
proof (induction rs)
  case Nil
  then show ?case by (simp add: rows.simps)
next
  case (Cons r rs)
  then have "concat (r # rs) \<noteq> []" by auto
  then show ?case using Cons by (simp add: rows.simps [of w "r @ concat rs"])
qed

lemma length_concat_rows: "list_all (\<lambda>r. length r = w) rs \<Longrightarrow> length (concat rs) = w * length rs"
  by (induction rs) auto

lemma parse_claimed_written:
  "parse_claimed_items (concat (map (claimed_row k) items)) (k = PNone) = Inr (map (\<lambda>i. PList (claimed_row k i)) items)"
proof -
  let ?w = "if k = PNone then 4 else 3 :: nat"
  have "list_all (\<lambda>r. length r = ?w) (map (claimed_row k) items)"
    by (simp add: list_all_iff claimed_row_def)
  then have "rows ?w (concat (map (claimed_row k) items)) = map (claimed_row k) items"
    "length (concat (map (claimed_row k) items)) mod ?w = 0"
    using length_concat_rows [of ?w "map (claimed_row k) items"] by (simp_all add: rows_concat del: length_concat)
  then show ?thesis by (simp add: parse_claimed_items_def Let_def comp_def del: length_concat)
qed

lemma find_written:
  assumes "flow_option_plan L (x # args_of ws @ field ''ITEMS'' # rest) = Inr p" and "list_all written_ok ws"
  shows "find_item_token L (x # args_of ws @ field ''ITEMS'' # rest) 1 = Inr (1 + length (args_of ws))"
proof -
  let ?args = "x # args_of ws @ field ''ITEMS'' # rest"
  have items: "''ITEMS'' \<in> set FLOW_OPTION_TOKENS" by code_simp
  have "option_suffix L (field ''ITEMS'' # rest)"
    by (rule option_suffix.items [OF option_token_field [OF items]]) simp
  then have "marker_walk L p ?args 1 = marker_walk L p ?args (1 + length (args_of ws))"
    using marker_walk_written [of L "[x]" ws "field ''ITEMS'' # rest" p] assms by simp
  also have "\<dots> = Inr (Some (1 + length (args_of ws), text_lit ''ITEMS''))"
    using token_upper [OF items, of L] by (subst marker_walk.simps) (simp add: Let_def command_token_name ITEM_MARKERS_def)
  finally show ?thesis using assms(1) by (simp add: find_item_token_def find_flow_many_item_marker_def)
qed

section \<open>Options of a batch\<close>

definition bool_field :: "string \<Rightarrow> pyval \<Rightarrow> written list" where
  "bool_field t v = (case v of PBool b \<Rightarrow> [Written_field t (field (if b then ''true'' else ''false''))] | _ \<Rightarrow> [])"

definition bool_pair :: "string \<Rightarrow> pyval \<Rightarrow> payload" where
  "bool_pair k v = (case v of PBool b \<Rightarrow> [(field k, PBool b)] | _ \<Rightarrow> [])"

definition lowers_booleans :: "wire_lib \<Rightarrow> bool" where
  "lowers_booleans W \<longleftrightarrow>
     wl_lower W (text_lit ''true'') = text_lit ''true'' \<and> wl_lower W (text_lit ''false'') = text_lit ''false''"

lemma append_bool_written:
  "append_bool args t v = and_then (validate_optional_bool v t) (\<lambda>_. Inr (args @ args_of (bool_field t v)))"
  by (cases v) (simp_all add: append_bool_def validate_optional_bool_def bool_field_def)

lemma independent_field:
  "map_of FLOW_OPTION_FIELD_NAMES ''INDEPENDENT'' = Some ''independent''" "''INDEPENDENT'' \<notin> set SPECIAL_TOKENS"
  by code_simp+

lemma independent_effect:
  assumes "lowers_booleans W" and "payload_find d ''independent'' = None"
  shows "written_effects W (bool_field ''INDEPENDENT'' v) d = Inr (d @ bool_pair ''independent'' v)"
proof -
  have "field_value W ''independent'' (field (if b then ''true'' else ''false'')) = Inr (PBool b)" for b
    using assms(1) by (simp add: field_value_def BOOL_FIELDS_def coerce_bool_def Let_def field_def lowers_booleans_def named_def text_lit_inj)
  then show ?thesis
    using assms(2) by (simp add: bool_field_def bool_pair_def independent_field active_value_def pset_new split: pyval.split)
qed

lemma payload_find_bool [simp]: "payload_find (bool_pair j v) k = (case v of PBool b \<Rightarrow> if j = k then Some v else None | _ \<Rightarrow> None)"
  by (simp add: bool_pair_def split: pyval.split)

definition batch_writes ::
    "int \<Rightarrow> mutation_request \<Rightarrow> pyval \<Rightarrow> bool \<Rightarrow> bytes option \<Rightarrow> bytes option \<Rightarrow> named_items \<Rightarrow> written list" where
  "batch_writes clock r indep return_ok out pay es =
     bytes_field ''RESULT'' out @ opt_payload pay @ opt_field ''TTL'' (mr_ttl_ms r) @
     opt_field ''NOW'' (or_else (mr_now_ms r) (PInt clock)) @ bool_field ''INDEPENDENT'' indep @
     entries ''ATTRIBUTE_MERGE'' (mr_attributes_merge r) @ names ''ATTRIBUTE_DELETE'' (mr_attributes_delete r) @
     entries ''STATE_META'' (mr_state_meta r) @
     (if return_ok then [Written_name ''RETURN'' (text_lit ''OK_ON_SUCCESS'')] else []) @
     entries ''VALUE'' es @ entries ''VALUE_REF'' (mr_value_refs r) @ names ''DROP_VALUE'' (mr_drop_values r) @
     names ''OVERRIDE_VALUE'' (mr_override_values r)"

definition batch_fields ::
    "wire_lib \<Rightarrow> int \<Rightarrow> mutation_request \<Rightarrow> pyval \<Rightarrow> bool \<Rightarrow> bytes option \<Rightarrow> bytes option \<Rightarrow> named_items \<Rightarrow> payload" where
  "batch_fields W clock r indep return_ok out pay es =
     bytes_pair ''result'' out @ bytes_pair ''payload'' pay @ value_pair ''ttl_ms'' (mr_ttl_ms r) @
     value_pair ''now_ms'' (or_else (mr_now_ms r) (PInt clock)) @ bool_pair ''independent'' indep @
     dict_pair ''attributes_merge'' (mr_attributes_merge r) @ names_pair ''attributes_delete'' (mr_attributes_delete r) @
     dict_pair ''state_meta'' (mr_state_meta r) @
     (if return_ok then [(field ''return'', PStr (wl_lower W (text_lit ''OK_ON_SUCCESS'')))] else []) @
     dict_pair ''values'' es @ dict_pair ''value_refs'' (mr_value_refs r) @ names_pair ''drop_values'' (mr_drop_values r) @
     names_pair ''override_values'' (mr_override_values r)"

lemma complete_many_written:
  "complete_many_args codec clock k items r indep return_ok =
     and_then (encode_optional codec (mr_result r)) (\<lambda>out.
     and_then (encode_optional codec (mr_payload r)) (\<lambda>pay.
     and_then (validate_optional_bool indep ''INDEPENDENT'') (\<lambda>_.
     and_then (encode_values codec (mr_values r)) (\<lambda>es.
       append_claimed_items
         ([field ''FLOW.COMPLETE_MANY'', or_else k (field ''MIXED'')] @
          args_of (batch_writes clock r indep return_ok out pay es) @ [field ''ITEMS'']) k items))))"
proof -
  have "(if return_ok then append_value args ''RETURN'' (field ''OK_ON_SUCCESS'') else args) =
      args @ args_of (if return_ok then [Written_name ''RETURN'' (text_lit ''OK_ON_SUCCESS'')] else [])" for args
    by (simp add: append_value_def field_def)
  then show ?thesis
    unfolding complete_many_args_def Let_def append_value_written append_encoded_written append_bool_written
      append_attributes_def append_state_meta_def append_named_values_def append_entries_written append_names_written
      append_encoded_entries_written and_then_assoc and_then_simps
    by (simp add: batch_writes_def entries_def del: written_args.simps cong: and_then_cong)
qed

lemma batch_args_written:
  assumes "complete_many_args codec clock k items r indep return_ok = Inr args"
  obtains out pay es where "encode_optional codec (mr_result r) = Inr out"
    and "encode_optional codec (mr_payload r) = Inr pay" and "encode_values codec (mr_values r) = Inr es"
    and "list_all guarded_item items"
    and "args = field ''FLOW.COMPLETE_MANY'' # or_else k (field ''MIXED'') #
      args_of (batch_writes clock r indep return_ok out pay es) @ field ''ITEMS'' # concat (map (claimed_row k) items)"
  using assms unfolding complete_many_written and_then_eq_Inr by (auto dest!: append_claimed_Inr)

lemma batch_effect:
  assumes "distinct_names r" and "encode_values codec (mr_values r) = Inr es" and "lowers_booleans W"
  shows "written_effects W (batch_writes clock r indep return_ok out pay es) [] =
    Inr (batch_fields W clock r indep return_ok out pay es)"
proof -
  have ret: "payload_find d ''return'' = None \<Longrightarrow>
      written_effects W (if return_ok then [Written_name ''RETURN'' n] else []) d =
      Inr (d @ (if return_ok then [(field ''return'', PStr (wl_lower W n))] else []))" for d n
    by (simp add: pset_new)
  have find: "payload_find (if return_ok then [(field ''return'', x)] else []) k =
      (if return_ok \<and> k = ''return'' then Some x else None)" for x k
    by auto
  show ?thesis
    using assms(1) encode_values_names [OF assms(2)]
    by (simp add: batch_writes_def batch_fields_def written_effects_append distinct_names_def
        bytes_field_effect [OF plain_fields(4)] opt_payload_effect opt_field_effect [OF plain_fields(6)]
        opt_field_effect [OF plain_fields(2)] independent_effect [OF assms(3)] entries_effect names_effect
        ENTRY_FIELDS_def NAME_FIELDS_def ret find split: pyval.split del: written_effect.simps and_then_eq_Inr)
qed

lemma plain_writes_ok:
  assumes "plain_field t k"
  shows "list_all written_ok (opt_field t v)" "list_all written_ok (bytes_field t b)"
  using plain_field_ok [OF assms] by (simp_all add: opt_field_def bytes_field_def split: option.split)

lemma batch_ok: "list_all written_ok (batch_writes clock r indep return_ok out pay es)"
proof -
  have "written_ok (Written_field ''INDEPENDENT'' v)" for v
    using independent_field by (force dest: map_of_SomeD)
  then have "list_all written_ok (bool_field ''INDEPENDENT'' indep)"
    by (simp add: bool_field_def del: written_ok.simps split: pyval.split)
  moreover have "list_all written_ok (opt_payload pay)" by (simp add: opt_payload_def split: option.split)
  moreover have "list_all written_ok (entries t es)" if "t \<in> fst ` set ENTRY_FIELDS" for t es
    using that by (simp add: entries_def list_all_iff case_prod_beta)
  moreover have "list_all written_ok (names t ns)" if "t \<in> fst ` set NAME_FIELDS" for t ns
    using that by (simp add: names_def list_all_iff)
  ultimately show ?thesis
    by (simp add: batch_writes_def plain_writes_ok [OF plain_fields(2)] plain_writes_ok [OF plain_fields(4)]
        plain_writes_ok [OF plain_fields(6)] ENTRY_FIELDS_def NAME_FIELDS_def)
qed

lemma batch_keys_absent:
  "payload_find (batch_fields W clock r indep return_ok out pay es) ''partition_key'' = None"
  "payload_find (batch_fields W clock r indep return_ok out pay es) ''items'' = None"
  by (cases return_ok; simp add: batch_fields_def split: pyval.split)+


definition sample_claim :: claimed_flow where
  "sample_claim =
     \<lparr>cf_id = field ''ITEMS'', cf_lease_token = PBytes [7], cf_fencing_token = PInt 3, cf_partition_key = field ''P''\<rparr>"


text \<open>
  The two conditions on the partition key are needed. A key that is the word \<open>mixed\<close> selects the mixed
  layout instead of naming a partition, and a key that is not UTF-8 cannot be sent in a batch at all,
  though a single mutation of the same job can.
\<close>

lemma partition_named_mixed_is_lost:
  assumes "flow_claimed_many_payload W (field ''mixed'' # args) = Inr d"
    and "batch_options W (field ''mixed'' # args) i = Inr opts" and "payload_find opts ''partition_key'' = None"
    and "find_item_token (wl_py W) (field ''mixed'' # args) 1 = Inr i"
  shows "payload_find d ''partition_key'' = None"
proof -
  have "str_upper (wl_py W) (text_lit ''mixed'') = text_lit ''MIXED''"
    by (simp add: str_upper_def text_lit_def)
  then have "wire_partition W (field ''mixed'' # args) = Inr (text_lit ''MIXED'')"
    by (simp add: wire_partition_def require_arg_def text_value_field normalize_command_name_def)
  with assms show ?thesis by (auto simp: flow_claimed_many_payload_def Let_def)
qed

lemma binary_partition_is_rejected:
  "utf8_decode b = Inl e \<Longrightarrow> flow_claimed_many_payload W (PBytes b # args) = Inl e"
  by (simp add: flow_claimed_many_payload_def wire_partition_def require_arg_def text_value_def)

section \<open>Plans for creations across partitions\<close>

record 'a create_many_plan =
  cm_groups :: "(pyval \<times> (nat \<times> 'a) list) list"
  cm_item_count :: nat
  cm_now_ms :: int

text \<open>\<open>grouped.setdefault(key, []).append(x)\<close>: groups stay in the order of their first item.\<close>

fun add_to_group :: "('k \<times> 'v list) list \<Rightarrow> 'k \<Rightarrow> 'v \<Rightarrow> ('k \<times> 'v list) list" where
  "add_to_group [] k x = [(k, [x])]"
| "add_to_group ((j, xs) # r) k x = (if j = k then (j, xs @ [x]) # r else (j, xs) # add_to_group r k x)"

definition build_plan :: "('a \<Rightarrow> pyval) \<Rightarrow> 'a list \<Rightarrow> int option \<Rightarrow> int \<Rightarrow> 'a create_many_plan" where
  "build_plan partition_key items now_ms clock =
     \<lparr>cm_groups = foldl (\<lambda>grouped (index, item). add_to_group grouped (partition_key item) (index, item)) []
        (enumerate 0 items),
      cm_item_count = length items,
      cm_now_ms = (case now_ms of None \<Rightarrow> clock | Some n \<Rightarrow> n)\<rparr>"

fun place_results :: "(nat \<times> 'a) list \<Rightarrow> 'b list \<Rightarrow> 'b option list \<Rightarrow> 'b option list result" where
  "place_results [] [] results = Inr results"
| "place_results ((index, _) # items) (r # rs) results = place_results items rs (results[index := Some r])"
| "place_results _ _ results = Inl (ValueError ''zip() arguments have different lengths'')"

fun merge_responses ::
    "('r \<Rightarrow> nat \<Rightarrow> 'b list result) \<Rightarrow> (pyval \<times> (nat \<times> 'a) list) list \<Rightarrow> 'r list \<Rightarrow> 'b option list \<Rightarrow>
      'b option list result" where
  "merge_responses expand ((_, indexed_items) # groups) (response # responses) results =
     and_then (expand response (length indexed_items)) (\<lambda>expanded.
     and_then (place_results indexed_items expanded results) (merge_responses expand groups responses))"
| "merge_responses expand _ _ results = Inr results"

definition merge_plan ::
    "'a create_many_plan \<Rightarrow> 'r list \<Rightarrow> ('r \<Rightarrow> nat \<Rightarrow> 'b list result) \<Rightarrow> 'b option list result" where
  "merge_plan plan responses expand =
     (if length responses \<noteq> length (cm_groups plan)
      then Inl (FerricStoreError ''create-many returned a different number of groups'')
      else merge_responses expand (cm_groups plan) responses (replicate (cm_item_count plan) None))"

lemma add_to_group_new: "k \<notin> fst ` set gs \<Longrightarrow> add_to_group gs k x = gs @ [(k, [x])]"
  by (induction gs k x rule: add_to_group.induct) auto

lemma add_to_group_old:
  "distinct ks \<Longrightarrow> k \<in> set ks \<Longrightarrow>
     add_to_group (map (\<lambda>j. (j, f j)) ks) k x = map (\<lambda>j. (j, if j = k then f j @ [x] else f j)) ks"
  by (induction ks) auto

lemma fromkeys_snoc: "fromkeys (xs @ [x]) = (if x \<in> set xs then fromkeys xs else fromkeys xs @ [x])"
  using fromkeys_props(2) [of xs] by (simp add: fromkeys_def)

lemma enumerate_mem: "(i, x) \<in> set (enumerate n xs) \<Longrightarrow> x \<in> set xs"
  by (metis in_set_zipE enumerate_eq_zip)

lemma plan_groups:
  "cm_groups (build_plan part items now_ms clock) =
     map (\<lambda>k. (k, filter (\<lambda>(i, x). part x = k) (enumerate 0 items))) (fromkeys (map part items))"
proof (induction items rule: rev_induct)
  case Nil
  then show ?case by (simp add: build_plan_def fromkeys_def)
next
  case (snoc x items)
  let ?g = "\<lambda>k. filter (\<lambda>(i, x). part x = k) (enumerate 0 items)"
  have "cm_groups (build_plan part (items @ [x]) now_ms clock) =
      add_to_group (map (\<lambda>k. (k, ?g k)) (fromkeys (map part items))) (part x) (length items, x)"
    using snoc.IH by (simp add: build_plan_def enumerate_append_eq)
  also have "\<dots> = map (\<lambda>k. (k, filter (\<lambda>(i, x). part x = k) (enumerate 0 (items @ [x])))) (fromkeys (map part (items @ [x])))"
  proof (cases "part x \<in> set (map part items)")
    case True
    then have "fromkeys (map part (items @ [x])) = fromkeys (map part items)" by (simp add: fromkeys_snoc)
    with True show ?thesis
      using add_to_group_old [OF fromkeys_props(1) [of "map part items"], of "part x" ?g] fromkeys_props(2) [of "map part items"]
      by (auto simp: enumerate_append_eq)
  next
    case False
    then have new: "part x \<notin> fst ` set (map (\<lambda>k. (k, ?g k)) (fromkeys (map part items)))"
      using fromkeys_props(2) [of "map part items"] by auto
    have "?g (part x) = []"
      unfolding filter_empty_conv using False by (auto dest!: enumerate_mem simp: image_iff)
    moreover have "k \<noteq> part x" if "k \<in> set (fromkeys (map part items))" for k
      using that False fromkeys_props(2) [of "map part items"] by force
    ultimately show ?thesis
      using False add_to_group_new [OF new] by (auto simp: enumerate_append_eq fromkeys_snoc)
  qed
  finally show ?case .
qed

lemma place_results_map:
  "place_results g (map (\<lambda>(i, x). f i x) g) results = Inr (foldl (\<lambda>rs (i, x). rs[i := Some (f i x)]) results g)"
  by (induction g arbitrary: results) auto

lemma merge_responses_map:
  "list_all2 (\<lambda>(k, g) r. expand r (length g) = Inr (map (\<lambda>(i, x). f i x) g)) groups responses \<Longrightarrow>
     merge_responses expand groups responses results =
     Inr (foldl (\<lambda>rs (i, x). rs[i := Some (f i x)]) results (concat (map snd groups)))"
  by (induction groups responses arbitrary: results rule: list_all2_induct) (auto simp: place_results_map)

lemma updates_length: "length (foldl (\<lambda>rs (i, x). rs[i := h i x]) results ps) = length results"
  by (induction ps arbitrary: results) auto

lemma updates_nth:
  "j < length results \<Longrightarrow> \<forall>(i, x)\<in>set ps. i = j \<longrightarrow> h i x = y \<Longrightarrow> results ! j = y \<or> j \<in> fst ` set ps \<Longrightarrow>
     foldl (\<lambda>rs (i, x). rs[i := h i x]) results ps ! j = y"
proof (induction ps arbitrary: results)
  case (Cons p ps)
  obtain i x where p: "p = (i, x)" by (cases p)
  then have "foldl (\<lambda>rs (i, x). rs[i := h i x]) (results[i := h i x]) ps ! j = y"
    using Cons.prems by (intro Cons.IH) (cases "i = j"; force)+
  with p show ?case by simp
qed simp

text \<open>
  C40. Creations across partitions come back in the caller's order. The plan puts every item in exactly
  one group, that of its partition key, in the order of the call; and when each group's response expands
  to the answers for its items, merging the responses gives every item of the call its own answer.
\<close>
theorem create_many_merges_in_order:
  assumes "list_all2 (\<lambda>(k, g) r. expand r (length g) = Inr (map (\<lambda>(i, x). f i x) g))
      (cm_groups (build_plan part items now_ms clock)) responses"
  shows "cm_groups (build_plan part items now_ms clock) =
      map (\<lambda>k. (k, filter (\<lambda>(i, x). part x = k) (enumerate 0 items))) (fromkeys (map part items)) \<and>
    merge_plan (build_plan part items now_ms clock) responses expand =
      Inr (map (\<lambda>(i, x). Some (f i x)) (enumerate 0 items))"
proof -
  let ?plan = "build_plan part items now_ms clock"
  let ?ps = "concat (map snd (cm_groups ?plan))"
  let ?out = "foldl (\<lambda>rs (i, x). rs[i := Some (f i x)]) (replicate (length items) None) ?ps"
  have ps: "set ?ps = set (enumerate 0 items)"
    using fromkeys_props(2) [of "map part items"] enumerate_mem by (force simp: plan_groups)
  have "merge_plan ?plan responses expand = Inr ?out"
    using list_all2_lengthD [OF assms] merge_responses_map [OF assms]
    by (simp add: merge_plan_def) (simp add: build_plan_def)
  moreover have "?out = map (\<lambda>(i, x). Some (f i x)) (enumerate 0 items)"
  proof (rule nth_equalityI)
    show "length ?out = length (map (\<lambda>(i, x). Some (f i x)) (enumerate 0 items))"
      by (simp add: updates_length)
    fix j
    assume "j < length ?out"
    then have j: "j < length items" by (simp add: updates_length)
    have "?out ! j = Some (f j (items ! j))"
    proof (rule updates_nth)
      show "\<forall>(i, x)\<in>set ?ps. i = j \<longrightarrow> Some (f i x) = Some (f j (items ! j))"
        unfolding ps using j by (auto simp: in_set_enumerate_eq)
      have "(j, items ! j) \<in> set ?ps" unfolding ps using j by (simp add: in_set_enumerate_eq)
      then show "replicate (length items) None ! j = Some (f j (items ! j)) \<or> j \<in> fst ` set ?ps" by force
    qed (use j in simp)
    then show "?out ! j = map (\<lambda>(i, x). Some (f i x)) (enumerate 0 items) ! j"
      using j by (simp add: nth_enumerate_eq)
  qed
  ultimately show ?thesis by (simp add: plan_groups)
qed

theorem create_many_merges_in_order_witness:
  "merge_plan (build_plan id [PInt 1, PInt 2, PInt 1] None 9) [[10, 12 :: int], [11]] (\<lambda>r n. Inr r) =
     Inr [Some 10, Some 11, Some 12]"
proof -
  have groups: "cm_groups (build_plan id [PInt 1, PInt 2, PInt 1] None 9) =
      [(PInt 1, [(0, PInt 1), (2, PInt 1)]), (PInt 2, [(1, PInt 2)])]"
    by (simp add: build_plan_def)
  show ?thesis
    using create_many_merges_in_order [of "\<lambda>r n. Inr r" "\<lambda>i x. 10 + int i" id "[PInt 1, PInt 2, PInt 1]" None 9
        "[[10, 12], [11]]"]
    by (simp add: groups)
qed

end
