(* ===== verification/Spec2Isabelle.thy ===== *)
theory Spec2Isabelle
  imports Response_Decoding Negotiation Connection_Pool Client_Batches
begin

text \<open>
  \<^bold>\<open>A verification library for the FerricStore Python client\<close> (\<open>src/src/ferricstore\<close>).

  \<^bold>\<open>The program.\<close> FerricStore is a key-value and workflow server; the repository is its Python client. A
  command becomes a \<^emph>\<open>payload\<close> of typed values or, where the server has negotiated it, a \<^emph>\<open>compact\<close>
  payload; the payload a \<^emph>\<open>request body\<close>, the body a \<^emph>\<open>frame\<close> with a 24-byte header, written to a socket
  on one of several multiplexed lanes. Replies come back as frames of possibly interleaved, chunked
  responses, are reassembled, decompressed and decoded, and are matched to the request that waits for
  them. Around this path stand the admission budget for pending requests, the deadline scheduler, the
  registry of pending requests, the classification of failed requests, the negotiation of capabilities
  with the server, the routing of keys to the shard that owns their slot, and the pool that shares
  connections between threads. The library models these parts, which all public clients (plain, pooled
  and topology-aware, synchronous and asynchronous) rest on.

  \<^bold>\<open>Conventions.\<close> A Python value is a \<open>pyval\<close>; \<open>str\<close> is its list of code points and \<open>bytes\<close> a list of
  8-bit words; a \<open>float\<close> is its bit pattern; a \<open>dict\<close> is its list of items in insertion order. Exceptions
  are values of \<open>py_error\<close>, and an operation that may raise returns \<open>py_error + 'a\<close>, sequenced by
  \<open>and_then\<close>; a decoder or encoder that may also decline returns \<open>'a option\<close> inside, sequenced by
  \<open>opt_then\<close>. An operation that changes an object returns the new record; where it can raise after it has
  changed something, it returns the new record together with the outcome. What the code takes from
  outside is a parameter: \<open>zlib\<close>'s compressor and decompressor, SHA-256, \<open>str.upper\<close> and \<open>str.lower\<close>
  beyond ASCII, \<open>str()\<close>, \<open>int()\<close> and \<open>float()\<close> of arbitrary objects, truth of opaque objects, the clock,
  the user's codec, the command builder of Flow signals, thread start, futures and sockets as opaque values. Loops are
  structural recursions or functions with a termination proof; the loop over the decompressor, which ends
  only because of what \<open>zlib\<close> promises, is a \<open>partial_function\<close> and is proved to end. No definition uses
  fuel, and the only bounds are the program's own (nesting 128, pipeline depth 4, 1024 slots, 64-bit
  request ids).

  \<^bold>\<open>Theories, in the order of the data path.\<close>

  \<^item> \<open>Prelude\<close>, \<open>Python_Values\<close>: errors and results, bytes, big-endian integers and \<open>struct\<close>
    packing, strict UTF-8 with its round trip, dictionaries, and the interface \<open>preserved\<close> for
    components that react to events.
  \<^item> \<open>Config_Validation\<close>: the validators of \<open>config_validation.py\<close> that the protocol classes call.
  \<^item> \<open>Codec\<close>, \<open>Codec_Correct\<close>: \<open>protocol_codec.py\<close>. The encoder is generic in its sink
    (interface \<open>byte_sink\<close>, interpreted for \<open>BytesIO\<close> and for the request-body buffer). Shown: round
    trip, exactness of the byte limit and of the item budget, prefix-freeness and rejection of truncated
    input, stability of decoded values.
  \<^item> \<open>Framing\<close>: \<open>protocol_framing.py\<close>. The assembler is an instance of \<open>keyed_streams\<close> (events of
    different keys commute). Shown: refinement of a chunk-list specification for every interleaving,
    delivery, and bounded buffering in every reachable state.
  \<^item> \<open>Pending_Requests\<close>: \<open>PendingRequestBudget\<close> and \<open>SyncDeadlineScheduler\<close> of
    \<open>protocol_lifecycle.py\<close>. Shown: the limits are an invariant, head-room is exact, the scheduler
    refines a deadline map and its stale entries are bounded.
  \<^item> \<open>Request_Body\<close>: bodies, frames and ids (\<open>protocol_common.py\<close>, \<open>protocol_sync_transport.py\<close>,
    \<open>protocol_constants.py\<close>). Shown: the streamed, bounded and compressed body is the reference
    encoding, an admitted body is always accounted, the written buffers are one well-formed frame, ids
    are unique.
  \<^item> \<open>Request_Outcome\<close>: \<open>protocol_retry.py\<close> with the opcode table. Shown: a failed request is reported
    as safe to retry exactly when it only reads.
  \<^item> \<open>Pending_Registry\<close>: \<open>protocol_sync_pending.py\<close>. Shown: futures are conserved, the tables
    agree, replaced connections cannot touch requests of the new one.
  \<^item> \<open>Compact_Responses\<close>: \<open>protocol_response_primitives.py\<close>, \<open>protocol_response_collections.py\<close>,
    \<open>protocol_response_contracts.py\<close> and the list decoders of \<open>protocol_responses.py\<close>. The interface
    \<open>exact_reader\<close> (a reader that accepts exactly the wire form of its item) is interpreted for each
    kind of item. Shown: every collection decoder accepts exactly its wire form under the item budget.
  \<^item> \<open>Flow_Responses\<close>: the Flow decoders of \<open>protocol_responses.py\<close>. Shown: claimed jobs are read at
    the width they were written although it is not on the wire, and the typed fast paths agree with the
    generic codec.
  \<^item> \<open>Response_Decoding\<close>: \<open>decompress_response\<close>, \<open>protocol_flow_query_result.py\<close> and
    \<open>_decode_protocol_response\<close>. Shown: decompression ends and respects its limit, no response makes the
    client build more items than its limit, and a response has the cardinality its request expects.
  \<^item> \<open>Compact_Requests\<close>: \<open>protocol_compact_budget.py\<close>, the KV payloads of
    \<open>protocol_pipeline_raw.py\<close>, \<open>protocol_mset.py\<close>. Shown: a compact payload is produced exactly when
    its reference form fits, and MSET payloads parse back to their keys.
  \<^item> \<open>Flow_Payloads\<close>: \<open>protocol_flow_codec.py\<close> and the item counts of \<open>protocol_pipeline_codec.py\<close>.
    The interface \<open>sized_item\<close> (an item writer whose reservations cover its bytes) is interpreted for
    each kind of item. Shown: payloads respect the byte limit, and the count read back from a payload is
    the number of items put in.
  \<^item> \<open>Raw_Pipelines\<close>: pipelines from raw commands (\<open>protocol_pipeline_raw.py\<close>,
    \<open>protocol_pipeline_mutations.py\<close>, \<open>protocol_pipeline_codec.py\<close>, \<open>protocol_compact_commands.py\<close>).
    Shown: the byte limit for every encoding, and that mixed reads and writes are batched only when
    their order does not matter.
  \<^item> \<open>Topology\<close>: \<open>RoutingTopology\<close> of \<open>protocol_common.py\<close> with an executable CRC-32. Shown: a
    topology is accepted exactly when its ranges partition the slots, text and bytes keys agree, hash
    tags decide slots, routing is total.
  \<^item> \<open>Flow_Options\<close>: \<open>flow_options.py\<close> and \<open>command_grammar.py\<close>. Shown: the right-to-left table
    decides the option grammar, and the walk over a valid list ends where it should.
  \<^item> \<open>Flow_Query\<close>: \<open>flow_query_request.py\<close>. Shown: what the builder writes the protocol layer
    reads back, and an accepted query can always be encoded by the codec.
  \<^item> \<open>Flow_Routing\<close>: \<open>flow_routing.py\<close>, with the interface \<open>chunked_update\<close> for incremental
    hashes, interpreted for CRC-32 and for the SHA-256 hasher. Shown: text and its bytes give the
    same routing key, and Flow commands route by physical keys only.
  \<^item> \<open>Command_Keys\<close>: \<open>command_core.py\<close> and the stream grammar. Shown: stream reads are parsed
    exactly, and routing keys are arguments.
  \<^item> \<open>Negotiation\<close>: \<open>protocol_negotiation.py\<close>. Shown: what an accepted HELLO guarantees, and that
    no sequence of events raises a limit.
  \<^item> \<open>Routing\<close>: \<open>topology_core.py\<close> and the endpoint and retry helpers of \<open>protocol_common.py\<close>.
    Shown: single-slot routing, batches keep their order, candidate endpoints.
  \<^item> \<open>Connection_Pool\<close>: \<open>protocol_sync_pool.py\<close> as a step relation over any number of threads. Shown:
    a session is alone on its connection, waiting threads are never stranded, and no wake-up is lost.

  \<^item> \<open>Command_Options\<close>: \<open>protocol_command_options.py\<close>, the loop that turns option arguments into a
    payload, with its termination.
  \<^item> \<open>Flow_Commands\<close>: \<open>protocol_flow_payloads.py\<close> and \<open>protocol_flow_commands.py\<close>. Shown: mutations are
    built only with their guards, and a batch creation has the size its raw arguments announce.
  \<^item> \<open>Commands\<close>: \<open>protocol_basic_commands.py\<close>, \<open>protocol_command_schema.py\<close>,
    \<open>build_protocol_command\<close>, and the \<open>SET\<close> arguments of \<open>command_helpers.py\<close>. Shown: every built
    command is well formed, and a \<open>set\<close> call reaches the wire as asked.
  \<^item> \<open>Written_Options\<close>, \<open>Client_Commands\<close>, \<open>Client_Batches\<close>: the argument writers of
    \<open>client_helpers.py\<close> and the creation plans of \<open>batch_core.py\<close>. Written options are followed through
    plan, marker search and option loop wherever they stand. Shown: mutations and completed batches are
    parsed back to exactly the request, and creations across partitions come back in order.

  \<^bold>\<open>How the parts meet.\<close> \<open>Request_Body\<close> runs the encoder of \<open>Codec\<close> on its own sink under the head-room of
  \<open>Pending_Requests\<close>; \<open>Pending_Registry\<close> combines budget, scheduler and outcome classification;
  \<open>Negotiation\<close> reconfigures the assembler of \<open>Framing\<close>; \<open>Response_Decoding\<close> chooses between the decoders
  of \<open>Compact_Responses\<close>, \<open>Flow_Responses\<close> and \<open>Codec\<close> and checks the item count that \<open>Flow_Payloads\<close> reads
  from the request; \<open>Flow_Payloads\<close> and \<open>Raw_Pipelines\<close> write under the budget of \<open>Compact_Requests\<close>;
  \<open>Flow_Query\<close> shows its payloads encodable by \<open>Codec\<close>; \<open>Routing\<close> sends the keys that \<open>Command_Keys\<close> and
  \<open>Flow_Routing\<close> extract to the slots of \<open>Topology\<close>; \<open>Client_Commands\<close> writes the options that
  \<open>Command_Options\<close> reads under the plan of \<open>Flow_Options\<close>, and \<open>Flow_Commands\<close> hands the payloads to the
  encoders of \<open>Flow_Payloads\<close>.

  \<^bold>\<open>Atomicity.\<close> The methods of the budget, the scheduler, the registry and the pool run under a lock in
  the code, so one call, or one pass of a waiting loop, is one step, and the theorems on reachable states
  quantify over every order of calls.

  \<^bold>\<open>Not modelled.\<close> Socket and thread handling of the transports, the asynchronous twins of the
  synchronous classes, TLS, the HTTP transport, the pipelines of built commands, the Flow query builder, the conversion of decoded values to result objects, the client
  methods beyond the argument writers named above, the worker, queue and workflow layers, the LangGraph
  integration, and the examples. They are either input and output around the modelled logic, or further
  layers above it.
\<close>

end
